(* ===== verification/Prelude.thy ===== *)
theory Prelude
  imports Main "HOL-Library.Word" "HOL-Library.AList" "HOL-Library.Product_Lexorder"
    "HOL-Library.Monad_Syntax"
begin

text \<open>
  Shared material of the development: machine integers, the two containers of the C++ standard
  library that the server is built on (\<^verbatim>\<open>std::unordered_map\<close> as an association list with
  distinct keys, \<^verbatim>\<open>std::map\<close> as a strictly sorted association list), the contract both of them
  satisfy (locale \<open>finite_map\<close>, extended by \<open>ordered_map\<close>), and the contract of a component whose
  operations keep an invariant (locale \<open>invariant_system\<close>).
\<close>

named_theorems container_simps \<open>look-up laws of the containers\<close>
named_theorems ok_intros \<open>invariants kept by operations\<close>

section \<open>Machine integers\<close>

type_synonym u8 = "8 word"
type_synonym u32 = "32 word"
type_synonym u64 = "64 word"
type_synonym bytes = "u8 list"

text \<open>
  Conversions to the fixed-width C integer types, on unbounded integers: \<open>i32\<close> is the value a
  32-bit \<^verbatim>\<open>int\<close> holds after a conversion (two's complement), \<open>sz\<close> the value of a 64-bit
  \<^verbatim>\<open>size_t\<close>.
\<close>

definition i32 :: "int \<Rightarrow> int" where
  "i32 x = (x + 2147483648) mod 4294967296 - 2147483648"

definition sz :: "int \<Rightarrow> nat" where
  "sz x = nat (x mod 18446744073709551616)"

definition INT_MAX :: int where
  "INT_MAX = 2147483647"

text \<open>A string as C code sees it through \<^verbatim>\<open>c_str()\<close>: up to the first zero byte.\<close>

definition c_str :: "string \<Rightarrow> string" where
  "c_str s = takeWhile (\<lambda>c. c \<noteq> CHR 0x00) s"

text \<open>Strings and the bytes they are made of.\<close>

definition str_bytes :: "string \<Rightarrow> bytes" where
  "str_bytes s = map (\<lambda>c. of_nat (of_char c)) s"

definition bytes_str :: "bytes \<Rightarrow> string" where
  "bytes_str bs = map (\<lambda>b. char_of (unat b)) bs"

section \<open>std::unordered_map\<close>

text \<open>
  An unordered map is an association list whose keys are distinct. The order of the list is the
  order in which a loop over the map visits the entries; the C++ standard leaves that order open,
  and no theorem of this development uses where \<open>um_put\<close> places a new key.
\<close>

type_synonym ('k, 'v) umap = "('k \<times> 'v) list"

definition um_ok :: "('k, 'v) umap \<Rightarrow> bool" where
  "um_ok m \<longleftrightarrow> distinct (map fst m)"

definition um_find :: "('k, 'v) umap \<Rightarrow> 'k \<Rightarrow> 'v option" where
  "um_find m k = map_of m k"

definition um_put :: "'k \<Rightarrow> 'v \<Rightarrow> ('k, 'v) umap \<Rightarrow> ('k, 'v) umap" where
  "um_put k v m = AList.update k v m"

definition um_erase :: "'k \<Rightarrow> ('k, 'v) umap \<Rightarrow> ('k, 'v) umap" where
  "um_erase k m = AList.delete k m"

section \<open>std::map\<close>

type_synonym ('k, 'v) omap = "('k \<times> 'v) list"

definition om_ok :: "('k::linorder, 'v) omap \<Rightarrow> bool" where
  "om_ok m \<longleftrightarrow> sorted_wrt (<) (map fst m)"

definition om_find :: "('k, 'v) omap \<Rightarrow> 'k \<Rightarrow> 'v option" where
  "om_find m k = map_of m k"

fun om_put :: "'k::linorder \<Rightarrow> 'v \<Rightarrow> ('k, 'v) omap \<Rightarrow> ('k, 'v) omap" where
  "om_put k v [] = [(k, v)]"
| "om_put k v (e # m) =
     (if k < fst e then (k, v) # e # m
      else if fst e < k then e # om_put k v m
      else (k, v) # m)"

definition om_erase :: "'k \<Rightarrow> ('k, 'v) omap \<Rightarrow> ('k, 'v) omap" where
  "om_erase k m = filter (\<lambda>e. fst e \<noteq> k) m"

definition om_begin :: "('k, 'v) omap \<Rightarrow> ('k \<times> 'v) option" where
  "om_begin m = (case m of [] \<Rightarrow> None | e # _ \<Rightarrow> Some e)"

definition om_lower_bound :: "('k::linorder, 'v) omap \<Rightarrow> 'k \<Rightarrow> ('k \<times> 'v) option" where
  "om_lower_bound m k = List.find (\<lambda>e. k \<le> fst e) m"

section \<open>The contract of the containers\<close>

locale finite_map =
  fixes find :: "'m \<Rightarrow> 'k \<Rightarrow> 'v option"
    and put :: "'k \<Rightarrow> 'v \<Rightarrow> 'm \<Rightarrow> 'm"
    and erase :: "'k \<Rightarrow> 'm \<Rightarrow> 'm"
    and nothing :: 'm
    and ok :: "'m \<Rightarrow> bool"
  assumes find_nothing: "find nothing k = None"
    and find_put: "ok m \<Longrightarrow> find (put k v m) k' = (if k' = k then Some v else find m k')"
    and find_erase: "ok m \<Longrightarrow> find (erase k m) k' = (if k' = k then None else find m k')"
    and ok_nothing: "ok nothing"
    and ok_put: "ok m \<Longrightarrow> ok (put k v m)"
    and ok_erase: "ok m \<Longrightarrow> ok (erase k m)"
begin

lemma ok_fold_erase: "ok m \<Longrightarrow> ok (fold erase ks m)"
  by (induction ks arbitrary: m) (auto intro: ok_erase)

lemma find_fold_erase:
  "ok m \<Longrightarrow> find (fold erase ks m) k = (if k \<in> set ks then None else find m k)"
  by (induction ks arbitrary: m) (auto simp: find_erase ok_erase)

text \<open>Inserting without overwriting, as \<^verbatim>\<open>insert\<close> does: the first value of a key stays.\<close>

lemma ok_fold_put_new:
  "ok m \<Longrightarrow> ok (fold (\<lambda>k m. if find m k = None then put k v m else m) ks m)"
  by (induction ks arbitrary: m) (auto intro: ok_put)

lemma find_fold_put_new:
  "ok m \<Longrightarrow> find (fold (\<lambda>k m. if find m k = None then put k v m else m) ks m) k' =
     (if k' \<in> set ks \<and> find m k' = None then Some v else find m k')"
proof (induction ks arbitrary: m)
  case Nil
  then show ?case by simp
next
  case (Cons k ks)
  then show ?case by (auto simp: find_put ok_put)
qed

text \<open>A key that was put is found until it is erased, and nothing else changes.\<close>

lemma find_put_erase_other: "ok m \<Longrightarrow> k \<noteq> k' \<Longrightarrow> find (erase k' (put k v m)) k = Some v"
  by (simp add: find_erase find_put ok_put)

end

locale ordered_map = finite_map find put erase nothing ok
  for find :: "'m \<Rightarrow> 'k::linorder \<Rightarrow> 'v option" and put erase nothing ok +
  fixes first :: "'m \<Rightarrow> ('k \<times> 'v) option"
    and lower_bound :: "'m \<Rightarrow> 'k \<Rightarrow> ('k \<times> 'v) option"
  assumes first_None: "ok m \<Longrightarrow> first m = None \<longleftrightarrow> (\<forall>k. find m k = None)"
    and first_Some: "ok m \<Longrightarrow> first m = Some (k, v) \<Longrightarrow>
      find m k = Some v \<and> (\<forall>k'. find m k' \<noteq> None \<longrightarrow> k \<le> k')"
    and lower_bound_None: "ok m \<Longrightarrow> lower_bound m k = None \<longleftrightarrow> (\<forall>k'. k \<le> k' \<longrightarrow> find m k' = None)"
    and lower_bound_Some: "ok m \<Longrightarrow> lower_bound m k = Some (k', v) \<Longrightarrow>
      find m k' = Some v \<and> k \<le> k' \<and> (\<forall>k''. k \<le> k'' \<and> find m k'' \<noteq> None \<longrightarrow> k' \<le> k'')"
begin

lemma first_unique:
  assumes "ok m" "find m k = Some v" "\<And>k'. find m k' \<noteq> None \<Longrightarrow> k \<le> k'"
  shows "first m = Some (k, v)"
proof (cases "first m")
  case None
  with assms show ?thesis by (simp add: first_None)
next
  case (Some e)
  obtain k' v' where e: "e = (k', v')" by force
  with Some first_Some [OF assms(1)] have "find m k' = Some v'" and least: "k' \<le> k"
    using assms(2) by auto
  moreover from this assms(3) [of k'] have "k \<le> k'" by simp
  ultimately show ?thesis using Some e assms(2) by simp
qed

lemma lower_bound_unique:
  assumes "ok m" "find m k' = Some v" "k \<le> k'"
    and "\<And>k''. k \<le> k'' \<Longrightarrow> find m k'' \<noteq> None \<Longrightarrow> k' \<le> k''"
  shows "lower_bound m k = Some (k', v)"
proof (cases "lower_bound m k")
  case None
  with assms show ?thesis by (auto simp: lower_bound_None)
next
  case (Some e)
  obtain a b where e: "e = (a, b)" by force
  with Some lower_bound_Some [OF assms(1)] have "find m a = Some b" "k \<le> a" "a \<le> k'"
    using assms(2,3) by auto
  moreover from this assms(4) [of a] have "k' \<le> a" by simp
  ultimately show ?thesis using Some e assms(2) by simp
qed

end

section \<open>The containers satisfy the contract\<close>

lemma um_find_put: "um_find (um_put k v m) k' = (if k' = k then Some v else um_find m k')"
  by (simp add: um_find_def um_put_def update_conv')

lemma um_find_erase: "um_find (um_erase k m) k' = (if k' = k then None else um_find m k')"
  by (simp add: um_find_def um_erase_def delete_conv')

interpretation um: finite_map um_find um_put um_erase "[]" um_ok
  by unfold_locales
    (simp_all add: um_find_put um_find_erase um_ok_def distinct_update distinct_delete
      flip: um_put_def um_erase_def, simp_all add: um_find_def um_put_def um_erase_def
      distinct_update distinct_delete)

lemma om_put_keys: "fst ` set (om_put k v m) = insert k (fst ` set m)"
  by (induction m) auto

lemma om_ok_put: "om_ok m \<Longrightarrow> om_ok (om_put k v m)"
proof (induction m)
  case Nil
  then show ?case by (simp add: om_ok_def)
next
  case (Cons e m)
  have "\<forall>x \<in> fst ` set (om_put k v m). fst e < x" if "fst e < k"
    using Cons.prems that by (auto simp: om_put_keys om_ok_def)
  with Cons show ?case by (auto simp: om_ok_def intro: order.strict_trans)
qed

lemma om_find_put: "om_ok m \<Longrightarrow> om_find (om_put k v m) k' = (if k' = k then Some v else om_find m k')"
  by (induction m) (auto simp: om_find_def om_ok_def)

lemma om_find_erase: "om_find (om_erase k m) k' = (if k' = k then None else om_find m k')"
  by (induction m) (auto simp: om_find_def om_erase_def)

lemma om_ok_erase: "om_ok m \<Longrightarrow> om_ok (om_erase k m)"
  by (simp add: om_ok_def om_erase_def sorted_wrt_map sorted_wrt_filter)

lemma om_ok_distinct: "om_ok m \<Longrightarrow> distinct (map fst m)"
  by (simp add: om_ok_def strict_sorted_iff)

lemma om_find_mem: "om_ok m \<Longrightarrow> om_find m k = Some v \<longleftrightarrow> (k, v) \<in> set m"
  by (simp add: om_find_def om_ok_distinct)

lemma om_find_None: "om_find m k = None \<longleftrightarrow> k \<notin> fst ` set m"
  by (simp add: om_find_def map_of_eq_None_iff)

lemma om_lower_bound_Cons:
  "om_lower_bound (e # m) k = (if k \<le> fst e then Some e else om_lower_bound m k)"
  by (simp add: om_lower_bound_def)

lemma om_lower_bound_spec:
  assumes "om_ok m" "om_lower_bound m k = Some (k', v)"
  shows "om_find m k' = Some v \<and> k \<le> k' \<and> (\<forall>k''. k \<le> k'' \<and> om_find m k'' \<noteq> None \<longrightarrow> k' \<le> k'')"
  using assms
proof (induction m)
  case Nil
  then show ?case by (simp add: om_lower_bound_def)
next
  case (Cons e m)
  have tail: "om_ok m" and least: "\<And>x. x \<in> set m \<Longrightarrow> fst e < fst x"
    using Cons.prems(1) by (auto simp: om_ok_def)
  show ?case
  proof (cases "k \<le> fst e")
    case True
    with Cons.prems(2) have e: "e = (k', v)" by (simp add: om_lower_bound_Cons)
    have "fst e \<le> k''" if "om_find (e # m) k'' \<noteq> None" for k''
    proof -
      from that have "k'' \<in> fst ` set (e # m)" by (simp only: om_find_None not_not)
      then obtain x where "x \<in> set (e # m)" "fst x = k''" by blast
      then show ?thesis using least [of x] by auto
    qed
    with True e show ?thesis by (simp add: om_find_def)
  next
    case False
    with Cons.prems(2) Cons.IH [OF tail] show ?thesis
      by (cases e) (auto simp: om_lower_bound_Cons om_find_def)
  qed
qed

interpretation om: ordered_map om_find om_put om_erase "[]" om_ok om_begin om_lower_bound
proof unfold_locales
  fix m :: "('k::linorder \<times> 'v) list" and k :: 'k and v :: 'v and k' :: 'k
  show "om_find [] k = None" by (simp add: om_find_def)
  show "om_ok []" by (simp add: om_ok_def)
  assume ok: "om_ok m"
  from ok show "om_find (om_put k v m) k' = (if k' = k then Some v else om_find m k')"
    by (rule om_find_put)
  show "om_find (om_erase k m) k' = (if k' = k then None else om_find m k')"
    by (rule om_find_erase)
  from ok show "om_ok (om_put k v m)" by (rule om_ok_put)
  from ok show "om_ok (om_erase k m)" by (rule om_ok_erase)
  show "(om_begin m = None) = (\<forall>k. om_find m k = None)"
    by (cases m) (auto simp: om_begin_def om_find_None)
  show "om_find m k = Some v \<and> (\<forall>k'. om_find m k' \<noteq> None \<longrightarrow> k \<le> k')" if "om_begin m = Some (k, v)"
    using ok that by (cases m) (fastforce simp: om_begin_def om_find_def om_ok_def split: if_splits
        dest!: map_of_SomeD intro: less_imp_le)+
  show "(om_lower_bound m k = None) = (\<forall>k'. k \<le> k' \<longrightarrow> om_find m k' = None)"
    by (force simp: om_lower_bound_def om_find_None find_None_iff)
  show "om_find m k' = Some v \<and> k \<le> k' \<and> (\<forall>k''. k \<le> k'' \<and> om_find m k'' \<noteq> None \<longrightarrow> k' \<le> k'')"
    if "om_lower_bound m k = Some (k', v)"
    using ok that by (rule om_lower_bound_spec)
qed

lemmas container_laws [container_simps] =
  um_find_put um_find_erase om.find_put om_find_erase um.find_nothing om.find_nothing

lemmas container_ok [ok_intros] =
  um.ok_nothing um.ok_put um.ok_erase om.ok_nothing om.ok_put om.ok_erase

text \<open>A strictly sorted list is determined by its look-ups: the model of \<^verbatim>\<open>std::map\<close> is canonical.\<close>

lemma om_canonical:
  assumes "om_ok m" "om_ok m'" "\<And>k. om_find m k = om_find m' k"
  shows "m = m'"
proof (rule map_sorted_distinct_set_unique [where f = fst])
  have eq: "set m = set m'"
    using assms by (metis om_find_mem subset_antisym subsetI surj_pair)
  then show "set m = set m'" .
  show "inj_on fst (set m \<union> set m')"
    using om_ok_distinct [OF assms(1)] by (simp flip: eq add: distinct_map)
  show "sorted (map fst m)" "distinct (map fst m)" "sorted (map fst m')" "distinct (map fst m')"
    using assms(1,2) by (simp_all add: om_ok_def strict_sorted_iff)
qed

section \<open>Components with an invariant\<close>

text \<open>
  A component is a state type, its start states and its operations, indexed by a type of calls;
  \<open>enabled\<close> is what a caller guarantees. A sequence of calls made under that guarantee keeps the
  invariant the single operations keep.
\<close>

fun enabled_run :: "('s \<Rightarrow> 'op \<Rightarrow> 's) \<Rightarrow> ('s \<Rightarrow> 'op \<Rightarrow> bool) \<Rightarrow> 's \<Rightarrow> 'op list \<Rightarrow> bool" where
  "enabled_run step enabled s [] = True"
| "enabled_run step enabled s (x # xs) = (enabled s x \<and> enabled_run step enabled (step s x) xs)"

lemma enabled_run_True [simp]: "enabled_run f (\<lambda>_ _. True) s xs"
  by (induction xs arbitrary: s) simp_all

locale invariant_system =
  fixes start :: "'s \<Rightarrow> bool"
    and step :: "'s \<Rightarrow> 'op \<Rightarrow> 's"
    and enabled :: "'s \<Rightarrow> 'op \<Rightarrow> bool"
    and ok :: "'s \<Rightarrow> bool"
  assumes start_ok: "start s \<Longrightarrow> ok s"
    and step_ok: "ok s \<Longrightarrow> enabled s x \<Longrightarrow> ok (step s x)"
begin

lemma run_from_ok: "ok s \<Longrightarrow> enabled_run step enabled s xs \<Longrightarrow> ok (foldl step s xs)"
  by (induction xs arbitrary: s) (auto intro: step_ok)

lemma run_ok: "start s \<Longrightarrow> enabled_run step enabled s xs \<Longrightarrow> ok (foldl step s xs)"
  by (rule run_from_ok [OF start_ok])

text \<open>Every state along the run, not the last one only.\<close>

lemma run_prefix_ok:
  assumes "start s" "enabled_run step enabled s xs"
  shows "ok (foldl step s (take n xs))"
proof -
  have "enabled_run step enabled s (take n xs)"
    using assms(2) by (induction xs arbitrary: s n) (auto simp: take_Cons split: nat.splits)
  with assms(1) show ?thesis by (rule run_ok)
qed

end

section \<open>Lists and arithmetic\<close>

lemma i32_id [simp]: "- 2147483648 \<le> x \<Longrightarrow> x \<le> 2147483647 \<Longrightarrow> i32 x = x"
  by (simp add: i32_def)

lemma i32_bounds: "- 2147483648 \<le> i32 x \<and> i32 x \<le> 2147483647"
  unfolding i32_def by (smt (verit) pos_mod_bound pos_mod_sign)

lemma sz_id [simp]: "0 \<le> x \<Longrightarrow> x < 18446744073709551616 \<Longrightarrow> sz x = nat x"
  by (simp add: sz_def)

lemma unat_u8_of_nat: "n < 256 \<Longrightarrow> unat (of_nat n :: u8) = n"
  by (simp add: unsigned_of_nat take_bit_nat_eq_self)

lemma str_round_trip: "bytes_str (str_bytes s) = s"
proof -
  have "unat (of_nat (of_char c) :: u8) = of_char c" for c
    by (rule unat_u8_of_nat) simp
  then show ?thesis by (simp add: bytes_str_def str_bytes_def comp_def)
qed

lemma foldl_invariant:
  "P s \<Longrightarrow> (\<And>s x. P s \<Longrightarrow> x \<in> set xs \<Longrightarrow> P (f s x)) \<Longrightarrow> P (foldl f s xs)"
  by (induction xs arbitrary: s) auto

end
