(* ===== verification/SocketBuffer.thy ===== *)
theory SocketBuffer
  imports Prelude
begin

text \<open>
  The growable byte buffer of every connection (\<^verbatim>\<open>src/src/core/util/socket_buffer.h\<close> and
  \<^verbatim>\<open>socket_buffer.cpp\<close>). The block the buffer owns is \<open>m_buffer\<close>; a null pointer is the empty
  block. What \<^verbatim>\<open>malloc\<close> answers (failure, and the bytes a fresh block holds) is an argument of the
  operations that allocate, and so are the results of \<^verbatim>\<open>readv\<close> and \<^verbatim>\<open>send\<close> and the text that
  \<^verbatim>\<open>vsnprintf\<close> would print. \<open>None\<close> is a call that does not return. Indices are natural numbers;
  the conversions of the source that can change a value (\<^verbatim>\<open>uint32_t\<close> in \<open>compact\<close>, \<^verbatim>\<open>int\<close> steps, the
  doubling of \<^verbatim>\<open>cap\<close>) are written out.
\<close>

section \<open>Data\<close>

record sbuf =
  m_buffer :: bytes
  m_buffer_len :: nat
  m_write_idx :: nat
  m_read_idx :: nat

definition BUFFER_MAX_READ :: nat where
  "BUFFER_MAX_READ = 8192"

definition DEFAULT_BUFFER_SIZE :: nat where
  "DEFAULT_BUFFER_SIZE = 32"

definition sb_new :: sbuf where
  "sb_new = \<lparr>m_buffer = [], m_buffer_len = 0, m_write_idx = 0, m_read_idx = 0\<rparr>"

text \<open>An allocator: which sizes it refuses, and what the bytes of a fresh block are.\<close>

type_synonym heap = "(nat \<Rightarrow> bool) \<times> (nat \<Rightarrow> u8)"

definition malloc :: "heap \<Rightarrow> nat \<Rightarrow> bytes option" where
  "malloc h n = (if fst h n then None else Some (map (snd h) [0..<n]))"

text \<open>\<^verbatim>\<open>memcpy(dst + off, src, n)\<close> with \<open>n\<close> the length of \<open>src\<close>.\<close>

definition blit :: "nat \<Rightarrow> bytes \<Rightarrow> bytes \<Rightarrow> bytes" where
  "blit off src dst = take off dst @ src @ drop (off + length src) dst"

section \<open>Operations\<close>

definition advance_read_index :: "int \<Rightarrow> sbuf \<Rightarrow> sbuf" where
  "advance_read_index step b = b\<lparr>m_read_idx := sz (int (m_read_idx b) + step)\<rparr>"

definition set_read_index :: "nat \<Rightarrow> sbuf \<Rightarrow> sbuf" where
  "set_read_index idx b = b\<lparr>m_read_idx := idx\<rparr>"

definition set_write_index :: "nat \<Rightarrow> sbuf \<Rightarrow> sbuf" where
  "set_write_index idx b = b\<lparr>m_write_idx := idx\<rparr>"

definition advance_write_index :: "int \<Rightarrow> sbuf \<Rightarrow> sbuf" where
  "advance_write_index step b = b\<lparr>m_write_idx := sz (int (m_write_idx b) + step)\<rparr>"

definition is_readable :: "sbuf \<Rightarrow> bool" where
  "is_readable b \<longleftrightarrow> m_write_idx b > m_read_idx b"

definition is_writeable :: "sbuf \<Rightarrow> bool" where
  "is_writeable b \<longleftrightarrow> m_buffer_len b > m_write_idx b"

definition readable_len :: "sbuf \<Rightarrow> nat" where
  "readable_len b = (if is_readable b then m_write_idx b - m_read_idx b else 0)"

definition writeable_len :: "sbuf \<Rightarrow> nat" where
  "writeable_len b = (if is_writeable b then m_buffer_len b - m_write_idx b else 0)"

definition capacity :: "sbuf \<Rightarrow> nat" where
  "capacity b = m_buffer_len b"

text \<open>The bytes between the two indices, what \<^verbatim>\<open>ToString\<close> returns.\<close>

definition readable :: "sbuf \<Rightarrow> bytes" where
  "readable b = take (readable_len b) (drop (m_read_idx b) (m_buffer b))"

text \<open>\<^verbatim>\<open>total\<close> and \<^verbatim>\<open>readable_bytes\<close> are 32-bit variables.\<close>

definition compact :: "heap \<Rightarrow> nat \<Rightarrow> sbuf \<Rightarrow> nat \<times> sbuf" where
  "compact h sizeof b =
     (if writeable_len b < sizeof then (0, b)
      else let total = capacity b mod 4294967296;
               readable_bytes = readable_len b mod 4294967296;
               freed = (total + 4294967296 - readable_bytes) mod 4294967296
           in if readable_bytes > 0
              then case malloc h readable_bytes of
                     None \<Rightarrow> (0, b)
                   | Some new_buffer \<Rightarrow>
                       (freed, b\<lparr>m_buffer := blit 0 (take readable_bytes (drop (m_read_idx b) (m_buffer b))) new_buffer,
                                 m_read_idx := 0, m_write_idx := readable_bytes, m_buffer_len := readable_bytes\<rparr>)
              else (freed, b\<lparr>m_buffer := [], m_read_idx := 0, m_write_idx := 0, m_buffer_len := 0\<rparr>))"

text \<open>\<^verbatim>\<open>while (cap < min_cap) cap <<= 1\<close> on a 64-bit \<^verbatim>\<open>size_t\<close>.\<close>

partial_function (option) grow :: "nat \<Rightarrow> nat \<Rightarrow> nat option" where
  "grow cap min_cap =
     (if cap < min_cap then grow (2 * cap mod 18446744073709551616) min_cap else Some cap)"

definition ensure_writeable :: "heap \<Rightarrow> nat \<Rightarrow> sbuf \<Rightarrow> (bool \<times> sbuf) option" where
  "ensure_writeable h mn b =
     (if writeable_len b \<ge> mn then Some (True, b)
      else let b1 = (if capacity b > BUFFER_MAX_READ then snd (compact h mn b) else b);
               cap = (if capacity b = 0 then DEFAULT_BUFFER_SIZE else capacity b)
           in do {
                cap' \<leftarrow> grow cap (sz (int (m_write_idx b1) + int mn));
                case malloc h cap' of
                  None \<Rightarrow> Some (False, b1)
                | Some tmp \<Rightarrow>
                    Some (True, b1\<lparr>m_buffer := blit 0 (readable b1) tmp, m_buffer_len := cap',
                                   m_write_idx := readable_len b1, m_read_idx := 0\<rparr>)
              })"

text \<open>The constructor with a size.\<close>

definition sb_new_sized :: "heap \<Rightarrow> nat \<Rightarrow> sbuf option" where
  "sb_new_sized h n = map_option snd (ensure_writeable h n sb_new)"

definition sb_clear :: "sbuf \<Rightarrow> sbuf" where
  "sb_clear b = b\<lparr>m_write_idx := 0, m_read_idx := 0\<rparr>"

definition sb_limit :: "sbuf \<Rightarrow> sbuf" where
  "sb_limit b = b\<lparr>m_buffer_len := m_write_idx b\<rparr>"

definition sb_read :: "nat \<Rightarrow> sbuf \<Rightarrow> int \<times> bytes \<times> sbuf" where
  "sb_read len b =
     (if len > readable_len b then (- 1, [], b)
      else (i32 (int len), take len (drop (m_read_idx b) (m_buffer b)),
            b\<lparr>m_read_idx := m_read_idx b + len\<rparr>))"

definition sb_write :: "heap \<Rightarrow> bytes \<Rightarrow> sbuf \<Rightarrow> (int \<times> sbuf) option" where
  "sb_write h data b = do {
     (done, b1) \<leftarrow> ensure_writeable h (length data) b;
     if \<not> done then Some (- 1, b1)
     else Some (i32 (int (length data)),
                b1\<lparr>m_buffer := blit (m_write_idx b1) data (m_buffer b1),
                   m_write_idx := m_write_idx b1 + length data\<rparr>)
   }"

text \<open>Moving bytes from another buffer; the results are the return value, this buffer, the other.\<close>

definition sb_write_unit :: "heap \<Rightarrow> sbuf option \<Rightarrow> nat \<Rightarrow> sbuf \<Rightarrow> (int \<times> sbuf \<times> sbuf option) option" where
  "sb_write_unit h unit len b =
     (case unit of
        None \<Rightarrow> Some (- 1, b, None)
      | Some u \<Rightarrow>
          let len' = (if len > readable_len u then readable_len u else len)
          in do {
               (ret, b1) \<leftarrow> sb_write h (take len' (drop (m_read_idx u) (m_buffer u))) b;
               Some (ret, b1, Some (if ret > 0 then u\<lparr>m_read_idx := sz (int (m_read_idx u) + ret)\<rparr> else u))
             })"

definition sb_read_unit :: "heap \<Rightarrow> sbuf option \<Rightarrow> nat \<Rightarrow> sbuf \<Rightarrow> (int \<times> sbuf \<times> sbuf option) option" where
  "sb_read_unit h unit len b =
     (case unit of
        None \<Rightarrow> Some (- 1, b, None)
      | Some u \<Rightarrow> do {
          (ret, u1, b1) \<leftarrow> sb_write_unit h (Some b) len u;
          Some (ret, (case b1 of None \<Rightarrow> b | Some b1' \<Rightarrow> b1'), Some u1)
        })"

definition set_bytes :: "bytes option \<Rightarrow> nat \<Rightarrow> sbuf \<Rightarrow> int \<times> sbuf" where
  "set_bytes data index b =
     (case data of
        None \<Rightarrow> (- 1, b)
      | Some bs \<Rightarrow>
          if sz (int index + int (length bs)) > m_write_idx b then (- 1, b)
          else (i32 (int (length bs)), b\<lparr>m_buffer := blit index bs (m_buffer b)\<rparr>))"

definition copy_out :: "nat \<Rightarrow> sbuf \<Rightarrow> int \<times> bytes" where
  "copy_out len b =
     (if len = 0 then (0, [])
      else let len' = (if len > readable_len b then readable_len b else len)
           in (i32 (int len'), take len' (drop (m_read_idx b) (m_buffer b))))"

definition copy_out_unit :: "heap \<Rightarrow> sbuf option \<Rightarrow> nat \<Rightarrow> sbuf \<Rightarrow> (int \<times> sbuf option) option" where
  "copy_out_unit h unit len b =
     (case unit of
        None \<Rightarrow> Some (- 1, None)
      | Some u \<Rightarrow> do {
          (done, u1) \<leftarrow> ensure_writeable h len u;
          if \<not> done then Some (- 1, Some u1)
          else let (ret, bs) = copy_out len b;
                   u2 = u1\<lparr>m_buffer := blit (m_write_idx u1) bs (m_buffer u1)\<rparr>
               in Some (ret, Some (if ret > 0 then u2\<lparr>m_write_idx := sz (int (m_write_idx u2) + ret)\<rparr> else u2))
        })"

text \<open>\<^verbatim>\<open>skip_bytes(size_t)\<close> hands its argument to \<^verbatim>\<open>advance_read_index(int)\<close>.\<close>

definition skip_bytes :: "nat \<Rightarrow> sbuf \<Rightarrow> sbuf" where
  "skip_bytes len b = advance_read_index (i32 (int len)) b"

definition discard_readed_bytes :: "sbuf \<Rightarrow> sbuf" where
  "discard_readed_bytes b =
     (if m_read_idx b > 0
      then if is_readable b
           then b\<lparr>m_buffer := blit 0 (readable b) (m_buffer b), m_read_idx := 0, m_write_idx := readable_len b\<rparr>
           else b\<lparr>m_read_idx := 0, m_write_idx := 0\<rparr>
      else b)"

text \<open>
  \<^verbatim>\<open>vsnprintf(buffer, space, fmt, ap)\<close> where the whole formatted text is \<open>s\<close>: the bytes it stores.
\<close>

definition vsnprintf :: "nat \<Rightarrow> bytes \<Rightarrow> bytes" where
  "vsnprintf space s = (if space = 0 then [] else take (space - 1) s @ [0])"

partial_function (option) vprintf_loop :: "heap \<Rightarrow> bytes \<Rightarrow> int \<Rightarrow> sbuf \<Rightarrow> (int \<times> sbuf) option" where
  "vprintf_loop h s result b =
     (let space = writeable_len b;
          b1 = b\<lparr>m_buffer := blit (m_write_idx b) (vsnprintf space s) (m_buffer b)\<rparr>;
          result' = i32 (result + int (length s))
      in if length s < space
         then Some (result', advance_write_index (int (length s)) b1)
         else do {
           (done, b2) \<leftarrow> ensure_writeable h (sz (i32 (2 * int (length s)))) b1;
           if \<not> done then Some (result', b2) else vprintf_loop h s result' b2
         })"

text \<open>The formatted text is \<open>None\<close> when \<^verbatim>\<open>vsnprintf\<close> reports an error.\<close>

definition sb_vprintf :: "heap \<Rightarrow> bytes option \<Rightarrow> sbuf \<Rightarrow> (int \<times> sbuf) option" where
  "sb_vprintf h fmt b = do {
     (done, b1) \<leftarrow> ensure_writeable h 64 b;
     if \<not> done then Some (0, b1)
     else case fmt of None \<Rightarrow> Some (0, b1) | Some s \<Rightarrow> vprintf_loop h s 0 b1
   }"

text \<open>
  \<^verbatim>\<open>send\<close> answers an error number (\<open>Inl\<close>) or how many bytes it took (\<open>Inr\<close>); \<^verbatim>\<open>readv\<close> an error
  number or the bytes it delivered. Linux transfers at most \<open>0x7ffff000\<close> bytes in one call, so the
  conversion of the count to \<^verbatim>\<open>int\<close> is exact. The error number goes to the reference parameter \<open>err\<close>.
\<close>

definition write_fd :: "int + nat \<Rightarrow> int \<Rightarrow> sbuf \<Rightarrow> int \<times> int \<times> sbuf" where
  "write_fd sent err b =
     (if i32 (int (readable_len b)) = 0 then (0, err, b)
      else case sent of
             Inl e \<Rightarrow> (- 1, e, b)
           | Inr n \<Rightarrow> (int n, err, b\<lparr>m_read_idx := m_read_idx b + n\<rparr>))"

definition extrabuf_size :: nat where
  "extrabuf_size = 32768"

text \<open>How many bytes \<^verbatim>\<open>readv\<close> may deliver: the second block is offered only when the first is not larger.\<close>

definition iov_space :: "sbuf \<Rightarrow> nat" where
  "iov_space b = (if writeable_len b > extrabuf_size then writeable_len b else writeable_len b + extrabuf_size)"

definition read_fd :: "heap \<Rightarrow> int + bytes \<Rightarrow> int \<Rightarrow> sbuf \<Rightarrow> (int \<times> int \<times> sbuf) option" where
  "read_fd h got err b =
     (let writable = writeable_len b
      in case got of
           Inl e \<Rightarrow> Some (- 1, e, b)
         | Inr data \<Rightarrow>
             if length data \<le> writable
             then Some (int (length data), err,
                        b\<lparr>m_buffer := blit (m_write_idx b) data (m_buffer b),
                          m_write_idx := m_write_idx b + length data\<rparr>)
             else do {
               (_, b1) \<leftarrow> sb_write h (drop writable data)
                  (b\<lparr>m_buffer := blit (m_write_idx b) (take writable data) (m_buffer b),
                     m_write_idx := m_buffer_len b\<rparr>);
               Some (int (length data), err, b1)
             })"

section \<open>The invariant drawn in the header file\<close>

definition sb_ok :: "sbuf \<Rightarrow> bool" where
  "sb_ok b \<longleftrightarrow> m_read_idx b \<le> m_write_idx b \<and> m_write_idx b \<le> m_buffer_len b \<and>
     m_buffer_len b \<le> length (m_buffer b)"

text \<open>Room for \<open>n\<close> more bytes below the size at which doubling a \<^verbatim>\<open>size_t\<close> wraps around.\<close>

definition sb_fits :: "nat \<Rightarrow> sbuf \<Rightarrow> bool" where
  "sb_fits n b \<longleftrightarrow> m_write_idx b + n \<le> 9223372036854775808"

text \<open>A run of writes and reads, and the queue of bytes it should behave as.\<close>

datatype stream_op = Append bytes | Consume nat

fun stream_run :: "(bytes \<Rightarrow> 'b \<Rightarrow> (int \<times> 'b) option) \<Rightarrow> (nat \<Rightarrow> 'b \<Rightarrow> 'b) \<Rightarrow> stream_op list \<Rightarrow> 'b
    \<Rightarrow> (int list \<times> 'b) option" where
  "stream_run push pull [] b = Some ([], b)"
| "stream_run push pull (Append bs # ops) b = do {
     (r, b1) \<leftarrow> push bs b;
     (rs, b2) \<leftarrow> stream_run push pull ops b1;
     Some (r # rs, b2)
   }"
| "stream_run push pull (Consume n # ops) b = do {
     (rs, b2) \<leftarrow> stream_run push pull ops (pull n b);
     Some (int n # rs, b2)
   }"

text \<open>The queue: a write that reports \<open>- 1\<close> left it alone. \<open>None\<close>: more is taken than there is.\<close>

fun queue_run :: "stream_op list \<Rightarrow> int list \<Rightarrow> bytes \<Rightarrow> bytes option" where
  "queue_run [] [] q = Some q"
| "queue_run (Append bs # ops) (r # rs) q =
     (if r = int (length bs) then queue_run ops rs (q @ bs)
      else if r = - 1 then queue_run ops rs q else None)"
| "queue_run (Consume n # ops) (r # rs) q =
     (if r = int n \<and> n \<le> length q then queue_run ops rs (drop n q) else None)"
| "queue_run _ _ q = None"

fun appended :: "stream_op list \<Rightarrow> nat" where
  "appended [] = 0"
| "appended (Append bs # ops) = length bs + appended ops"
| "appended (Consume n # ops) = appended ops"

text \<open>Every write is small enough for its length to be an \<^verbatim>\<open>int\<close>; no read takes more than there is
  even when every write fails.\<close>

fun ops_fit :: "stream_op list \<Rightarrow> nat \<Rightarrow> bool" where
  "ops_fit [] n \<longleftrightarrow> True"
| "ops_fit (Append bs # ops) n \<longleftrightarrow> int (length bs) \<le> INT_MAX \<and> ops_fit ops n"
| "ops_fit (Consume k # ops) n \<longleftrightarrow> k \<le> n \<and> int k \<le> INT_MAX \<and> ops_fit ops (n - k)"

section \<open>The contract: a queue of bytes\<close>

locale byte_stream =
  fixes content :: "'b \<Rightarrow> bytes"
    and push :: "bytes \<Rightarrow> 'b \<Rightarrow> (int \<times> 'b) option"
    and pull :: "nat \<Rightarrow> 'b \<Rightarrow> 'b"
    and ok :: "'b \<Rightarrow> bool"
    and fits :: "nat \<Rightarrow> 'b \<Rightarrow> bool"
  assumes push_law: "ok b \<Longrightarrow> fits (length bs + n) b \<Longrightarrow> int (length bs) \<le> INT_MAX \<Longrightarrow>
      \<exists>r b'. push bs b = Some (r, b') \<and> ok b' \<and> fits n b' \<and>
        (r = int (length bs) \<and> content b' = content b @ bs \<or> r = - 1 \<and> content b' = content b)"
    and pull_law: "ok b \<Longrightarrow> fits n b \<Longrightarrow> k \<le> length (content b) \<Longrightarrow> int k \<le> INT_MAX \<Longrightarrow>
      ok (pull k b) \<and> fits n (pull k b) \<and> content (pull k b) = drop k (content b)"
begin

lemma run_is_queue:
  assumes "ok b" "fits (appended ops) b" "ops_fit ops n" "n \<le> length (content b)"
  shows "\<exists>rs b'. stream_run push pull ops b = Some (rs, b') \<and> ok b' \<and>
           queue_run ops rs (content b) = Some (content b')"
  using assms
proof (induction ops arbitrary: b n)
  case Nil
  then show ?case by simp
next
  case (Cons op ops)
  show ?case
  proof (cases op)
    case (Append bs)
    with Cons.prems obtain r b1 where b1: "push bs b = Some (r, b1)" "ok b1" "fits (appended ops) b1"
      and r: "r = int (length bs) \<and> content b1 = content b @ bs \<or> r = - 1 \<and> content b1 = content b"
      using push_law [of b bs "appended ops"] by auto
    have "n \<le> length (content b1)" using r Cons.prems(4) by auto
    with Cons.IH [OF b1(2,3), of n] Cons.prems(3) Append obtain rs b2
      where "stream_run push pull ops b1 = Some (rs, b2)" "ok b2"
        "queue_run ops rs (content b1) = Some (content b2)" by auto
    then show ?thesis using b1(1) r Append by auto
  next
    case (Consume k)
    with Cons.prems have "ok (pull k b)" "fits (appended ops) (pull k b)"
      and d: "content (pull k b) = drop k (content b)"
      using pull_law [of b "appended ops" k] by auto
    moreover have "n - k \<le> length (drop k (content b))" using Cons.prems(4) by (simp add: diff_le_mono)
    ultimately obtain rs b2
      where "stream_run push pull ops (pull k b) = Some (rs, b2)" "ok b2"
        "queue_run ops rs (drop k (content b)) = Some (content b2)"
      using Cons.IH [of "pull k b" "n - k"] Cons.prems(3) Consume by auto
    then show ?thesis using Consume Cons.prems by auto
  qed
qed

end

section \<open>Lemmas\<close>

lemmas sb_len_defs = readable_len_def writeable_len_def is_readable_def is_writeable_def capacity_def

lemma blit_length: "off + length src \<le> length dst \<Longrightarrow> length (blit off src dst) = length dst"
  by (simp add: blit_def)

lemma take_blit_before: "n \<le> off \<Longrightarrow> off \<le> length dst \<Longrightarrow> take n (blit off src dst) = take n dst"
  by (simp add: blit_def)

lemma blit_at_write: "off \<le> length dst \<Longrightarrow> take (off + length src) (blit off src dst) = take off dst @ src"
  by (simp add: blit_def)

lemma readable_alt: "sb_ok b \<Longrightarrow> readable b = drop (m_read_idx b) (take (m_write_idx b) (m_buffer b))"
  by (simp add: readable_def sb_len_defs sb_ok_def drop_take)

lemma readable_length: "sb_ok b \<Longrightarrow> length (readable b) = readable_len b"
  by (auto simp: readable_def sb_len_defs sb_ok_def)

lemma writeable_ok: "sb_ok b \<Longrightarrow> m_write_idx b + writeable_len b = m_buffer_len b"
  by (auto simp: sb_len_defs sb_ok_def)

lemma sb_ok_new [simp, ok_intros]: "sb_ok sb_new" "readable sb_new = []" "m_write_idx sb_new = 0"
  by (simp_all add: sb_ok_def sb_new_def readable_def)

lemma malloc_length: "malloc h n = Some bs \<Longrightarrow> length bs = n"
  by (auto simp: malloc_def split: if_splits)

text \<open>Copying into the writable part and moving the write index.\<close>

lemma put_bytes:
  assumes "sb_ok b" "length data \<le> writeable_len b"
  defines "b' \<equiv> b\<lparr>m_buffer := blit (m_write_idx b) data (m_buffer b), m_write_idx := m_write_idx b + length data\<rparr>"
  shows "sb_ok b'" "readable b' = readable b @ data"
proof -
  have len: "m_write_idx b + length data \<le> m_buffer_len b" "m_buffer_len b \<le> length (m_buffer b)"
    using assms(1,2) writeable_ok [OF assms(1)] by (auto simp: sb_ok_def)
  then show ok: "sb_ok b'"
    using assms(1) by (simp add: b'_def sb_ok_def blit_length)
  show "readable b' = readable b @ data"
    unfolding readable_alt [OF ok] readable_alt [OF assms(1)]
    using assms(1) len by (simp add: b'_def blit_at_write sb_ok_def)
qed

lemma scratch_bytes:
  assumes "sb_ok b" "length data \<le> writeable_len b"
  defines "b' \<equiv> b\<lparr>m_buffer := blit (m_write_idx b) data (m_buffer b)\<rparr>"
  shows "sb_ok b'" "readable b' = readable b"
proof -
  have len: "m_write_idx b + length data \<le> m_buffer_len b" "m_buffer_len b \<le> length (m_buffer b)"
    using assms(1,2) writeable_ok [OF assms(1)] by (auto simp: sb_ok_def)
  then show ok: "sb_ok b'"
    using assms(1) by (simp add: b'_def sb_ok_def blit_length)
  show "readable b' = readable b"
    unfolding readable_alt [OF ok] readable_alt [OF assms(1)]
    using assms(1) len by (simp add: b'_def take_blit_before sb_ok_def)
qed

text \<open>The doubling loop ends for every size up to half of the range of \<^verbatim>\<open>size_t\<close>.\<close>

lemma grow_spec:
  assumes "0 < cap" "m \<le> 9223372036854775808"
  shows "\<exists>c. grow cap m = Some c \<and> m \<le> c \<and> cap \<le> c \<and> (c = cap \<or> c < 2 * m)"
  using assms
proof (induction "m - cap" arbitrary: cap rule: less_induct)
  case less
  show ?case
  proof (cases "cap < m")
    case True
    then have "2 * cap mod 18446744073709551616 = 2 * cap" using less.prems by simp
    moreover have "\<exists>c. grow (2 * cap) m = Some c \<and> m \<le> c \<and> 2 * cap \<le> c \<and> (c = 2 * cap \<or> c < 2 * m)"
      using True less.prems by (intro less.hyps) auto
    ultimately show ?thesis using True by (subst grow.simps) force
  next
    case False
    then show ?thesis by (subst grow.simps) simp
  qed
qed

text \<open>The call of \<open>compact\<close> in \<open>ensure_writeable\<close> never does anything: it is made only when the
  writable part is smaller than the argument, which is \<open>compact\<close>'s own test for giving up.\<close>

lemma compact_inert: "writeable_len b < n \<Longrightarrow> compact h n b = (0, b)"
  by (simp add: compact_def)

lemma ensure_writeable_spec:
  assumes ok: "sb_ok b" and fits: "sb_fits mn b"
  shows "\<exists>d b'. ensure_writeable h mn b = Some (d, b') \<and> sb_ok b' \<and> readable b' = readable b \<and>
    m_write_idx b' \<le> m_write_idx b \<and> (d \<longrightarrow> mn \<le> writeable_len b') \<and> (\<not> d \<longrightarrow> b' = b \<and> (\<exists>n. fst h n)) \<and>
    m_buffer_len b' \<le> max 32 (max (m_buffer_len b) (2 * (m_write_idx b + mn)))"
proof (cases "writeable_len b \<ge> mn")
  case True
  then show ?thesis
    using ok by (intro exI [of _ True] exI [of _ b]) (simp add: ensure_writeable_def)
next
  case False
  define cap where "cap = (if capacity b = 0 then DEFAULT_BUFFER_SIZE else capacity b)"
  have m: "sz (int (m_write_idx b) + int mn) = m_write_idx b + mn" "m_write_idx b + mn \<le> 9223372036854775808"
    using fits by (simp_all add: sb_fits_def sz_def nat_add_distrib)
  have "0 < cap" by (simp add: cap_def DEFAULT_BUFFER_SIZE_def)
  from grow_spec [OF this m(2)] obtain c
    where c: "grow cap (m_write_idx b + mn) = Some c" "m_write_idx b + mn \<le> c" "c = cap \<or> c < 2 * (m_write_idx b + mn)"
    by auto
  have bound: "c \<le> max 32 (max (m_buffer_len b) (2 * (m_write_idx b + mn)))"
    using c(3) by (auto simp: cap_def capacity_def DEFAULT_BUFFER_SIZE_def split: if_splits)
  have i: "(if capacity b > BUFFER_MAX_READ then snd (compact h mn b) else b) = b"
    using False by (simp add: compact_inert)
  have e: "ensure_writeable h mn b = (case malloc h c of None \<Rightarrow> Some (False, b)
      | Some tmp \<Rightarrow> Some (True, b\<lparr>m_buffer := blit 0 (readable b) tmp, m_buffer_len := c,
                                   m_write_idx := readable_len b, m_read_idx := 0\<rparr>))"
    unfolding ensure_writeable_def Let_def i cap_def [symmetric] m(1) c(1) using False by simp
  show ?thesis
  proof (cases "malloc h c")
    case None
    then have "fst h c" by (simp add: malloc_def split: if_splits)
    then show ?thesis
      using ok e None by (intro exI [of _ False] exI [of _ b]) auto
  next
    case (Some tmp)
    have r: "readable_len b \<le> m_write_idx b" by (simp add: sb_len_defs)
    have l: "length tmp = c" "length (readable b) = readable_len b"
      using malloc_length [OF Some] readable_length [OF ok] by simp_all
    define b' where "b' = b\<lparr>m_buffer := blit 0 (readable b) tmp, m_buffer_len := c,
                                   m_write_idx := readable_len b, m_read_idx := 0\<rparr>"
    have ok': "sb_ok b'" using r l c(2) by (simp add: b'_def sb_ok_def blit_def)
    moreover have "readable b' = readable b"
      unfolding readable_alt [OF ok'] using l by (simp add: b'_def blit_def)
    moreover have "mn \<le> writeable_len b'" using r c(2) by (auto simp: b'_def sb_len_defs)
    moreover have "m_write_idx b' \<le> m_write_idx b" "m_buffer_len b' = c" using r by (simp_all add: b'_def)
    ultimately show ?thesis
      using e Some bound by (intro exI [of _ True] exI [of _ b']) (simp add: b'_def [symmetric])
  qed
qed

lemma sb_write_spec:
  assumes ok: "sb_ok b" and fits: "sb_fits (length data + n) b" and small: "int (length data) \<le> INT_MAX"
  shows "\<exists>r b'. sb_write h data b = Some (r, b') \<and> sb_ok b' \<and> sb_fits n b' \<and>
    (r = int (length data) \<and> readable b' = readable b @ data \<or> r = - 1 \<and> b' = b \<and> (\<exists>n. fst h n))"
proof -
  have "sb_fits (length data) b" using fits by (simp add: sb_fits_def)
  from ensure_writeable_spec [OF ok this, of h] obtain d b1
    where b1: "ensure_writeable h (length data) b = Some (d, b1)" "sb_ok b1" "readable b1 = readable b"
      "m_write_idx b1 \<le> m_write_idx b" "d \<Longrightarrow> length data \<le> writeable_len b1" "\<not> d \<Longrightarrow> b1 = b \<and> (\<exists>n. fst h n)"
    by auto
  have "i32 (int (length data)) = int (length data)" using small by (simp add: i32_id INT_MAX_def)
  then show ?thesis
    using b1 fits put_bytes [OF b1(2,5)] by (cases d) (auto simp: sb_write_def sb_fits_def)
qed

lemma sb_write_index:
  assumes ok: "sb_ok b" and fits: "sb_fits (length data) b" and w: "sb_write h data b = Some (r, b')"
  shows "m_write_idx b' \<le> m_write_idx b + length data"
  using ensure_writeable_spec [OF ok fits, of h] w by (auto simp: sb_write_def split: if_splits)

lemma skip_bytes_spec:
  assumes "sb_ok b" "sb_fits n b" "k \<le> length (readable b)" "int k \<le> INT_MAX"
  shows "sb_ok (skip_bytes k b)" "sb_fits n (skip_bytes k b)" "readable (skip_bytes k b) = drop k (readable b)"
proof -
  have k: "m_read_idx b + k \<le> m_write_idx b"
    using assms(1,3) by (auto simp: readable_length sb_len_defs sb_ok_def split: if_splits)
  have "sz (int (m_read_idx b) + int k) = m_read_idx b + k"
    using k assms(2) by (simp add: sz_def sb_fits_def nat_add_distrib)
  then have e: "skip_bytes k b = b\<lparr>m_read_idx := m_read_idx b + k\<rparr>"
    using assms(4) by (simp add: skip_bytes_def advance_read_index_def INT_MAX_def)
  show ok: "sb_ok (skip_bytes k b)" using k assms(1) by (simp add: e sb_ok_def)
  show "sb_fits n (skip_bytes k b)" using assms(2) by (simp add: e sb_fits_def)
  show "readable (skip_bytes k b) = drop k (readable b)"
    using ok assms(1) by (simp add: readable_alt) (simp add: e add.commute)
qed

interpretation sb: byte_stream readable "sb_write h" skip_bytes sb_ok sb_fits for h
proof unfold_locales
  fix b :: sbuf and bs :: bytes and n
  assume "sb_ok b" "sb_fits (length bs + n) b" "int (length bs) \<le> INT_MAX"
  from sb_write_spec [OF this, of h]
  show "\<exists>r b'. sb_write h bs b = Some (r, b') \<and> sb_ok b' \<and> sb_fits n b' \<and>
        (r = int (length bs) \<and> readable b' = readable b @ bs \<or> r = - 1 \<and> readable b' = readable b)"
    by auto
qed (use skip_bytes_spec in auto)

text \<open>Reading from the socket: the case in which the stack block takes the overflow.\<close>

lemma read_fd_spec:
  assumes ok: "sb_ok b" and fits: "sb_fits (length data + n) b" and space: "length data \<le> iov_space b"
  shows "\<exists>b'. read_fd h (Inr data) err b = Some (int (length data), err, b') \<and> sb_ok b' \<and> sb_fits n b' \<and>
    (readable b' = readable b @ data \<or>
     (\<exists>n. fst h n) \<and> readable b' = readable b @ take (writeable_len b) data)"
proof (cases "length data \<le> writeable_len b")
  case True
  then show ?thesis
    using put_bytes [OF ok True] fits by (simp add: read_fd_def sb_fits_def)
next
  case False
  define b0 where "b0 = b\<lparr>m_buffer := blit (m_write_idx b) (take (writeable_len b) data) (m_buffer b),
                          m_write_idx := m_buffer_len b\<rparr>"
  have w: "m_write_idx b + length (take (writeable_len b) data) = m_buffer_len b"
    using False writeable_ok [OF ok] by simp
  have b0: "sb_ok b0" "readable b0 = readable b @ take (writeable_len b) data"
    using put_bytes [OF ok, of "take (writeable_len b) data"] unfolding w by (simp_all add: b0_def)
  have "length (drop (writeable_len b) data) \<le> extrabuf_size"
    using False space by (auto simp: iov_space_def split: if_splits)
  then have small: "int (length (drop (writeable_len b) data)) \<le> INT_MAX"
    by (simp add: extrabuf_size_def INT_MAX_def)
  have "sb_fits (length (drop (writeable_len b) data) + n) b0"
    using fits writeable_ok [OF ok] False by (simp add: sb_fits_def b0_def)
  from sb_write_spec [OF b0(1) this small, of h] obtain r b1 where
    b1: "sb_write h (drop (writeable_len b) data) b0 = Some (r, b1)" "sb_ok b1" "sb_fits n b1"
    and r: "readable b1 = readable b0 @ drop (writeable_len b) data \<or> b1 = b0 \<and> (\<exists>n. fst h n)" by auto
  have "read_fd h (Inr data) err b = Some (int (length data), err, b1)"
    using False b1(1) by (simp add: read_fd_def b0_def [symmetric])
  then show ?thesis using b1(2,3) b0(2) r by auto
qed

lemma write_fd_spec:
  assumes ok: "sb_ok b" and n: "n \<le> readable_len b" and small: "int (readable_len b) \<le> INT_MAX"
  shows "\<exists>b'. write_fd (Inr n) err b = (int n, err, b') \<and> sb_ok b' \<and> readable b' = drop n (readable b) \<and>
    readable_len b' = readable_len b - n"
proof (cases "readable_len b = 0")
  case True
  then show ?thesis using ok n by (simp add: write_fd_def)
next
  case False
  define b' where "b' = b\<lparr>m_read_idx := m_read_idx b + n\<rparr>"
  have "sb_ok b'" using ok n by (auto simp: b'_def sb_ok_def sb_len_defs split: if_splits)
  moreover have "readable b' = drop n (readable b)"
    using \<open>sb_ok b'\<close> ok by (simp add: readable_alt) (simp add: b'_def add.commute)
  ultimately show ?thesis
    using False small readable_length [OF ok] readable_length [OF \<open>sb_ok b'\<close>]
    by (simp add: write_fd_def b'_def INT_MAX_def)
qed

lemma write_fd_error:
  "int (readable_len b) \<le> INT_MAX \<Longrightarrow> readable_len b \<noteq> 0 \<Longrightarrow> write_fd (Inl e) err b = (- 1, e, b)"
  by (simp add: write_fd_def INT_MAX_def)

lemma write_fd_empty: "readable_len b = 0 \<Longrightarrow> write_fd res err b = (0, err, b)"
  by (simp add: write_fd_def)

text \<open>One round of the formatting loop.\<close>

lemma vsnprintf_length: "length (vsnprintf space s) \<le> space"
  by (auto simp: vsnprintf_def)

lemma vprintf_loop_fits:
  assumes ok: "sb_ok b" and fits: "sb_fits (length s) b" and room: "length s < writeable_len b"
    and small: "int (length s) \<le> INT_MAX"
  shows "\<exists>b'. vprintf_loop h s r b = Some (i32 (r + int (length s)), b') \<and> sb_ok b' \<and>
    readable b' = readable b @ s"
proof -
  define b1 where "b1 = b\<lparr>m_buffer := blit (m_write_idx b) (vsnprintf (writeable_len b) s) (m_buffer b)\<rparr>"
  have v: "vsnprintf (writeable_len b) s = s @ [0]" using room by (auto simp: vsnprintf_def)
  have "sb_ok b1" using scratch_bytes [OF ok vsnprintf_length] by (simp add: b1_def)
  have adv: "advance_write_index (int (length s)) b1 = b1\<lparr>m_write_idx := m_write_idx b + length s\<rparr>"
    using fits by (simp add: advance_write_index_def b1_def sb_fits_def sz_def nat_add_distrib)
  have len: "m_write_idx b + length s < m_buffer_len b" using room writeable_ok [OF ok] by simp
  have ok': "sb_ok (b1\<lparr>m_write_idx := m_write_idx b + length s\<rparr>)"
    using \<open>sb_ok b1\<close> len by (simp add: sb_ok_def b1_def)
  have "readable (b1\<lparr>m_write_idx := m_write_idx b + length s\<rparr>) = readable b @ s"
    unfolding readable_alt [OF ok'] readable_alt [OF ok]
    using ok len by (simp add: b1_def v blit_def sb_ok_def)
  then show ?thesis
    using room ok' adv by (subst vprintf_loop.simps) (simp add: b1_def [symmetric])
qed

text \<open>With memory available, \<open>ensure_writeable\<close> succeeds and one more round is enough.\<close>

lemma vprintf_loop_retry:
  assumes ok: "sb_ok b" and fits: "sb_fits (2 * length s) b" and full: "\<not> length s < writeable_len b"
    and pos: "0 < length s" and small: "2 * int (length s) \<le> INT_MAX" and mem: "\<And>n. \<not> fst h n"
  shows "\<exists>b'. vprintf_loop h s 0 b = Some (2 * int (length s), b') \<and> sb_ok b' \<and>
    readable b' = readable b @ s"
proof -
  define b1 where "b1 = b\<lparr>m_buffer := blit (m_write_idx b) (vsnprintf (writeable_len b) s) (m_buffer b)\<rparr>"
  have b1: "sb_ok b1" "readable b1 = readable b" "sb_fits (2 * length s) b1"
    using scratch_bytes [OF ok vsnprintf_length] fits by (simp_all add: b1_def sb_fits_def)
  obtain b2 where b2: "ensure_writeable h (2 * length s) b1 = Some (True, b2)" "sb_ok b2"
    "readable b2 = readable b" "m_write_idx b2 \<le> m_write_idx b1" "2 * length s \<le> writeable_len b2"
    using ensure_writeable_spec [OF b1(1,3), of h] mem b1(2) by auto
  have "length s < writeable_len b2" using b2(5) pos by linarith
  then obtain b' where b': "vprintf_loop h s (int (length s)) b2 = Some (i32 (int (length s) + int (length s)), b')"
      "sb_ok b'" "readable b' = readable b2 @ s"
    using vprintf_loop_fits [OF b2(2), of s h "int (length s)"] b2(4) small b1(3) by (auto simp: sb_fits_def)
  have i: "i32 (2 * int (length s)) = 2 * int (length s)" "i32 (int (length s)) = int (length s)"
    using small by (simp_all add: INT_MAX_def)
  have z: "sz (2 * int (length s)) = 2 * length s"
    using small by (simp add: sz_def INT_MAX_def nat_mult_distrib)
  have "vprintf_loop h s 0 b = vprintf_loop h s (int (length s)) b2"
    unfolding vprintf_loop.simps [of h s 0 b] Let_def b1_def [symmetric] add_0 i z b2(1)
    using full by simp
  then show ?thesis using b' b2(3) i(1) by simp
qed

section \<open>Properties\<close>

text \<open>A sequence of \<^verbatim>\<open>write_fd\<close> calls with the kernel's answers: the bytes that left, and the buffer.\<close>

fun flush_run :: "(int + nat) list \<Rightarrow> sbuf \<Rightarrow> bytes \<times> sbuf" where
  "flush_run [] b = ([], b)"
| "flush_run (res # rest) b =
     (case write_fd res 0 b of (n, _, b1) \<Rightarrow>
        let later = flush_run rest b1
        in ((if n > 0 then take (nat n) (readable b) else []) @ fst later, snd later))"

text \<open>\<^verbatim>\<open>send\<close> never takes more than it is given.\<close>

fun sends_fit :: "(int + nat) list \<Rightarrow> nat \<Rightarrow> bool" where
  "sends_fit [] n \<longleftrightarrow> True"
| "sends_fit (Inl e # rest) n \<longleftrightarrow> sends_fit rest n"
| "sends_fit (Inr k # rest) n \<longleftrightarrow> k \<le> n \<and> sends_fit rest (n - k)"



text \<open>
  \<^verbatim>\<open>ensure_writeable(min)\<close> always returns as long as the buffer stays below half of the range of
  \<^verbatim>\<open>size_t\<close> (the doubling loop ends); it keeps the readable bytes and the index invariant; when it
  answers true there is room for \<^verbatim>\<open>min\<close> bytes, and it answers false only after a refused allocation,
  leaving the buffer as it was; the capacity at most doubles what was needed.
\<close>

theorem ensure_writeable_correct:
  assumes "sb_ok b" "sb_fits mn b"
  shows "\<exists>d b'. ensure_writeable h mn b = Some (d, b') \<and> sb_ok b' \<and> readable b' = readable b \<and>
    (d \<longrightarrow> mn \<le> writeable_len b') \<and> (\<not> d \<longrightarrow> b' = b \<and> (\<exists>n. fst h n)) \<and>
    m_buffer_len b' \<le> max 32 (max (m_buffer_len b) (2 * (m_write_idx b + mn)))"
  using ensure_writeable_spec [OF assms, of h] by blast

theorem ensure_writeable_correct_witness:
  "\<exists>d b'. ensure_writeable (\<lambda>_. False, \<lambda>_. 0) 100 sb_new = Some (d, b') \<and> sb_ok b' \<and> readable b' = readable sb_new \<and>
    (d \<longrightarrow> 100 \<le> writeable_len b') \<and> (\<not> d \<longrightarrow> b' = sb_new \<and> (\<exists>n. fst (\<lambda>_::nat. False, \<lambda>_::nat. 0::u8) n)) \<and>
    m_buffer_len b' \<le> max 32 (max (m_buffer_len sb_new) (2 * (m_write_idx sb_new + 100)))"
  by (rule ensure_writeable_correct) (simp_all add: sb_fits_def sb_new_def sb_ok_def)

text \<open>
  \<^verbatim>\<open>read_fd\<close> appends exactly the bytes \<^verbatim>\<open>readv\<close> delivered, also those that went to the block on
  the stack, and returns their number. If the allocation for the overflow is refused, the bytes
  beyond the writable part are dropped while the return value still counts them.
\<close>

theorem read_fd_appends:
  assumes "sb_ok b" "sb_fits (length data) b" "length data \<le> iov_space b"
  shows "\<exists>b'. read_fd h (Inr data) err b = Some (int (length data), err, b') \<and> sb_ok b' \<and>
    (readable b' = readable b @ data \<or>
     (\<exists>n. fst h n) \<and> readable b' = readable b @ take (writeable_len b) data)"
  using read_fd_spec [OF assms(1) _ assms(3), of 0 h err] assms(2) by auto

theorem read_fd_appends_witness:
  "\<exists>b'. read_fd (\<lambda>_. True, \<lambda>_. 0) (Inr [7, 8]) 0 sb_new = Some (int (length [7::u8, 8]), 0, b') \<and> sb_ok b' \<and>
    (readable b' = readable sb_new @ [7, 8] \<or>
     (\<exists>n. fst (\<lambda>_::nat. True, \<lambda>_::nat. 0::u8) n) \<and> readable b' = readable sb_new @ take (writeable_len sb_new) [7, 8])"
  by (rule read_fd_appends) (simp_all add: sb_fits_def sb_new_def sb_ok_def iov_space_def extrabuf_size_def)

text \<open>
  However \<^verbatim>\<open>send\<close> splits the output (partial sends, errors, retries), the bytes that left
  followed by the bytes still readable are the bytes that were readable at the start.
\<close>

theorem flush_conserves:
  assumes "sb_ok b" "sends_fit outs (readable_len b)" "int (readable_len b) \<le> INT_MAX"
  shows "sb_ok (snd (flush_run outs b)) \<and>
    fst (flush_run outs b) @ readable (snd (flush_run outs b)) = readable b"
  using assms
proof (induction outs "readable_len b" arbitrary: b rule: sends_fit.induct)
  case 1
  then show ?case by simp
next
  case (2 e rest)
  have "sb_ok (snd (flush_run rest b)) \<and>
    fst (flush_run rest b) @ readable (snd (flush_run rest b)) = readable b"
    using 2 by simp
  then show ?case
    using 2(4) by (cases "readable_len b = 0")
      (simp_all add: write_fd_error write_fd_empty Let_def split_beta)
next
  case (3 k rest)
  from 3(3) have k: "k \<le> readable_len b" by simp
  obtain b' where b': "write_fd (Inr k) 0 b = (int k, 0, b')" "sb_ok b'" "readable b' = drop k (readable b)"
    "readable_len b' = readable_len b - k"
    using write_fd_spec [OF 3(2) k 3(4), of 0] by auto
  then show ?case
    using 3(1) [of b'] 3(3,4) append_take_drop_id [of k "readable b"]
    by (auto simp: Let_def split_beta simp del: append_take_drop_id)
qed

theorem flush_conserves_witness:
  "sb_ok (snd (flush_run [Inr 1, Inl 11, Inr 2] \<lparr>m_buffer = [9, 1, 2, 3], m_buffer_len = 4, m_write_idx = 4, m_read_idx = 1\<rparr>)) \<and>
    fst (flush_run [Inr 1, Inl 11, Inr 2] \<lparr>m_buffer = [9, 1, 2, 3], m_buffer_len = 4, m_write_idx = 4, m_read_idx = 1\<rparr>)
    @ readable (snd (flush_run [Inr 1, Inl 11, Inr 2] \<lparr>m_buffer = [9, 1, 2, 3], m_buffer_len = 4, m_write_idx = 4, m_read_idx = 1\<rparr>))
    = readable \<lparr>m_buffer = [9, 1, 2, 3], m_buffer_len = 4, m_write_idx = 4, m_read_idx = 1\<rparr>"
  by (rule flush_conserves) (simp_all add: sb_ok_def sb_len_defs INT_MAX_def)

text \<open>
  With memory available \<^verbatim>\<open>_vprintf\<close> returns after at most two rounds and appends the whole
  formatted text without the terminating zero. Its return value is the length of the text when the
  first round fits, and twice the length otherwise, because \<^verbatim>\<open>result\<close> is accumulated over the rounds.
\<close>

theorem vprintf_appends:
  assumes ok: "sb_ok b" and fits: "sb_fits (64 + 2 * length s) b" and small: "2 * int (length s) \<le> INT_MAX"
    and mem: "\<And>n. \<not> fst h n"
  shows "\<exists>b1 b'. ensure_writeable h 64 b = Some (True, b1) \<and>
    sb_vprintf h (Some s) b = Some (if length s < writeable_len b1 then int (length s) else 2 * int (length s), b') \<and>
    sb_ok b' \<and> readable b' = readable b @ s"
proof -
  have "sb_fits 64 b" using fits by (simp add: sb_fits_def)
  from ensure_writeable_spec [OF ok this, of h] mem obtain b1 where
    b1: "ensure_writeable h 64 b = Some (True, b1)" "sb_ok b1" "readable b1 = readable b"
      "m_write_idx b1 \<le> m_write_idx b" "64 \<le> writeable_len b1" by auto
  have f: "sb_fits (length s) b1" "sb_fits (2 * length s) b1" using fits b1(4) by (simp_all add: sb_fits_def)
  show ?thesis
  proof (cases "length s < writeable_len b1")
    case True
    then show ?thesis
      using vprintf_loop_fits [OF b1(2) f(1) True, of h 0] small b1(1,3)
      by (auto simp: sb_vprintf_def INT_MAX_def)
  next
    case False
    then have "0 < length s" using b1(5) by linarith
    with vprintf_loop_retry [OF b1(2) f(2) False _ small mem] False b1(1,3)
    show ?thesis by (auto simp: sb_vprintf_def)
  qed
qed

theorem vprintf_appends_witness:
  "\<exists>b1 b'. ensure_writeable (\<lambda>_. False, \<lambda>_. 0) 64 sb_new = Some (True, b1) \<and>
    sb_vprintf (\<lambda>_. False, \<lambda>_. 0) (Some (replicate 64 65)) sb_new =
      Some (if length (replicate 64 (65::u8)) < writeable_len b1 then int (length (replicate 64 (65::u8)))
            else 2 * int (length (replicate 64 (65::u8))), b') \<and>
    sb_ok b' \<and> readable b' = readable sb_new @ replicate 64 65"
  by (rule vprintf_appends) (simp_all add: sb_fits_def sb_new_def sb_ok_def INT_MAX_def)

text \<open>
  \<^verbatim>\<open>compact\<close>, called with a size that passes its test, shrinks the block to the readable bytes,
  keeps them, and returns the number of bytes it gave back; \<^verbatim>\<open>DiscardReadedBytes\<close> keeps them too and
  moves them to the front.
\<close>

theorem compact_and_discard_keep_content:
  assumes ok: "sb_ok b" and small: "m_buffer_len b < 4294967296" and size: "n \<le> writeable_len b"
    and mem: "\<not> fst h (readable_len b)"
  shows "sb_ok (snd (compact h n b)) \<and> readable (snd (compact h n b)) = readable b \<and>
    m_buffer_len (snd (compact h n b)) = readable_len b \<and>
    fst (compact h n b) = m_buffer_len b - readable_len b \<and>
    sb_ok (discard_readed_bytes b) \<and> readable (discard_readed_bytes b) = readable b \<and>
    m_read_idx (discard_readed_bytes b) = 0"
proof -
  have r: "readable_len b \<le> m_buffer_len b" "readable_len b < 4294967296" "length (readable b) = readable_len b"
    using ok small readable_length [OF ok] by (auto simp: sb_len_defs sb_ok_def)
  have "m_buffer_len b + 4294967296 - readable_len b = (m_buffer_len b - readable_len b) + 4294967296"
    using r(1) by simp
  then have f: "(m_buffer_len b + 4294967296 - readable_len b) mod 4294967296 = m_buffer_len b - readable_len b"
    using small by (simp only: mod_add_self2) simp
  have c: "compact h n b = (m_buffer_len b - readable_len b,
     b\<lparr>m_buffer := readable b, m_read_idx := 0, m_write_idx := readable_len b, m_buffer_len := readable_len b\<rparr>)"
    using r size mem small f
    by (auto simp: compact_def capacity_def malloc_def blit_def Let_def readable_def [symmetric] not_less)
  have d: "length (blit 0 (readable b) (m_buffer b)) = length (m_buffer b)"
    using ok r by (intro blit_length) (simp add: sb_ok_def)
  show ?thesis
    using ok r(3) d by (auto simp: c discard_readed_bytes_def sb_ok_def readable_def sb_len_defs blit_def)
qed

theorem compact_and_discard_keep_content_witness:
  "let b = \<lparr>m_buffer = [9, 1, 2, 0], m_buffer_len = 4, m_write_idx = 3, m_read_idx = 1\<rparr>;
       h = (\<lambda>_. False, \<lambda>_. 170)
   in sb_ok (snd (compact h 1 b)) \<and> readable (snd (compact h 1 b)) = readable b \<and>
    m_buffer_len (snd (compact h 1 b)) = readable_len b \<and>
    fst (compact h 1 b) = m_buffer_len b - readable_len b \<and>
    sb_ok (discard_readed_bytes b) \<and> readable (discard_readed_bytes b) = readable b \<and>
    m_read_idx (discard_readed_bytes b) = 0"
  unfolding Let_def
  by (rule compact_and_discard_keep_content) (simp_all add: sb_ok_def sb_len_defs)

end
