(* ===== verification/ProtoWire.thy ===== *)
theory ProtoWire
  imports Prelude
begin

text \<open>
  The two messages of \<^verbatim>\<open>src/src/core/protobuf/proto/msg.proto\<close> and what the rest of the development
  assumes of the protobuf library: locale \<open>proto_wire\<close> over a record of serializers and parsers. The
  generated code and the library are not part of the repository; the locale is interpreted on the
  documented proto3 encoding of the two messages (\<open>proto3\<close>), which the witnesses run.
\<close>

section \<open>Messages\<close>

text \<open>\<^verbatim>\<open>cmd\<close> and \<^verbatim>\<open>seq\<close> are \<^verbatim>\<open>fixed32\<close>; \<^verbatim>\<open>len\<close> is \<^verbatim>\<open>sfixed32\<close>, read with \<open>sint\<close>.\<close>

record msg_head =
  cmd :: u32
  seq :: u32
  len :: u32

datatype msg_type =
    MSG_TYPE_NOT_SET
  | ReqTarget u32 string    \<comment> \<open>route_id, route\<close>
  | RspResult u32 string    \<comment> \<open>code (an int32, read with \<open>sint\<close>), msg\<close>

record msg_body =
  m_type :: msg_type
  data :: bytes
  add_on :: bytes
  trace_id :: string

definition head0 :: msg_head where
  "head0 = \<lparr>cmd = 0, seq = 0, len = 0\<rparr>"

definition body0 :: msg_body where
  "body0 = \<lparr>m_type = MSG_TYPE_NOT_SET, data = [], add_on = [], trace_id = []\<rparr>"

section \<open>The library, as a parameter\<close>

text \<open>A parser returns whether it succeeded and what the message object then holds.\<close>

record protobuf =
  ser_head :: "msg_head \<Rightarrow> bytes"
  par_head :: "bytes \<Rightarrow> bool \<times> msg_head"
  ser_body :: "msg_body \<Rightarrow> bytes"
  par_body :: "bytes \<Rightarrow> bool \<times> msg_body"

text \<open>
  Documented behaviour: parsing inverts serializing for messages below the library's limit of 2 GiB; a non-zero fixed-width 32-bit field takes one
  tag byte and four bytes.
\<close>

locale proto_wire =
  fixes p :: protobuf
  assumes par_ser_head: "par_head p (ser_head p h) = (True, h)"
    and par_ser_body: "int (length (ser_body p b)) \<le> INT_MAX \<Longrightarrow> par_body p (ser_body p b) = (True, b)"
    and ser_head_length: "cmd h \<noteq> 0 \<Longrightarrow> seq h \<noteq> 0 \<Longrightarrow> len h \<noteq> 0 \<Longrightarrow> length (ser_head p h) = 15"
begin

lemma ser_head_inj: "ser_head p h = ser_head p h' \<Longrightarrow> h = h'"
  by (metis par_ser_head snd_conv)

lemma ser_body_inj: "int (length (ser_body p b)) \<le> INT_MAX \<Longrightarrow> ser_body p b = ser_body p b' \<Longrightarrow> b = b'"
  by (metis par_ser_body snd_conv)

end

section \<open>The proto3 encoding\<close>

fun varint_enc :: "nat \<Rightarrow> bytes" where
  "varint_enc n = (if n < 128 then [of_nat n] else of_nat (128 + n mod 128) # varint_enc (n div 128))"

declare varint_enc.simps [simp del]

fun varint_dec :: "nat \<Rightarrow> bytes \<Rightarrow> (nat \<times> bytes) option" where
  "varint_dec (Suc k) (x # bs) =
     (if unat x < 128 then Some (unat x, bs)
      else do { (n, r) \<leftarrow> varint_dec k bs; Some (unat x - 128 + 128 * n, r) })"
| "varint_dec _ _ = None"

definition le32_enc :: "u32 \<Rightarrow> bytes" where
  "le32_enc w = (let n = unat w in [of_nat n, of_nat (n div 256), of_nat (n div 65536), of_nat (n div 16777216)])"

definition le32_dec :: "bytes \<Rightarrow> u32" where
  "le32_dec bs = of_nat (foldr (\<lambda>x n. unat x + 256 * n) bs 0)"

datatype wire = VARINT nat | I64 bytes | LEN bytes | I32 bytes

fun field_enc :: "nat \<times> wire \<Rightarrow> bytes" where
  "field_enc (num, VARINT n) = varint_enc (8 * num) @ varint_enc n"
| "field_enc (num, I64 bs) = varint_enc (8 * num + 1) @ bs"
| "field_enc (num, LEN bs) = varint_enc (8 * num + 2) @ varint_enc (length bs) @ bs"
| "field_enc (num, I32 bs) = varint_enc (8 * num + 5) @ bs"

definition take_exact :: "nat \<Rightarrow> bytes \<Rightarrow> (bytes \<times> bytes) option" where
  "take_exact n bs = (if n \<le> length bs then Some (take n bs, drop n bs) else None)"

text \<open>Field number 0 and the group wire types are parse errors.\<close>

definition field_dec :: "bytes \<Rightarrow> ((nat \<times> wire) \<times> bytes) option" where
  "field_dec bs = do {
     (tag, r) \<leftarrow> varint_dec 10 bs;
     let num = tag div 8;
     if num = 0 then None
     else if tag mod 8 = 0 then do { (n, r') \<leftarrow> varint_dec 10 r; Some ((num, VARINT n), r') }
     else if tag mod 8 = 1 then do { (x, r') \<leftarrow> take_exact 8 r; Some ((num, I64 x), r') }
     else if tag mod 8 = 2 then do { (n, r') \<leftarrow> varint_dec 10 r; (x, r'') \<leftarrow> take_exact n r'; Some ((num, LEN x), r'') }
     else if tag mod 8 = 5 then do { (x, r') \<leftarrow> take_exact 4 r; Some ((num, I32 x), r') }
     else None
   }"

text \<open>The fuel is the number of bytes: a field takes at least one.\<close>

fun fields_dec :: "nat \<Rightarrow> bytes \<Rightarrow> (nat \<times> wire) list option" where
  "fields_dec n [] = Some []"
| "fields_dec 0 (x # bs) = None"
| "fields_dec (Suc n) (x # bs) = do {
     (f, r) \<leftarrow> field_dec (x # bs);
     fs \<leftarrow> fields_dec n r;
     Some (f # fs)
   }"

definition fields_enc :: "(nat \<times> wire) list \<Rightarrow> bytes" where
  "fields_enc fs = concat (map field_enc fs)"

definition field_if :: "bool \<Rightarrow> nat \<Rightarrow> wire \<Rightarrow> (nat \<times> wire) list" where
  "field_if present num w = (if present then [(num, w)] else [])"

definition head_fields :: "msg_head \<Rightarrow> (nat \<times> wire) list" where
  "head_fields h = field_if (cmd h \<noteq> 0) 1 (I32 (le32_enc (cmd h)))
     @ field_if (seq h \<noteq> 0) 2 (I32 (le32_enc (seq h)))
     @ field_if (len h \<noteq> 0) 3 (I32 (le32_enc (len h)))"

definition head_merge :: "nat \<times> wire \<Rightarrow> msg_head \<Rightarrow> msg_head" where
  "head_merge f h = (case f of
       (Suc 0, I32 bs) \<Rightarrow> h\<lparr>cmd := le32_dec bs\<rparr>
     | (Suc (Suc 0), I32 bs) \<Rightarrow> h\<lparr>seq := le32_dec bs\<rparr>
     | (Suc (Suc (Suc 0)), I32 bs) \<Rightarrow> h\<lparr>len := le32_dec bs\<rparr>
     | _ \<Rightarrow> h)"

text \<open>An \<^verbatim>\<open>int32\<close> travels as the varint of its 64-bit sign extension.\<close>

definition type_fields :: "msg_type \<Rightarrow> (nat \<times> wire) list" where
  "type_fields t = (case t of
       MSG_TYPE_NOT_SET \<Rightarrow> []
     | ReqTarget i s \<Rightarrow> [(1, LEN (fields_enc (field_if (i \<noteq> 0) 1 (VARINT (unat i)) @ field_if (s \<noteq> []) 2 (LEN (str_bytes s)))))]
     | RspResult c s \<Rightarrow> [(2, LEN (fields_enc (field_if (c \<noteq> 0) 1 (VARINT (unat (signed_take_bit 31 (ucast c :: u64))))
                                             @ field_if (s \<noteq> []) 2 (LEN (str_bytes s)))))])"

definition body_fields :: "msg_body \<Rightarrow> (nat \<times> wire) list" where
  "body_fields b = type_fields (m_type b)
     @ field_if (data b \<noteq> []) 3 (LEN (data b))
     @ field_if (add_on b \<noteq> []) 4 (LEN (add_on b))
     @ field_if (trace_id b \<noteq> []) 5 (LEN (str_bytes (trace_id b)))"

definition sub_merge :: "nat \<times> wire \<Rightarrow> u32 \<times> string \<Rightarrow> u32 \<times> string" where
  "sub_merge f r = (case f of
       (Suc 0, VARINT n) \<Rightarrow> (of_nat n, snd r)
     | (Suc (Suc 0), LEN bs) \<Rightarrow> (fst r, bytes_str bs)
     | _ \<Rightarrow> r)"

definition sub_dec :: "bytes \<Rightarrow> (u32 \<times> string) option" where
  "sub_dec bs = map_option (\<lambda>fs. fold sub_merge fs (0, [])) (fields_dec (length bs) bs)"

definition body_merge :: "nat \<times> wire \<Rightarrow> msg_body \<Rightarrow> msg_body option" where
  "body_merge f b = (case f of
       (Suc 0, LEN bs) \<Rightarrow> do { (i, s) \<leftarrow> sub_dec bs; Some (b\<lparr>m_type := ReqTarget i s\<rparr>) }
     | (Suc (Suc 0), LEN bs) \<Rightarrow> do { (i, s) \<leftarrow> sub_dec bs; Some (b\<lparr>m_type := RspResult i s\<rparr>) }
     | (Suc (Suc (Suc 0)), LEN bs) \<Rightarrow> Some (b\<lparr>data := bs\<rparr>)
     | (Suc (Suc (Suc (Suc 0))), LEN bs) \<Rightarrow> Some (b\<lparr>add_on := bs\<rparr>)
     | (Suc (Suc (Suc (Suc (Suc 0)))), LEN bs) \<Rightarrow> Some (b\<lparr>trace_id := bytes_str bs\<rparr>)
     | _ \<Rightarrow> Some b)"

fun body_merges :: "(nat \<times> wire) list \<Rightarrow> msg_body \<Rightarrow> msg_body option" where
  "body_merges [] b = Some b"
| "body_merges (f # fs) b = do { b' \<leftarrow> body_merge f b; body_merges fs b' }"

definition proto3 :: protobuf where
  "proto3 = \<lparr>
     ser_head = (\<lambda>h. fields_enc (head_fields h)),
     par_head = (\<lambda>bs. case fields_dec (length bs) bs of
                        None \<Rightarrow> (False, head0) | Some fs \<Rightarrow> (True, fold head_merge fs head0)),
     ser_body = (\<lambda>b. fields_enc (body_fields b)),
     par_body = (\<lambda>bs. case do { fs \<leftarrow> fields_dec (length bs) bs; body_merges fs body0 } of
                        None \<Rightarrow> (False, body0) | Some b \<Rightarrow> (True, b))\<rparr>"

section \<open>The encoding satisfies the contract\<close>

lemma varint_round_trip_Suc: "n < 128 ^ Suc k \<Longrightarrow> varint_dec (Suc k) (varint_enc n @ r) = Some (n, r)"
proof (induction k arbitrary: n)
  case 0
  then show ?case by (subst varint_enc.simps) (simp add: unat_u8_of_nat)
next
  case (Suc k)
  show ?case
  proof (cases "n < 128")
    case True
    then show ?thesis by (subst varint_enc.simps) (simp add: unat_u8_of_nat)
  next
    case False
    define x :: u8 where "x = of_nat (128 + n mod 128)"
    have x: "unat x = 128 + n mod 128" unfolding x_def by (rule unat_u8_of_nat) simp
    have "n div 128 < 128 ^ Suc k" using Suc.prems by (simp add: less_mult_imp_div_less mult.commute)
    with Suc.IH have "varint_dec (Suc k) (varint_enc (n div 128) @ r) = Some (n div 128, r)" .
    moreover have "varint_enc n = x # varint_enc (n div 128)"
      using False by (subst varint_enc.simps) (simp add: x_def)
    ultimately show ?thesis using x by (simp del: varint_dec.simps add: varint_dec.simps(1) [of "Suc k"])
  qed
qed

lemma varint_round_trip: "n < 1180591620717411303424 \<Longrightarrow> varint_dec 10 (varint_enc n @ r) = Some (n, r)"
  using varint_round_trip_Suc [of n 9 r] by simp

lemma varint_enc_nonempty: "varint_enc n \<noteq> []"
  by (subst varint_enc.simps) simp

lemma le32_round_trip: "le32_dec (le32_enc w) = w"
proof -
  define n where "n = unat w"
  have n: "n < 4294967296" using unsigned_less [of w] by (simp add: n_def)
  have d: "n div 65536 = n div 256 div 256" "n div 16777216 = n div 256 div 256 div 256"
    by (simp_all add: div_mult2_eq [symmetric])
  have "n div 256 div 256 div 256 < 256" using n by (simp add: div_mult2_eq [symmetric] less_mult_imp_div_less)
  then have "foldr (\<lambda>x n. unat x + 256 * n) (le32_enc w) 0 = n"
    by (simp add: le32_enc_def Let_def n_def [symmetric] d unsigned_of_nat take_bit_eq_mod)
  then show ?thesis by (simp add: le32_dec_def n_def)
qed

text \<open>A field the encoder writes: a small number and a payload of the right size.\<close>

definition field_ok :: "nat \<times> wire \<Rightarrow> bool" where
  "field_ok f \<longleftrightarrow> 0 < fst f \<and> fst f < 100 \<and> (case snd f of
       VARINT n \<Rightarrow> n < 128 ^ 10 | I64 bs \<Rightarrow> length bs = 8 | LEN bs \<Rightarrow> length bs < 128 ^ 10 | I32 bs \<Rightarrow> length bs = 4)"

lemma take_exact_append: "length x = n \<Longrightarrow> take_exact n (x @ r) = Some (x, r)"
  by (simp add: take_exact_def)

lemma field_dec_tag:
  assumes "k < 8" "0 < num" "num < 100"
  shows "field_dec (varint_enc (8 * num + k) @ r) =
     (if k = 0 then do { (n, r') \<leftarrow> varint_dec 10 r; Some ((num, VARINT n), r') }
     else if k = 1 then do { (x, r') \<leftarrow> take_exact 8 r; Some ((num, I64 x), r') }
     else if k = 2 then do { (n, r') \<leftarrow> varint_dec 10 r; (x, r'') \<leftarrow> take_exact n r'; Some ((num, LEN x), r'') }
     else if k = 5 then do { (x, r') \<leftarrow> take_exact 4 r; Some ((num, I32 x), r') }
     else None)"
proof -
  have "varint_dec 10 (varint_enc (8 * num + k) @ r) = Some (8 * num + k, r)"
    by (rule varint_round_trip) (use assms in simp)
  moreover have "(8 * num + k) div 8 = num" "(8 * num + k) mod 8 = k" using assms(1) by simp_all
  ultimately show ?thesis using assms(2) by (simp add: field_dec_def)
qed

lemma field_round_trip:
  assumes "field_ok f"
  shows "field_dec (field_enc f @ r) = Some (f, r)"
proof -
  obtain num w where f: "f = (num, w)" by (cases f)
  have num: "0 < num" "num < 100" using assms by (simp_all add: field_ok_def f)
  show ?thesis
  proof (cases w)
    case (VARINT n)
    then show ?thesis using assms field_dec_tag [OF _ num, of 0 "varint_enc n @ r"]
      by (simp add: f field_ok_def varint_round_trip)
  next
    case (I64 bs)
    then show ?thesis using assms field_dec_tag [OF _ num, of 1 "bs @ r"]
      by (simp add: f field_ok_def take_exact_append)
  next
    case (LEN bs)
    then show ?thesis using assms field_dec_tag [OF _ num, of 2 "varint_enc (length bs) @ bs @ r"]
      by (simp add: f field_ok_def varint_round_trip take_exact_append)
  next
    case (I32 bs)
    then show ?thesis using assms field_dec_tag [OF _ num, of 5 "bs @ r"]
      by (simp add: f field_ok_def take_exact_append)
  qed
qed

lemma field_enc_nonempty: "field_enc f \<noteq> []"
  by (cases f rule: field_enc.cases) (simp_all add: varint_enc_nonempty)

lemma fields_round_trip:
  "list_all field_ok fs \<Longrightarrow> length fs \<le> n \<Longrightarrow> fields_dec n (fields_enc fs) = Some fs"
proof (induction fs arbitrary: n)
  case Nil
  then show ?case by (simp add: fields_enc_def)
next
  case (Cons f fs)
  then obtain m where n: "n = Suc m" "length fs \<le> m" by (cases n) auto
  obtain x xs where x: "field_enc f @ fields_enc fs = x # xs"
    using field_enc_nonempty [of f] by (cases "field_enc f") auto
  have "field_dec (x # xs) = Some (f, fields_enc fs)"
    using field_round_trip [of f "fields_enc fs"] Cons.prems x by simp
  moreover have "fields_dec m (fields_enc fs) = Some fs" using Cons n by simp
  moreover have "fields_enc (f # fs) = x # xs" using x by (simp add: fields_enc_def)
  ultimately show ?case by (simp add: n(1))
qed

lemma fields_enc_append: "fields_enc (xs @ ys) = fields_enc xs @ fields_enc ys"
  by (simp add: fields_enc_def)

lemma fields_enc_length: "length fs \<le> length (fields_enc fs)"
proof (induction fs)
  case (Cons f fs)
  have "0 < length (field_enc f)" by (simp add: field_enc_nonempty)
  with Cons show ?case unfolding fields_enc_def list.map concat.simps length_append list.size by linarith
qed simp

lemma field_if_simps [simp]:
  "field_if True n w = [(n, w)]" "field_if False n w = []"
  by (simp_all add: field_if_def)

lemma le32_enc_length [simp]: "length (le32_enc w) = 4"
  by (simp add: le32_enc_def Let_def)

lemma head_fields_ok: "list_all field_ok (head_fields h)"
  by (simp add: head_fields_def field_if_def field_ok_def)

lemma head_merge_fields: "fold head_merge (head_fields h) head0 = h"
  by (simp add: head_fields_def field_if_def head_merge_def head0_def le32_round_trip numeral_2_eq_2 numeral_3_eq_3)

lemma head_ser_length:
  "cmd h \<noteq> 0 \<Longrightarrow> seq h \<noteq> 0 \<Longrightarrow> len h \<noteq> 0 \<Longrightarrow> length (fields_enc (head_fields h)) = 15"
  by (simp add: head_fields_def fields_enc_def varint_enc.simps)

lemma payload_length: "(num, LEN bs) \<in> set fs \<Longrightarrow> length bs \<le> length (fields_enc fs)"
  by (induction fs) (auto simp: fields_enc_def)

lemma int32_varint: "(of_nat (unat (signed_take_bit 31 (ucast c :: u64))) :: u32) = c"
proof -
  have "(ucast (signed_take_bit 31 (ucast c :: u64)) :: u32) = c"
    by (rule bit_word_eqI) (auto simp: bit_simps)
  then show ?thesis by (simp add: of_nat_unat)
qed

lemma u64_varint: "unat (w :: u64) < 1180591620717411303424"
proof -
  have "unat w < 2 ^ LENGTH(64)" by (rule unsigned_less)
  then show ?thesis by simp
qed

lemma u32_varint: "unat (w :: u32) < 1180591620717411303424"
proof -
  have "unat w < 2 ^ LENGTH(32)" by (rule unsigned_less)
  then show ?thesis by simp
qed

lemma int32_zero: "unat (signed_take_bit 31 (ucast (c :: u32) :: u64)) = 0 \<longleftrightarrow> c = 0"
proof
  assume "unat (signed_take_bit 31 (ucast c :: u64)) = 0"
  with int32_varint [of c] show "c = 0" by simp
qed simp

lemma sub_round_trip:
  assumes "of_nat n = i" "n < 1180591620717411303424" "length (str_bytes s) < 1180591620717411303424" "n = 0 \<longleftrightarrow> i = 0"
  shows "sub_dec (fields_enc (field_if (i \<noteq> 0) 1 (VARINT n) @ field_if (s \<noteq> []) 2 (LEN (str_bytes s)))) = Some (i, s)"
proof -
  define fs where "fs = field_if (i \<noteq> 0) 1 (VARINT n) @ field_if (s \<noteq> []) 2 (LEN (str_bytes s))"
  have "list_all field_ok fs" using assms by (simp add: fs_def field_if_def field_ok_def)
  then have "fields_dec (length (fields_enc fs)) (fields_enc fs) = Some fs"
    by (rule fields_round_trip [OF _ fields_enc_length])
  moreover have "fold sub_merge fs (0, []) = (i, s)"
    using assms(1,4) by (auto simp: fs_def field_if_def sub_merge_def str_round_trip numeral_2_eq_2)
  ultimately show ?thesis by (simp add: sub_dec_def fs_def)
qed

lemma merge_data [simp]:
  "body_merge (3, LEN bs) b = Some (b\<lparr>data := bs\<rparr>)"
  "body_merge (4, LEN bs) b = Some (b\<lparr>add_on := bs\<rparr>)"
  "body_merge (5, LEN bs) b = Some (b\<lparr>trace_id := bytes_str bs\<rparr>)"
  by (simp_all add: body_merge_def numeral_eq_Suc)

lemma body_merges_append: "body_merges (xs @ ys) b = do { b' \<leftarrow> body_merges xs b; body_merges ys b' }"
  by (induction xs arbitrary: b) (auto split: Option.bind_splits)

lemma type_round_trip:
  assumes "length (fields_enc (type_fields t)) < 1180591620717411303424"
  shows "list_all field_ok (type_fields t) \<and> body_merges (type_fields t) body0 = Some (body0\<lparr>m_type := t\<rparr>)"
proof (cases t)
  case MSG_TYPE_NOT_SET
  then show ?thesis by (simp add: type_fields_def body0_def)
next
  case (ReqTarget i s)
  define sub where "sub = field_if (i \<noteq> 0) 1 (VARINT (unat i)) @ field_if (s \<noteq> []) 2 (LEN (str_bytes s))"
  have t: "type_fields t = [(1, LEN (fields_enc sub))]" by (simp add: ReqTarget type_fields_def sub_def)
  have l: "length (fields_enc sub) < 1180591620717411303424"
    using payload_length [of 1 "fields_enc sub" "type_fields t"] assms by (simp add: t)
  have "length (str_bytes s) < 1180591620717411303424"
    using payload_length [of 2 "str_bytes s" sub] l by (cases "s = []") (simp_all add: sub_def str_bytes_def)
  then have "sub_dec (fields_enc sub) = Some (i, s)"
    unfolding sub_def by (intro sub_round_trip) (simp_all add: u32_varint unsigned_eq_0_iff)
  then show ?thesis unfolding t using l by (simp add: field_ok_def body_merge_def ReqTarget)
next
  case (RspResult c s)
  define sub where "sub = field_if (c \<noteq> 0) 1 (VARINT (unat (signed_take_bit 31 (ucast c :: u64)))) @ field_if (s \<noteq> []) 2 (LEN (str_bytes s))"
  have t: "type_fields t = [(2, LEN (fields_enc sub))]" by (simp add: RspResult type_fields_def sub_def)
  have l: "length (fields_enc sub) < 1180591620717411303424"
    using payload_length [of 2 "fields_enc sub" "type_fields t"] assms by (simp add: t)
  have "length (str_bytes s) < 1180591620717411303424"
    using payload_length [of 2 "str_bytes s" sub] l by (cases "s = []") (simp_all add: sub_def str_bytes_def)
  then have "sub_dec (fields_enc sub) = Some (c, s)"
    unfolding sub_def by (intro sub_round_trip int32_varint u64_varint int32_zero)
  then show ?thesis unfolding t using l by (simp add: field_ok_def body_merge_def RspResult numeral_2_eq_2)
qed

lemma body_round_trip:
  assumes "length (fields_enc (body_fields b)) < 1180591620717411303424"
  shows "list_all field_ok (body_fields b) \<and> body_merges (body_fields b) body0 = Some b"
proof -
  have parts: "length (fields_enc (type_fields (m_type b))) < 1180591620717411303424"
    using assms by (simp add: body_fields_def fields_enc_append)
  have small: "(n, LEN bs) \<in> set (body_fields b) \<Longrightarrow> length bs < 1180591620717411303424" for n bs
    using payload_length [of n bs "body_fields b"] assms by linarith
  have "data b \<noteq> [] \<Longrightarrow> length (data b) < 1180591620717411303424"
    "add_on b \<noteq> [] \<Longrightarrow> length (add_on b) < 1180591620717411303424"
    "trace_id b \<noteq> [] \<Longrightarrow> length (str_bytes (trace_id b)) < 1180591620717411303424"
    using small [of 3 "data b"] small [of 4 "add_on b"] small [of 5 "str_bytes (trace_id b)"]
    by (simp_all add: body_fields_def)
  then have "list_all field_ok (body_fields b)"
    using type_round_trip [OF parts] by (simp add: body_fields_def field_if_def field_ok_def)
  moreover have "body_merges (body_fields b) body0 = Some b"
    using type_round_trip [OF parts]
    by (simp add: body_fields_def body_merges_append field_if_def str_round_trip body0_def)
  ultimately show ?thesis by blast
qed

interpretation pw: proto_wire proto3
proof unfold_locales
  show "par_head proto3 (ser_head proto3 h) = (True, h)" for h
    by (simp add: proto3_def fields_round_trip [OF head_fields_ok fields_enc_length] head_merge_fields)
  show "par_body proto3 (ser_body proto3 b) = (True, b)" if "int (length (ser_body proto3 b)) \<le> INT_MAX" for b
  proof -
    have "length (fields_enc (body_fields b)) < 1180591620717411303424"
      using that by (simp add: proto3_def INT_MAX_def)
    with body_round_trip [of b] show ?thesis
      by (simp add: proto3_def fields_round_trip [OF _ fields_enc_length])
  qed
  show "cmd h \<noteq> 0 \<Longrightarrow> seq h \<noteq> 0 \<Longrightarrow> len h \<noteq> 0 \<Longrightarrow> length (ser_head proto3 h) = 15" for h
    by (simp add: proto3_def head_ser_length)
qed

text \<open>Proto3 leaves a zero field out: a head without a length is five bytes shorter.\<close>

lemma proto3_short_head:
  "cmd h \<noteq> 0 \<Longrightarrow> seq h \<noteq> 0 \<Longrightarrow> len h = 0 \<Longrightarrow> length (ser_head proto3 h) = 10"
  by (simp add: proto3_def head_fields_def fields_enc_def varint_enc.simps)

text \<open>A zero byte after the fields is a tag with field number 0, which does not parse.\<close>

lemma fields_dec_zero_tag:
  "list_all field_ok fs \<Longrightarrow> fields_dec n (fields_enc fs @ 0 # r) = None"
proof (induction fs arbitrary: n)
  case Nil
  have "field_dec (0 # r) = None"
    using varint_round_trip [of 0 r] by (simp add: field_dec_def varint_enc.simps)
  then show ?case by (cases n) (simp_all add: fields_enc_def)
next
  case (Cons f fs)
  obtain x xs where x: "field_enc f @ fields_enc fs @ 0 # r = x # xs"
    using field_enc_nonempty [of f] by (cases "field_enc f") auto
  have "field_dec (x # xs) = Some (f, fields_enc fs @ 0 # r)"
    using field_round_trip [of f "fields_enc fs @ 0 # r"] Cons.prems x by simp
  moreover have "fields_enc (f # fs) @ 0 # r = x # xs" using x by (simp add: fields_enc_def)
  ultimately show ?case using Cons by (cases n) simp_all
qed

lemma proto3_zero_tag: "fst (par_head proto3 (ser_head proto3 h @ 0 # r)) = False"
  by (simp add: proto3_def fields_dec_zero_tag [OF head_fields_ok])

end
