(* ===== verification/Server.thy ===== *)
theory Server
  imports Prelude
begin

text \<open>
  What the files of the server share: the pair of a descriptor and a connection id
  (\<^verbatim>\<open>src/src/core/server.h\<close>), the error codes (\<^verbatim>\<open>error.h\<close>) and the numbers of the system commands
  (\<^verbatim>\<open>protocol.h\<close>). Error codes are \<^verbatim>\<open>int\<close> values in the source, where some functions return a
  \<^verbatim>\<open>bool\<close> in their place, and they are integers here.
\<close>

record fd_t =
  ft_fd :: int
  ft_id :: nat

definition no_fd :: fd_t where
  "no_fd = \<lparr>ft_fd = - 1, ft_id = 0\<rparr>"

definition IO_TIMEOUT_VAL :: nat where
  "IO_TIMEOUT_VAL = 15000"

definition CONFIG_MIN_RESERVED_FDS :: int where
  "CONFIG_MIN_RESERVED_FDS = 128"

definition MAX_ACCEPTS_PER_CALL :: int where
  "MAX_ACCEPTS_PER_CALL = 1000"

text \<open>The value of \<^verbatim>\<open>EAGAIN\<close> on Linux.\<close>

definition EAGAIN :: int where
  "EAGAIN = 11"

section \<open>Error codes\<close>

definition ERR_OK :: int where
  "ERR_OK = 0"

definition ERR_FAILED :: int where
  "ERR_FAILED = 1"

definition ERR_INVALID_MSG_DATA :: int where
  "ERR_INVALID_MSG_DATA = 2"

definition ERR_INVALID_WORKER_INDEX :: int where
  "ERR_INVALID_WORKER_INDEX = 3"

definition ERR_UNKOWN_CMD :: int where
  "ERR_UNKOWN_CMD = 4"

definition ERR_INVALID_PARAMS :: int where
  "ERR_INVALID_PARAMS = 5"

definition ERR_INVALID_CONN :: int where
  "ERR_INVALID_CONN = 6"

definition ERR_SEND_DATA_FAILED :: int where
  "ERR_SEND_DATA_FAILED = 7"

definition ERR_ENCODE_DATA_FAILED :: int where
  "ERR_ENCODE_DATA_FAILED = 8"

definition ERR_INVALID_PROCESS_TYPE :: int where
  "ERR_INVALID_PROCESS_TYPE = 9"

definition ERR_INVALID_PROTOBUF_PACKET :: int where
  "ERR_INVALID_PROTOBUF_PACKET = 10"

definition ERR_INVALID_RESPONSE :: int where
  "ERR_INVALID_RESPONSE = 11"

definition ERR_TRANSFER_FD_FAILED :: int where
  "ERR_TRANSFER_FD_FAILED = 12"

definition ERR_TRANSFER_FD_DONE :: int where
  "ERR_TRANSFER_FD_DONE = 13"

definition ERR_NODE_CONNECT_FAILED :: int where
  "ERR_NODE_CONNECT_FAILED = 14"

definition ERR_CAN_NOT_FIND_NODE :: int where
  "ERR_CAN_NOT_FIND_NODE = 15"

definition ERR_CAN_NOT_FIND_CONN :: int where
  "ERR_CAN_NOT_FIND_CONN = 16"

definition ERR_READ_DATA_FAILED :: int where
  "ERR_READ_DATA_FAILED = 17"

definition ERR_READ_DATA_TIMEOUT :: int where
  "ERR_READ_DATA_TIMEOUT = 18"

definition ERR_PACKET_DECODE_FAILED :: int where
  "ERR_PACKET_DECODE_FAILED = 19"

definition ERR_CONN_CLOSED :: int where
  "ERR_CONN_CLOSED = 20"

definition ERR_DB_MGR_EXIT :: int where
  "ERR_DB_MGR_EXIT = 21"

definition ERR_REDIS_CONNECT_FAILED :: int where
  "ERR_REDIS_CONNECT_FAILED = 11001"

definition ERR_REDIS_DISCONNECT :: int where
  "ERR_REDIS_DISCONNECT = 11002"

definition ERR_REDIS_CALLBACK :: int where
  "ERR_REDIS_CALLBACK = 11003"

definition ERR_REDIS_READ_FAILED :: int where
  "ERR_REDIS_READ_FAILED = 11003"

definition ERR_REDIS_WRITE_FAILED :: int where
  "ERR_REDIS_WRITE_FAILED = 11004"

definition ERR_REDIS_NO_CONNCTION :: int where
  "ERR_REDIS_NO_CONNCTION = 11005"

definition ERR_REDIS_TASKS_OVER_LIMIT :: int where
  "ERR_REDIS_TASKS_OVER_LIMIT = 11006"

definition ERR_REDIS_TASKS_CLEAR :: int where
  "ERR_REDIS_TASKS_CLEAR = 11007"

definition ERR_REDIS_APPEND_CMD_FAILED :: int where
  "ERR_REDIS_APPEND_CMD_FAILED = 11008"

definition ERR_REDIS_GET_REPLY_FAILED :: int where
  "ERR_REDIS_GET_REPLY_FAILED = 11009"

definition ERR_DB_FAILED :: int where
  "ERR_DB_FAILED = 12001"

definition ERR_DB_GET_CONNECTION :: int where
  "ERR_DB_GET_CONNECTION = 12002"

definition ERR_DB_INVALID_QUERY_SQL :: int where
  "ERR_DB_INVALID_QUERY_SQL = 12003"

definition ERR_DB_QUERY_FAILED :: int where
  "ERR_DB_QUERY_FAILED = 12004"

definition ERR_DB_EXEC_FAILED :: int where
  "ERR_DB_EXEC_FAILED = 12005"

definition ERR_DB_CAN_NOT_FIND_NODE :: int where
  "ERR_DB_CAN_NOT_FIND_NODE = 12006"

definition ERR_DB_TASKS_OVER_LIMIT :: int where
  "ERR_DB_TASKS_OVER_LIMIT = 12007"

definition ERR_DB_TASKS_TIME_OUT :: int where
  "ERR_DB_TASKS_TIME_OUT = 12008"

definition ERR_DB_CONNECT_FAILED :: int where
  "ERR_DB_CONNECT_FAILED = 12009"

lemmas err_defs =
  ERR_OK_def
  ERR_FAILED_def
  ERR_INVALID_MSG_DATA_def
  ERR_INVALID_WORKER_INDEX_def
  ERR_UNKOWN_CMD_def
  ERR_INVALID_PARAMS_def
  ERR_INVALID_CONN_def
  ERR_SEND_DATA_FAILED_def
  ERR_ENCODE_DATA_FAILED_def
  ERR_INVALID_PROCESS_TYPE_def
  ERR_INVALID_PROTOBUF_PACKET_def
  ERR_INVALID_RESPONSE_def
  ERR_TRANSFER_FD_FAILED_def
  ERR_TRANSFER_FD_DONE_def
  ERR_NODE_CONNECT_FAILED_def
  ERR_CAN_NOT_FIND_NODE_def
  ERR_CAN_NOT_FIND_CONN_def
  ERR_READ_DATA_FAILED_def
  ERR_READ_DATA_TIMEOUT_def
  ERR_PACKET_DECODE_FAILED_def
  ERR_CONN_CLOSED_def
  ERR_DB_MGR_EXIT_def
  ERR_REDIS_CONNECT_FAILED_def
  ERR_REDIS_DISCONNECT_def
  ERR_REDIS_CALLBACK_def
  ERR_REDIS_READ_FAILED_def
  ERR_REDIS_WRITE_FAILED_def
  ERR_REDIS_NO_CONNCTION_def
  ERR_REDIS_TASKS_OVER_LIMIT_def
  ERR_REDIS_TASKS_CLEAR_def
  ERR_REDIS_APPEND_CMD_FAILED_def
  ERR_REDIS_GET_REPLY_FAILED_def
  ERR_DB_FAILED_def
  ERR_DB_GET_CONNECTION_def
  ERR_DB_INVALID_QUERY_SQL_def
  ERR_DB_QUERY_FAILED_def
  ERR_DB_EXEC_FAILED_def
  ERR_DB_CAN_NOT_FIND_NODE_def
  ERR_DB_TASKS_OVER_LIMIT_def
  ERR_DB_TASKS_TIME_OUT_def
  ERR_DB_CONNECT_FAILED_def

section \<open>System commands\<close>

definition CMD_UNKNOWN :: int where
  "CMD_UNKNOWN = 0"

definition CMD_REQ_CONNECT_TO_WORKER :: int where
  "CMD_REQ_CONNECT_TO_WORKER = 21"

definition CMD_RSP_CONNECT_TO_WORKER :: int where
  "CMD_RSP_CONNECT_TO_WORKER = 22"

definition CMD_REQ_TELL_WORKER :: int where
  "CMD_REQ_TELL_WORKER = 23"

definition CMD_RSP_TELL_WORKER :: int where
  "CMD_RSP_TELL_WORKER = 24"

definition CMD_REQ_HEART_BEAT :: int where
  "CMD_REQ_HEART_BEAT = 31"

definition CMD_RSP_HEART_BEAT :: int where
  "CMD_RSP_HEART_BEAT = 32"

definition CMD_REQ_ADD_ZK_NODE :: int where
  "CMD_REQ_ADD_ZK_NODE = 41"

definition CMD_RSP_ADD_ZK_NODE :: int where
  "CMD_RSP_ADD_ZK_NODE = 42"

definition CMD_REQ_DEL_ZK_NODE :: int where
  "CMD_REQ_DEL_ZK_NODE = 43"

definition CMD_RSP_DEL_ZK_NODE :: int where
  "CMD_RSP_DEL_ZK_NODE = 44"

definition CMD_REQ_SYNC_ZK_NODES :: int where
  "CMD_REQ_SYNC_ZK_NODES = 45"

definition CMD_RSP_SYNC_ZK_NODES :: int where
  "CMD_RSP_SYNC_ZK_NODES = 46"

definition CMD_REQ_REGISTER_NODE :: int where
  "CMD_REQ_REGISTER_NODE = 47"

definition CMD_RSP_REGISTER_NODE :: int where
  "CMD_RSP_REGISTER_NODE = 48"

definition CMD_REQ_UPDATE_PAYLOAD :: int where
  "CMD_REQ_UPDATE_PAYLOAD = 49"

definition CMD_RSP_UPDATE_PAYLOAD :: int where
  "CMD_RSP_UPDATE_PAYLOAD = 50"

definition CMD_SYS_END :: int where
  "CMD_SYS_END = 999"

lemmas cmd_defs =
  CMD_UNKNOWN_def
  CMD_REQ_CONNECT_TO_WORKER_def
  CMD_RSP_CONNECT_TO_WORKER_def
  CMD_REQ_TELL_WORKER_def
  CMD_RSP_TELL_WORKER_def
  CMD_REQ_HEART_BEAT_def
  CMD_RSP_HEART_BEAT_def
  CMD_REQ_ADD_ZK_NODE_def
  CMD_RSP_ADD_ZK_NODE_def
  CMD_REQ_DEL_ZK_NODE_def
  CMD_RSP_DEL_ZK_NODE_def
  CMD_REQ_SYNC_ZK_NODES_def
  CMD_RSP_SYNC_ZK_NODES_def
  CMD_REQ_REGISTER_NODE_def
  CMD_RSP_REGISTER_NODE_def
  CMD_REQ_UPDATE_PAYLOAD_def
  CMD_RSP_UPDATE_PAYLOAD_def
  CMD_SYS_END_def

end
