(* ===== verification/Codec.thy ===== *)
theory Codec
  imports SocketBuffer ProtoWire Server
begin

text \<open>
  Message framing (\<^verbatim>\<open>src/src/core/codec/codec.h\<close>, \<^verbatim>\<open>codec.cpp\<close>, \<^verbatim>\<open>codec_proto.cpp\<close>, \<^verbatim>\<open>msg.h\<close>): a
  fixed head of 15 bytes followed by a body whose length the head carries. The protobuf library is
  the parameter \<open>p\<close>, the allocator the parameter \<open>h\<close>. The result \<open>None\<close> is a call with undefined
  behaviour (signed overflow) or one that does not return. Locale \<open>framing\<close> is what the connection
  relies on: frames come out of a byte stream as they were put in, and an incomplete frame is left
  alone.
\<close>

section \<open>Data\<close>

datatype codec_type = UNKNOWN | PROTOBUF | HTTP | PRIVATE | COUNT

datatype status = OK | ERR | PAUSE | CLOSED

record msg =
  m_ft :: fd_t
  m_is_http :: bool
  m_msg_head :: msg_head
  m_msg_body :: msg_body

definition new_msg :: "fd_t \<Rightarrow> msg" where
  "new_msg ft = \<lparr>m_ft = ft, m_is_http = False, m_msg_head = head0, m_msg_body = body0\<rparr>"

definition PROTO_MSG_HEAD_LEN :: nat where
  "PROTO_MSG_HEAD_LEN = 15"

section \<open>Codec types\<close>

definition type_num :: "codec_type \<Rightarrow> int" where
  "type_num t = (case t of UNKNOWN \<Rightarrow> 0 | PROTOBUF \<Rightarrow> 1 | HTTP \<Rightarrow> 2 | PRIVATE \<Rightarrow> 3 | COUNT \<Rightarrow> 4)"

text \<open>The new value of \<^verbatim>\<open>m_codec\<close> and the return value.\<close>

definition set_codec :: "codec_type \<Rightarrow> codec_type \<Rightarrow> bool \<times> codec_type" where
  "set_codec t m_codec =
     (if type_num t < type_num UNKNOWN \<or> type_num t \<ge> type_num COUNT then (False, m_codec) else (True, t))"

definition to_lower_char :: "char \<Rightarrow> char" where
  "to_lower_char c = (let n = of_char c :: nat in if 65 \<le> n \<and> n \<le> 90 then char_of (n + 32) else c)"

definition strcasecmp_eq :: "string \<Rightarrow> string \<Rightarrow> bool" where
  "strcasecmp_eq a b \<longleftrightarrow> map to_lower_char (c_str a) = map to_lower_char (c_str b)"

definition get_codec_type :: "string \<Rightarrow> codec_type" where
  "get_codec_type t =
     (if strcasecmp_eq t ''protobuf'' then PROTOBUF
      else if strcasecmp_eq t ''http'' then HTTP
      else if strcasecmp_eq t ''private'' then PRIVATE
      else UNKNOWN)"

section \<open>CodecProto\<close>

text \<open>
  \<^verbatim>\<open>_write(s.c_str(), n)\<close> reads \<open>n\<close> bytes from the start of a C string: the string, its terminating
  zero, then whatever the memory behind it holds (\<open>junk\<close>).
\<close>

definition c_read :: "(nat \<Rightarrow> u8) \<Rightarrow> nat \<Rightarrow> bytes \<Rightarrow> bytes" where
  "c_read junk n s = take n (s @ 0 # map junk [0..<n])"

definition proto_encode :: "protobuf \<Rightarrow> heap \<Rightarrow> (nat \<Rightarrow> u8) \<Rightarrow> msg \<Rightarrow> sbuf \<Rightarrow> (status \<times> sbuf) option" where
  "proto_encode p h junk m b =
     (let hd = m_msg_head m; body_bytes = ser_body p (m_msg_body m); body_len = length body_bytes
      in do {
        (write_len, b1) \<leftarrow> sb_write h (c_read junk PROTO_MSG_HEAD_LEN (ser_head p hd)) b;
        if write_len \<noteq> int PROTO_MSG_HEAD_LEN then Some (ERR, b1)
        else if sint (len hd) \<le> 0 then Some (OK, b1)
        else do {
          (write_len2, b2) \<leftarrow> sb_write h body_bytes b1;
          if write_len2 \<noteq> i32 (int body_len)
          then Some (ERR, set_write_index (sz (int (m_write_idx b2) - write_len)) b2)
          else Some (OK, b2)
        }
      })"

definition proto_decode :: "protobuf \<Rightarrow> sbuf \<Rightarrow> msg \<Rightarrow> (status \<times> sbuf \<times> msg) option" where
  "proto_decode p b m =
     (if readable_len b < PROTO_MSG_HEAD_LEN then Some (PAUSE, b, m)
      else let (ret, hd) = par_head p (take PROTO_MSG_HEAD_LEN (drop (m_read_idx b) (m_buffer b)));
               m1 = m\<lparr>m_msg_head := hd\<rparr>
           in if \<not> ret then Some (ERR, b, m1)
              else if sint (len hd) \<le> 0 then Some (OK, skip_bytes PROTO_MSG_HEAD_LEN b, m1)
              else if int PROTO_MSG_HEAD_LEN + sint (len hd) > INT_MAX then None
              else if i32 (int (readable_len b)) < int PROTO_MSG_HEAD_LEN + sint (len hd) then Some (PAUSE, b, m1)
              else let (ret2, bd) = par_body p (take (nat (sint (len hd)))
                                      (drop (m_read_idx b + PROTO_MSG_HEAD_LEN) (m_buffer b)));
                       m2 = m1\<lparr>m_msg_body := bd\<rparr>
                   in if \<not> ret2 then Some (ERR, b, m2)
                      else Some (OK, skip_bytes (PROTO_MSG_HEAD_LEN + nat (sint (len hd))) b, m2))"

text \<open>The null checks of the two methods.\<close>

definition encode :: "protobuf \<Rightarrow> heap \<Rightarrow> (nat \<Rightarrow> u8) \<Rightarrow> msg option \<Rightarrow> sbuf option \<Rightarrow> (status \<times> sbuf option) option" where
  "encode p h junk mo bo = (case (mo, bo) of
       (Some m, Some b) \<Rightarrow> map_option (\<lambda>(st, b'). (st, Some b')) (proto_encode p h junk m b)
     | _ \<Rightarrow> Some (ERR, bo))"

definition decode :: "protobuf \<Rightarrow> sbuf option \<Rightarrow> msg option \<Rightarrow> (status \<times> sbuf option \<times> msg option) option" where
  "decode p bo mo = (case (bo, mo) of
       (Some b, Some m) \<Rightarrow> map_option (\<lambda>(st, b', m'). (st, Some b', Some m')) (proto_decode p b m)
     | _ \<Rightarrow> Some (ERR, bo, mo))"

text \<open>\<^verbatim>\<open>gzip\<close> and \<^verbatim>\<open>ungzip\<close>: the compression library is a parameter that answers \<open>None\<close> for its exception.\<close>

definition codec_gzip :: "(bytes \<Rightarrow> bytes option) \<Rightarrow> bytes \<Rightarrow> bytes \<Rightarrow> bool \<times> bytes" where
  "codec_gzip gz src dst =
     (case gz src of None \<Rightarrow> (False, dst) | Some out \<Rightarrow> (True, if out = [] then dst else out))"

definition codec_ungzip :: "(bytes \<Rightarrow> bytes option) \<Rightarrow> bytes \<Rightarrow> bytes \<Rightarrow> bool \<times> bytes" where
  "codec_ungzip unzip src dst =
     (case unzip src of None \<Rightarrow> (False, dst) | Some out \<Rightarrow> (True, if out = [] then dst else out))"

section \<open>Frames\<close>

definition frame :: "protobuf \<Rightarrow> msg \<Rightarrow> bytes" where
  "frame p m = ser_head p (m_msg_head m) @ ser_body p (m_msg_body m)"

text \<open>A message the server sends with a body: non-zero command, sequence number and length, and the
  length is that of the body.\<close>

definition sendable :: "protobuf \<Rightarrow> msg \<Rightarrow> bool" where
  "sendable p m \<longleftrightarrow> cmd (m_msg_head m) \<noteq> 0 \<and> seq (m_msg_head m) \<noteq> 0 \<and>
     sint (len (m_msg_head m)) = int (length (ser_body p (m_msg_body m))) \<and>
     0 < length (ser_body p (m_msg_body m)) \<and> int (length (ser_body p (m_msg_body m))) \<le> INT_MAX - 15"

definition same_content :: "msg \<Rightarrow> msg \<Rightarrow> bool" where
  "same_content m m' \<longleftrightarrow> m_msg_head m = m_msg_head m' \<and> m_msg_body m = m_msg_body m'"

text \<open>Decoding until the decoder stops saying OK, with the object cleared in between; the fuel is a
  bound on the number of frames.\<close>

fun drain :: "nat \<Rightarrow> ('b \<Rightarrow> 'm \<Rightarrow> (status \<times> 'b \<times> 'm) option) \<Rightarrow> 'm \<Rightarrow> 'b \<Rightarrow> (status \<times> 'm list \<times> 'b) option" where
  "drain 0 dec m0 b = None"
| "drain (Suc n) dec m0 b = do {
     (st, b1, m1) \<leftarrow> dec b m0;
     if st = OK then do {
       (st', ms, b2) \<leftarrow> drain n dec m0 b1;
       Some (st', m1 # ms, b2)
     } else Some (st, [], b1)
   }"

fun encode_all :: "protobuf \<Rightarrow> heap \<Rightarrow> (nat \<Rightarrow> u8) \<Rightarrow> msg list \<Rightarrow> sbuf \<Rightarrow> (status list \<times> sbuf) option" where
  "encode_all p h junk [] b = Some ([], b)"
| "encode_all p h junk (m # ms) b = do {
     (st, b1) \<leftarrow> proto_encode p h junk m b;
     (sts, b2) \<leftarrow> encode_all p h junk ms b1;
     Some (st # sts, b2)
   }"

section \<open>The contract of a framing\<close>

locale framing =
  fixes content :: "'b \<Rightarrow> bytes"
    and ok :: "'b \<Rightarrow> bool"
    and dec :: "'b \<Rightarrow> 'm \<Rightarrow> (status \<times> 'b \<times> 'm) option"
    and frm :: "'m \<Rightarrow> bytes"
    and good :: "'m \<Rightarrow> bool"
    and same :: "'m \<Rightarrow> 'm \<Rightarrow> bool"
  assumes dec_frame: "ok b \<Longrightarrow> good m \<Longrightarrow> content b = frm m @ rest \<Longrightarrow>
      \<exists>b' m'. dec b m0 = Some (OK, b', m') \<and> same m' m \<and> ok b' \<and> content b' = rest"
    and dec_partial: "ok b \<Longrightarrow> good m \<Longrightarrow> content b @ rest = frm m \<Longrightarrow> rest \<noteq> [] \<Longrightarrow>
      \<exists>m'. dec b m0 = Some (PAUSE, b, m')"
begin

lemma drain_frames:
  assumes "ok b" "list_all good ms" "good mx" "content b = concat (map frm ms) @ pre"
    "pre @ post = frm mx" "post \<noteq> []" "length ms < n"
  shows "\<exists>ms' b'. drain n dec m0 b = Some (PAUSE, ms', b') \<and> list_all2 same ms' ms \<and> ok b' \<and> content b' = pre"
  using assms
proof (induction ms arbitrary: b n)
  case Nil
  then obtain k where n: "n = Suc k" by (cases n) auto
  from Nil dec_partial [of b mx post m0] obtain m' where "dec b m0 = Some (PAUSE, b, m')" by auto
  then show ?case using Nil n by simp
next
  case (Cons m ms)
  then obtain k where n: "n = Suc k" "length ms < k" by (cases n) auto
  from Cons.prems dec_frame [of b m "concat (map frm ms) @ pre" m0] obtain b' m'
    where d: "dec b m0 = Some (OK, b', m')" "same m' m" "ok b'" "content b' = concat (map frm ms) @ pre" by auto
  with Cons.IH [of b' k] Cons.prems n show ?case by auto
qed

text \<open>A proper beginning of a frame contains no complete frame.\<close>

lemma cut_has_no_frame:
  assumes "ok b" "content b = concat (map frm ms) @ pre" "content b @ rest = frm my" "rest \<noteq> []" "good my" "list_all good ms"
  shows "ms = []"
proof (cases ms)
  case (Cons m ms')
  fix m0
  from Cons assms dec_frame [of b m "concat (map frm ms') @ pre" m0] have "\<exists>b' m'. dec b m0 = Some (OK, b', m')" by auto
  moreover from assms dec_partial [of b my rest m0] have "\<exists>m'. dec b m0 = Some (PAUSE, b, m')" by auto
  ultimately show ?thesis by auto
qed

text \<open>A cut of the stream at any place falls after some of the frames and inside the next one.\<close>

lemma split_stream:
  assumes "front @ back = concat (map frm ms) @ pre" "pre @ post = frm mx" "post \<noteq> []" "good mx" "list_all good ms"
    "\<And>m. good m \<Longrightarrow> frm m \<noteq> []"
  shows "\<exists>ms1 ms2 cut rest my. ms = ms1 @ ms2 \<and> front = concat (map frm ms1) @ cut \<and> cut @ rest = frm my \<and>
     rest \<noteq> [] \<and> good my \<and> cut @ back = concat (map frm ms2) @ pre"
  using assms(1,5)
proof (induction ms arbitrary: front)
  case Nil
  then have "front @ back = pre" by simp
  then show ?case
    using assms(2-4) by (intro exI [of _ "[]"] exI [of _ front] exI [of _ "back @ post"] exI [of _ mx]) auto
next
  case (Cons m ms)
  show ?case
  proof (cases "length front < length (frm m)")
    case True
    with Cons.prems(1) have "front @ drop (length front) (frm m) = frm m"
      by (auto simp: append_eq_append_conv2 append_eq_conv_conj)
    then show ?thesis
      using Cons.prems True by (intro exI [of _ "[]"] exI [of _ "m # ms"] exI [of _ front] exI [of _ "drop (length front) (frm m)"]
          exI [of _ m]) auto
  next
    case False
    then obtain front' where f: "front = frm m @ front'"
      using Cons.prems(1) by (auto simp: append_eq_append_conv2 append_eq_conv_conj)
    with Cons.prems Cons.IH [of front'] obtain ms1 ms2 cut rest my where
      "ms = ms1 @ ms2" "front' = concat (map frm ms1) @ cut" "cut @ rest = frm my" "rest \<noteq> []" "good my"
      "cut @ back = concat (map frm ms2) @ pre" by auto
    then show ?thesis
      using f by (intro exI [of _ "m # ms1"] exI [of _ ms2] exI [of _ cut] exI [of _ rest] exI [of _ my]) simp
  qed
qed

end

section \<open>Lemmas\<close>

lemma c_read_exact: "length s = n \<Longrightarrow> c_read junk n s = s"
  by (simp add: c_read_def)

lemma c_read_length: "length (c_read junk n s) = n"
  by (simp add: c_read_def)

lemma sendable_head_length: "proto_wire p \<Longrightarrow> sendable p m \<Longrightarrow> length (ser_head p (m_msg_head m)) = 15"
  by (auto simp: sendable_def intro!: proto_wire.ser_head_length)

lemma raw_read: "n \<le> readable_len b \<Longrightarrow> take n (drop (m_read_idx b) (m_buffer b)) = take n (readable b)"
  by (simp add: readable_def min_absorb2)

lemma raw_read_at: "k + n \<le> readable_len b \<Longrightarrow>
   take n (drop (m_read_idx b + k) (m_buffer b)) = take n (drop k (readable b))"
  by (simp add: readable_def drop_take add.commute min_def)

lemma decode_frame:
  assumes p: "proto_wire p" and ok: "sb_ok b" "sb_fits 0 b" and m: "sendable p m"
    and c: "readable b = frame p m @ rest" and small: "int (readable_len b) \<le> INT_MAX"
  shows "proto_decode p b m0 = Some (OK, skip_bytes (length (frame p m)) b,
           m0\<lparr>m_msg_head := m_msg_head m, m_msg_body := m_msg_body m\<rparr>)"
proof -
  define hb bb where "hb = ser_head p (m_msg_head m)" and "bb = ser_body p (m_msg_body m)"
  have l: "length hb = 15" "sint (len (m_msg_head m)) = int (length bb)" "0 < length bb" "int (length bb) \<le> INT_MAX - 15"
    using sendable_head_length [OF p m] m by (simp_all add: sendable_def hb_def bb_def)
  have r: "readable b = hb @ bb @ rest" using c by (simp add: frame_def hb_def bb_def)
  then have n: "15 + length bb \<le> readable_len b" using readable_length [OF ok(1)] l(1) by simp
  have "take 15 (drop (m_read_idx b) (m_buffer b)) = hb" using raw_read [of 15 b] n r l(1) by simp
  moreover have "take (length bb) (drop (m_read_idx b + 15) (m_buffer b)) = bb"
    using raw_read_at [of 15 "length bb" b] n r l(1) by simp
  moreover have "par_head p hb = (True, m_msg_head m)" "par_body p bb = (True, m_msg_body m)"
    using proto_wire.par_ser_head [OF p] proto_wire.par_ser_body [OF p, of "m_msg_body m"] l(4)
    by (simp_all add: hb_def bb_def)
  ultimately show ?thesis
    using l n small by (simp add: proto_decode_def PROTO_MSG_HEAD_LEN_def frame_def hb_def [symmetric]
        bb_def [symmetric] Let_def INT_MAX_def)
qed

lemma decode_partial:
  assumes p: "proto_wire p" and ok: "sb_ok b" and m: "sendable p m"
    and c: "readable b @ rest = frame p m" "rest \<noteq> []"
  shows "\<exists>m'. proto_decode p b m0 = Some (PAUSE, b, m')"
proof -
  define hb bb where "hb = ser_head p (m_msg_head m)" and "bb = ser_body p (m_msg_body m)"
  have l: "length hb = 15" "sint (len (m_msg_head m)) = int (length bb)" "0 < length bb" "int (length bb) \<le> INT_MAX - 15"
    using sendable_head_length [OF p m] m by (simp_all add: sendable_def hb_def bb_def)
  have r: "readable b @ rest = hb @ bb" using c by (simp add: frame_def hb_def bb_def)
  have n: "readable_len b < 15 + length bb"
  proof -
    have "length (readable b) + length rest = 15 + length bb" using arg_cong [OF r, of length] l(1) by simp
    then show ?thesis using c(2) readable_length [OF ok] by (cases rest) auto
  qed
  show ?thesis
  proof (cases "readable_len b < 15")
    case True
    then show ?thesis by (simp add: proto_decode_def PROTO_MSG_HEAD_LEN_def)
  next
    case False
    then have "take 15 (readable b) = hb"
      using arg_cong [OF r, of "take 15"] l(1) readable_length [OF ok] by simp
    then have "take 15 (drop (m_read_idx b) (m_buffer b)) = hb" using raw_read [of 15 b] False by simp
    moreover have "par_head p hb = (True, m_msg_head m)"
      using proto_wire.par_ser_head [OF p] by (simp add: hb_def)
    ultimately show ?thesis
      using False l n by (simp add: proto_decode_def PROTO_MSG_HEAD_LEN_def Let_def INT_MAX_def)
  qed
qed

text \<open>The buffers of a connection: well formed and below 2 GiB, so that every length is an \<^verbatim>\<open>int\<close>.\<close>

definition conn_buf_ok :: "sbuf \<Rightarrow> bool" where
  "conn_buf_ok b \<longleftrightarrow> sb_ok b \<and> int (m_write_idx b) \<le> INT_MAX"

lemma conn_buf_okD:
  assumes "conn_buf_ok b"
  shows "sb_ok b" "sb_fits 0 b" "int (readable_len b) \<le> INT_MAX"
  using assms by (auto simp: conn_buf_ok_def sb_fits_def INT_MAX_def sb_len_defs)

lemma conn_buf_ok_skip:
  assumes "conn_buf_ok b" "k \<le> length (readable b)"
  shows "conn_buf_ok (skip_bytes k b)" "readable (skip_bytes k b) = drop k (readable b)"
proof -
  note b = conn_buf_okD [OF assms(1)]
  have k: "int k \<le> INT_MAX" using assms(2) b(3) readable_length [OF b(1)] by simp
  have "m_write_idx (skip_bytes k b) = m_write_idx b" by (simp add: skip_bytes_def advance_read_index_def)
  then show "conn_buf_ok (skip_bytes k b)" "readable (skip_bytes k b) = drop k (readable b)"
    using skip_bytes_spec [OF b(1,2) assms(2) k] assms(1) by (simp_all add: conn_buf_ok_def)
qed

context proto_wire
begin

lemma is_framing: "framing readable conn_buf_ok (proto_decode p) (frame p) (sendable p) same_content"
proof unfold_locales
  fix b m rest and m0 :: msg
  assume b: "conn_buf_ok b" and m: "sendable p m" and r: "readable b = frame p m @ rest"
  have "conn_buf_ok (skip_bytes (length (frame p m)) b)" "readable (skip_bytes (length (frame p m)) b) = rest"
    using conn_buf_ok_skip [OF b, of "length (frame p m)"] r by simp_all
  then show "\<exists>b' m'. proto_decode p b m0 = Some (OK, b', m') \<and> same_content m' m \<and> conn_buf_ok b' \<and> readable b' = rest"
    using decode_frame [OF proto_wire_axioms conn_buf_okD(1,2) [OF b] m r conn_buf_okD(3) [OF b], of m0]
    by (simp add: same_content_def)
next
  fix b m rest and m0 :: msg
  assume "conn_buf_ok b" "sendable p m" "readable b @ rest = frame p m" "rest \<noteq> []"
  then show "\<exists>m'. proto_decode p b m0 = Some (PAUSE, b, m')"
    by (intro decode_partial [OF proto_wire_axioms conn_buf_okD(1)])
qed

end

sublocale proto_wire \<subseteq> fr: framing readable conn_buf_ok "proto_decode p" "frame p" "sendable p" same_content
  by (rule is_framing)

text \<open>Moving the write index back over the last \<open>k\<close> bytes.\<close>

lemma unwrite:
  assumes "sb_ok b" "sb_fits 0 b" "readable b = c @ tail" "length tail = k"
  shows "sb_ok (set_write_index (sz (int (m_write_idx b) - int k)) b)"
    "readable (set_write_index (sz (int (m_write_idx b) - int k)) b) = c"
proof -
  have k: "m_read_idx b + k \<le> m_write_idx b"
    using assms readable_length [OF assms(1)] by (auto simp: sb_len_defs sb_ok_def split: if_splits)
  have "sz (int (m_write_idx b) - int k) = m_write_idx b - k"
    using k assms(2) by (simp add: sz_def sb_fits_def of_nat_diff nat_diff_distrib)
  then have e: "set_write_index (sz (int (m_write_idx b) - int k)) b = b\<lparr>m_write_idx := m_write_idx b - k\<rparr>"
    by (simp add: set_write_index_def)
  show ok: "sb_ok (set_write_index (sz (int (m_write_idx b) - int k)) b)"
    using assms(1) k unfolding e by (auto simp: sb_ok_def)
  have "readable (set_write_index (sz (int (m_write_idx b) - int k)) b) = take (length (readable b) - k) (readable b)"
    unfolding readable_alt [OF ok] readable_alt [OF assms(1)] unfolding e
    using assms(1) k by (simp add: sb_ok_def take_drop min_absorb2 diff_diff_left add.commute)
  then show "readable (set_write_index (sz (int (m_write_idx b) - int k)) b) = c"
    using assms(3,4) by simp
qed

text \<open>The two writes of \<open>proto_encode\<close> for a message with a body.\<close>

lemma encode_eq:
  assumes p: "proto_wire p" and m: "sendable p m"
  defines "hb \<equiv> ser_head p (m_msg_head m)" and "bb \<equiv> ser_body p (m_msg_body m)"
  shows "proto_encode p h junk m b = do {
        (w, b1) \<leftarrow> sb_write h hb b;
        if w \<noteq> 15 then Some (ERR, b1)
        else do {
          (w2, b2) \<leftarrow> sb_write h bb b1;
          if w2 \<noteq> int (length bb) then Some (ERR, set_write_index (sz (int (m_write_idx b2) - w)) b2)
          else Some (OK, b2)
        }
      }"
proof -
  have l: "length hb = 15" "sint (len (m_msg_head m)) = int (length bb)" "0 < length bb" "int (length bb) \<le> INT_MAX - 15"
    using sendable_head_length [OF p m] m by (simp_all add: sendable_def hb_def bb_def)
  have i: "i32 (int (length bb)) = int (length bb)" "(sint (len (m_msg_head m)) \<le> 0) = False"
    using l by (simp_all add: INT_MAX_def)
  show ?thesis
    unfolding proto_encode_def PROTO_MSG_HEAD_LEN_def Let_def hb_def [symmetric] bb_def [symmetric]
      c_read_exact [OF l(1)] i of_nat_numeral if_False by (rule refl)
qed

lemma encode_spec:
  assumes p: "proto_wire p" and ok: "sb_ok b" and fits: "sb_fits (length (frame p m)) b" and m: "sendable p m"
  shows "\<exists>st b'. proto_encode p h junk m b = Some (st, b') \<and> sb_ok b' \<and> m_write_idx b' \<le> m_write_idx b + length (frame p m) \<and>
    (st = OK \<and> readable b' = readable b @ frame p m \<or> st = ERR \<and> readable b' = readable b \<and> (\<exists>n. fst h n))"
proof -
  define hb bb where "hb = ser_head p (m_msg_head m)" and "bb = ser_body p (m_msg_body m)"
  have l: "length hb = 15" "sint (len (m_msg_head m)) = int (length bb)" "0 < length bb" "int (length bb) \<le> INT_MAX - 15"
    using sendable_head_length [OF p m] m by (simp_all add: sendable_def hb_def bb_def)
  note e = encode_eq [OF p m, folded hb_def bb_def, of h junk b]
  have f: "sb_fits (length hb + (length bb + 0)) b" using fits by (simp add: frame_def hb_def bb_def)
  obtain r b1 where b1: "sb_write h hb b = Some (r, b1)" "sb_ok b1" "sb_fits (length bb + 0) b1"
    and r: "r = 15 \<and> readable b1 = readable b @ hb \<or> r = - 1 \<and> b1 = b \<and> (\<exists>n. fst h n)"
    using sb_write_spec [OF ok f, of h] l(1) by (auto simp: INT_MAX_def)
  obtain r2 b2 where b2: "sb_write h bb b1 = Some (r2, b2)" "sb_ok b2" "sb_fits 0 b2"
    and r2: "r2 = int (length bb) \<and> readable b2 = readable b1 @ bb \<or> r2 = - 1 \<and> b2 = b1 \<and> (\<exists>n. fst h n)"
    using sb_write_spec [OF b1(2,3), of h] l(4) by auto
  have f1: "sb_fits 0 b1" "sb_fits (length bb) b1" using b1(3) by (simp_all add: sb_fits_def)
  have w1: "m_write_idx b1 \<le> m_write_idx b + length hb"
    using sb_write_index [OF ok _ b1(1)] f by (simp add: sb_fits_def)
  have w2: "m_write_idx b2 \<le> m_write_idx b1 + length bb" by (rule sb_write_index [OF b1(2) f1(2) b2(1)])
  have "m_write_idx (set_write_index (sz (int (m_write_idx b1) - 15)) b1) \<le> m_write_idx b1"
    if "readable b1 = readable b @ hb"
    using that b1(2) f1(1) l(1) readable_length [OF b1(2)]
    by (auto simp: sb_fits_def set_write_index_def sz_def sb_len_defs split: if_splits)
  then show ?thesis
    using e b1 r b2 r2 w1 w2 unwrite [OF b1(2) f1(1) _ l(1), of "readable b"] l(3)
    by (auto simp: frame_def hb_def [symmetric] bb_def [symmetric])
qed

lemma encode_all_spec:
  assumes "proto_wire p" "sb_ok b" "sb_fits (length (concat (map (frame p) ms))) b" "list_all (sendable p) ms"
    "\<And>n. \<not> fst h n"
  shows "\<exists>sts b'. encode_all p h junk ms b = Some (sts, b') \<and> sts = map (\<lambda>_. OK) ms \<and> sb_ok b' \<and>
    readable b' = readable b @ concat (map (frame p) ms) \<and>
    m_write_idx b' \<le> m_write_idx b + length (concat (map (frame p) ms))"
  using assms(2-4)
proof (induction ms arbitrary: b)
  case Nil
  then show ?case by simp
next
  case (Cons m ms)
  have "sb_fits (length (frame p m)) b" "sendable p m" using Cons.prems by (simp_all add: sb_fits_def)
  with encode_spec [OF assms(1) Cons.prems(1), of m h junk] assms(5) obtain b1 where
    b1: "proto_encode p h junk m b = Some (OK, b1)" "sb_ok b1" "readable b1 = readable b @ frame p m"
      "m_write_idx b1 \<le> m_write_idx b + length (frame p m)" by auto
  have "sb_fits (length (concat (map (frame p) ms))) b1" using Cons.prems b1(4) by (simp add: sb_fits_def)
  with Cons.IH [OF b1(2)] Cons.prems obtain b2 where
    "encode_all p h junk ms b1 = Some (map (\<lambda>_. OK) ms, b2)" "sb_ok b2"
    "readable b2 = readable b1 @ concat (map (frame p) ms)"
    "m_write_idx b2 \<le> m_write_idx b1 + length (concat (map (frame p) ms))" by auto
  then show ?case using b1 by simp
qed

section \<open>Properties\<close>

text \<open>A concrete message and its frame, for the witnesses.\<close>

definition ping :: msg where
  "ping = \<lparr>m_ft = \<lparr>ft_fd = 5, ft_id = 9\<rparr>, m_is_http = False,
     m_msg_head = \<lparr>cmd = 1001, seq = 7, len = 4\<rparr>,
     m_msg_body = body0\<lparr>data := [104, 105]\<rparr>\<rparr>"

lemma ping_body: "ser_body proto3 (m_msg_body ping) = [26, 2, 104, 105]"
  by (simp add: ping_def proto3_def body_fields_def body0_def type_fields_def fields_enc_def varint_enc.simps)

lemma ping_sendable: "sendable proto3 ping"
  unfolding sendable_def ping_body by (simp add: ping_def INT_MAX_def)

lemma ping_frame_length: "length (frame proto3 ping) = 19"
  using pw.ser_head_length [of "m_msg_head ping"] unfolding frame_def ping_body by (simp add: ping_def)

text \<open>
  \<^verbatim>\<open>CodecProto::encode\<close> is all or nothing: with a protobuf library that meets its documentation, a
  message with a body is either appended as its complete frame (head of 15 bytes, then the body), or
  the call reports ERR after a refused allocation and the bytes waiting in the buffer are what they
  were, the head written before the failing body being taken back.
\<close>

theorem encode_all_or_nothing:
  assumes "proto_wire p" "sb_ok b" "sb_fits (length (frame p m)) b" "sendable p m"
  shows "\<exists>st b'. proto_encode p h junk m b = Some (st, b') \<and> sb_ok b' \<and>
    (st = OK \<and> readable b' = readable b @ frame p m \<or> st = ERR \<and> readable b' = readable b \<and> (\<exists>n. fst h n))"
  using encode_spec [OF assms, of h junk] by blast

theorem encode_all_or_nothing_witness:
  "\<exists>st b'. proto_encode proto3 (\<lambda>n. n > 32, \<lambda>_. 0) (\<lambda>_. 255) ping sb_new = Some (st, b') \<and> sb_ok b' \<and>
    (st = OK \<and> readable b' = readable sb_new @ frame proto3 ping \<or>
     st = ERR \<and> readable b' = readable sb_new \<and> (\<exists>n. fst (\<lambda>n::nat. n > 32, \<lambda>_::nat. 0::u8) n))"
  by (rule encode_all_or_nothing [OF pw.proto_wire_axioms _ _ ping_sendable])
    (simp_all add: sb_fits_def ping_frame_length sb_new_def sb_ok_def)

text \<open>
  C1. Round trip: encoding any list of messages into one buffer and decoding until the decoder says
  PAUSE gives back the same heads and bodies in the same order and leaves the buffer empty.
\<close>

theorem encode_decode_round_trip:
  assumes p: "proto_wire p" and ms: "list_all (sendable p) ms" and mem: "\<And>n. \<not> fst h n"
    and small: "int (length (concat (map (frame p) ms))) \<le> INT_MAX"
  shows "\<exists>sts b ms' b'. encode_all p h junk ms sb_new = Some (sts, b) \<and>
    drain (Suc (length ms)) (proto_decode p) m0 b = Some (PAUSE, ms', b') \<and>
    list_all2 same_content ms' ms \<and> readable b' = []"
proof -
  have "sb_fits (length (concat (map (frame p) ms))) sb_new"
    using small by (simp add: sb_fits_def sb_new_def INT_MAX_def)
  with encode_all_spec [OF p sb_ok_new(1) _ ms mem, of junk] obtain sts b where
    b: "encode_all p h junk ms sb_new = Some (sts, b)" "sb_ok b" "readable b = concat (map (frame p) ms)"
      "m_write_idx b \<le> length (concat (map (frame p) ms))" by auto
  have ok: "conn_buf_ok b" using b(2,4) small by (simp add: conn_buf_ok_def)
  show ?thesis
  proof (cases ms)
    case Nil
    then have "readable_len b = 0" using b(3) readable_length [OF b(2)] by simp
    then show ?thesis using b Nil by (simp add: proto_decode_def PROTO_MSG_HEAD_LEN_def)
  next
    case (Cons m rest)
    then have m: "sendable p m" "frame p m \<noteq> []" using ms by (auto simp: sendable_def frame_def)
    from framing.drain_frames [OF proto_wire.is_framing [OF p] ok ms m(1), of "[]" "frame p m" "Suc (length ms)" m0] m(2) b(3)
    show ?thesis using b(1) by auto
  qed
qed

theorem encode_decode_round_trip_witness:
  "\<exists>sts b ms' b'. encode_all proto3 (\<lambda>_. False, \<lambda>_. 0) (\<lambda>_. 255) [ping, ping] sb_new = Some (sts, b) \<and>
    drain (Suc (length [ping, ping])) (proto_decode proto3) (new_msg \<lparr>ft_fd = 1, ft_id = 1\<rparr>) b = Some (PAUSE, ms', b') \<and>
    list_all2 same_content ms' [ping, ping] \<and> readable b' = []"
  by (rule encode_decode_round_trip [OF pw.proto_wire_axioms])
    (simp_all add: ping_sendable ping_frame_length INT_MAX_def)



text \<open>
  The only input on which \<^verbatim>\<open>decode\<close> has undefined behaviour: a head that parses and announces a
  body longer than \<open>INT_MAX - 15\<close>, for which \<^verbatim>\<open>PROTO_MSG_HEAD_LEN + head->len()\<close> overflows. Fifteen
  bytes from a peer are enough to reach it.
\<close>

theorem decode_undefined_iff:
  "proto_decode p b m = None \<longleftrightarrow>
     15 \<le> readable_len b \<and> (\<exists>hd. par_head p (take 15 (readable b)) = (True, hd) \<and> sint (len hd) > INT_MAX - 15)"
proof (cases "15 \<le> readable_len b")
  case True
  then show ?thesis
    using raw_read [OF True]
    by (cases "par_head p (take 15 (readable b))")
      (auto simp: proto_decode_def PROTO_MSG_HEAD_LEN_def Let_def split_beta INT_MAX_def)
qed (simp add: proto_decode_def PROTO_MSG_HEAD_LEN_def)

text \<open>
  A message without a body (\<^verbatim>\<open>len\<close> 0, the case the comments call a heartbeat) is encoded with
  status OK, but with the proto3 encoding the zero field is left out, the 15 bytes written run past
  the end of the serialized head, and decoding them fails whatever bytes were behind it.
\<close>

theorem empty_body_frame_rejected:
  assumes "cmd (m_msg_head m) \<noteq> 0" "seq (m_msg_head m) \<noteq> 0" "len (m_msg_head m) = 0" "\<And>n. \<not> fst h n"
  shows "\<exists>b m'. proto_encode proto3 h junk m sb_new = Some (OK, b) \<and> readable_len b = 15 \<and>
    proto_decode proto3 b m0 = Some (ERR, b, m')"
proof -
  define w where "w = c_read junk 15 (ser_head proto3 (m_msg_head m))"
  have "length (ser_head proto3 (m_msg_head m)) = 10" using assms by (intro proto3_short_head)
  then have z: "\<exists>r. w = ser_head proto3 (m_msg_head m) @ 0 # r" by (auto simp: w_def c_read_def take_Cons')
  have l: "length w = 15" by (simp add: w_def c_read_length)
  then have "sb_fits (length w + 0) sb_new" "int (length w) \<le> INT_MAX" by (simp_all add: sb_fits_def sb_new_def INT_MAX_def)
  from sb_write_spec [OF sb_ok_new(1) this, of h] assms(4) obtain b where
    b: "sb_write h w sb_new = Some (int (length w), b)" "sb_ok b" "readable b = w" by auto
  have n: "readable_len b = 15" using readable_length [OF b(2)] b(3) l by simp
  have "fst (par_head proto3 w) = False" using z proto3_zero_tag by auto
  then have "\<exists>m'. proto_decode proto3 b m0 = Some (ERR, b, m')"
    using n b(3) l raw_read [of 15 b] by (simp add: proto_decode_def PROTO_MSG_HEAD_LEN_def Let_def split_beta)
  moreover have "proto_encode proto3 h junk m sb_new = Some (OK, b)"
    using b(1) l assms(3) by (simp add: proto_encode_def PROTO_MSG_HEAD_LEN_def w_def [symmetric] Let_def)
  ultimately show ?thesis using n by blast
qed

theorem empty_body_frame_rejected_witness:
  "\<exists>b m'. proto_encode proto3 (\<lambda>_. False, \<lambda>_. 0) (\<lambda>_. 1)
       (ping\<lparr>m_msg_head := \<lparr>cmd = 1, seq = 1, len = 0\<rparr>, m_msg_body := body0\<rparr>) sb_new = Some (OK, b) \<and>
    readable_len b = 15 \<and> proto_decode proto3 b ping = Some (ERR, b, m')"
  by (rule empty_body_frame_rejected) simp_all

end
