(* ===== verification/Connection.thy ===== *)
theory Connection
  imports Codec
begin

text \<open>
  A connection (\<^verbatim>\<open>src/src/core/connection.h\<close>, \<^verbatim>\<open>connection.cpp\<close>): its state, its two socket buffers and
  its codec. What the kernel answers to \<^verbatim>\<open>readv\<close> and \<^verbatim>\<open>send\<close>, what the allocator answers and what
  \<^verbatim>\<open>net()->now()\<close> returns are arguments. The methods on \<^verbatim>\<open>HttpMsg\<close> take the HTTP codec as an argument.
  \<open>None\<close> is undefined behaviour of the decoder (see \<open>proto_decode\<close>).
\<close>

section \<open>Data\<close>

datatype conn_state = ST_UNKOWN | ST_TRY_CONNECT | ST_CONNECTING | ST_CONNECTED | ST_CLOSED | ST_ERROR

text \<open>The codec object is null or of the class \<open>c_codec\<close> names; \<open>c_codec_type\<close> is its own type field.\<close>

record connection =
  c_ft :: fd_t
  c_codec :: "codec_type option"
  c_codec_type :: codec_type
  c_is_system :: bool
  c_errno :: int
  c_state :: conn_state
  c_recv_buf :: "sbuf option"
  c_send_buf :: "sbuf option"
  c_saddr :: "bytes option"
  c_node_id :: string
  c_read_cnt :: int
  c_read_bytes :: u64
  c_write_cnt :: int
  c_write_bytes :: u64
  c_active_time :: u64
  c_keep_alive :: u64

definition new_connection :: "int \<Rightarrow> nat \<Rightarrow> u64 \<Rightarrow> connection" where
  "new_connection fd cid t = \<lparr>c_ft = \<lparr>ft_fd = fd, ft_id = cid\<rparr>, c_codec = None, c_codec_type = UNKNOWN, c_is_system = False, c_errno = 0,
     c_state = ST_UNKOWN, c_recv_buf = None, c_send_buf = None, c_saddr = None, c_node_id = [], c_read_cnt = 0,
     c_read_bytes = 0, c_write_cnt = 0, c_write_bytes = 0, c_active_time = t, c_keep_alive = 0\<rparr>"

definition is_invalid :: "connection \<Rightarrow> bool" where
  "is_invalid c \<longleftrightarrow> c_state c = ST_UNKOWN \<or> c_state c = ST_CLOSED \<or> c_state c = ST_ERROR"

definition is_http :: "connection \<Rightarrow> bool" where
  "is_http c = (case c_codec c of None \<Rightarrow> False | Some _ \<Rightarrow> c_codec_type c = HTTP)"

section \<open>Operations\<close>

text \<open>A second \<^verbatim>\<open>init\<close> with a type it does not know keeps the codec object of the first and reports success.\<close>

definition conn_init :: "codec_type \<Rightarrow> u64 \<Rightarrow> connection \<Rightarrow> bool \<times> connection" where
  "conn_init codec t c =
     (let c1 = (case codec of
            HTTP \<Rightarrow> c\<lparr>c_codec := Some HTTP, c_codec_type := codec\<rparr>
          | PROTOBUF \<Rightarrow> c\<lparr>c_codec := Some PROTOBUF, c_codec_type := codec\<rparr>
          | _ \<Rightarrow> c)
      in if c_codec c1 = None then (False, c1)
         else (True, c1\<lparr>c_active_time := t, c_codec_type := snd (set_codec codec (c_codec_type c1))\<rparr>))"

text \<open>\<^verbatim>\<open>/* recovery socket buffer. */\<close>\<close>

definition recovery :: "heap \<Rightarrow> sbuf \<Rightarrow> sbuf" where
  "recovery h b =
     (if capacity b > BUFFER_MAX_READ \<and> readable_len b < capacity b div 2
      then snd (compact h (readable_len b * 2) b) else b)"

definition check_new :: "sbuf option \<Rightarrow> sbuf" where
  "check_new bo = (case bo of None \<Rightarrow> sb_new | Some b \<Rightarrow> b)"

definition conn_read_fd :: "heap \<Rightarrow> int + bytes \<Rightarrow> u64 \<Rightarrow> connection \<Rightarrow> (status \<times> connection) option" where
  "conn_read_fd h got t c =
     (if is_invalid c then Some (ERR, c)
      else do {
        (read_len, err, b) \<leftarrow> read_fd h got (c_errno c) (check_new (c_recv_buf c));
        let c1 = c\<lparr>c_recv_buf := Some b, c_errno := err\<rparr>;
        if read_len = 0 then Some (CLOSED, c1)
        else if read_len < 0 then Some (if err = EAGAIN then PAUSE else ERR, c1)
        else Some (OK, c1\<lparr>c_read_cnt := c_read_cnt c1 + 1, c_read_bytes := c_read_bytes c1 + word_of_int read_len,
                          c_recv_buf := Some (recovery h b), c_active_time := t\<rparr>)
      })"

definition conn_write_fd :: "heap \<Rightarrow> int + nat \<Rightarrow> u64 \<Rightarrow> connection \<Rightarrow> status \<times> connection" where
  "conn_write_fd h sent t c =
     (if is_invalid c then (ERR, c)
      else case c_send_buf c of
          None \<Rightarrow> (OK, c)
        | Some b \<Rightarrow>
            if \<not> is_readable b then (OK, c)
            else let (write_len, err, b1) = write_fd sent (c_errno c) b;
                     c1 = c\<lparr>c_send_buf := Some b1, c_errno := err\<rparr>
                 in if write_len < 0 then (if err = EAGAIN then PAUSE else ERR, c1)
                    else let b2 = recovery h b1
                         in (if readable_len b2 > 0 then PAUSE else OK,
                             c1\<lparr>c_write_cnt := c_write_cnt c1 + 1,
                                c_write_bytes := c_write_bytes c1 + word_of_int write_len,
                                c_send_buf := Some b2, c_active_time := t\<rparr>))"

text \<open>\<^verbatim>\<open>dynamic_cast<CodecProto*>\<close> succeeds when the object was created by the PROTOBUF branch of \<^verbatim>\<open>init\<close>;
  \<^verbatim>\<open>decode\<close> answers ERR for a null buffer.\<close>

definition decode_proto :: "protobuf \<Rightarrow> msg \<Rightarrow> connection \<Rightarrow> (status \<times> msg \<times> connection) option" where
  "decode_proto p m c =
     (if c_codec c \<noteq> Some PROTOBUF then Some (ERR, m, c)
      else case c_recv_buf c of
          None \<Rightarrow> Some (ERR, m, c)
        | Some b \<Rightarrow> map_option (\<lambda>(st, b', m'). (st, m', c\<lparr>c_recv_buf := Some b'\<rparr>)) (proto_decode p b m))"

definition fetch_data :: "protobuf \<Rightarrow> msg \<Rightarrow> connection \<Rightarrow> (status \<times> msg \<times> connection) option" where
  "fetch_data p m c =
     (if c_state c = ST_UNKOWN \<or> c_state c = ST_ERROR then Some (ERR, m, c) else decode_proto p m c)"

definition conn_read :: "protobuf \<Rightarrow> heap \<Rightarrow> int + bytes \<Rightarrow> u64 \<Rightarrow> msg \<Rightarrow> connection \<Rightarrow> (status \<times> msg \<times> connection) option" where
  "conn_read p h got t m c = do {
     (ret, m1, c1) \<leftarrow> (if c_recv_buf c \<noteq> None then fetch_data p m c else Some (PAUSE, m, c));
     (ret2, c2) \<leftarrow> (if ret = PAUSE then conn_read_fd h got t c1 else Some (ret, c1));
     if ret2 \<noteq> OK then Some (ret2, m1, c2) else decode_proto p m1 c2
   }"

definition conn_append_message :: "protobuf \<Rightarrow> heap \<Rightarrow> (nat \<Rightarrow> u8) \<Rightarrow> msg \<Rightarrow> connection \<Rightarrow> (status \<times> connection) option" where
  "conn_append_message p h junk m c =
     (if is_invalid c then Some (ERR, c)
      else if c_codec c \<noteq> Some PROTOBUF then Some (ERR, c)
      else map_option (\<lambda>(st, b). (st, c\<lparr>c_send_buf := Some b\<rparr>)) (proto_encode p h junk m (check_new (c_send_buf c))))"

definition conn_write_msg :: "protobuf \<Rightarrow> heap \<Rightarrow> (nat \<Rightarrow> u8) \<Rightarrow> int + nat \<Rightarrow> u64 \<Rightarrow> msg \<Rightarrow> connection \<Rightarrow> (status \<times> connection) option" where
  "conn_write_msg p h junk sent t m c = do {
     (st, c1) \<leftarrow> conn_append_message p h junk m c;
     if st \<noteq> OK then Some (st, c1) else Some (conn_write_fd h sent t c1)
   }"

text \<open>The HTTP variants; \<open>dec\<close> and \<open>enc\<close> are the methods of \<^verbatim>\<open>CodecHttp\<close>.\<close>

definition decode_http :: "(sbuf option \<Rightarrow> 'h \<Rightarrow> status \<times> sbuf option \<times> 'h) \<Rightarrow> 'h \<Rightarrow> connection \<Rightarrow> status \<times> 'h \<times> connection" where
  "decode_http dec m c =
     (if c_codec c \<noteq> Some HTTP then (ERR, m, c)
      else let (st, b, m') = dec (c_recv_buf c) m in (st, m', c\<lparr>c_recv_buf := b\<rparr>))"

definition fetch_data_http :: "(sbuf option \<Rightarrow> 'h \<Rightarrow> status \<times> sbuf option \<times> 'h) \<Rightarrow> 'h \<Rightarrow> connection \<Rightarrow> status \<times> 'h \<times> connection" where
  "fetch_data_http dec m c =
     (if c_state c = ST_UNKOWN \<or> c_state c = ST_ERROR then (ERR, m, c) else decode_http dec m c)"

definition conn_read_http :: "(sbuf option \<Rightarrow> 'h \<Rightarrow> status \<times> sbuf option \<times> 'h) \<Rightarrow> heap \<Rightarrow> int + bytes \<Rightarrow> u64 \<Rightarrow> 'h \<Rightarrow> connection
    \<Rightarrow> (status \<times> 'h \<times> connection) option" where
  "conn_read_http dec h got t m c = do {
     (ret, c1) \<leftarrow> conn_read_fd h got t c;
     if ret \<noteq> OK then Some (ret, m, c1) else Some (decode_http dec m c1)
   }"

definition conn_write_http :: "('h \<Rightarrow> sbuf \<Rightarrow> status \<times> sbuf) \<Rightarrow> heap \<Rightarrow> int + nat \<Rightarrow> u64 \<Rightarrow> 'h \<Rightarrow> connection \<Rightarrow> status \<times> connection" where
  "conn_write_http enc h sent t m c =
     (if is_invalid c then (ERR, c)
      else if c_codec c \<noteq> Some HTTP then (ERR, c)
      else let (st, b) = enc m (check_new (c_send_buf c)); c1 = c\<lparr>c_send_buf := Some b\<rparr>
           in if st \<noteq> OK then (st, c1) else conn_write_fd h sent t c1)"

definition is_need_alive_check :: "connection \<Rightarrow> bool" where
  "is_need_alive_check c = (case c_codec c of None \<Rightarrow> True | Some _ \<Rightarrow> c_codec_type c \<noteq> HTTP)"

text \<open>\<open>ka\<close> is what the HTTP codec of the connection answers to \<^verbatim>\<open>keep_alive()\<close>.\<close>

definition keep_alive :: "int \<Rightarrow> connection \<Rightarrow> u64" where
  "keep_alive ka c = (if is_http c \<and> c_codec c = Some HTTP \<and> ka \<ge> 0 then word_of_int ka else c_keep_alive c)"

definition set_addr_info :: "bytes \<Rightarrow> connection \<Rightarrow> connection" where
  "set_addr_info saddr c = c\<lparr>c_saddr := Some saddr\<rparr>"

section \<open>Buffers below 2 GiB\<close>

text \<open>Room for \<open>n\<close> more bytes while every index stays an \<^verbatim>\<open>int\<close> and the block below 4 GiB, so that the
  32-bit variables of \<open>compact\<close> are exact.\<close>

definition buf_room :: "nat \<Rightarrow> sbuf \<Rightarrow> bool" where
  "buf_room n b \<longleftrightarrow> sb_ok b \<and> int (m_write_idx b + n) \<le> INT_MAX \<and> m_buffer_len b < 4294967296"

lemma buf_roomD:
  assumes "buf_room n b"
  shows "sb_ok b" "conn_buf_ok b" "sb_fits n b" "m_buffer_len b < 4294967296" "int (readable_len b) \<le> INT_MAX"
  using assms by (auto simp: buf_room_def conn_buf_ok_def sb_fits_def INT_MAX_def sb_len_defs)

lemma buf_room_new: "int n \<le> INT_MAX \<Longrightarrow> buf_room n sb_new"
  by (simp add: buf_room_def sb_new_def sb_ok_def)

lemma compact_keeps:
  assumes "sb_ok b" "m_buffer_len b < 4294967296"
  shows "sb_ok (snd (compact h n b))" "readable (snd (compact h n b)) = readable b"
    "m_write_idx (snd (compact h n b)) \<le> m_write_idx b" "m_buffer_len (snd (compact h n b)) \<le> m_buffer_len b"
proof -
  have r: "readable_len b \<le> m_buffer_len b" "readable_len b \<le> m_write_idx b" "readable_len b < 4294967296"
      "length (readable b) = readable_len b"
    using assms readable_length [OF assms(1)] by (auto simp: sb_len_defs sb_ok_def)
  have "snd (compact h n b) = b \<or> snd (compact h n b) =
     b\<lparr>m_buffer := readable b, m_read_idx := 0, m_write_idx := readable_len b, m_buffer_len := readable_len b\<rparr>"
    using r assms(2) by (auto simp: compact_def capacity_def malloc_def blit_def Let_def readable_def [symmetric])
  then show "sb_ok (snd (compact h n b))" "readable (snd (compact h n b)) = readable b"
    "m_write_idx (snd (compact h n b)) \<le> m_write_idx b" "m_buffer_len (snd (compact h n b)) \<le> m_buffer_len b"
    using assms r by (auto simp: sb_ok_def readable_def sb_len_defs)
qed

lemma recovery_room:
  assumes "buf_room n b"
  shows "buf_room n (recovery h b)" "readable (recovery h b) = readable b"
  using compact_keeps [OF buf_roomD(1,4) [OF assms], of h "readable_len b * 2"] assms
  by (auto simp: recovery_def buf_room_def)

lemma sb_write_room:
  assumes "buf_room (length bs + n) b" "\<forall>k. \<not> fst h k"
  shows "\<exists>b'. sb_write h bs b = Some (int (length bs), b') \<and> buf_room n b' \<and> readable b' = readable b @ bs"
proof -
  have small: "int (length bs) \<le> INT_MAX" and fits: "sb_fits (length bs) b"
    using assms(1) by (auto simp: buf_room_def sb_fits_def INT_MAX_def)
  note b = buf_roomD [OF assms(1)]
  from ensure_writeable_spec [OF b(1) fits, of h] assms(2) obtain b1 where
    b1: "ensure_writeable h (length bs) b = Some (True, b1)" "sb_ok b1" "readable b1 = readable b" "m_write_idx b1 \<le> m_write_idx b"
      "length bs \<le> writeable_len b1" "m_buffer_len b1 \<le> max 32 (max (m_buffer_len b) (2 * (m_write_idx b + length bs)))" by auto
  have "m_buffer_len b1 < 4294967296" using b1(6) b(4) assms(1) by (auto simp: buf_room_def INT_MAX_def)
  with b1 put_bytes [OF b1(2,5)] assms(1) small show ?thesis
    by (auto simp: sb_write_def buf_room_def INT_MAX_def)
qed

lemma read_fd_room:
  assumes "buf_room (length bs + n) b" "\<forall>k. \<not> fst h k" "length bs \<le> extrabuf_size"
  shows "\<exists>b'. read_fd h (Inr bs) err b = Some (int (length bs), err, b') \<and> buf_room n b' \<and> readable b' = readable b @ bs"
proof (cases "length bs \<le> writeable_len b")
  case True
  then show ?thesis
    using put_bytes [OF buf_roomD(1) [OF assms(1)] True] assms(1) by (auto simp: read_fd_def buf_room_def)
next
  case False
  note b = buf_roomD [OF assms(1)]
  define b0 where "b0 = b\<lparr>m_buffer := blit (m_write_idx b) (take (writeable_len b) bs) (m_buffer b), m_write_idx := m_buffer_len b\<rparr>"
  have w: "m_write_idx b + length (take (writeable_len b) bs) = m_buffer_len b"
    using False writeable_ok [OF b(1)] by simp
  have b0: "sb_ok b0" "readable b0 = readable b @ take (writeable_len b) bs"
    using put_bytes [OF b(1), of "take (writeable_len b) bs"] unfolding w by (simp_all add: b0_def)
  have "buf_room (length (drop (writeable_len b) bs) + n) b0"
    using b0(1) assms(1) w False by (auto simp: buf_room_def b0_def)
  from sb_write_room [OF this assms(2)] obtain b1 where
    "sb_write h (drop (writeable_len b) bs) b0 = Some (int (length (drop (writeable_len b) bs)), b1)" "buf_room n b1"
    "readable b1 = readable b0 @ drop (writeable_len b) bs" by blast
  then show ?thesis using False b0(2) by (simp add: read_fd_def b0_def [symmetric])
qed

section \<open>Reading a stream\<close>

definition in_bytes :: "connection \<Rightarrow> bytes" where
  "in_bytes c = (case c_recv_buf c of None \<Rightarrow> [] | Some b \<Rightarrow> readable b)"

definition out_bytes :: "connection \<Rightarrow> bytes" where
  "out_bytes c = (case c_send_buf c of None \<Rightarrow> [] | Some b \<Rightarrow> readable b)"

text \<open>A live connection with the protobuf codec whose buffers have room for \<open>n\<close> more bytes.\<close>

definition conn_room :: "nat \<Rightarrow> connection \<Rightarrow> bool" where
  "conn_room n c \<longleftrightarrow> \<not> is_invalid c \<and> c_codec c = Some PROTOBUF \<and> buf_room n (check_new (c_recv_buf c))"

text \<open>One turn of the connection's coroutine, without the handlers: \<^verbatim>\<open>conn_read\<close>, then \<^verbatim>\<open>fetch_data\<close> as
  long as it says OK. The fuel bounds the number of messages.\<close>

definition fetch_step :: "protobuf \<Rightarrow> connection \<Rightarrow> msg \<Rightarrow> (status \<times> connection \<times> msg) option" where
  "fetch_step p c m = map_option (\<lambda>(st, m', c'). (st, c', m')) (fetch_data p m c)"

definition read_turn :: "nat \<Rightarrow> protobuf \<Rightarrow> heap \<Rightarrow> int + bytes \<Rightarrow> u64 \<Rightarrow> msg \<Rightarrow> connection
    \<Rightarrow> (status \<times> msg list \<times> connection) option" where
  "read_turn fuel p h got t m0 c = do {
     (st, m, c1) \<leftarrow> conn_read p h got t m0 c;
     if st = OK then do {
       (st', ms, c2) \<leftarrow> drain fuel (fetch_step p) m0 c1;
       Some (st', m # ms, c2)
     } else Some (st, [], c1)
   }"

fun read_turns :: "nat \<Rightarrow> protobuf \<Rightarrow> heap \<Rightarrow> msg \<Rightarrow> (bytes \<times> u64) list \<Rightarrow> connection
    \<Rightarrow> ((status \<times> msg list) list \<times> connection) option" where
  "read_turns fuel p h m0 [] c = Some ([], c)"
| "read_turns fuel p h m0 ((bs, t) # xs) c = do {
     (st, ms, c1) \<leftarrow> read_turn fuel p h (Inr bs) t m0 c;
     (rs, c2) \<leftarrow> read_turns fuel p h m0 xs c1;
     Some ((st, ms) # rs, c2)
   }"

definition conn_fetch_ok :: "nat \<Rightarrow> connection \<Rightarrow> bool" where
  "conn_fetch_ok n c \<longleftrightarrow> conn_room n c \<and> c_recv_buf c \<noteq> None"

lemma conn_room_state: "conn_room n c \<Longrightarrow> c_state c \<noteq> ST_UNKOWN \<and> c_state c \<noteq> ST_ERROR \<and> c_codec c = Some PROTOBUF"
  by (simp add: conn_room_def is_invalid_def)

lemma fetch_step_eq:
  assumes "conn_fetch_ok n c" "c_recv_buf c = Some b"
  shows "fetch_step p c m = map_option (\<lambda>(st, b', m'). (st, c\<lparr>c_recv_buf := Some b'\<rparr>, m')) (proto_decode p b m)"
  using assms conn_room_state [of n c] by (cases "proto_decode p b m")
    (auto simp: conn_fetch_ok_def fetch_step_def fetch_data_def decode_proto_def)

lemma buf_room_skip:
  assumes "buf_room n b" "k \<le> length (readable b)"
  shows "buf_room n (skip_bytes k b)" "readable (skip_bytes k b) = drop k (readable b)"
  using conn_buf_ok_skip [OF buf_roomD(2) [OF assms(1)] assms(2)] assms(1)
  by (auto simp: buf_room_def conn_buf_ok_def skip_bytes_def advance_read_index_def)

context proto_wire
begin

lemma conn_is_framing: "framing in_bytes (conn_fetch_ok n) (fetch_step p) (frame p) (sendable p) same_content"
proof unfold_locales
  fix c m rest and m0 :: msg
  assume c: "conn_fetch_ok n c" and m: "sendable p m" and r: "in_bytes c = frame p m @ rest"
  then obtain b where b: "c_recv_buf c = Some b" "buf_room n b" "readable b = frame p m @ rest"
    by (auto simp: conn_fetch_ok_def conn_room_def check_new_def in_bytes_def)
  define b' where "b' = skip_bytes (length (frame p m)) b"
  have "proto_decode p b m0 = Some (OK, b', m0\<lparr>m_msg_head := m_msg_head m, m_msg_body := m_msg_body m\<rparr>)"
    unfolding b'_def using buf_roomD [OF b(2)] m b(3)
    by (intro decode_frame [OF proto_wire_axioms]) (auto simp: sb_fits_def)
  moreover have "buf_room n b'" "readable b' = rest"
    using buf_room_skip [OF b(2), of "length (frame p m)"] b(3) by (simp_all add: b'_def)
  ultimately show "\<exists>c' m'. fetch_step p c m0 = Some (OK, c', m') \<and> same_content m' m \<and> conn_fetch_ok n c' \<and> in_bytes c' = rest"
    using c by (simp add: fetch_step_eq [OF c b(1)] same_content_def)
      (simp add: conn_fetch_ok_def conn_room_def check_new_def in_bytes_def is_invalid_def)
next
  fix c m rest and m0 :: msg
  assume c: "conn_fetch_ok n c" and m: "sendable p m" "in_bytes c @ rest = frame p m" "rest \<noteq> []"
  then obtain b where b: "c_recv_buf c = Some b" "buf_room n b" "readable b @ rest = frame p m"
    by (auto simp: conn_fetch_ok_def conn_room_def check_new_def in_bytes_def)
  obtain m' where "proto_decode p b m0 = Some (PAUSE, b, m')"
    using decode_partial [OF proto_wire_axioms buf_roomD(1) [OF b(2)] m(1) b(3) m(3)] by blast
  then show "\<exists>m'. fetch_step p c m0 = Some (PAUSE, c, m')"
    using b(1) by (simp add: fetch_step_eq [OF c b(1)])
qed

end

sublocale proto_wire \<subseteq> cf: framing in_bytes "conn_fetch_ok n" "fetch_step p" "frame p" "sendable p" same_content for n
  by (rule conn_is_framing)

text \<open>What \<^verbatim>\<open>conn_read\<close> does when the buffer holds no complete frame: it reads and decodes once.\<close>

lemma conn_read_fd_room:
  assumes "conn_room (length bs + n) c" "\<forall>k. \<not> fst h k" "bs \<noteq> []" "length bs \<le> extrabuf_size"
  shows "\<exists>c1. conn_read_fd h (Inr bs) t c = Some (OK, c1) \<and> conn_fetch_ok n c1 \<and> in_bytes c1 = in_bytes c @ bs"
proof -
  have c: "\<not> is_invalid c" "c_codec c = Some PROTOBUF" "buf_room (length bs + n) (check_new (c_recv_buf c))"
    using assms(1) by (simp_all add: conn_room_def)
  obtain b where b: "read_fd h (Inr bs) (c_errno c) (check_new (c_recv_buf c)) = Some (int (length bs), c_errno c, b)"
    "buf_room n b" "readable b = readable (check_new (c_recv_buf c)) @ bs"
    using read_fd_room [OF c(3) assms(2,4)] by blast
  have "readable (check_new (c_recv_buf c)) = in_bytes c"
    by (simp add: in_bytes_def check_new_def split: option.splits)
  with b recovery_room [OF b(2), of h] c assms(3) show ?thesis
    by (auto simp: conn_read_fd_def conn_fetch_ok_def conn_room_def is_invalid_def check_new_def in_bytes_def Let_def)
qed

lemma conn_read_drained:
  assumes p: "proto_wire p" and c: "conn_room (length bs + n) c" and mem: "\<forall>k. \<not> fst h k"
    and cut: "in_bytes c @ rest = frame p mx" "rest \<noteq> []" "sendable p mx"
    and bs: "bs \<noteq> []" "length bs \<le> extrabuf_size"
  shows "\<exists>m1 c1. conn_fetch_ok n c1 \<and> in_bytes c1 = in_bytes c @ bs \<and>
    conn_read p h (Inr bs) t m0 c = map_option (\<lambda>(st, c', m'). (st, m', c')) (fetch_step p c1 m1)"
proof -
  obtain c1 where c1: "conn_read_fd h (Inr bs) t c = Some (OK, c1)" "conn_fetch_ok n c1" "in_bytes c1 = in_bytes c @ bs"
    using conn_read_fd_room [OF c mem bs] by blast
  have d: "map_option (\<lambda>(st, c', m'). (st, m', c')) (fetch_step p c1 m1) = decode_proto p m1 c1" for m1
    using c1(2) conn_room_state [of n c1] by (cases "decode_proto p m1 c1")
      (auto simp: fetch_step_def fetch_data_def conn_fetch_ok_def)
  show ?thesis
  proof (cases "c_recv_buf c")
    case None
    then show ?thesis using c1 by (intro exI [of _ m0] exI [of _ c1]) (simp add: conn_read_def d)
  next
    case (Some b)
    with c have "conn_fetch_ok (length bs + n) c" by (simp add: conn_fetch_ok_def)
    from framing.dec_partial [OF proto_wire.conn_is_framing [OF p] this cut(3,1,2)] obtain m1 where
      "fetch_step p c m0 = Some (PAUSE, c, m1)" by blast
    then have "fetch_data p m0 c = Some (PAUSE, m1, c)" by (auto simp: fetch_step_def)
    then show ?thesis using c1 Some by (intro exI [of _ m1] exI [of _ c1]) (simp add: conn_read_def d)
  qed
qed

lemma read_turn_spec:
  assumes p: "proto_wire p" and c: "conn_room (length bs + n) c" and mem: "\<forall>k. \<not> fst h k"
    and cut: "in_bytes c @ rest = frame p mx" "rest \<noteq> []" "sendable p mx"
    and bs: "bs \<noteq> []" "length bs \<le> extrabuf_size"
    and new: "in_bytes c @ bs = concat (map (frame p) ms) @ pre" "pre @ post = frame p my" "post \<noteq> []" "sendable p my"
      "list_all (sendable p) ms" and fuel: "length ms \<le> fuel" "0 < fuel"
  shows "\<exists>ms' c'. read_turn fuel p h (Inr bs) t m0 c = Some (PAUSE, ms', c') \<and> list_all2 same_content ms' ms \<and>
    conn_room n c' \<and> in_bytes c' = pre"
proof -
  obtain m1 c1 where c1: "conn_fetch_ok n c1" "in_bytes c1 = in_bytes c @ bs"
    and r: "conn_read p h (Inr bs) t m0 c = map_option (\<lambda>(st, c', m'). (st, m', c')) (fetch_step p c1 m1)"
    using conn_read_drained [OF p c mem cut bs] by blast
  note fr = proto_wire.conn_is_framing [OF p, of n]
  show ?thesis
  proof (cases ms)
    case Nil
    with new c1(2) have "in_bytes c1 @ post = frame p my" by simp
    from framing.dec_partial [OF fr c1(1) new(4) this new(3)] obtain m' where "fetch_step p c1 m1 = Some (PAUSE, c1, m')" by blast
    then show ?thesis using r c1 new(1) Nil by (simp add: read_turn_def conn_fetch_ok_def)
  next
    case (Cons m ms1)
    with new c1(2) have "in_bytes c1 = frame p m @ concat (map (frame p) ms1) @ pre" "sendable p m" by simp_all
    from framing.dec_frame [OF fr c1(1) this(2,1)] obtain c2 m' where
      c2: "fetch_step p c1 m1 = Some (OK, c2, m')" "same_content m' m" "conn_fetch_ok n c2"
        "in_bytes c2 = concat (map (frame p) ms1) @ pre" by blast
    have "length ms1 < fuel" "list_all (sendable p) ms1" using fuel new(5) Cons by simp_all
    with framing.drain_frames [OF fr c2(3) _ new(4) c2(4) new(2,3)] obtain ms' c' where
      "drain fuel (fetch_step p) m0 c2 = Some (PAUSE, ms', c')" "list_all2 same_content ms' ms1" "conn_fetch_ok n c'" "in_bytes c' = pre"
      by blast
    then show ?thesis using r c2 Cons by (simp add: read_turn_def conn_fetch_ok_def)
  qed
qed

lemma frame_nonempty: "proto_wire p \<Longrightarrow> sendable p m \<Longrightarrow> frame p m \<noteq> []"
  using sendable_head_length [of p m] by (auto simp: frame_def)

lemma read_turns_spec:
  assumes p: "proto_wire p" and mem: "\<forall>k. \<not> fst h k" and fuel: "0 < fuel"
    and last: "pre @ post = frame p mx" "post \<noteq> []" "sendable p mx"
  shows "conn_room (length (concat (map fst xs))) c \<Longrightarrow> in_bytes c @ rest = frame p my \<Longrightarrow> rest \<noteq> [] \<Longrightarrow> sendable p my \<Longrightarrow>
    \<forall>x \<in> set xs. fst x \<noteq> [] \<and> length (fst x) \<le> extrabuf_size \<Longrightarrow>
    in_bytes c @ concat (map fst xs) = concat (map (frame p) ms) @ pre \<Longrightarrow> list_all (sendable p) ms \<Longrightarrow> length ms \<le> fuel \<Longrightarrow>
    \<exists>rs c'. read_turns fuel p h m0 xs c = Some (rs, c') \<and> list_all (\<lambda>r. fst r = PAUSE) rs \<and>
      list_all2 same_content (concat (map snd rs)) ms \<and> in_bytes c' = pre"
proof (induction xs arbitrary: c ms rest my)
  case Nil
  have "ms = []"
  proof (rule framing.cut_has_no_frame [OF proto_wire.is_framing [OF p]])
    show "conn_buf_ok (check_new (c_recv_buf c))" using Nil(1) buf_roomD(2) by (auto simp: conn_room_def)
    have "readable (check_new (c_recv_buf c)) = in_bytes c"
      by (simp add: in_bytes_def check_new_def split: option.splits)
    then show "readable (check_new (c_recv_buf c)) = concat (map (frame p) ms) @ pre"
      "readable (check_new (c_recv_buf c)) @ rest = frame p my" using Nil by simp_all
  qed (use Nil in simp_all)
  with Nil show ?case by simp
next
  case (Cons x xs)
  obtain bs t where x: "x = (bs, t)" by force
  have stream: "(in_bytes c @ bs) @ concat (map fst xs) = concat (map (frame p) ms) @ pre"
    using Cons.prems(6) x by simp
  from framing.split_stream [OF proto_wire.is_framing [OF p] stream last(1,2,3) Cons.prems(7) frame_nonempty [OF p]]
  obtain ms1 ms2 cut rest' my' where s: "ms = ms1 @ ms2" "in_bytes c @ bs = concat (map (frame p) ms1) @ cut"
    "cut @ rest' = frame p my'" "rest' \<noteq> []" "sendable p my'" "cut @ concat (map fst xs) = concat (map (frame p) ms2) @ pre" by blast
  have "conn_room (length bs + length (concat (map fst xs))) c" "bs \<noteq> []" "length bs \<le> extrabuf_size"
    "list_all (sendable p) ms1" "length ms1 \<le> fuel"
    using Cons.prems x s(1) by simp_all
  from read_turn_spec [OF p this(1) mem Cons.prems(2-4) this(2,3) s(2-5) this(4,5) fuel] obtain ms' c1 where
    r: "read_turn fuel p h (Inr bs) t m0 c = Some (PAUSE, ms', c1)" "list_all2 same_content ms' ms1"
      "conn_room (length (concat (map fst xs))) c1" "in_bytes c1 = cut" by blast
  have "\<exists>rs c'. read_turns fuel p h m0 xs c1 = Some (rs, c') \<and> list_all (\<lambda>r. fst r = PAUSE) rs \<and>
      list_all2 same_content (concat (map snd rs)) ms2 \<and> in_bytes c' = pre"
    using Cons.prems s r by (intro Cons.IH [OF r(3) _ s(4,5)]) auto
  then show ?case using r x s(1) by (auto intro: list_all2_appendI)
qed

section \<open>Writing\<close>

lemma encode_room:
  assumes p: "proto_wire p" and b: "buf_room (length (frame p m) + n) b" and m: "sendable p m" and mem: "\<forall>k. \<not> fst h k"
  shows "\<exists>b'. proto_encode p h junk m b = Some (OK, b') \<and> buf_room n b' \<and> readable b' = readable b @ frame p m"
proof -
  have l: "length (ser_head p (m_msg_head m)) = 15" by (rule sendable_head_length [OF p m])
  have "buf_room (length (ser_head p (m_msg_head m)) + (length (ser_body p (m_msg_body m)) + n)) b"
    using b by (simp add: frame_def add.assoc)
  from sb_write_room [OF this mem] obtain b1 where b1: "sb_write h (ser_head p (m_msg_head m)) b = Some (15, b1)"
    "buf_room (length (ser_body p (m_msg_body m)) + n) b1" "readable b1 = readable b @ ser_head p (m_msg_head m)"
    by (auto simp: l)
  from sb_write_room [OF b1(2) mem] b1 show ?thesis by (auto simp: encode_eq [OF p m] frame_def)
qed

lemma conn_append_room:
  assumes p: "proto_wire p" and c: "\<not> is_invalid c" "c_codec c = Some PROTOBUF"
    and b: "buf_room (length (frame p m) + n) (check_new (c_send_buf c))" and m: "sendable p m" and mem: "\<forall>k. \<not> fst h k"
  shows "\<exists>b'. conn_append_message p h junk m c = Some (OK, c\<lparr>c_send_buf := Some b'\<rparr>) \<and> buf_room n b' \<and>
    readable b' = out_bytes c @ frame p m"
proof -
  have "readable (check_new (c_send_buf c)) = out_bytes c"
    by (simp add: out_bytes_def check_new_def split: option.splits)
  with encode_room [OF p b m mem, of junk] c show ?thesis by (auto simp: conn_append_message_def)
qed

lemma recovery_empty:
  assumes "sb_ok b" "m_buffer_len b < 4294967296" "readable_len b = 0"
  shows "capacity (recovery h b) \<le> BUFFER_MAX_READ"
  using assms by (auto simp: recovery_def compact_def capacity_def BUFFER_MAX_READ_def)

lemma conn_write_spec:
  assumes "\<not> is_invalid c" "c_send_buf c = Some b" "buf_room n b" "is_readable b"
  shows "(\<forall>k. k \<le> length (readable b) \<longrightarrow> (\<exists>st c' b'. conn_write_fd h (Inr k) t c = (st, c') \<and> c_send_buf c' = Some b' \<and>
      buf_room n b' \<and> readable b' = drop k (readable b) \<and> st = (if k = length (readable b) then OK else PAUSE) \<and>
      (st = OK \<longrightarrow> capacity b' \<le> BUFFER_MAX_READ))) \<and>
    (\<forall>e. conn_write_fd h (Inl e) t c = (if e = EAGAIN then PAUSE else ERR, c\<lparr>c_errno := e\<rparr>))"
proof (intro conjI allI impI)
  note b = buf_roomD [OF assms(3)]
  have r: "readable_len b \<noteq> 0" using assms(4) by (simp add: readable_len_def is_readable_def)
  fix k assume k: "k \<le> length (readable b)"
  then have "k \<le> readable_len b" using readable_length [OF b(1)] by simp
  from write_fd_spec [OF b(1) this b(5), of "c_errno c"] obtain b1 where
    b1: "write_fd (Inr k) (c_errno c) b = (int k, c_errno c, b1)" "sb_ok b1" "readable b1 = drop k (readable b)" by blast
  have w: "m_write_idx b1 = m_write_idx b" "m_buffer_len b1 = m_buffer_len b"
    using b1(1) by (auto simp: write_fd_def split: if_splits)
  then have room: "buf_room n b1" using b1(2) assms(3) by (simp add: buf_room_def)
  note v = recovery_room [OF room, of h]
  have l: "readable_len (recovery h b1) = length (readable b) - k"
    using readable_length [OF buf_roomD(1) [OF v(1)]] v(2) b1(3) by simp
  have l1: "readable_len b1 = length (readable b) - k" using readable_length [OF b1(2)] b1(3) by simp
  have cap: "capacity (recovery h b1) \<le> BUFFER_MAX_READ" if "k = length (readable b)"
    using recovery_empty [OF b1(2)] l1 that w(2) b(4) by simp
  show "\<exists>st c' b'. conn_write_fd h (Inr k) t c = (st, c') \<and> c_send_buf c' = Some b' \<and>
      buf_room n b' \<and> readable b' = drop k (readable b) \<and> st = (if k = length (readable b) then OK else PAUSE) \<and>
      (st = OK \<longrightarrow> capacity b' \<le> BUFFER_MAX_READ)"
    using assms(1,2,4) b1(1,3) v l k cap by (simp add: conn_write_fd_def Let_def)
next
  fix e
  have "readable_len b \<noteq> 0" using assms(4) by (simp add: readable_len_def is_readable_def)
  from write_fd_error [OF buf_roomD(5) [OF assms(3)] this, of e "c_errno c"]
  show "conn_write_fd h (Inl e) t c = (if e = EAGAIN then PAUSE else ERR, c\<lparr>c_errno := e\<rparr>)"
    using assms(1,2,4) by (simp add: conn_write_fd_def Let_def)
qed

section \<open>Properties\<close>

definition live_conn :: connection where
  "live_conn = (new_connection 5 9 1000)\<lparr>c_codec := Some PROTOBUF, c_codec_type := PROTOBUF, c_state := ST_CONNECTED\<rparr>"

text \<open>
  C5. Reassembly: however the network cuts the byte stream of a peer into reads, the turns of the
  connection's coroutine deliver exactly the messages that were sent, each once and in order, and an
  incomplete message at the end stays in the receive buffer.
\<close>

theorem stream_reassembled:
  assumes "proto_wire p" "\<forall>k. \<not> fst h k"
    and "\<not> is_invalid c" "c_codec c = Some PROTOBUF" "c_recv_buf c = None"
    and "list_all (sendable p) ms" "sendable p mx" "pre @ post = frame p mx" "post \<noteq> []"
    and "concat (map fst xs) = concat (map (frame p) ms) @ pre"
    and "\<forall>x \<in> set xs. fst x \<noteq> [] \<and> length (fst x) \<le> extrabuf_size"
    and "int (length (concat (map fst xs))) \<le> INT_MAX" "length ms < fuel"
  shows "\<exists>rs c'. read_turns fuel p h m0 xs c = Some (rs, c') \<and> list_all (\<lambda>r. fst r = PAUSE) rs \<and>
    list_all2 same_content (concat (map snd rs)) ms \<and> in_bytes c' = pre"
proof (rule read_turns_spec [OF assms(1,2) _ assms(8,9,7)])
  show "conn_room (length (concat (map fst xs))) c"
    using assms(3-5,12) buf_room_new by (simp add: conn_room_def check_new_def)
  show "in_bytes c @ frame p mx = frame p mx" "in_bytes c @ concat (map fst xs) = concat (map (frame p) ms) @ pre"
    using assms(5,10) by (simp_all add: in_bytes_def)
qed (use assms frame_nonempty in auto)

lemma cut_in_two: "concat (map fst [(take n bs, t), (drop n bs, t')]) = bs"
  by simp

theorem stream_reassembled_witness:
  "\<exists>rs c'. read_turns 3 proto3 (\<lambda>_. False, \<lambda>_. 0) ping
       [(take 25 (frame proto3 ping @ frame proto3 ping), 1001), (drop 25 (frame proto3 ping @ frame proto3 ping), 1002)] live_conn
     = Some (rs, c') \<and> list_all (\<lambda>r. fst r = PAUSE) rs \<and>
    list_all2 same_content (concat (map snd rs)) [ping, ping] \<and> in_bytes c' = []"
proof (rule stream_reassembled [where mx = ping and post = "frame proto3 ping", OF pw.proto_wire_axioms])
  have l: "length (frame proto3 ping @ frame proto3 ping) = 38" by (simp add: ping_frame_length)
  show "concat (map fst [(take 25 (frame proto3 ping @ frame proto3 ping), 1001::u64),
      (drop 25 (frame proto3 ping @ frame proto3 ping), 1002)]) = concat (map (frame proto3) [ping, ping]) @ []"
    unfolding cut_in_two by simp
  show "\<forall>x \<in> set [(take 25 (frame proto3 ping @ frame proto3 ping), 1001::u64),
      (drop 25 (frame proto3 ping @ frame proto3 ping), 1002)]. fst x \<noteq> [] \<and> length (fst x) \<le> extrabuf_size"
    using l by (auto simp: extrabuf_size_def ping_frame_length simp del: take_append drop_append length_append)
  show "int (length (concat (map fst [(take 25 (frame proto3 ping @ frame proto3 ping), 1001::u64),
      (drop 25 (frame proto3 ping @ frame proto3 ping), 1002)]))) \<le> INT_MAX"
    unfolding cut_in_two using l by (simp add: INT_MAX_def)
  show "frame proto3 ping \<noteq> []" by (rule frame_nonempty [OF pw.proto_wire_axioms ping_sendable])
qed (simp_all add: ping_sendable live_conn_def new_connection_def is_invalid_def)

text \<open>
  \<^verbatim>\<open>conn_read\<close> on a buffer that already holds two complete messages loses the first one: the
  message \<^verbatim>\<open>fetch_data\<close> decoded is overwritten by the second \<^verbatim>\<open>decode_proto\<close>. The server is safe from it
  only because it empties the buffer in every turn.
\<close>

theorem conn_read_drops_message:
  assumes "proto_wire p" "conn_room n c" "c_recv_buf c \<noteq> None" "sendable p m1" "sendable p m2"
    and "in_bytes c = frame p m1 @ frame p m2 @ rest"
  shows "\<exists>m' c'. conn_read p h got t m0 c = Some (OK, m', c') \<and> same_content m' m2 \<and> in_bytes c' = rest"
proof -
  note fr = proto_wire.conn_is_framing [OF assms(1), of n]
  have "conn_fetch_ok n c" using assms(2,3) by (simp add: conn_fetch_ok_def)
  from framing.dec_frame [OF fr this assms(4,6)] obtain c1 m1' where
    c1: "fetch_step p c m0 = Some (OK, c1, m1')" "conn_fetch_ok n c1" "in_bytes c1 = frame p m2 @ rest" by blast
  from framing.dec_frame [OF fr c1(2) assms(5) c1(3)] obtain c2 m' where
    c2: "fetch_step p c1 m1' = Some (OK, c2, m')" "same_content m' m2" "in_bytes c2 = rest" by blast
  have "fetch_data p m0 c = Some (OK, m1', c1)" "decode_proto p m1' c1 = Some (OK, m', c2)"
    using c1 c2 conn_room_state [of n c1] by (auto simp: fetch_step_def fetch_data_def conn_fetch_ok_def)
  then show ?thesis using assms(3) c2 by (simp add: conn_read_def)
qed

definition two_frames :: sbuf where
  "two_frames = (let bs = frame proto3 ping @ frame proto3 (ping\<lparr>m_msg_head := \<lparr>cmd = 1002, seq = 8, len = 4\<rparr>\<rparr>)
     in \<lparr>m_buffer = bs, m_buffer_len = length bs, m_write_idx = length bs, m_read_idx = 0\<rparr>)"

theorem conn_read_drops_message_witness:
  "\<exists>m' c'. conn_read proto3 (\<lambda>_. False, \<lambda>_. 0) (Inl EAGAIN) 0 ping (live_conn\<lparr>c_recv_buf := Some two_frames\<rparr>) = Some (OK, m', c') \<and>
     same_content m' (ping\<lparr>m_msg_head := \<lparr>cmd = 1002, seq = 8, len = 4\<rparr>\<rparr>) \<and> in_bytes c' = []"
proof (rule conn_read_drops_message [OF pw.proto_wire_axioms, where n = 0 and ?m1.0 = ping])
  show s: "sendable proto3 (ping\<lparr>m_msg_head := \<lparr>cmd = 1002, seq = 8, len = 4\<rparr>\<rparr>)"
    using ping_body by (simp add: sendable_def INT_MAX_def)
  have "length (frame proto3 (ping\<lparr>m_msg_head := \<lparr>cmd = 1002, seq = 8, len = 4\<rparr>\<rparr>)) = 19"
    using sendable_head_length [OF pw.proto_wire_axioms s] ping_body by (simp add: frame_def)
  then show "conn_room 0 (live_conn\<lparr>c_recv_buf := Some two_frames\<rparr>)"
    using ping_frame_length by (simp add: conn_room_def live_conn_def new_connection_def is_invalid_def check_new_def
        buf_room_def two_frames_def sb_ok_def INT_MAX_def Let_def)
  show "in_bytes (live_conn\<lparr>c_recv_buf := Some two_frames\<rparr>) =
     frame proto3 ping @ frame proto3 (ping\<lparr>m_msg_head := \<lparr>cmd = 1002, seq = 8, len = 4\<rparr>\<rparr>) @ []"
    by (simp add: in_bytes_def two_frames_def readable_def sb_len_defs Let_def)
qed (simp_all add: ping_sendable)

text \<open>
  \<^verbatim>\<open>conn_write\<close> on a live connection with output pending: the bytes the kernel took leave the front of
  the output and no other byte changes; the status is OK exactly when nothing is left, and then the
  buffer keeps at most \<^verbatim>\<open>BUFFER_MAX_READ\<close> bytes of memory; EAGAIN is PAUSE and any other error ERR, both
  without losing output.
\<close>

theorem conn_write_correct:
  assumes "\<not> is_invalid c" "c_send_buf c = Some b" "buf_room n b" "is_readable b"
  shows "(\<forall>k. k \<le> length (readable b) \<longrightarrow> (\<exists>st c' b'. conn_write_fd h (Inr k) t c = (st, c') \<and> c_send_buf c' = Some b' \<and>
      buf_room n b' \<and> readable b' = drop k (readable b) \<and> st = (if k = length (readable b) then OK else PAUSE) \<and>
      (st = OK \<longrightarrow> capacity b' \<le> BUFFER_MAX_READ))) \<and>
    (\<forall>e. conn_write_fd h (Inl e) t c = (if e = EAGAIN then PAUSE else ERR, c\<lparr>c_errno := e\<rparr>))"
  by (rule conn_write_spec [OF assms])

theorem conn_write_correct_witness:
  "let b = \<lparr>m_buffer = [1, 2, 3], m_buffer_len = 3, m_write_idx = 3, m_read_idx = 1\<rparr>; c = live_conn\<lparr>c_send_buf := Some b\<rparr>
   in \<exists>st c' b'. conn_write_fd (\<lambda>_. False, \<lambda>_. 0) (Inr 1) 7 c = (st, c') \<and> c_send_buf c' = Some b' \<and> readable b' = [3] \<and> st = PAUSE"
proof -
  define b where "b = \<lparr>m_buffer = [1, 2, 3::u8], m_buffer_len = 3, m_write_idx = 3, m_read_idx = 1\<rparr>"
  have r: "readable b = [2, 3]" by (simp add: b_def readable_def sb_len_defs)
  have "\<not> is_invalid (live_conn\<lparr>c_send_buf := Some b\<rparr>)" "buf_room 0 b" "is_readable b"
    by (simp_all add: live_conn_def new_connection_def is_invalid_def buf_room_def sb_ok_def b_def is_readable_def INT_MAX_def)
  from conn_write_correct [OF this(1) _ this(2,3), of "(\<lambda>_. False, \<lambda>_. 0)" 7] r show ?thesis
    unfolding Let_def b_def [symmetric] by (auto dest!: spec [of _ 1])
qed

end
