(* ===== verification/WorkerData.thy ===== *)
theory WorkerData
  imports Server
begin

text \<open>
  The table in which the manager keeps its worker processes
  (\<^verbatim>\<open>src/src/core/worker_data_mgr.h\<close>, \<^verbatim>\<open>worker_data_mgr.cpp\<close>). The two hash tables share the
  \<^verbatim>\<open>worker_info_t\<close> objects, so the objects live in a store \<open>m_infos\<close> and the tables hold addresses;
  \<open>None\<close> is the use of an address that was deleted. The iterator \<^verbatim>\<open>m_itr_worker\<close> is a position in
  the table by pid. The invariant is the interpretation \<open>wd\<close> of locale \<open>invariant_system\<close>.
\<close>

section \<open>Data\<close>

text \<open>The load report of \<^verbatim>\<open>protobuf/sys/payload.proto\<close>; the \<^verbatim>\<open>double\<close> \<^verbatim>\<open>create_time\<close> only ever holds
  a number of milliseconds.\<close>

record payload =
  worker_index :: u32
  cmd_cnt :: u32
  conn_cnt :: u32
  read_cnt :: u32
  write_cnt :: u32
  read_bytes :: u32
  write_bytes :: u32
  create_time :: nat

definition payload0 :: payload where
  "payload0 = \<lparr>worker_index = 0, cmd_cnt = 0, conn_cnt = 0, read_cnt = 0, write_cnt = 0,
     read_bytes = 0, write_bytes = 0, create_time = 0\<rparr>"

record worker_info =
  w_pid :: int
  w_index :: int
  w_fctrl :: fd_t
  w_fdata :: fd_t
  w_payload :: payload

record worker_data =
  m_infos :: "(nat, worker_info) umap"
  m_next_addr :: nat
  m_workers :: "(int, nat) umap"
  m_itr_worker :: nat
  m_index_workers :: "(int, nat) umap"

definition new_worker_data :: worker_data where
  "new_worker_data = \<lparr>m_infos = [], m_next_addr = 0, m_workers = [], m_itr_worker = 0, m_index_workers = []\<rparr>"

section \<open>Operations\<close>

definition deref_info :: "worker_data \<Rightarrow> nat \<Rightarrow> worker_info option" where
  "deref_info d a = um_find (m_infos d) a"

definition del_worker_info :: "int \<Rightarrow> worker_data \<Rightarrow> (bool \<times> worker_data) option" where
  "del_worker_info pid d =
     (case um_find (m_workers d) pid of
        None \<Rightarrow> Some (False, d)
      | Some a \<Rightarrow> do {
          info \<leftarrow> deref_info d a;
          Some (True, d\<lparr>m_index_workers := um_erase (w_index info) (m_index_workers d),
                        m_infos := um_erase a (m_infos d),
                        m_workers := um_erase pid (m_workers d),
                        m_itr_worker := 0\<rparr>)
        })"

definition add_worker_info :: "int \<Rightarrow> int \<Rightarrow> fd_t \<Rightarrow> fd_t \<Rightarrow> worker_data \<Rightarrow> (bool \<times> worker_data) option" where
  "add_worker_info index pid fctrl fdata d = do {
     d1 \<leftarrow> (if um_find (m_workers d) pid \<noteq> None then map_option snd (del_worker_info pid d) else Some d);
     let a = m_next_addr d1;
     Some (True, d1\<lparr>m_infos := um_put a \<lparr>w_pid = pid, w_index = index, w_fctrl = fctrl, w_fdata = fdata,
                                         w_payload = payload0\<rparr> (m_infos d1),
                    m_next_addr := Suc a,
                    m_workers := um_put pid a (m_workers d1),
                    m_itr_worker := 0,
                    m_index_workers := um_put index a (m_index_workers d1)\<rparr>)
   }"

definition get_worker_info_by_pid :: "int \<Rightarrow> worker_data \<Rightarrow> nat option" where
  "get_worker_info_by_pid pid d = um_find (m_workers d) pid"

definition get_worker_info_by_index :: "int \<Rightarrow> worker_data \<Rightarrow> nat option" where
  "get_worker_info_by_index index d = um_find (m_index_workers d) index"

definition get_worker_index :: "int \<Rightarrow> worker_data \<Rightarrow> int option" where
  "get_worker_index pid d =
     (case um_find (m_workers d) pid of None \<Rightarrow> Some (- 1) | Some a \<Rightarrow> map_option w_index (deref_info d a))"

definition get_worker_data_fd :: "int \<Rightarrow> worker_data \<Rightarrow> int option" where
  "get_worker_data_fd index d =
     (case um_find (m_index_workers d) index of
        None \<Rightarrow> Some (- 1) | Some a \<Rightarrow> map_option (\<lambda>w. ft_fd (w_fdata w)) (deref_info d a))"

text \<open>The array \<^verbatim>\<open>chs\<close> may be null; the result is the return value and what was stored into it.\<close>

definition get_worker_channel :: "int \<Rightarrow> bool \<Rightarrow> worker_data \<Rightarrow> (bool \<times> (int \<times> int) option) option" where
  "get_worker_channel pid chs_null d =
     (if chs_null then Some (False, None)
      else case um_find (m_workers d) pid of
          None \<Rightarrow> Some (False, None)
        | Some a \<Rightarrow> map_option (\<lambda>w. (True, Some (ft_fd (w_fctrl w), ft_fd (w_fdata w)))) (deref_info d a))"

definition get_next_worker_data_fd :: "worker_data \<Rightarrow> (int \<times> worker_data) option" where
  "get_next_worker_data_fd d =
     (if m_workers d = [] then Some (- 1, d)
      else let i = Suc (m_itr_worker d); i' = (if i = length (m_workers d) then 0 else i)
           in if i' < length (m_workers d)
              then map_option (\<lambda>w. (ft_fd (w_fdata w), d\<lparr>m_itr_worker := i'\<rparr>)) (deref_info d (snd (m_workers d ! i')))
              else None)"

text \<open>Storing a payload through the address the look-up by index returned.\<close>

definition set_worker_payload :: "nat \<Rightarrow> payload \<Rightarrow> worker_data \<Rightarrow> worker_data option" where
  "set_worker_payload a pl d =
     map_option (\<lambda>w. d\<lparr>m_infos := um_put a (w\<lparr>w_payload := pl\<rparr>) (m_infos d)\<rparr>) (deref_info d a)"

section \<open>Histories\<close>

datatype worker_op =
    WAdd int int fd_t fd_t
  | WDel int
  | WNext
  | WPayload int payload

definition worker_step :: "worker_data option \<Rightarrow> worker_op \<Rightarrow> worker_data option" where
  "worker_step s x = do {
     d \<leftarrow> s;
     case x of
       WAdd index pid fc fd \<Rightarrow> map_option snd (add_worker_info index pid fc fd d)
     | WDel pid \<Rightarrow> map_option snd (del_worker_info pid d)
     | WNext \<Rightarrow> map_option snd (get_next_worker_data_fd d)
     | WPayload index pl \<Rightarrow> (case get_worker_info_by_index index d of
           None \<Rightarrow> Some d | Some a \<Rightarrow> set_worker_payload a pl d)
   }"

definition worker_run :: "worker_op list \<Rightarrow> worker_data option" where
  "worker_run = foldl worker_step (Some new_worker_data)"

fun next_fds :: "nat \<Rightarrow> worker_data \<Rightarrow> (int list \<times> worker_data) option" where
  "next_fds 0 d = Some ([], d)"
| "next_fds (Suc n) d = do {
     (fd, d1) \<leftarrow> get_next_worker_data_fd d;
     (fds, d2) \<leftarrow> next_fds n d1;
     Some (fd # fds, d2)
   }"

definition data_fd_of :: "worker_data \<Rightarrow> nat \<Rightarrow> int" where
  "data_fd_of d a = (case deref_info d a of None \<Rightarrow> - 1 | Some w \<Rightarrow> ft_fd (w_fdata w))"

text \<open>The invariant: no table holds a deleted address, an entry's object carries the entry's key, an
  object in the index table is also in the table by pid, and the iterator is a position.\<close>

definition wd_ok :: "worker_data \<Rightarrow> bool" where
  "wd_ok d \<longleftrightarrow> um_ok (m_infos d) \<and> um_ok (m_workers d) \<and> um_ok (m_index_workers d) \<and>
     (\<forall>pid a. um_find (m_workers d) pid = Some a \<longrightarrow> (\<exists>w. deref_info d a = Some w \<and> w_pid w = pid)) \<and>
     (\<forall>i a. um_find (m_index_workers d) i = Some a \<longrightarrow>
        (\<exists>w. deref_info d a = Some w \<and> w_index w = i \<and> um_find (m_workers d) (w_pid w) = Some a)) \<and>
     (\<forall>a w. deref_info d a = Some w \<longrightarrow> a < m_next_addr d) \<and>
     (m_workers d = [] \<and> m_itr_worker d = 0 \<or> m_itr_worker d < length (m_workers d))"

definition wd_ok_opt :: "worker_data option \<Rightarrow> bool" where
  "wd_ok_opt s = (case s of None \<Rightarrow> False | Some d \<Rightarrow> wd_ok d)"

definition indexed :: "worker_data \<Rightarrow> bool" where
  "indexed d \<longleftrightarrow> (\<forall>pid a w. um_find (m_workers d) pid = Some a \<longrightarrow> deref_info d a = Some w \<longrightarrow>
     um_find (m_index_workers d) (w_index w) = Some a)"

text \<open>What the manager does: it never gives a worker the index of another one that is registered.\<close>

definition fresh_index :: "worker_data option \<Rightarrow> worker_op \<Rightarrow> bool" where
  "fresh_index s x = (case x of
       WAdd index pid fc fd \<Rightarrow> (\<forall>d \<in> set_option s. \<forall>a w. um_find (m_index_workers d) index = Some a \<longrightarrow>
          deref_info d a = Some w \<longrightarrow> w_pid w = pid)
     | _ \<Rightarrow> True)"

definition wd_indexed_opt :: "worker_data option \<Rightarrow> bool" where
  "wd_indexed_opt s = (case s of None \<Rightarrow> False | Some d \<Rightarrow> wd_ok d \<and> indexed d)"

section \<open>The invariant is kept\<close>

lemma wd_ok_new: "wd_ok new_worker_data" "indexed new_worker_data"
  by (auto simp: wd_ok_def indexed_def new_worker_data_def um_ok_def um_find_def deref_info_def)

lemma wd_okD:
  assumes "wd_ok d"
  shows "um_ok (m_infos d)" "um_ok (m_workers d)" "um_ok (m_index_workers d)"
    "um_find (m_workers d) pid = Some a \<Longrightarrow> \<exists>w. deref_info d a = Some w \<and> w_pid w = pid"
    "um_find (m_index_workers d) i = Some a \<Longrightarrow>
       \<exists>w. deref_info d a = Some w \<and> w_index w = i \<and> um_find (m_workers d) (w_pid w) = Some a"
    "deref_info d a = Some w \<Longrightarrow> a < m_next_addr d"
  using assms unfolding wd_ok_def by blast+

lemma wd_okI:
  assumes "um_ok (m_infos d)" "um_ok (m_workers d)" "um_ok (m_index_workers d)"
    and "\<And>pid a. um_find (m_workers d) pid = Some a \<Longrightarrow> \<exists>w. deref_info d a = Some w \<and> w_pid w = pid"
    and "\<And>i a. um_find (m_index_workers d) i = Some a \<Longrightarrow>
       \<exists>w. deref_info d a = Some w \<and> w_index w = i \<and> um_find (m_workers d) (w_pid w) = Some a"
    and "\<And>a w. deref_info d a = Some w \<Longrightarrow> a < m_next_addr d"
    and "m_workers d = [] \<and> m_itr_worker d = 0 \<or> m_itr_worker d < length (m_workers d)"
  shows "wd_ok d"
  using assms unfolding wd_ok_def by blast

lemma um_put_nonempty: "um_put k v m \<noteq> []"
  by (cases m) (auto simp: um_put_def)

lemma del_worker_info_ok:
  assumes "wd_ok d"
  shows "\<exists>r d'. del_worker_info pid d = Some (r, d') \<and> wd_ok d' \<and> um_find (m_workers d') pid = None \<and>
    m_next_addr d' = m_next_addr d \<and> (indexed d \<longrightarrow> indexed d') \<and>
    (\<forall>q. q \<noteq> pid \<longrightarrow> um_find (m_workers d') q = um_find (m_workers d) q)"
proof (cases "um_find (m_workers d) pid")
  case None
  then show ?thesis using assms by (auto simp: del_worker_info_def)
next
  case (Some a)
  with assms obtain w where w: "deref_info d a = Some w" "w_pid w = pid" unfolding wd_ok_def by blast
  define d' where "d' = d\<lparr>m_index_workers := um_erase (w_index w) (m_index_workers d),
      m_infos := um_erase a (m_infos d), m_workers := um_erase pid (m_workers d), m_itr_worker := 0\<rparr>"
  have e: "del_worker_info pid d = Some (True, d')" by (simp add: del_worker_info_def Some w d'_def)
  have other: "b \<noteq> a" if "um_find (m_workers d) q = Some b" "q \<noteq> pid" for q b
    using that assms w unfolding wd_ok_def by fastforce
  have other_i: "b \<noteq> a" if "um_find (m_index_workers d) i = Some b" "i \<noteq> w_index w" for i b
    using that assms w unfolding wd_ok_def by fastforce
  have pid_i: "w_pid v \<noteq> pid" if "um_find (m_index_workers d) i = Some b" "i \<noteq> w_index w" "deref_info d b = Some v" for i b v
    using that assms Some w unfolding wd_ok_def by fastforce
  have f: "deref_info d' b = (if b = a then None else deref_info d b)"
      "um_find (m_workers d') q = (if q = pid then None else um_find (m_workers d) q)"
      "um_find (m_index_workers d') i = (if i = w_index w then None else um_find (m_index_workers d) i)" for b q i
    by (simp_all add: d'_def deref_info_def um_find_erase)
  have "wd_ok d'"
  proof (rule wd_okI)
    show "\<exists>v. deref_info d' b = Some v \<and> w_pid v = q" if "um_find (m_workers d') q = Some b" for q b
      using that other wd_okD(4) [OF assms, of q b] by (auto simp: f split: if_splits)
    show "\<exists>v. deref_info d' b = Some v \<and> w_index v = i \<and> um_find (m_workers d') (w_pid v) = Some b"
      if "um_find (m_index_workers d') i = Some b" for i b
    proof -
      from that have i: "um_find (m_index_workers d) i = Some b" "i \<noteq> w_index w" by (auto simp: f split: if_splits)
      with wd_okD(5) [OF assms] obtain v where "deref_info d b = Some v" "w_index v = i" "um_find (m_workers d) (w_pid v) = Some b"
        by blast
      with i other_i pid_i show ?thesis by (auto simp: f)
    qed
    show "b < m_next_addr d'" if "deref_info d' b = Some v" for b v
    proof -
      have "m_next_addr d' = m_next_addr d" by (simp add: d'_def)
      with that wd_okD(6) [OF assms, of b v] show ?thesis by (auto simp: f split: if_splits)
    qed
  qed (use wd_okD(1-3) [OF assms] in \<open>auto simp: d'_def um.ok_erase\<close>)
  moreover have "indexed d'" if "indexed d"
    unfolding indexed_def
  proof (intro allI impI)
    fix q b v assume qb: "um_find (m_workers d') q = Some b" "deref_info d' b = Some v"
    then have "um_find (m_workers d) q = Some b" "deref_info d b = Some v" "b \<noteq> a" by (auto simp: f split: if_splits)
    moreover from this that have "um_find (m_index_workers d) (w_index v) = Some b" by (simp add: indexed_def)
    moreover have "um_find (m_index_workers d) (w_index w) = Some a" using that Some w by (simp add: indexed_def)
    ultimately show "um_find (m_index_workers d') (w_index v) = Some b" by (auto simp: f)
  qed
  ultimately show ?thesis using e by (auto simp: d'_def um_find_erase)
qed

lemma insert_worker_ok:
  assumes "wd_ok d" "um_find (m_workers d) pid = None"
    and "d' = d\<lparr>m_infos := um_put (m_next_addr d) \<lparr>w_pid = pid, w_index = index, w_fctrl = fc, w_fdata = fd,
                  w_payload = payload0\<rparr> (m_infos d),
                m_next_addr := Suc (m_next_addr d), m_workers := um_put pid (m_next_addr d) (m_workers d),
                m_itr_worker := 0, m_index_workers := um_put index (m_next_addr d) (m_index_workers d)\<rparr>"
  shows "wd_ok d'" "indexed d \<Longrightarrow> um_find (m_index_workers d) index = None \<Longrightarrow> indexed d'"
proof -
  have alive: "b < m_next_addr d" if "um_find (m_workers d) q = Some b" for q b
    using that assms(1) unfolding wd_ok_def by blast
  have alive_i: "b < m_next_addr d" if "um_find (m_index_workers d) i = Some b" for i b
    using that assms(1) unfolding wd_ok_def by blast
  define w where "w = \<lparr>w_pid = pid, w_index = index, w_fctrl = fc, w_fdata = fd, w_payload = payload0\<rparr>"
  have f: "deref_info d' b = (if b = m_next_addr d then Some w else deref_info d b)"
      "um_find (m_workers d') q = (if q = pid then Some (m_next_addr d) else um_find (m_workers d) q)"
      "um_find (m_index_workers d') i = (if i = index then Some (m_next_addr d) else um_find (m_index_workers d) i)" for b q i
    by (simp_all add: assms(3) deref_info_def um_find_put w_def)
  show "wd_ok d'"
  proof (rule wd_okI)
    show "\<exists>v. deref_info d' b = Some v \<and> w_pid v = q" if "um_find (m_workers d') q = Some b" for q b
      using that alive wd_okD(4) [OF assms(1), of q b] by (auto simp: f w_def split: if_splits)
    show "\<exists>v. deref_info d' b = Some v \<and> w_index v = i \<and> um_find (m_workers d') (w_pid v) = Some b"
      if "um_find (m_index_workers d') i = Some b" for i b
    proof (cases "i = index")
      case True
      then show ?thesis using that by (auto simp: f w_def)
    next
      case False
      with that have i: "um_find (m_index_workers d) i = Some b" by (simp add: f)
      with wd_okD(5) [OF assms(1)] obtain v where "deref_info d b = Some v" "w_index v = i" "um_find (m_workers d) (w_pid v) = Some b"
        by blast
      with alive_i [OF i] assms(2) show ?thesis by (auto simp: f)
    qed
    show "b < m_next_addr d'" if "deref_info d' b = Some v" for b v
    proof -
      have "m_next_addr d' = Suc (m_next_addr d)" by (simp add: assms(3))
      with that wd_okD(6) [OF assms(1), of b v] show ?thesis by (auto simp: f split: if_splits)
    qed
  qed (use wd_okD(1-3) [OF assms(1)] um_put_nonempty [of pid "m_next_addr d" "m_workers d"] in \<open>auto simp: assms(3) um.ok_put\<close>)
  show "indexed d'" if "indexed d" "um_find (m_index_workers d) index = None"
    using that alive assms(2) unfolding indexed_def f by (auto simp: w_def split: if_splits)
qed

lemma add_worker_info_ok:
  assumes "wd_ok d"
  shows "\<exists>d'. add_worker_info index pid fc fd d = Some (True, d') \<and> wd_ok d' \<and>
    (indexed d \<and> fresh_index (Some d) (WAdd index pid fc fd) \<longrightarrow> indexed d')"
proof -
  have "\<exists>d1. (if um_find (m_workers d) pid \<noteq> None then map_option snd (del_worker_info pid d) else Some d) = Some d1 \<and>
      wd_ok d1 \<and> um_find (m_workers d1) pid = None \<and> (indexed d \<longrightarrow> indexed d1) \<and>
      (fresh_index (Some d) (WAdd index pid fc fd) \<longrightarrow> um_find (m_index_workers d1) index = None)"
  proof (cases "um_find (m_workers d) pid")
    case None
    have "um_find (m_index_workers d) index = None" if "fresh_index (Some d) (WAdd index pid fc fd)"
    proof (rule ccontr)
      assume "um_find (m_index_workers d) index \<noteq> None"
      then obtain a where a: "um_find (m_index_workers d) index = Some a" by auto
      with assms obtain w where "deref_info d a = Some w" "um_find (m_workers d) (w_pid w) = Some a"
        unfolding wd_ok_def by blast
      with that a None show False by (auto simp: fresh_index_def)
    qed
    with None assms show ?thesis by simp
  next
    case (Some a)
    obtain r d1 where d1: "del_worker_info pid d = Some (r, d1)" "wd_ok d1" "um_find (m_workers d1) pid = None"
      "indexed d \<longrightarrow> indexed d1" using del_worker_info_ok [OF assms] by blast
    from assms Some obtain w where w: "deref_info d a = Some w" "w_pid w = pid" unfolding wd_ok_def by blast
    have "um_find (m_index_workers d1) index = None" if f: "fresh_index (Some d) (WAdd index pid fc fd)"
    proof (rule ccontr)
      assume n: "um_find (m_index_workers d1) index \<noteq> None"
      have i: "m_index_workers d1 = um_erase (w_index w) (m_index_workers d)"
        using d1(1) Some w by (auto simp: del_worker_info_def)
      with n obtain b where b: "um_find (m_index_workers d) index = Some b" "index \<noteq> w_index w"
        by (auto simp: um_find_erase split: if_splits)
      with assms obtain v where "deref_info d b = Some v" "w_index v = index" "um_find (m_workers d) (w_pid v) = Some b"
        unfolding wd_ok_def by blast
      with f b Some w show False by (auto simp: fresh_index_def)
    qed
    with d1 Some show ?thesis by auto
  qed
  then obtain d1 where d1: "(if um_find (m_workers d) pid \<noteq> None then map_option snd (del_worker_info pid d) else Some d) = Some d1"
      "wd_ok d1" "um_find (m_workers d1) pid = None" "indexed d \<longrightarrow> indexed d1"
      "fresh_index (Some d) (WAdd index pid fc fd) \<longrightarrow> um_find (m_index_workers d1) index = None" by blast
  show ?thesis
    unfolding add_worker_info_def d1(1) using insert_worker_ok [OF d1(2,3) refl] d1(4,5) by (simp add: Let_def)
qed

lemma um_find_nth: "um_ok m \<Longrightarrow> i < length m \<Longrightarrow> um_find m (fst (m ! i)) = Some (snd (m ! i))"
  by (simp add: um_ok_def um_find_def)

lemma get_next_spec:
  assumes "wd_ok d" "m_workers d \<noteq> []"
  defines "i \<equiv> Suc (m_itr_worker d) mod length (m_workers d)"
  shows "get_next_worker_data_fd d = Some (data_fd_of d (snd (m_workers d ! i)), d\<lparr>m_itr_worker := i\<rparr>)"
    "wd_ok (d\<lparr>m_itr_worker := i\<rparr>)"
proof -
  have itr: "m_itr_worker d < length (m_workers d)" using assms(1,2) by (auto simp: wd_ok_def)
  have i: "i = (if Suc (m_itr_worker d) = length (m_workers d) then 0 else Suc (m_itr_worker d))"
    using itr by (simp add: i_def mod_Suc)
  have l: "i < length (m_workers d)" using assms(2) by (simp add: i_def)
  have "um_ok (m_workers d)" using assms(1) by (simp add: wd_ok_def)
  from um_find_nth [OF this l] assms(1) obtain w where "deref_info d (snd (m_workers d ! i)) = Some w"
    unfolding wd_ok_def by blast
  then show "get_next_worker_data_fd d = Some (data_fd_of d (snd (m_workers d ! i)), d\<lparr>m_itr_worker := i\<rparr>)"
    using assms(2) l by (simp add: get_next_worker_data_fd_def data_fd_of_def Let_def flip: i)
  show "wd_ok (d\<lparr>m_itr_worker := i\<rparr>)"
    using assms(1) l by (simp add: wd_ok_def deref_info_def)
qed

lemma set_worker_payload_ok:
  assumes "wd_ok d" "um_find (m_index_workers d) i = Some a"
  shows "\<exists>d'. set_worker_payload a pl d = Some d' \<and> wd_ok d' \<and> (indexed d \<longrightarrow> indexed d')"
proof -
  from assms obtain w where w: "deref_info d a = Some w" unfolding wd_ok_def by blast
  define d' where "d' = d\<lparr>m_infos := um_put a (w\<lparr>w_payload := pl\<rparr>) (m_infos d)\<rparr>"
  have f: "deref_info d' b = (if b = a then Some (w\<lparr>w_payload := pl\<rparr>) else deref_info d b)" for b
    by (simp add: deref_info_def d'_def um_find_put)
  have t: "m_workers d' = m_workers d" "m_index_workers d' = m_index_workers d" "m_next_addr d' = m_next_addr d"
    "m_itr_worker d' = m_itr_worker d" "um_ok (m_infos d) \<Longrightarrow> um_ok (m_infos d')" by (simp_all add: d'_def um.ok_put)
  have "wd_ok d'"
  proof (rule wd_okI)
    show "\<exists>v. deref_info d' b = Some v \<and> w_pid v = q" if "um_find (m_workers d') q = Some b" for q b
      using that w wd_okD(4) [OF assms(1), of q b] by (auto simp: f t)
    show "\<exists>v. deref_info d' b = Some v \<and> w_index v = i \<and> um_find (m_workers d') (w_pid v) = Some b"
      if "um_find (m_index_workers d') i = Some b" for i b
      using that w wd_okD(5) [OF assms(1), of i b] by (auto simp: f t)
    show "b < m_next_addr d'" if "deref_info d' b = Some v" for b v
      using that w wd_okD(6) [OF assms(1), of b] by (auto simp: f t split: if_splits)
  qed (use assms(1) in \<open>auto simp: t wd_ok_def\<close>)
  moreover have "indexed d'" if "indexed d" using that w unfolding indexed_def t f by (auto split: if_splits)
  ultimately show ?thesis using w by (simp add: set_worker_payload_def d'_def)
qed

lemma worker_step_ok:
  assumes "wd_ok d"
  shows "\<exists>d'. worker_step (Some d) x = Some d' \<and> wd_ok d' \<and> (indexed d \<and> fresh_index (Some d) x \<longrightarrow> indexed d')"
proof (cases x)
  case (WAdd index pid fc fd)
  with add_worker_info_ok [OF assms, of index pid fc fd] show ?thesis by (auto simp: worker_step_def)
next
  case (WDel pid)
  with del_worker_info_ok [OF assms, of pid] show ?thesis by (auto simp: worker_step_def)
next
  case WNext
  show ?thesis
  proof (cases "m_workers d = []")
    case True
    then show ?thesis using assms WNext by (simp add: worker_step_def get_next_worker_data_fd_def)
  next
    case False
    then show ?thesis
      using get_next_spec [OF assms False] WNext by (simp add: worker_step_def indexed_def deref_info_def)
  qed
next
  case (WPayload i pl)
  then show ?thesis
    using assms set_worker_payload_ok [OF assms, of i _ pl]
    by (cases "um_find (m_index_workers d) i") (auto simp: worker_step_def get_worker_info_by_index_def)
qed

interpretation wd: invariant_system "\<lambda>s. s = Some new_worker_data" worker_step "\<lambda>_ _. True" wd_ok_opt
proof unfold_locales
  show "wd_ok_opt s" if "s = Some new_worker_data" for s using that wd_ok_new by (simp add: wd_ok_opt_def)
  show "wd_ok_opt (worker_step s x)" if "wd_ok_opt s" for s x
    using that worker_step_ok [of _ x] by (fastforce simp: wd_ok_opt_def split: option.splits)
qed

interpretation wi: invariant_system "\<lambda>s. s = Some new_worker_data" worker_step fresh_index wd_indexed_opt
proof unfold_locales
  show "wd_indexed_opt s" if "s = Some new_worker_data" for s using that wd_ok_new by (simp add: wd_indexed_opt_def)
  show "wd_indexed_opt (worker_step s x)" if "wd_indexed_opt s" "fresh_index s x" for s x
    using that worker_step_ok [of _ x] by (fastforce simp: wd_indexed_opt_def split: option.splits)
qed

lemma next_fds_spec:
  assumes "wd_ok d" "m_workers d \<noteq> []"
  shows "\<exists>d'. next_fds n d = Some (map (\<lambda>k. data_fd_of d (snd (m_workers d ! ((Suc (m_itr_worker d) + k) mod length (m_workers d))))) [0..<n], d')"
  using assms
proof (induction n arbitrary: d)
  case 0
  then show ?case by simp
next
  case (Suc n)
  define i where "i = Suc (m_itr_worker d) mod length (m_workers d)"
  define d1 where "d1 = d\<lparr>m_itr_worker := i\<rparr>"
  have g: "get_next_worker_data_fd d = Some (data_fd_of d (snd (m_workers d ! i)), d1)" and ok: "wd_ok d1"
    using get_next_spec [OF Suc.prems] by (simp_all add: i_def d1_def)
  have same: "m_workers d1 = m_workers d" "m_itr_worker d1 = i" "data_fd_of d1 = data_fd_of d"
    by (auto simp: d1_def data_fd_of_def deref_info_def)
  have m: "(Suc i + k) mod length (m_workers d) = (Suc (m_itr_worker d) + Suc k) mod length (m_workers d)" for k
    unfolding i_def by (metis add_Suc add_Suc_right mod_add_left_eq)
  from Suc.IH [OF ok] Suc.prems(2) obtain d2 where
    "next_fds n d1 = Some (map (\<lambda>k. data_fd_of d (snd (m_workers d ! ((Suc i + k) mod length (m_workers d))))) [0..<n], d2)"
    by (auto simp: same)
  then have "next_fds n d1 = Some (map (\<lambda>k. data_fd_of d (snd (m_workers d ! ((Suc (m_itr_worker d) + Suc k) mod length (m_workers d))))) [0..<n], d2)"
    by (simp only: m)
  then show ?case using g by (simp add: upt_conv_Cons map_Suc_upt [symmetric] comp_def i_def del: upt_Suc)
qed

section \<open>Properties\<close>

text \<open>
  C32. After any sequence of calls no call has used a deleted entry: the tables and the iterator are
  usable, an entry found by index carries that index and is registered under its own pid, and an entry
  found by pid carries that pid. As long as no worker is added under the index of another registered
  worker, every registered worker is found by its index.
\<close>

theorem worker_tables_consistent:
  "\<exists>d. worker_run xs = Some d \<and>
     (\<forall>i a. get_worker_info_by_index i d = Some a \<longrightarrow> (\<exists>w. deref_info d a = Some w \<and> w_index w = i \<and>
        get_worker_info_by_pid (w_pid w) d = Some a \<and> get_worker_data_fd i d = Some (ft_fd (w_fdata w)))) \<and>
     (\<forall>pid a. get_worker_info_by_pid pid d = Some a \<longrightarrow> (\<exists>w. deref_info d a = Some w \<and> w_pid w = pid \<and>
        get_worker_index pid d = Some (w_index w) \<and>
        (enabled_run worker_step fresh_index (Some new_worker_data) xs \<longrightarrow>
           get_worker_info_by_index (w_index w) d = Some a)))"
proof -
  have "wd_ok_opt (worker_run xs)" unfolding worker_run_def by (rule wd.run_ok) simp_all
  then obtain d where d: "worker_run xs = Some d" "wd_ok d" by (auto simp: wd_ok_opt_def split: option.splits)
  have i: "indexed d" if "enabled_run worker_step fresh_index (Some new_worker_data) xs"
    using wi.run_ok [OF refl that] d(1) by (simp add: worker_run_def wd_indexed_opt_def)
  show ?thesis
    using d(1) wd_okD(4,5) [OF d(2)] i unfolding indexed_def
    by (fastforce simp: get_worker_info_by_index_def get_worker_info_by_pid_def get_worker_data_fd_def get_worker_index_def)
qed

definition two_workers :: "worker_op list" where
  "two_workers = [WAdd 1 100 \<lparr>ft_fd = 5, ft_id = 1\<rparr> \<lparr>ft_fd = 6, ft_id = 2\<rparr>,
     WAdd 2 101 \<lparr>ft_fd = 7, ft_id = 3\<rparr> \<lparr>ft_fd = 8, ft_id = 4\<rparr>, WDel 100,
     WAdd 1 102 \<lparr>ft_fd = 9, ft_id = 5\<rparr> \<lparr>ft_fd = 10, ft_id = 6\<rparr>, WNext]"

lemmas worker_defs = worker_run_def worker_step_def two_workers_def new_worker_data_def add_worker_info_def
  del_worker_info_def deref_info_def um_find_def um_put_def um_erase_def get_next_worker_data_fd_def
  get_worker_info_by_index_def get_worker_info_by_pid_def get_worker_data_fd_def

theorem worker_tables_consistent_witness:
  "\<exists>d. worker_run two_workers = Some d \<and> get_worker_info_by_index 1 d = Some 2 \<and>
     get_worker_data_fd 1 d = Some 10 \<and> get_worker_info_by_index 2 d = Some 1 \<and>
     (\<exists>w. deref_info d 2 = Some w \<and> w_index w = 1)"
  using worker_tables_consistent [of two_workers] by (auto simp: worker_defs)

text \<open>
  \<^verbatim>\<open>get_next_worker_data_fd\<close> goes round: with \<open>n\<close> workers registered, \<open>n\<close> successive calls return
  the data descriptor of every worker exactly once, starting after the current one, and the next calls
  repeat the same cycle.
\<close>

theorem next_worker_round_robin:
  assumes "worker_run xs = Some d" "m_workers d \<noteq> []" "n = length (m_workers d)"
  shows "\<exists>d'. next_fds (2 * n) d =
     Some (concat (replicate 2 (rotate (Suc (m_itr_worker d)) (map (\<lambda>e. data_fd_of d (snd e)) (m_workers d)))), d')"
proof -
  have "wd_ok_opt (worker_run xs)" unfolding worker_run_def by (rule wd.run_ok) simp_all
  with assms(1) have ok: "wd_ok d" by (simp add: wd_ok_opt_def)
  define r where "r = rotate (Suc (m_itr_worker d)) (map (\<lambda>e. data_fd_of d (snd e)) (m_workers d))"
  have l: "length r = n" by (simp add: r_def assms(3))
  have nth: "data_fd_of d (snd (m_workers d ! ((Suc (m_itr_worker d) + k) mod n))) = r ! (k mod n)" for k
  proof -
    have "k mod n < n" using assms(2,3) by simp
    moreover have "(Suc (m_itr_worker d) + k mod n) mod n < n" using assms(2,3) by simp
    ultimately have "r ! (k mod n) = data_fd_of d (snd (m_workers d ! ((Suc (m_itr_worker d) + k mod n) mod n)))"
      using assms(3) by (simp add: r_def nth_rotate del: rotate_Suc add_Suc)
    then show ?thesis by (simp add: mod_add_right_eq del: add_Suc add_Suc_right)
  qed
  have "map (\<lambda>k. r ! (k mod n)) [0..<2 * n] = r @ r"
  proof (rule nth_equalityI)
    show "length (map (\<lambda>k. r ! (k mod n)) [0..<2 * n]) = length (r @ r)" by (simp add: l)
    show "map (\<lambda>k. r ! (k mod n)) [0..<2 * n] ! i = (r @ r) ! i"
      if "i < length (map (\<lambda>k. r ! (k mod n)) [0..<2 * n])" for i
      using that by (auto simp: nth_append l mod_if)
  qed
  with next_fds_spec [OF ok assms(2), of "2 * n"] show ?thesis
    unfolding assms(3) [symmetric] nth by (simp add: r_def numeral_2_eq_2)
qed

theorem next_worker_round_robin_witness:
  "\<exists>d d'. worker_run two_workers = Some d \<and> next_fds 4 d = Some ([8, 10, 8, 10], d')"
proof -
  obtain d where d: "worker_run two_workers = Some d" by (auto simp: worker_defs)
  have "m_workers d \<noteq> []" "2 = length (m_workers d)"
    "rotate (Suc (m_itr_worker d)) (map (\<lambda>e. data_fd_of d (snd e)) (m_workers d)) = [8, 10]"
    using d by (auto simp: worker_defs data_fd_of_def)
  moreover have two: "concat (replicate 2 ys) = ys @ ys" for ys :: "int list" by (simp add: numeral_2_eq_2)
  ultimately show ?thesis using next_worker_round_robin [OF d, of 2] d two [of "[8, 10]"] by auto
qed

end
