(* ===== verification/Hash.thy ===== *)
theory Hash
  imports Prelude
begin

unbundle bit_operations_syntax

text \<open>
  The hash functions of \<^verbatim>\<open>src/src/core/util/hash.cpp\<close> on machine words. A \<^verbatim>\<open>char\<close> is signed on the
  platforms the server is built for, so that the conversions of \<^verbatim>\<open>key[x]\<close> extend the sign (\<open>scast\<close>).
\<close>

section \<open>Definitions\<close>

definition FNV_64_INIT :: u64 where
  "FNV_64_INIT = 0x100000001b3"

definition FNV_64_PRIME :: u64 where
  "FNV_64_PRIME = 0xcbf29ce484222325"

definition hash_fnv1_64 :: "bytes \<Rightarrow> u32" where
  "hash_fnv1_64 key = ucast (foldl (\<lambda>h b. (h * FNV_64_PRIME) XOR scast b) FNV_64_INIT key)"

definition hash_fnv1a_64 :: "bytes \<Rightarrow> u32" where
  "hash_fnv1a_64 key = foldl (\<lambda>h b. (h XOR scast b) * ucast FNV_64_PRIME) (ucast FNV_64_INIT) key"

definition rot32 :: "u32 \<Rightarrow> nat \<Rightarrow> u32" where
  "rot32 x y = push_bit y x OR drop_bit (32 - y) x"

definition mix_k :: "u32 \<Rightarrow> u32" where
  "mix_k k = rot32 (k * 0xcc9e2d51) 15 * 0x1b873593"

definition le_word :: "bytes \<Rightarrow> u32" where
  "le_word bs = foldr (\<lambda>b w. ucast b OR push_bit 8 w) bs 0"

text \<open>The blocks of four bytes, then the tail of up to three.\<close>

fun murmur_blocks :: "bytes \<Rightarrow> u32 \<Rightarrow> u32 \<times> bytes" where
  "murmur_blocks (a # b # c # d # rest) h =
     murmur_blocks rest (rot32 (h XOR mix_k (le_word [a, b, c, d])) 13 * 5 + 0xe6546b64)"
| "murmur_blocks tail h = (h, tail)"

definition murmur_tail :: "bytes \<Rightarrow> u32 \<Rightarrow> u32" where
  "murmur_tail tail h = (if tail = [] then h else h XOR mix_k (le_word tail))"

definition fmix :: "u32 \<Rightarrow> u32" where
  "fmix h0 =
     (let h1 = h0 XOR drop_bit 16 h0;
          h2 = h1 * 0x85ebca6b;
          h3 = h2 XOR drop_bit 13 h2;
          h4 = h3 * 0xc2b2ae35
      in h4 XOR drop_bit 16 h4)"

definition murmur3_32 :: "bytes \<Rightarrow> u32 \<Rightarrow> u32" where
  "murmur3_32 key seed =
     (let (h, tail) = murmur_blocks key seed
      in fmix (murmur_tail tail h XOR of_nat (length key)))"

section \<open>Lemmas\<close>

text \<open>Truncation to 32 bits commutes with what a round does.\<close>

lemma low_half_mult: "(ucast (a * b :: u64) :: u32) = ucast a * ucast b"
proof transfer
  fix a b :: int
  have t: "take_bit 32 (take_bit 64 x) = take_bit 32 x" for x :: int by (simp add: take_bit_take_bit)
  have "take_bit 32 (take_bit 64 a * take_bit 64 b) = take_bit 32 (take_bit 32 (take_bit 64 a) * take_bit 32 (take_bit 64 b))"
    by (rule take_bit_mult [symmetric])
  also have "\<dots> = take_bit 32 (a * b)" unfolding t by (rule take_bit_mult)
  finally show "take_bit LENGTH(32) (take_bit LENGTH(64) (a * b)) = take_bit LENGTH(32) (take_bit LENGTH(64) a * take_bit LENGTH(64) b)"
    using t [of "a * b"] by (simp only: len_num0 len_num1 len_bit0 len_bit1 mult_1_right) simp
qed

lemma low_half_xor: "(ucast (a XOR b :: u64) :: u32) = ucast a XOR ucast b"
  by (rule bit_word_eqI) (auto simp: bit_simps)

lemma low_half_byte: "(ucast (scast (b :: u8) :: u64) :: u32) = scast b"
  by (rule bit_word_eqI) (auto simp: bit_simps)

lemma fnv1a_rounds:
  "foldl (\<lambda>h b. (h XOR scast b) * ucast FNV_64_PRIME) (ucast h0 :: u32) key =
   ucast (foldl (\<lambda>h (b :: u8). (h XOR scast b) * FNV_64_PRIME) (h0 :: u64) key)"
proof (induction key arbitrary: h0)
  case (Cons b key)
  have "(ucast h0 XOR scast b) * ucast FNV_64_PRIME = (ucast ((h0 XOR scast b) * FNV_64_PRIME) :: u32)"
    unfolding low_half_mult low_half_xor low_half_byte by (rule refl)
  then show ?case unfolding foldl.simps using Cons.IH by (simp only:)
qed simp

section \<open>Properties\<close>

text \<open>
  The 32-bit computation of \<^verbatim>\<open>hash_fnv1a_64\<close> loses nothing: its result is the low half of the
  same recurrence carried out in 64 bits.
\<close>

theorem hash_fnv1a_is_low_half:
  "hash_fnv1a_64 key = ucast (foldl (\<lambda>h b. (h XOR scast b) * FNV_64_PRIME) FNV_64_INIT key)"
  unfolding hash_fnv1a_64_def by (rule fnv1a_rounds)

end
