(* ===== verification/Util.thy ===== *)
theory Util
  imports Prelude "HOL-Library.List_Lexorder" "HOL-Library.Char_ord"
begin

text \<open>
  Helpers of \<^verbatim>\<open>src/src/core/util/util.h\<close> and \<^verbatim>\<open>util.cpp\<close>: formatting of addresses and node ids with
  the fixed buffers of the source, splitting of strings, differences of sorted vectors, and the search
  for an acceptable limit of open files. The answers of \<^verbatim>\<open>getrlimit\<close>, \<^verbatim>\<open>setrlimit\<close> and
  \<^verbatim>\<open>gettimeofday\<close> are arguments.
\<close>

section \<open>Numbers as text\<close>

definition digit :: "nat \<Rightarrow> char" where
  "digit n = char_of (48 + n)"

fun dec_nat :: "nat \<Rightarrow> string" where
  "dec_nat n = (if n < 10 then [digit n] else dec_nat (n div 10) @ [digit (n mod 10)])"

declare dec_nat.simps [simp del]

text \<open>\<^verbatim>\<open>%d\<close> and \<^verbatim>\<open>std::to_string\<close>.\<close>

definition dec :: "int \<Rightarrow> string" where
  "dec i = (if i < 0 then CHR ''-'' # dec_nat (nat (- i)) else dec_nat (nat i))"

text \<open>\<^verbatim>\<open>snprintf\<close> into a buffer of \<open>n\<close> characters keeps at most \<open>n - 1\<close>.\<close>

definition snprintf :: "nat \<Rightarrow> string \<Rightarrow> string" where
  "snprintf n s = take (n - 1) s"

definition format_addr :: "string \<Rightarrow> int \<Rightarrow> string" where
  "format_addr host port = snprintf 64 (c_str host @ '':'' @ dec port)"

definition format_nodes_id :: "string \<Rightarrow> int \<Rightarrow> int \<Rightarrow> string" where
  "format_nodes_id host port index = snprintf 128 (c_str host @ '':'' @ dec port @ ''.'' @ dec index)"

text \<open>\<^verbatim>\<open>format_str\<close> formats into 256 characters; the argument is the text before truncation.\<close>

definition format_str :: "string \<Rightarrow> string" where
  "format_str s = snprintf 256 s"

definition format_redis_cmds :: "string list \<Rightarrow> string" where
  "format_redis_cmds argv = concat (map (\<lambda>s. s @ '' '') argv)"

text \<open>\<^verbatim>\<open>str_to_int\<close>: \<^verbatim>\<open>std::stoi\<close> skips blanks, takes a sign and digits; \<open>None\<close> is its exception.\<close>

definition is_digit :: "char \<Rightarrow> bool" where
  "is_digit c \<longleftrightarrow> 48 \<le> (of_char c :: nat) \<and> (of_char c :: nat) \<le> 57"

definition is_space :: "char \<Rightarrow> bool" where
  "is_space c \<longleftrightarrow> (of_char c :: nat) = 32 \<or> 9 \<le> (of_char c :: nat) \<and> (of_char c :: nat) \<le> 13"

definition num_of :: "string \<Rightarrow> nat" where
  "num_of ds = foldl (\<lambda>n c. 10 * n + (of_char c - 48)) 0 ds"

definition stoi :: "string \<Rightarrow> int option" where
  "stoi s =
     (let t = dropWhile is_space s;
          neg = (case t of CHR ''-'' # _ \<Rightarrow> True | _ \<Rightarrow> False);
          u = (case t of CHR ''-'' # r \<Rightarrow> r | CHR ''+'' # r \<Rightarrow> r | _ \<Rightarrow> t);
          ds = takeWhile is_digit u;
          v = (if neg then - int (num_of ds) else int (num_of ds))
      in if ds = [] \<or> v < - 2147483648 \<or> v > INT_MAX then None else Some v)"

definition str_to_int :: "string \<Rightarrow> int option" where
  "str_to_int d = (if d = [] then Some 0 else stoi d)"

section \<open>Splitting\<close>

text \<open>\<^verbatim>\<open>find_first_not_of(seq, cur)\<close> treats \<open>seq\<close> as a set of characters, \<^verbatim>\<open>find(seq, pre)\<close> as a string.\<close>

definition skip_set :: "string \<Rightarrow> string \<Rightarrow> string" where
  "skip_set seq s = dropWhile (\<lambda>c. c \<in> set seq) s"

fun find_sub :: "string \<Rightarrow> string \<Rightarrow> (string \<times> string) option" where
  "find_sub seq s =
     (if take (length seq) s = seq then Some ([], s)
      else case s of [] \<Rightarrow> None
           | c # r \<Rightarrow> map_option (\<lambda>(a, b). (c # a, b)) (find_sub seq r))"

declare find_sub.simps [simp del]

text \<open>The loop works on the rest of the string from \<^verbatim>\<open>cur\<close> on. \<open>None\<close> is a loop that does not end.\<close>

partial_function (option) split_loop :: "string \<Rightarrow> string \<Rightarrow> string list option" where
  "split_loop seq s =
     (let t = skip_set seq s
      in if t = [] then Some []
         else case find_sub seq t of
                None \<Rightarrow> Some [t]
              | Some (tok, rest) \<Rightarrow> do { toks \<leftarrow> split_loop seq rest; Some (tok # toks) })"

definition trim_blanks :: "string \<Rightarrow> string" where
  "trim_blanks s = rev (dropWhile (\<lambda>c. c = CHR '' '') (rev (dropWhile (\<lambda>c. c = CHR '' '') s)))"

definition split_str :: "string \<Rightarrow> string list \<Rightarrow> string \<Rightarrow> bool \<Rightarrow> string list option" where
  "split_str s vec seq trim_blank = do {
     toks \<leftarrow> split_loop seq s;
     let all = vec @ toks;
     Some (if trim_blank \<and> seq \<noteq> '' '' then map trim_blanks all else all)
   }"

section \<open>Differences of vectors\<close>

fun set_difference :: "'a::linorder list \<Rightarrow> 'a list \<Rightarrow> 'a list" where
  "set_difference [] ys = []"
| "set_difference xs [] = xs"
| "set_difference (x # xs) (y # ys) =
     (if x < y then x # set_difference xs (y # ys)
      else if y < x then set_difference (x # xs) ys
      else set_difference xs ys)"

text \<open>Both arguments are sorted in place; the results are the difference and the two sorted vectors.\<close>

definition diff_cmp :: "'a::linorder list \<Rightarrow> 'a list \<Rightarrow> 'a list \<times> 'a list \<times> 'a list" where
  "diff_cmp first second = (set_difference (sort first) (sort second), sort first, sort second)"

section \<open>Limits and time\<close>

text \<open>
  \<open>setrl best\<close> is the answer of \<^verbatim>\<open>setrlimit\<close> for the limit \<open>best\<close>: \<open>None\<close> for success, else the error.
\<close>

function limit_loop :: "(nat \<Rightarrow> int option) \<Rightarrow> nat \<Rightarrow> nat \<Rightarrow> int \<Rightarrow> nat \<times> int" where
  "limit_loop setrl oldlimit best err =
     (if best > oldlimit
      then case setrl best of
             None \<Rightarrow> (best, err)
           | Some e \<Rightarrow> if best < 16 then (best, e) else limit_loop setrl oldlimit (best - 16) e
      else (best, err))"
  by pat_completeness auto

termination
  by (relation "measure (\<lambda>(_, _, best, _). best)") auto

declare limit_loop.simps [simp del]

text \<open>\<open>getrl\<close> is the answer of \<^verbatim>\<open>getrlimit\<close>: the error number or the current limit.\<close>

definition adjust_files_limit :: "int + nat \<Rightarrow> (nat \<Rightarrow> int option) \<Rightarrow> int \<Rightarrow> int \<Rightarrow> int \<times> int" where
  "adjust_files_limit getrl setrl max_clients err =
     (case getrl of
        Inl e \<Rightarrow> (1024, e)
      | Inr oldlimit \<Rightarrow>
          let maxfiles = sz max_clients
          in if maxfiles \<le> oldlimit then (max_clients, err)
             else let (best, err') = limit_loop setrl oldlimit maxfiles err
                  in (i32 (int (if best < oldlimit then oldlimit else best)), err'))"

definition tolower :: "char \<Rightarrow> char" where
  "tolower c = (let n = of_char c :: nat in if 65 \<le> n \<and> n \<le> 90 then char_of (n + 32) else c)"

definition to_lower :: "string \<Rightarrow> nat \<Rightarrow> string" where
  "to_lower s len = map tolower (take len s) @ drop len s"

text \<open>Seconds and microseconds of \<^verbatim>\<open>gettimeofday\<close>.\<close>

definition mstime :: "int \<Rightarrow> int \<Rightarrow> int" where
  "mstime tv_sec tv_usec = tv_sec * 1000 + tv_usec div 1000"

section \<open>Lemmas\<close>

lemma digit_is_digit: "n < 10 \<Longrightarrow> of_char (digit n) = 48 + n"
  by (simp add: digit_def)

lemma dec_nat_small: "n < 10 \<Longrightarrow> dec_nat n = [digit n]"
  by (subst dec_nat.simps) simp

lemma dec_nat_big: "\<not> n < 10 \<Longrightarrow> dec_nat n = dec_nat (n div 10) @ [digit (n mod 10)]"
  by (subst dec_nat.simps) simp

lemma dec_nat_digits: "list_all is_digit (dec_nat n)"
proof (induction n rule: less_induct)
  case (less n)
  then show ?case
    by (cases "n < 10") (simp_all add: dec_nat_small dec_nat_big is_digit_def digit_is_digit)
qed

lemma num_of_append: "num_of (ds @ [c]) = 10 * num_of ds + (of_char c - 48)"
  by (simp add: num_of_def)

lemma num_of_dec: "num_of (dec_nat n) = n"
proof (induction n rule: less_induct)
  case (less n)
  show ?case
  proof (cases "n < 10")
    case True
    then show ?thesis by (simp add: dec_nat_small num_of_def digit_is_digit)
  next
    case False
    then have "num_of (dec_nat (n div 10)) = n div 10" by (intro less) simp
    then show ?thesis using False by (simp add: dec_nat_big num_of_append digit_is_digit)
  qed
qed

lemma dec_nat_inj: "dec_nat m = dec_nat n \<Longrightarrow> m = n"
  by (metis num_of_dec)

lemma dec_nat_nonempty: "dec_nat n \<noteq> []"
  by (subst dec_nat.simps) simp

lemma dec_inj:
  assumes "dec i = dec j"
  shows "i = j"
proof -
  have m: "CHR ''-'' # s \<noteq> dec_nat n" for s n
  proof
    assume "CHR ''-'' # s = dec_nat n"
    with dec_nat_digits [of n] have "is_digit (CHR ''-'')" by (metis list.pred_inject(2))
    then show False by (simp add: is_digit_def)
  qed
  show ?thesis
    using assms m m [symmetric] by (auto simp: dec_def split: if_splits dest: dec_nat_inj)
qed

text \<open>Searching for one character.\<close>

lemma find_sub_char:
  "find_sub [c] s = (if c \<in> set s then Some (takeWhile (\<lambda>x. x \<noteq> c) s, dropWhile (\<lambda>x. x \<noteq> c) s) else None)"
proof (induction s)
  case Nil
  show ?case by (subst find_sub.simps) simp
next
  case (Cons x s)
  then show ?case by (subst find_sub.simps) auto
qed

text \<open>The token found starts with a character outside \<open>seq\<close>, so the rest is shorter.\<close>

lemma find_sub_split: "find_sub seq s = Some (a, b) \<Longrightarrow> s = a @ b \<and> take (length seq) b = seq"
proof (induction s arbitrary: a)
  case Nil
  then show ?case by (subst (asm) find_sub.simps) (auto split: if_splits)
next
  case (Cons x s)
  from Cons.prems show ?case
    by (subst (asm) find_sub.simps) (auto split: if_splits dest: Cons.IH)
qed

lemma split_loop_returns:
  assumes "seq \<noteq> []"
  shows "\<exists>toks. split_loop seq s = Some toks"
proof (induction "length s" arbitrary: s rule: less_induct)
  case less
  define t where "t = skip_set seq s"
  have len: "length t \<le> length s" by (simp add: t_def skip_set_def length_dropWhile_le)
  show ?case
  proof (cases "t = [] \<or> find_sub seq t = None")
    case True
    then show ?thesis by (subst split_loop.simps) (auto simp: t_def [symmetric] Let_def)
  next
    case False
    then obtain tok rest where f: "find_sub seq t = Some (tok, rest)" by auto
    have "tok \<noteq> []"
    proof
      assume "tok = []"
      then have "take (length seq) t = seq" using find_sub_split [OF f] by simp
      then have "hd t \<in> set seq" using False assms by (metis hd_in_set hd_take length_greater_0_conv)
      moreover have "hd t \<notin> set seq" using False hd_dropWhile [of "\<lambda>c. c \<in> set seq" s] by (auto simp: t_def skip_set_def)
      ultimately show False by simp
    qed
    then have "length rest < length s" using find_sub_split [OF f] len by (cases tok) auto
    with less obtain toks where "split_loop seq rest = Some toks" by blast
    then show ?thesis using False f by (subst split_loop.simps) (auto simp: t_def [symmetric] Let_def)
  qed
qed

text \<open>The non-empty fields of a string between separators \<open>c\<close>.\<close>

fun fields_acc :: "char \<Rightarrow> string \<Rightarrow> string \<Rightarrow> string list" where
  "fields_acc c cur [] = (if cur = [] then [] else [cur])"
| "fields_acc c cur (x # s) =
     (if x = c then (if cur = [] then fields_acc c [] s else cur # fields_acc c [] s)
      else fields_acc c (cur @ [x]) s)"

definition fields :: "char \<Rightarrow> string \<Rightarrow> string list" where
  "fields c s = fields_acc c [] s"

lemma fields_skip: "fields c s = fields c (dropWhile (\<lambda>x. x = c) s)"
  unfolding fields_def by (induction s) auto

lemma fields_acc_token:
  "cur \<noteq> [] \<Longrightarrow> fields_acc c cur s =
     (if c \<in> set s then (cur @ takeWhile (\<lambda>x. x \<noteq> c) s) # fields c (dropWhile (\<lambda>x. x \<noteq> c) s) else [cur @ s])"
  by (induction s arbitrary: cur) (auto simp: fields_def)

lemma split_loop_char: "split_loop [c] s = Some (fields c s)"
proof (induction "length s" arbitrary: s rule: less_induct)
  case less
  define t where "t = dropWhile (\<lambda>x. x = c) s"
  have t: "skip_set [c] s = t" "fields c s = fields c t" "length t \<le> length s"
    using fields_skip [of c s] by (simp_all add: t_def skip_set_def length_dropWhile_le)
  show ?case
  proof (cases t)
    case Nil
    then show ?thesis using t by (subst split_loop.simps) (simp add: fields_def)
  next
    case (Cons x r)
    then have x: "x \<noteq> c" using hd_dropWhile [of "\<lambda>x. x = c" s] by (auto simp: t_def)
    have f: "fields c t = (if c \<in> set r then (x # takeWhile (\<lambda>x. x \<noteq> c) r) # fields c (dropWhile (\<lambda>x. x \<noteq> c) r) else [t])"
      using x fields_acc_token [of "[x]" c r] by (simp add: Cons fields_def)
    have "length (dropWhile (\<lambda>x. x \<noteq> c) r) < length s"
      using t(3) length_dropWhile_le [of "\<lambda>x. x \<noteq> c" r] Cons by simp
    then have "split_loop [c] (dropWhile (\<lambda>x. x \<noteq> c) r) = Some (fields c (dropWhile (\<lambda>x. x \<noteq> c) r))" by (rule less)
    then show ?thesis
      unfolding t(2) f using x t(1) Cons by (subst split_loop.simps) (simp add: find_sub_char)
  qed
qed

text \<open>Set difference of sorted vectors without repetitions.\<close>

lemma set_difference_spec:
  "sorted_wrt (<) xs \<Longrightarrow> sorted_wrt (<) ys \<Longrightarrow>
   set (set_difference xs ys) = set xs - set ys \<and> sorted_wrt (<) (set_difference xs ys)"
proof (induction xs ys rule: set_difference.induct)
  case (3 x xs y ys)
  show ?case
  proof (cases x y rule: linorder_cases)
    case less
    then have "x \<notin> set (y # ys)" "\<forall>z\<in>set xs. x < z" using "3.prems" by force+
    moreover have "set (set_difference xs (y # ys)) = set xs - set (y # ys) \<and> sorted_wrt (<) (set_difference xs (y # ys))"
      using "3.IH"(1) [OF less] "3.prems" by simp
    ultimately show ?thesis using less by auto
  next
    case equal
    then have "set (set_difference xs ys) = set xs - set ys \<and> sorted_wrt (<) (set_difference xs ys)" "x \<notin> set xs"
      using "3.IH"(3) "3.prems" by auto
    then show ?thesis using equal by auto
  next
    case greater
    then have "set (set_difference (x # xs) ys) = set (x # xs) - set ys \<and> sorted_wrt (<) (set_difference (x # xs) ys)"
      using "3.IH"(2) "3.prems" by simp
    moreover have "set (x # xs) - set (y # ys) = set (x # xs) - set ys" using greater "3.prems"(1) by force
    moreover have "set_difference (x # xs) (y # ys) = set_difference (x # xs) ys"
    proof -
      have "\<not> x < y" using greater by (meson order.asym)
      then show ?thesis using greater by simp
    qed
    ultimately show ?thesis by (simp only: simp_thms)
  qed
qed simp_all

lemma sort_strict: "distinct xs \<Longrightarrow> sorted_wrt (<) (sort xs)"
  by (simp add: strict_sorted_iff)

lemma diff_cmp_spec:
  "distinct xs \<Longrightarrow> distinct ys \<Longrightarrow>
   set (fst (diff_cmp xs ys)) = set xs - set ys \<and> distinct (fst (diff_cmp xs ys))"
  using set_difference_spec [OF sort_strict [of xs] sort_strict [of ys]]
  by (simp add: diff_cmp_def strict_sorted_iff)

text \<open>The search for a limit.\<close>

lemma limit_loop_spec:
  assumes "limit_loop setrl old best err = (b, e)"
  shows "b \<le> best \<and> (old < b \<longrightarrow> setrl b = None \<or> b < 16) \<and>
    (\<forall>k. b < best - 16 * k \<longrightarrow> old < best - 16 * k \<longrightarrow> setrl (best - 16 * k) \<noteq> None)"
  using assms
proof (induction best arbitrary: err rule: less_induct)
  case (less best)
  note step = limit_loop.simps [of setrl old best err]
  show ?case
  proof (cases "old < best \<and> (\<exists>x. setrl best = Some x) \<and> 16 \<le> best")
    case True
    then obtain x where x: "setrl best = Some x" by blast
    have "limit_loop setrl old (best - 16) x = (b, e)" using less.prems True x step by simp
    with less.IH [of "best - 16" x] True have ih: "b \<le> best - 16" "old < b \<longrightarrow> setrl b = None \<or> b < 16"
      "\<And>k. b < best - 16 - 16 * k \<Longrightarrow> old < best - 16 - 16 * k \<Longrightarrow> setrl (best - 16 - 16 * k) \<noteq> None" by auto
    have "setrl (best - 16 * k) \<noteq> None" if "b < best - 16 * k" "old < best - 16 * k" for k
    proof (cases k)
      case (Suc j)
      then have "best - 16 * k = best - 16 - 16 * j" by simp
      then show ?thesis using that ih(3) [of j] by simp
    qed (use x in simp)
    then show ?thesis using ih by auto
  next
    case False
    then have "b = best \<and> (old < b \<longrightarrow> setrl b = None \<or> b < 16)"
      using less.prems step by (auto split: if_splits option.splits)
    then show ?thesis by auto
  qed
qed

lemma digit_not_special: "is_digit c \<Longrightarrow> \<not> is_space c \<and> c \<noteq> CHR ''-'' \<and> c \<noteq> CHR ''+''"
  by (auto simp: is_digit_def is_space_def)

lemma str_to_int_nat: "str_to_int (dec_nat n) = (if int n \<le> INT_MAX then Some (int n) else None)"
proof -
  define ds where "ds = dec_nat n"
  have d: "ds \<noteq> []" "list_all is_digit ds" "num_of ds = n"
    by (simp_all add: ds_def dec_nat_nonempty dec_nat_digits num_of_dec)
  have t: "takeWhile is_digit ds = ds" using d(2) by (simp add: list_all_iff takeWhile_eq_all_conv)
  obtain c cs where c: "ds = c # cs" "is_digit c" using d(1,2) by (cases ds) auto
  have "dropWhile is_space ds = ds" using c digit_not_special by simp
  moreover have "(case ds of CHR ''-'' # _ \<Rightarrow> True | _ \<Rightarrow> False) = False" "(case ds of CHR ''-'' # r \<Rightarrow> r | CHR ''+'' # r \<Rightarrow> r | _ \<Rightarrow> ds) = ds"
    using c digit_not_special [OF c(2)] by (auto split: char.splits bool.splits)
  ultimately have "stoi ds = (if int n \<le> INT_MAX then Some (int n) else None)" using d by (simp add: stoi_def Let_def t)
  then show ?thesis using d(1) by (simp add: str_to_int_def ds_def)
qed

lemma str_to_int_dec:
  assumes "- 2147483648 \<le> i" "i \<le> 2147483647"
  shows "str_to_int (dec i) = Some i"
proof -
  define ds where "ds = dec_nat (nat \<bar>i\<bar>)"
  have d: "ds \<noteq> []" "list_all is_digit ds" "num_of ds = nat \<bar>i\<bar>"
    by (simp_all add: ds_def dec_nat_nonempty dec_nat_digits num_of_dec)
  have t: "takeWhile is_digit ds = ds" using d(2) by (simp add: list_all_iff takeWhile_eq_all_conv)
  show ?thesis
  proof (cases "i < 0")
    case True
    then have "dec i = CHR ''-'' # ds" by (simp add: dec_def ds_def)
    then show ?thesis using d True assms by (simp add: str_to_int_def stoi_def Let_def is_space_def INT_MAX_def t)
  next
    case False
    then show ?thesis using assms str_to_int_nat [of "nat i"] by (simp add: dec_def INT_MAX_def)
  qed
qed

lemma dec_chars: "c \<in> set (dec i) \<Longrightarrow> is_digit c \<or> c = CHR ''-''"
  using dec_nat_digits [of "nat i"] dec_nat_digits [of "nat (- i)"]
  by (auto simp: dec_def list_all_iff split: if_splits)

lemma dec_no_sep: "CHR '':'' \<notin> set (dec i)" "CHR ''.'' \<notin> set (dec i)"
  using dec_chars [of "CHR '':''" i] dec_chars [of "CHR ''.''" i] by (auto simp: is_digit_def)

lemma split_at_sep: "a @ c # x = b @ c # y \<Longrightarrow> c \<notin> set a \<Longrightarrow> c \<notin> set b \<Longrightarrow> a = b \<and> x = y"
  by (induction a arbitrary: b) (auto simp: Cons_eq_append_conv)

section \<open>Properties\<close>

text \<open>
  Node ids are unambiguous: for hosts without a colon or a zero byte, ids that fit the buffer of
  128 characters are equal only if host, port and worker index are equal.
\<close>

theorem format_nodes_id_inj:
  assumes eq: "format_nodes_id h p i = format_nodes_id h' p' i'"
    and h: "CHR '':'' \<notin> set h" "CHR '':'' \<notin> set h'" "CHR 0x00 \<notin> set h" "CHR 0x00 \<notin> set h'"
    and len: "length (h @ '':'' @ dec p @ ''.'' @ dec i) \<le> 127" "length (h' @ '':'' @ dec p' @ ''.'' @ dec i') \<le> 127"
  shows "h = h' \<and> p = p' \<and> i = i'"
proof -
  have "c_str h = h" "c_str h' = h'" using h(3,4) by (auto simp: c_str_def takeWhile_eq_all_conv)
  then have "h @ CHR '':'' # dec p @ CHR ''.'' # dec i = h' @ CHR '':'' # dec p' @ CHR ''.'' # dec i'"
    using eq len by (simp add: format_nodes_id_def snprintf_def)
  from split_at_sep [OF this h(1,2)] have hd: "h = h'" and "dec p @ CHR ''.'' # dec i = dec p' @ CHR ''.'' # dec i'"
    by simp_all
  from split_at_sep [OF this(2) dec_no_sep(2) dec_no_sep(2)] have "dec p = dec p'" "dec i = dec i'" by simp_all
  then show ?thesis using hd by (simp add: dec_inj)
qed

theorem format_nodes_id_inj_witness:
  "''127.0.0.1'' = ''127.0.0.1'' \<and> (3344::int) = 3344 \<and> (1::int) = 1"
  by (rule format_nodes_id_inj) (simp_all add: dec_def dec_nat_small dec_nat_big)

text \<open>
  \<^verbatim>\<open>split_str\<close> with a separator of one character returns, after what the vector held, exactly the
  non-empty fields between separators, in order, each trimmed of blanks when asked to and the
  separator is not the blank itself; with any non-empty separator it returns.
\<close>

theorem split_str_fields:
  "split_str s vec [c] trim = Some (if trim \<and> c \<noteq> CHR '' '' then map trim_blanks (vec @ fields c s) else vec @ fields c s)"
  by (simp add: split_str_def split_loop_char Let_def)

text \<open>
  \<^verbatim>\<open>adjust_files_limit\<close> returns a limit between the current one and the one asked for; if it is
  above the current one, then the kernel accepted it (or the search stopped below 16), and every larger
  value that was tried, in steps of 16 down from the wanted number, had been refused.
\<close>

theorem adjust_files_limit_best:
  assumes n: "int old < n" "n \<le> INT_MAX"
  shows "\<exists>b e. adjust_files_limit (Inr old) setrl n err = (int b, e) \<and> old \<le> b \<and> int b \<le> n \<and>
    (old < b \<longrightarrow> setrl b = None \<or> b < 16) \<and> (\<forall>k. b < nat n - 16 * k \<longrightarrow> setrl (nat n - 16 * k) \<noteq> None)"
proof -
  obtain b e where l: "limit_loop setrl old (nat n) err = (b, e)" by (cases "limit_loop setrl old (nat n) err")
  note spec = limit_loop_spec [OF l]
  have "sz n = nat n" using n by (simp add: INT_MAX_def)
  moreover have "i32 (int (max old b)) = int (max old b)" using spec n by (auto simp: INT_MAX_def)
  ultimately have "adjust_files_limit (Inr old) setrl n err = (int (max old b), e)"
    using n l by (auto simp: adjust_files_limit_def max_def Let_def)
  then show ?thesis using spec n by (intro exI [of _ "max old b"] exI [of _ e]) (auto simp: max_def)
qed

theorem adjust_files_limit_best_witness:
  "\<exists>b e. adjust_files_limit (Inr 100) (\<lambda>k. if k \<le> 150 then None else Some 1) 200 0 = (int b, e) \<and> 100 \<le> b \<and> int b \<le> 200 \<and>
    (100 < b \<longrightarrow> (\<lambda>k. if k \<le> (150::nat) then None else Some (1::int)) b = None \<or> b < 16) \<and>
    (\<forall>k. b < nat 200 - 16 * k \<longrightarrow> (\<lambda>k. if k \<le> (150::nat) then None else Some (1::int)) (nat 200 - 16 * k) \<noteq> None)"
  by (rule adjust_files_limit_best) (simp_all add: INT_MAX_def)

end
