(* ===== verification/Nodes.thy ===== *)
theory Nodes
  imports Complex_Main Hash Util
begin

text \<open>
  The table of cluster nodes and the consistent-hash ring (\<^verbatim>\<open>src/src/core/nodes.h\<close>, \<^verbatim>\<open>nodes.cpp\<close>,
  \<^verbatim>\<open>protobuf/sys/nodes.proto\<close>). The digest function is the parameter \<open>md5\<close>. A node object is never
  changed after it is made, so a shared pointer to it is the value. A time stamp (a \<^verbatim>\<open>double\<close>) is a
  rational number: infinities and NaN are left out.
\<close>

section \<open>Data\<close>

record zk_node =
  z_path :: string
  z_type :: string
  z_host :: string
  z_port :: nat
  z_worker_cnt :: nat
  z_active_time :: rat

record node_t =
  n_id :: string
  n_type :: string
  n_host :: string
  n_port :: int
  n_worker_index :: int
  n_vnodes :: "u32 list"

datatype hash_algorithm = FNV1A_64 | FNV1_64 | MURMUR3_32

type_synonym ring = "(u32, node_t) omap"

record nodes =
  m_vnode_cnt :: int
  m_ha :: hash_algorithm
  m_version :: u32
  m_my_zk_node :: string
  m_host_zk_paths :: "(string, string) umap"
  m_zk_nodes :: "(string, zk_node) umap"
  m_nodes :: "(string, node_t) umap"
  m_vnodes :: "(string, ring) umap"

definition DEFAULT_NODE_CNT :: int where
  "DEFAULT_NODE_CNT = 200"

definition new_nodes :: "int \<Rightarrow> hash_algorithm \<Rightarrow> nodes" where
  "new_nodes vnode_cnt ha = \<lparr>m_vnode_cnt = vnode_cnt, m_ha = ha, m_version = 0, m_my_zk_node = [],
     m_host_zk_paths = [], m_zk_nodes = [], m_nodes = [], m_vnodes = []\<rparr>"

section \<open>The ring\<close>

definition hash_key :: "hash_algorithm \<Rightarrow> string \<Rightarrow> u32" where
  "hash_key ha obj = (case ha of
       FNV1_64 \<Rightarrow> hash_fnv1_64 (str_bytes obj)
     | MURMUR3_32 \<Rightarrow> murmur3_32 (str_bytes obj) 0x000001b3
     | FNV1A_64 \<Rightarrow> hash_fnv1a_64 (str_bytes obj))"

text \<open>Four points from each digest, little endian.\<close>

definition vnode_point :: "bytes \<Rightarrow> nat \<Rightarrow> u32" where
  "vnode_point s j = le_word [s ! (4 * j), s ! (1 + 4 * j), s ! (2 + 4 * j), s ! (3 + 4 * j)]"

definition gen_vnodes :: "(string \<Rightarrow> bytes) \<Rightarrow> int \<Rightarrow> string \<Rightarrow> u32 list" where
  "gen_vnodes md5 cnt node_id =
     concat (map (\<lambda>i. let s = md5 (format_str (dec (cnt - int i) @ ''@'' @ c_str node_id @ ''#'' @ dec (int i)))
                      in map (vnode_point s) [0..<4])
                 [0..<nat (cnt div 4)])"

definition ring_insert :: "node_t \<Rightarrow> u32 \<Rightarrow> ring \<Rightarrow> ring" where
  "ring_insert node v r = (if om_find r v = None then om_put v node r else r)"

definition ring_of :: "string \<Rightarrow> nodes \<Rightarrow> ring" where
  "ring_of t st = (case um_find (m_vnodes st) t of None \<Rightarrow> [] | Some r \<Rightarrow> r)"

definition add_node :: "(string \<Rightarrow> bytes) \<Rightarrow> string \<Rightarrow> string \<Rightarrow> int \<Rightarrow> int \<Rightarrow> nodes \<Rightarrow> bool \<times> nodes" where
  "add_node md5 node_type host port worker st =
     (let node_id = format_nodes_id host port worker
      in if um_find (m_nodes st) node_id \<noteq> None then (True, st)
         else let r = ring_of node_type st;
                  vnodes = gen_vnodes md5 (m_vnode_cnt st) node_id;
                  node = \<lparr>n_id = node_id, n_type = node_type, n_host = host, n_port = port,
                          n_worker_index = worker, n_vnodes = vnodes\<rparr>;
                  r' = fold (ring_insert node) vnodes r;
                  st1 = st\<lparr>m_version := m_version st + 1, m_vnodes := um_put node_type r' (m_vnodes st)\<rparr>
              in if length r' = length r then (False, st1)
                 else (True, st1\<lparr>m_nodes := um_put node_id node (m_nodes st1)\<rparr>))"

definition del_node :: "string \<Rightarrow> nodes \<Rightarrow> bool \<times> nodes" where
  "del_node node_id st =
     (case um_find (m_nodes st) node_id of
        None \<Rightarrow> (False, st)
      | Some node \<Rightarrow>
          let vn = (case um_find (m_vnodes st) (n_type node) of
                      None \<Rightarrow> m_vnodes st
                    | Some r \<Rightarrow> um_put (n_type node) (fold om_erase (n_vnodes node) r) (m_vnodes st))
          in (True, st\<lparr>m_version := m_version st + 1, m_vnodes := vn, m_nodes := um_erase node_id (m_nodes st)\<rparr>))"

definition get_node_worker_index :: "string \<Rightarrow> nodes \<Rightarrow> int" where
  "get_node_worker_index node_id st =
     (case um_find (m_nodes st) node_id of None \<Rightarrow> - 1 | Some node \<Rightarrow> n_worker_index node)"

text \<open>The look-up in the map of one type: the first point not below the key, or the first of all.\<close>

definition ring_lookup :: "u32 \<Rightarrow> ring \<Rightarrow> node_t option" where
  "ring_lookup key r =
     (case om_lower_bound r key of Some e \<Rightarrow> Some (snd e) | None \<Rightarrow> map_option snd (om_begin r))"

definition get_node_in_hash :: "string \<Rightarrow> string \<Rightarrow> nodes \<Rightarrow> node_t option" where
  "get_node_in_hash node_type obj st =
     (case um_find (m_vnodes st) node_type of
        None \<Rightarrow> None
      | Some r \<Rightarrow> if length r = 0 then None else ring_lookup (hash_key (m_ha st) obj) r)"

definition get_node_in_hash_int :: "string \<Rightarrow> int \<Rightarrow> nodes \<Rightarrow> node_t option" where
  "get_node_in_hash_int node_type obj st = get_node_in_hash node_type (dec obj) st"

section \<open>Nodes registered in zookeeper\<close>

definition is_valid_zk_node :: "zk_node \<Rightarrow> bool" where
  "is_valid_zk_node z \<longleftrightarrow> \<not> (z_path z = [] \<or> z_host z = [] \<or> z_port z = 0 \<or> z_type z = [] \<or>
     z_worker_cnt z = 0 \<or> z_active_time z = 0)"

definition zk_host :: "zk_node \<Rightarrow> string" where
  "zk_host z = format_str (c_str (z_host z) @ '':'' @ dec (i32 (int (z_port z))))"

text \<open>The loops over worker indices, which start at 1.\<close>

definition workers :: "nat \<Rightarrow> nat list" where
  "workers n = [1..<n + 1]"

definition add_workers :: "(string \<Rightarrow> bytes) \<Rightarrow> zk_node \<Rightarrow> nat list \<Rightarrow> nodes \<Rightarrow> nodes" where
  "add_workers md5 z idx st =
     fold (\<lambda>i s. snd (add_node md5 (z_type z) (z_host z) (i32 (int (z_port z))) (i32 (int i)) s)) idx st"

definition del_workers :: "zk_node \<Rightarrow> nat list \<Rightarrow> nodes \<Rightarrow> nodes" where
  "del_workers z idx st =
     fold (\<lambda>i s. snd (del_node (format_nodes_id (z_host z) (i32 (int (z_port z))) (i32 (int i))) s)) idx st"

definition del_zk_node :: "string \<Rightarrow> nodes \<Rightarrow> bool \<times> nodes" where
  "del_zk_node path st =
     (case um_find (m_zk_nodes st) path of
        None \<Rightarrow> (False, st)
      | Some z \<Rightarrow>
          let st1 = del_workers z (workers (z_worker_cnt z)) st
          in (True, st1\<lparr>m_host_zk_paths := um_erase (zk_host z) (m_host_zk_paths st1),
                        m_zk_nodes := um_erase path (m_zk_nodes st1)\<rparr>))"

definition check_zk_node_host :: "zk_node \<Rightarrow> nodes \<Rightarrow> bool \<times> nodes" where
  "check_zk_node_host cur st =
     (case um_find (m_host_zk_paths st) (zk_host cur) of
        None \<Rightarrow> (True, st)
      | Some path \<Rightarrow>
          (case um_find (m_zk_nodes st) path of
             None \<Rightarrow> (True, st\<lparr>m_host_zk_paths := um_erase (zk_host cur) (m_host_zk_paths st)\<rparr>)
           | Some old \<Rightarrow>
               if z_path cur = z_path old then (True, st)
               else if z_active_time cur \<le> z_active_time old then (False, st)
               else (True, snd (del_zk_node (z_path old) st))))"

text \<open>
  In the update branch \<^verbatim>\<open>old\<close> is a reference to the entry that \<^verbatim>\<open>m_zk_nodes[path] = znode\<close> overwrites:
  the deletion loop after it reads the new values, and stops one short of its worker count.
\<close>

definition add_zk_node :: "(string \<Rightarrow> bytes) \<Rightarrow> zk_node \<Rightarrow> nodes \<Rightarrow> bool \<times> nodes" where
  "add_zk_node md5 z st =
     (if \<not> is_valid_zk_node z then (False, st)
      else let (fine, st1) = check_zk_node_host z st
           in if \<not> fine then (False, st1)
              else let st2 = (case um_find (m_zk_nodes st1) (z_path z) of
                                None \<Rightarrow> add_workers md5 z (workers (z_worker_cnt z))
                                          (st1\<lparr>m_zk_nodes := um_put (z_path z) z (m_zk_nodes st1)\<rparr>)
                              | Some old \<Rightarrow>
                                  if old \<noteq> z
                                  then add_workers md5 z (workers (z_worker_cnt z))
                                         (del_workers z (workers (z_worker_cnt z - 1))
                                            (st1\<lparr>m_zk_nodes := um_put (z_path z) z (m_zk_nodes st1)\<rparr>))
                                  else st1)
                   in (True, st2\<lparr>m_host_zk_paths := um_put (zk_host z) (z_path z) (m_host_zk_paths st2)\<rparr>))"

text \<open>The vector \<open>inp\<close> is sorted in place; the results are it, the additions and the deletions.\<close>

definition get_zk_diff_nodes :: "string \<Rightarrow> string list \<Rightarrow> nodes \<Rightarrow> string list \<times> string list \<times> string list" where
  "get_zk_diff_nodes t inp st =
     (let vec = map fst (filter (\<lambda>e. t = z_type (snd e)) (m_zk_nodes st));
          (adds, inp1, vec1) = diff_cmp inp vec;
          (dels, vec2, inp2) = diff_cmp vec1 inp1
      in (inp2, adds, dels))"

definition nodes_clear :: "nodes \<Rightarrow> nodes" where
  "nodes_clear st = st\<lparr>m_my_zk_node := [], m_host_zk_paths := [], m_zk_nodes := [], m_nodes := [], m_vnodes := []\<rparr>"

definition set_my_zk_node_path :: "string \<Rightarrow> nodes \<Rightarrow> nodes" where
  "set_my_zk_node_path path st = st\<lparr>m_my_zk_node := path\<rparr>"

section \<open>Invariant\<close>

text \<open>Nodes are registered under their id; a point of a ring leads to a registered node of its type
  that has this point.\<close>

definition nodes_ok :: "(string \<Rightarrow> bytes) \<Rightarrow> nodes \<Rightarrow> bool" where
  "nodes_ok md5 st \<longleftrightarrow> um_ok (m_host_zk_paths st) \<and> um_ok (m_zk_nodes st) \<and> um_ok (m_nodes st) \<and> um_ok (m_vnodes st) \<and>
     (\<forall>i node. um_find (m_nodes st) i = Some node \<longrightarrow> n_id node = i \<and> n_vnodes node = gen_vnodes md5 (m_vnode_cnt st) i) \<and>
     (\<forall>t. om_ok (ring_of t st)) \<and>
     (\<forall>t v node. om_find (ring_of t st) v = Some node \<longrightarrow>
        n_type node = t \<and> v \<in> set (n_vnodes node) \<and> um_find (m_nodes st) (n_id node) = Some node) \<and>
     (\<forall>p z. um_find (m_zk_nodes st) p = Some z \<longrightarrow> z_path z = p)"

text \<open>The point that serves a key: the next one clockwise among the points \<open>D\<close>.\<close>

definition clockwise :: "u32 \<Rightarrow> u32 set \<Rightarrow> u32 \<Rightarrow> bool" where
  "clockwise key D v \<longleftrightarrow> v \<in> D \<and>
     (if \<exists>w\<in>D. key \<le> w then key \<le> v \<and> (\<forall>w\<in>D. key \<le> w \<longrightarrow> v \<le> w) else \<forall>w\<in>D. v \<le> w)"

section \<open>Lemmas on rings\<close>

lemma length_om_put: "om_ok m \<Longrightarrow> length (om_put k v m) = (if om_find m k = None then Suc (length m) else length m)"
proof (induction m)
  case (Cons e m)
  then have "om_ok m" "\<forall>x\<in>set (map fst m). fst e < x" by (simp_all add: om_ok_def)
  moreover have "k \<le> fst e \<Longrightarrow> om_find m k = None"
    using calculation(2) by (force simp: om_find_def map_of_eq_None_iff)
  ultimately show ?case using Cons.IH by (cases e) (auto simp: om_find_def)
qed (simp add: om_find_def)

lemma ring_insert_ok: "om_ok r \<Longrightarrow> om_ok (ring_insert n v r)"
  by (simp add: ring_insert_def om.ok_put)

lemma fold_insert_ok: "om_ok r \<Longrightarrow> om_ok (fold (ring_insert n) vs r)"
  using om.ok_fold_put_new [of r n vs] by (simp add: ring_insert_def [abs_def])

lemma fold_insert_find:
  "om_ok r \<Longrightarrow> om_find (fold (ring_insert n) vs r) v = (if v \<in> set vs \<and> om_find r v = None then Some n else om_find r v)"
  using om.find_fold_put_new [of r n vs v] by (simp add: ring_insert_def [abs_def])

lemma fold_insert_length: "om_ok r \<Longrightarrow> length r \<le> length (fold (ring_insert n) vs r)"
proof (induction vs arbitrary: r)
  case (Cons v vs)
  have "length r \<le> length (ring_insert n v r)" using Cons.prems by (simp add: ring_insert_def length_om_put)
  also have "\<dots> \<le> length (fold (ring_insert n) vs (ring_insert n v r))" by (rule Cons.IH [OF ring_insert_ok [OF Cons.prems]])
  finally show ?case by simp
qed simp

lemma fold_insert_same: "om_ok r \<Longrightarrow> length (fold (ring_insert n) vs r) = length r \<Longrightarrow> fold (ring_insert n) vs r = r"
proof (induction vs arbitrary: r)
  case (Cons v vs)
  have "length (ring_insert n v r) \<le> length (fold (ring_insert n) vs (ring_insert n v r))"
    by (rule fold_insert_length [OF ring_insert_ok [OF Cons.prems(1)]])
  then have "length (ring_insert n v r) \<le> length r" using Cons.prems(2) by simp
  then have "ring_insert n v r = r" using Cons.prems(1) by (auto simp: ring_insert_def length_om_put split: if_splits)
  then show ?case using Cons by simp
qed simp

lemma clockwise_subset: "clockwise key D' v \<Longrightarrow> v \<in> D \<Longrightarrow> D \<subseteq> D' \<Longrightarrow> clockwise key D v"
  unfolding clockwise_def by (auto split: if_splits)

lemma clockwise_unique: "clockwise key D v \<Longrightarrow> clockwise key D w \<Longrightarrow> v = w"
  unfolding clockwise_def by (auto split: if_splits intro: order.antisym)

lemma ring_lookup_clockwise:
  assumes "om_ok r" "ring_lookup key r = Some n"
  shows "\<exists>v. om_find r v = Some n \<and> clockwise key {v. om_find r v \<noteq> None} v"
proof (cases "om_lower_bound r key")
  case None
  then obtain v where b: "om_begin r = Some (v, n)" using assms(2) by (auto simp: ring_lookup_def)
  have "\<forall>w. key \<le> w \<longrightarrow> om_find r w = None" using None om.lower_bound_None [OF assms(1)] by blast
  then show ?thesis using om.first_Some [OF assms(1) b] by (auto simp: clockwise_def)
next
  case (Some e)
  then obtain v where e: "om_lower_bound r key = Some (v, n)" using assms(2) by (cases e) (auto simp: ring_lookup_def)
  from om.lower_bound_Some [OF assms(1) e] show ?thesis by (intro exI [of _ v]) (force simp: clockwise_def)
qed

lemma ring_lookup_total: "om_ok r \<Longrightarrow> om_find r v \<noteq> None \<Longrightarrow> \<exists>n. ring_lookup key r = Some n"
proof -
  assume r: "om_ok r" "om_find r v \<noteq> None"
  then have "om_begin r \<noteq> None" using om.first_None [OF r(1)] by auto
  then show ?thesis by (auto simp: ring_lookup_def split: option.split)
qed

lemma ring_lookup_eqI:
  assumes "om_ok r" "om_find r v = Some n" "clockwise key {v. om_find r v \<noteq> None} v"
  shows "ring_lookup key r = Some n"
proof -
  obtain n' where n': "ring_lookup key r = Some n'" using ring_lookup_total [OF assms(1), of v key] assms(2) by auto
  from ring_lookup_clockwise [OF assms(1) this] obtain w where
    "om_find r w = Some n'" "clockwise key {v. om_find r v \<noteq> None} w" by blast
  with clockwise_unique [OF assms(3)] assms(2) n' show ?thesis by auto
qed

text \<open>Two rings, the larger with additional points of other nodes: what the larger one answers with a
  point of the smaller one, the smaller one answers too.\<close>

lemma ring_lookup_shrink:
  assumes ok: "om_ok r" "om_ok r'" and l: "ring_lookup key r' = Some n"
    and sub: "\<And>v x. om_find r v = Some x \<Longrightarrow> om_find r' v = Some x"
    and keep: "\<And>v. om_find r' v = Some n \<Longrightarrow> om_find r v \<noteq> None"
  shows "ring_lookup key r = Some n"
proof -
  from ring_lookup_clockwise [OF ok(2) l] obtain v where v: "om_find r' v = Some n"
    "clockwise key {v. om_find r' v \<noteq> None} v" by blast
  have "om_find r v = Some n" using keep [OF v(1)] sub [of v] v(1) by auto
  moreover have "clockwise key {v. om_find r v \<noteq> None} v"
    using v(2) calculation sub by (intro clockwise_subset [OF v(2)]) auto
  ultimately show ?thesis by (rule ring_lookup_eqI [OF ok(1)])
qed

section \<open>Lemmas on the table\<close>

lemma get_node_in_hash_ring: "get_node_in_hash t obj st = ring_lookup (hash_key (m_ha st) obj) (ring_of t st)"
  by (auto simp: get_node_in_hash_def ring_of_def ring_lookup_def om_lower_bound_def om_begin_def split: option.split)

lemma ring_of_put:
  "um_ok (m_vnodes st) \<Longrightarrow> ring_of t (st\<lparr>m_vnodes := um_put t' r (m_vnodes st)\<rparr>) = (if t = t' then r else ring_of t st)"
  by (simp add: ring_of_def um.find_put)

lemma ring_of_other [simp]:
  "ring_of t (st\<lparr>m_nodes := a\<rparr>) = ring_of t st" "ring_of t (st\<lparr>m_version := b\<rparr>) = ring_of t st"
  "ring_of t (st\<lparr>m_zk_nodes := c\<rparr>) = ring_of t st" "ring_of t (st\<lparr>m_host_zk_paths := d\<rparr>) = ring_of t st"
  by (simp_all add: ring_of_def)

lemma nodes_okD:
  assumes "nodes_ok md5 st"
  shows "um_ok (m_host_zk_paths st)" "um_ok (m_zk_nodes st)" "um_ok (m_nodes st)" "um_ok (m_vnodes st)"
    "um_find (m_nodes st) i = Some node \<Longrightarrow> n_id node = i \<and> n_vnodes node = gen_vnodes md5 (m_vnode_cnt st) i"
    "om_ok (ring_of t st)"
    "om_find (ring_of t st) v = Some node \<Longrightarrow>
       n_type node = t \<and> v \<in> set (n_vnodes node) \<and> um_find (m_nodes st) (n_id node) = Some node"
    "um_find (m_zk_nodes st) p = Some z \<Longrightarrow> z_path z = p"
  using assms unfolding nodes_ok_def by blast+

lemma nodes_okI:
  assumes "um_ok (m_host_zk_paths st)" "um_ok (m_zk_nodes st)" "um_ok (m_nodes st)" "um_ok (m_vnodes st)"
    "\<And>i node. um_find (m_nodes st) i = Some node \<Longrightarrow> n_id node = i \<and> n_vnodes node = gen_vnodes md5 (m_vnode_cnt st) i"
    "\<And>t. om_ok (ring_of t st)"
    "\<And>t v node. om_find (ring_of t st) v = Some node \<Longrightarrow>
       n_type node = t \<and> v \<in> set (n_vnodes node) \<and> um_find (m_nodes st) (n_id node) = Some node"
    "\<And>p z. um_find (m_zk_nodes st) p = Some z \<Longrightarrow> z_path z = p"
  shows "nodes_ok md5 st"
  using assms unfolding nodes_ok_def by blast

lemma nodes_ok_new [simp, ok_intros]: "nodes_ok md5 (new_nodes cnt ha)"
  by (rule nodes_okI) (simp_all add: new_nodes_def um_ok_def um_find_def ring_of_def om_ok_def om_find_def)

text \<open>A new node: its ring and the table after a successful \<^verbatim>\<open>add_node\<close>.\<close>

definition mk_node :: "(string \<Rightarrow> bytes) \<Rightarrow> string \<Rightarrow> string \<Rightarrow> int \<Rightarrow> int \<Rightarrow> nodes \<Rightarrow> node_t" where
  "mk_node md5 t host port worker st =
     (let i = format_nodes_id host port worker
      in \<lparr>n_id = i, n_type = t, n_host = host, n_port = port, n_worker_index = worker,
          n_vnodes = gen_vnodes md5 (m_vnode_cnt st) i\<rparr>)"

lemma add_node_ring:
  assumes ok: "nodes_ok md5 st" and new: "um_find (m_nodes st) (format_nodes_id host port worker) = None"
  shows "ring_of t' (snd (add_node md5 t host port worker st)) =
    (if t' = t then fold (ring_insert (mk_node md5 t host port worker st)) (gen_vnodes md5 (m_vnode_cnt st) (format_nodes_id host port worker)) (ring_of t st)
     else ring_of t' st)"
  using new nodes_okD(4) [OF ok] by (simp add: add_node_def mk_node_def Let_def ring_of_def um.find_put)

lemma add_node_nodes:
  assumes ok: "nodes_ok md5 st" and new: "um_find (m_nodes st) (format_nodes_id host port worker) = None"
  shows "um_find (m_nodes (snd (add_node md5 t host port worker st))) i =
    (if i = format_nodes_id host port worker \<and> fst (add_node md5 t host port worker st)
     then Some (mk_node md5 t host port worker st) else um_find (m_nodes st) i)"
  using new nodes_okD(3) [OF ok] by (simp add: add_node_def mk_node_def Let_def um.find_put)

lemma add_node_frame [simp]:
  "m_host_zk_paths (snd (add_node md5 t host port worker st)) = m_host_zk_paths st"
  "m_zk_nodes (snd (add_node md5 t host port worker st)) = m_zk_nodes st"
  "m_vnode_cnt (snd (add_node md5 t host port worker st)) = m_vnode_cnt st"
  "m_ha (snd (add_node md5 t host port worker st)) = m_ha st"
  by (simp_all add: add_node_def Let_def)

lemma add_node_refused:
  assumes ok: "nodes_ok md5 st" and f: "\<not> fst (add_node md5 t host port worker st)"
  shows "ring_of t' (snd (add_node md5 t host port worker st)) = ring_of t' st"
proof -
  have new: "um_find (m_nodes st) (format_nodes_id host port worker) = None"
    using f by (auto simp: add_node_def Let_def split: if_splits)
  have "length (fold (ring_insert (mk_node md5 t host port worker st)) (gen_vnodes md5 (m_vnode_cnt st) (format_nodes_id host port worker)) (ring_of t st))
      = length (ring_of t st)"
    using f new by (auto simp: add_node_def mk_node_def Let_def split: if_splits)
  then show ?thesis using fold_insert_same [OF nodes_okD(6) [OF ok]] by (simp add: add_node_ring [OF ok new])
qed

lemma add_node_ok [ok_intros]:
  assumes ok: "nodes_ok md5 st"
  shows "nodes_ok md5 (snd (add_node md5 t host port worker st))"
proof (cases "um_find (m_nodes st) (format_nodes_id host port worker)")
  case (Some node)
  then show ?thesis using ok by (simp add: add_node_def Let_def)
next
  case None
  define n where "n = mk_node md5 t host port worker st"
  have n: "n_id n = format_nodes_id host port worker" "n_type n = t" "n_vnodes n = gen_vnodes md5 (m_vnode_cnt st) (n_id n)"
    by (simp_all add: n_def mk_node_def Let_def)
  let ?st = "snd (add_node md5 t host port worker st)"
  note rings = add_node_ring [OF ok None] and nodes = add_node_nodes [OF ok None] and D = nodes_okD [OF ok]
  show ?thesis
  proof (rule nodes_okI)
    show "um_ok (m_host_zk_paths ?st)" "um_ok (m_zk_nodes ?st)" using D(1,2) by simp_all
    show "um_ok (m_nodes ?st)" "um_ok (m_vnodes ?st)"
      using D(3,4) None by (auto simp: add_node_def Let_def intro!: um.ok_put)
    show "n_id node = i \<and> n_vnodes node = gen_vnodes md5 (m_vnode_cnt ?st) i" if "um_find (m_nodes ?st) i = Some node" for i node
      using that D(5) n unfolding nodes n_def by (auto split: if_splits)
    show "om_ok (ring_of t' ?st)" for t' using fold_insert_ok [OF D(6)] D(6) by (simp add: rings)
    show "z_path z = p" if "um_find (m_zk_nodes ?st) p = Some z" for p z using that D(8) by simp
  next
    fix t' v node
    assume v: "om_find (ring_of t' ?st) v = Some node"
    show "n_type node = t' \<and> v \<in> set (n_vnodes node) \<and> um_find (m_nodes ?st) (n_id node) = Some node"
    proof (cases "fst (add_node md5 t host port worker st)")
      case False
      then show ?thesis
        using D(7) [of t' v node] v nodes add_node_refused [OF ok] by simp
    next
      case True
      have "om_find (ring_of t' st) v = Some node \<or> t' = t \<and> node = n \<and> v \<in> set (n_vnodes n)"
        using v fold_insert_find [OF D(6)] n unfolding rings n_def by (auto split: if_splits)
      then show ?thesis using D(7) [of t' v node] True None n unfolding nodes n_def by (auto split: if_splits)
    qed
  qed
qed

text \<open>Removing a node.\<close>

lemma fold_erase_nil: "fold om_erase vs [] = []"
  by (induction vs) (simp_all add: om_erase_def)

lemma del_node_ring:
  assumes ok: "nodes_ok md5 st" and n: "um_find (m_nodes st) i = Some node"
  shows "om_find (ring_of t (snd (del_node i st))) v =
     (if t = n_type node \<and> v \<in> set (n_vnodes node) then None else om_find (ring_of t st) v)"
    "om_ok (ring_of t (snd (del_node i st)))"
proof -
  have r: "ring_of t (snd (del_node i st)) = (if t = n_type node then fold om_erase (n_vnodes node) (ring_of t st) else ring_of t st)"
    using n nodes_okD(4) [OF ok]
    by (auto simp: del_node_def Let_def ring_of_def um.find_put fold_erase_nil split: option.split)
  show "om_find (ring_of t (snd (del_node i st))) v =
     (if t = n_type node \<and> v \<in> set (n_vnodes node) then None else om_find (ring_of t st) v)"
    by (simp add: r om.find_fold_erase [OF nodes_okD(6) [OF ok]])
  show "om_ok (ring_of t (snd (del_node i st)))"
    using om.ok_fold_erase [OF nodes_okD(6) [OF ok]] nodes_okD(6) [OF ok] by (simp add: r)
qed

lemma del_node_nodes:
  assumes ok: "nodes_ok md5 st"
  shows "um_find (m_nodes (snd (del_node i st))) j = (if j = i then None else um_find (m_nodes st) j)"
  using um.find_erase [OF nodes_okD(3) [OF ok]] by (auto simp: del_node_def Let_def split: option.split)

lemma del_node_frame [simp]:
  "m_host_zk_paths (snd (del_node i st)) = m_host_zk_paths st" "m_zk_nodes (snd (del_node i st)) = m_zk_nodes st"
  "m_vnode_cnt (snd (del_node i st)) = m_vnode_cnt st" "m_ha (snd (del_node i st)) = m_ha st"
  by (simp_all add: del_node_def Let_def split: option.split)

lemma del_node_ok [ok_intros]:
  assumes ok: "nodes_ok md5 st"
  shows "nodes_ok md5 (snd (del_node i st))"
proof (cases "um_find (m_nodes st) i")
  case None
  then show ?thesis using ok by (simp add: del_node_def)
next
  case (Some node)
  let ?st = "snd (del_node i st)"
  note rings = del_node_ring [OF ok Some] and nodes = del_node_nodes [OF ok] and D = nodes_okD [OF ok]
  show ?thesis
  proof (rule nodes_okI)
    show "um_ok (m_host_zk_paths ?st)" "um_ok (m_zk_nodes ?st)" using D(1,2) by simp_all
    show "um_ok (m_nodes ?st)" "um_ok (m_vnodes ?st)"
      using D(3,4) Some by (auto simp: del_node_def Let_def intro!: um.ok_put um.ok_erase split: option.split)
    show "n_id x = j \<and> n_vnodes x = gen_vnodes md5 (m_vnode_cnt ?st) j" if "um_find (m_nodes ?st) j = Some x" for j x
      using that D(5) unfolding nodes by (auto split: if_splits)
    show "om_ok (ring_of t ?st)" for t by (rule rings(2))
    show "z_path z = p" if "um_find (m_zk_nodes ?st) p = Some z" for p z using that D(8) by simp
  next
    fix t v x
    assume v: "om_find (ring_of t ?st) v = Some x"
    then have x: "n_type x = t" "v \<in> set (n_vnodes x)" "um_find (m_nodes st) (n_id x) = Some x"
      using D(7) [of t v x] unfolding rings(1) by (auto split: if_splits)
    moreover have "n_id x \<noteq> i"
      using v x Some unfolding rings(1) by (auto split: if_splits)
    ultimately show "n_type x = t \<and> v \<in> set (n_vnodes x) \<and> um_find (m_nodes ?st) (n_id x) = Some x"
      by (simp add: nodes)
  qed
qed

text \<open>The loops over workers.\<close>

lemma set_workers [simp]: "set (workers n) = {1..n}"
  by (auto simp: workers_def)

lemma fold_add_ok:
  assumes "nodes_ok md5 st"
  shows "nodes_ok md5 (add_workers md5 z idx st)" "m_zk_nodes (add_workers md5 z idx st) = m_zk_nodes st"
    "m_host_zk_paths (add_workers md5 z idx st) = m_host_zk_paths st"
    "m_vnode_cnt (add_workers md5 z idx st) = m_vnode_cnt st"
  using assms unfolding add_workers_def by (induction idx arbitrary: st) (simp_all add: add_node_ok)

definition worker_id :: "zk_node \<Rightarrow> nat \<Rightarrow> string" where
  "worker_id z i = format_nodes_id (z_host z) (i32 (int (z_port z))) (i32 (int i))"

lemma fold_del_ok:
  assumes "nodes_ok md5 st"
  shows "nodes_ok md5 (del_workers z idx st)" "m_zk_nodes (del_workers z idx st) = m_zk_nodes st"
    "m_host_zk_paths (del_workers z idx st) = m_host_zk_paths st"
    "m_vnode_cnt (del_workers z idx st) = m_vnode_cnt st"
    "um_find (m_nodes (del_workers z idx st)) j = (if j \<in> worker_id z ` set idx then None else um_find (m_nodes st) j)"
  using assms unfolding del_workers_def
  by (induction idx arbitrary: st) (auto simp: del_node_ok del_node_nodes worker_id_def)

lemma fold_add_other:
  assumes "nodes_ok md5 st" "j \<notin> worker_id z ` set idx"
  shows "um_find (m_nodes (add_workers md5 z idx st)) j = um_find (m_nodes st) j"
  using assms
proof (induction idx arbitrary: st)
  case (Cons i idx)
  define st1 where "st1 = snd (add_node md5 (z_type z) (z_host z) (i32 (int (z_port z))) (i32 (int i)) st)"
  have "um_find (m_nodes st1) j = um_find (m_nodes st) j"
  proof (cases "um_find (m_nodes st) (worker_id z i)")
    case None
    then show ?thesis
      using Cons.prems add_node_nodes [OF Cons.prems(1)] by (auto simp: st1_def worker_id_def)
  next
    case (Some n)
    then show ?thesis by (simp add: st1_def add_node_def worker_id_def)
  qed
  moreover have "um_find (m_nodes (add_workers md5 z idx st1)) j = um_find (m_nodes st1) j"
    using Cons.IH [of st1] Cons.prems by (simp add: st1_def add_node_ok)
  ultimately show ?case by (simp add: add_workers_def st1_def)
qed (simp add: add_workers_def)

lemma other_fields_ok:
  assumes "nodes_ok md5 st"
  shows "nodes_ok md5 (st\<lparr>m_host_zk_paths := um_erase k (m_host_zk_paths st)\<rparr>)"
    "nodes_ok md5 (st\<lparr>m_host_zk_paths := um_put k v (m_host_zk_paths st)\<rparr>)"
    "nodes_ok md5 (st\<lparr>m_zk_nodes := um_erase k (m_zk_nodes st)\<rparr>)"
    "nodes_ok md5 (st\<lparr>m_zk_nodes := um_put (z_path z) z (m_zk_nodes st)\<rparr>)"
    "nodes_ok md5 (st\<lparr>m_my_zk_node := k\<rparr>)"
proof -
  note D = nodes_okD [OF assms]
  have r: "ring_of t (st\<lparr>m_my_zk_node := k\<rparr>) = ring_of t st" for t k by (simp add: ring_of_def)
  show "nodes_ok md5 (st\<lparr>m_host_zk_paths := um_erase k (m_host_zk_paths st)\<rparr>)"
    "nodes_ok md5 (st\<lparr>m_host_zk_paths := um_put k v (m_host_zk_paths st)\<rparr>)"
    "nodes_ok md5 (st\<lparr>m_zk_nodes := um_erase k (m_zk_nodes st)\<rparr>)"
    "nodes_ok md5 (st\<lparr>m_zk_nodes := um_put (z_path z) z (m_zk_nodes st)\<rparr>)"
    "nodes_ok md5 (st\<lparr>m_my_zk_node := k\<rparr>)"
    using assms um.ok_erase [OF D(1)] um.ok_put [OF D(1)] um.ok_erase [OF D(2)] um.ok_put [OF D(2)]
      um.find_put [OF D(2)] um.find_erase [OF D(2)]
    unfolding nodes_ok_def by (simp_all add: r)
qed

lemma del_zk_node_ok [ok_intros]: "nodes_ok md5 st \<Longrightarrow> nodes_ok md5 (snd (del_zk_node path st))"
proof (cases "um_find (m_zk_nodes st) path")
  case (Some z)
  assume "nodes_ok md5 st"
  from other_fields_ok(3) [OF other_fields_ok(1) [OF fold_del_ok(1) [OF this]]]
  show ?thesis by (simp add: del_zk_node_def Some Let_def)
qed (simp add: del_zk_node_def)

lemma check_zk_node_host_ok [ok_intros]: "nodes_ok md5 st \<Longrightarrow> nodes_ok md5 (snd (check_zk_node_host z st))"
  by (auto simp: check_zk_node_host_def other_fields_ok del_zk_node_ok split: option.split)

lemma add_zk_node_ok [ok_intros]:
  assumes "nodes_ok md5 st"
  shows "nodes_ok md5 (snd (add_zk_node md5 z st))"
proof -
  define st1 where "st1 = snd (check_zk_node_host z st)"
  have ok: "nodes_ok md5 st1" using check_zk_node_host_ok [OF assms] by (simp add: st1_def)
  show ?thesis
    using assms ok fold_add_ok(1) fold_del_ok(1) other_fields_ok(4) [OF ok] other_fields_ok(2)
    by (auto simp: add_zk_node_def Let_def split_beta st1_def [symmetric] split: option.split)
qed

lemma nodes_clear_ok [ok_intros]: "nodes_ok md5 (nodes_clear st)"
  by (rule nodes_okI) (simp_all add: nodes_clear_def um_ok_def um_find_def ring_of_def om_ok_def om_find_def)

section \<open>The table as a system\<close>

datatype nodes_op = AddZkNode zk_node | DelZkNode string | SetMyPath string | ClearNodes

fun nodes_step :: "(string \<Rightarrow> bytes) \<Rightarrow> nodes \<Rightarrow> nodes_op \<Rightarrow> nodes" where
  "nodes_step md5 st (AddZkNode z) = snd (add_zk_node md5 z st)"
| "nodes_step md5 st (DelZkNode path) = snd (del_zk_node path st)"
| "nodes_step md5 st (SetMyPath path) = set_my_zk_node_path path st"
| "nodes_step md5 st ClearNodes = nodes_clear st"

interpretation ns: invariant_system "\<lambda>st. st = new_nodes cnt ha" "nodes_step md5" "\<lambda>_ _. True" "nodes_ok md5" for cnt ha md5
proof unfold_locales
  show "nodes_ok md5 (nodes_step md5 s x)" if "nodes_ok md5 s" for s x
    using that by (cases x) (simp_all add: ok_intros set_my_zk_node_path_def other_fields_ok)
qed simp

lemma in_hash_spec:
  assumes "nodes_ok md5 st" "get_node_in_hash t obj st = Some n"
  shows "n_type n = t \<and> um_find (m_nodes st) (n_id n) = Some n \<and>
    (\<exists>v\<in>set (n_vnodes n). clockwise (hash_key (m_ha st) obj) {v. om_find (ring_of t st) v \<noteq> None} v)"
proof -
  obtain v where "om_find (ring_of t st) v = Some n" "clockwise (hash_key (m_ha st) obj) {v. om_find (ring_of t st) v \<noteq> None} v"
    using ring_lookup_clockwise [OF nodes_okD(6) [OF assms(1)]] assms(2) unfolding get_node_in_hash_ring by blast
  then show ?thesis using nodes_okD(7) [OF assms(1)] by blast
qed

lemma add_first_node:
  assumes "gen_vnodes md5 cnt (format_nodes_id host port w) \<noteq> []"
  shows "um_find (m_nodes (snd (add_node md5 t host port w (new_nodes cnt ha)))) (format_nodes_id host port w) =
      Some (mk_node md5 t host port w (new_nodes cnt ha)) \<and>
    (\<forall>v\<in>set (gen_vnodes md5 cnt (format_nodes_id host port w)).
       om_find (ring_of t (snd (add_node md5 t host port w (new_nodes cnt ha)))) v = Some (mk_node md5 t host port w (new_nodes cnt ha)))"
proof -
  let ?n = "mk_node md5 t host port w (new_nodes cnt ha)" and ?vs = "gen_vnodes md5 cnt (format_nodes_id host port w)"
  have new: "um_find (m_nodes (new_nodes cnt ha)) (format_nodes_id host port w) = None" by (simp add: new_nodes_def um_find_def)
  have r: "ring_of t (snd (add_node md5 t host port w (new_nodes cnt ha))) = fold (ring_insert ?n) ?vs []"
    by (simp add: add_node_ring [OF nodes_ok_new new]) (simp add: new_nodes_def ring_of_def um_find_def)
  have f: "om_find (fold (ring_insert ?n) ?vs []) v = (if v \<in> set ?vs then Some ?n else None)" for v
    using fold_insert_find [of "[]" ?n ?vs v] by (simp add: om_ok_def om_find_def)
  then have "fold (ring_insert ?n) ?vs [] \<noteq> []" using assms by (metis list.set_intros(1) neq_Nil_conv om_find_def map_of.simps(1) option.distinct(1))
  moreover have "ring_of t (new_nodes cnt ha) = []" "m_vnode_cnt (new_nodes cnt ha) = cnt"
    by (simp_all add: new_nodes_def ring_of_def um_find_def)
  ultimately have "fst (add_node md5 t host port w (new_nodes cnt ha))"
    using new by (simp add: add_node_def Let_def mk_node_def)
  then show ?thesis using add_node_nodes [OF nodes_ok_new new] f r by simp
qed

text \<open>A digest and a record for the witnesses.\<close>

definition demo_md5 :: "string \<Rightarrow> bytes" where
  "demo_md5 s = replicate 16 7"

lemma demo_vnodes: "gen_vnodes demo_md5 4 i \<noteq> []"
  by (simp add: gen_vnodes_def Let_def)

definition demo_zk :: "nat \<Rightarrow> zk_node" where
  "demo_zk cnt = \<lparr>z_path = ''/n/1'', z_type = ''logic'', z_host = ''h'', z_port = 1, z_worker_cnt = cnt, z_active_time = 1\<rparr>"

lemma demo_registered:
  "um_find (m_zk_nodes (snd (add_zk_node demo_md5 (demo_zk 2) (new_nodes 4 FNV1A_64)))) ''/n/1'' = Some (demo_zk 2)"
proof -
  have "is_valid_zk_node (demo_zk 2)" "check_zk_node_host (demo_zk 2) (new_nodes 4 FNV1A_64) = (True, new_nodes 4 FNV1A_64)"
    "um_find (m_zk_nodes (new_nodes 4 FNV1A_64)) ''/n/1'' = None" "z_path (demo_zk 2) = ''/n/1''"
    by (simp_all add: is_valid_zk_node_def demo_zk_def check_zk_node_host_def new_nodes_def um_find_def)
  then show ?thesis
    using fold_add_ok(2) [OF other_fields_ok(4) [OF nodes_ok_new [of demo_md5 4 FNV1A_64], of "demo_zk 2"]]
      um.find_put [OF nodes_okD(2) [OF nodes_ok_new [of demo_md5 4 FNV1A_64]]]
    by (simp add: add_zk_node_def Let_def)
qed

lemma demo_host:
  "um_find (m_host_zk_paths (snd (add_zk_node demo_md5 (demo_zk 2) (new_nodes 4 FNV1A_64)))) (zk_host (demo_zk 2)) = Some ''/n/1''"
proof -
  have "is_valid_zk_node (demo_zk 2)" "check_zk_node_host (demo_zk 2) (new_nodes 4 FNV1A_64) = (True, new_nodes 4 FNV1A_64)"
    "um_find (m_zk_nodes (new_nodes 4 FNV1A_64)) ''/n/1'' = None" "z_path (demo_zk 2) = ''/n/1''"
    by (simp_all add: is_valid_zk_node_def demo_zk_def check_zk_node_host_def new_nodes_def um_find_def)
  moreover have "um_ok (m_host_zk_paths (new_nodes 4 FNV1A_64))" by (simp add: new_nodes_def um_ok_def)
  ultimately show ?thesis
    using fold_add_ok(3) [OF other_fields_ok(4) [OF nodes_ok_new [of demo_md5 4 FNV1A_64], of "demo_zk 2"]]
    by (simp add: add_zk_node_def um.find_put Let_def)
qed

section \<open>Properties\<close>

text \<open>
  C11. After any sequence of registrations, removals and resets the table is consistent, and a
  look-up that answers gives a node of the requested type that is registered under its id and owns the
  point that is next clockwise from the hash of the object; it answers whenever that ring has a point.
\<close>

theorem lookup_after_any_history:
  assumes "st = foldl (nodes_step md5) (new_nodes cnt ha) ops"
  shows "nodes_ok md5 st \<and>
    (\<forall>n. get_node_in_hash t obj st = Some n \<longrightarrow> n_type n = t \<and> um_find (m_nodes st) (n_id n) = Some n \<and>
      (\<exists>v\<in>set (n_vnodes n). clockwise (hash_key (m_ha st) obj) {v. om_find (ring_of t st) v \<noteq> None} v)) \<and>
    (get_node_in_hash t obj st = None \<longleftrightarrow> ring_of t st = [])"
proof -
  have ok: "nodes_ok md5 st" unfolding assms using ns.run_ok [of "new_nodes cnt ha" cnt ha md5 ops] by simp
  have "get_node_in_hash t obj st = None \<longleftrightarrow> ring_of t st = []"
    unfolding get_node_in_hash_ring
    by (auto simp: ring_lookup_def om_lower_bound_def om_begin_def split: option.splits list.splits)
  then show ?thesis using ok in_hash_spec [OF ok] by blast
qed

theorem lookup_after_any_history_witness:
  "\<exists>st. st = foldl (nodes_step (\<lambda>_. replicate 16 7)) (new_nodes 4 FNV1A_64) [AddZkNode (demo_zk 2), DelZkNode ''x''] \<and>
    nodes_ok (\<lambda>_. replicate 16 7) st \<and>
    (\<forall>n. get_node_in_hash ''logic'' ''42'' st = Some n \<longrightarrow> n_type n = ''logic'' \<and> um_find (m_nodes st) (n_id n) = Some n \<and>
      (\<exists>v\<in>set (n_vnodes n). clockwise (hash_key (m_ha st) ''42'') {v. om_find (ring_of ''logic'' st) v \<noteq> None} v)) \<and>
    (get_node_in_hash ''logic'' ''42'' st = None \<longleftrightarrow> ring_of ''logic'' st = [])"
  by (rule exI, rule conjI [OF refl], rule lookup_after_any_history [OF refl])

text \<open>
  C26. Adding a node moves objects to the new node only: whatever node serves an object afterwards is
  the new node or the one that served it before.
\<close>

theorem add_node_moves_only_to_new:
  assumes ok: "nodes_ok md5 st" and l: "get_node_in_hash t obj (snd (add_node md5 t0 host port worker st)) = Some n"
  shows "get_node_in_hash t obj st = Some n \<or> n = mk_node md5 t0 host port worker st \<and> t = t0"
proof (rule disjCI)
  assume new: "\<not> (n = mk_node md5 t0 host port worker st \<and> t = t0)"
  let ?st = "snd (add_node md5 t0 host port worker st)"
  show "get_node_in_hash t obj st = Some n"
  proof (cases "um_find (m_nodes st) (format_nodes_id host port worker)")
    case (Some x)
    then show ?thesis using l by (simp add: add_node_def)
  next
    case None
    note rings = add_node_ring [OF ok None] and ins = fold_insert_find [OF nodes_okD(6) [OF ok]]
    show ?thesis
      unfolding get_node_in_hash_ring
    proof (rule ring_lookup_shrink)
      show "om_ok (ring_of t st)" "om_ok (ring_of t ?st)" using nodes_okD(6) [OF ok] nodes_okD(6) [OF add_node_ok [OF ok]] by blast+
      show "ring_lookup (hash_key (m_ha st) obj) (ring_of t ?st) = Some n" using l unfolding get_node_in_hash_ring by simp
      show "om_find (ring_of t ?st) v = Some x" if "om_find (ring_of t st) v = Some x" for v x
        using that by (auto simp: rings ins)
      show "om_find (ring_of t st) v \<noteq> None" if "om_find (ring_of t ?st) v = Some n" for v
        using that new by (auto simp: rings ins split: if_splits)
    qed
  qed
qed

theorem add_node_moves_only_to_new_witness:
  "\<exists>n. get_node_in_hash ''logic'' ''42'' (snd (add_node demo_md5 ''logic'' ''h'' 1 1 (new_nodes 4 FNV1A_64))) = Some n \<and>
    (get_node_in_hash ''logic'' ''42'' (new_nodes 4 FNV1A_64) = Some n \<or>
     n = mk_node demo_md5 ''logic'' ''h'' 1 1 (new_nodes 4 FNV1A_64) \<and> ''logic'' = ''logic'')"
proof -
  let ?st = "snd (add_node demo_md5 ''logic'' ''h'' 1 1 (new_nodes 4 FNV1A_64))"
  note first = add_first_node [OF demo_vnodes [of "format_nodes_id ''h'' 1 1"], of "''logic''" FNV1A_64]
  obtain v where "om_find (ring_of ''logic'' ?st) v \<noteq> None"
    using first demo_vnodes [of "format_nodes_id ''h'' 1 1"]
    by (metis all_not_in_conv option.distinct(1) set_empty)
  then obtain n where "get_node_in_hash ''logic'' ''42'' ?st = Some n"
    using ring_lookup_total [OF nodes_okD(6) [OF add_node_ok [OF nodes_ok_new]]] unfolding get_node_in_hash_ring by blast
  with add_node_moves_only_to_new [OF nodes_ok_new this] show ?thesis by blast
qed

text \<open>
  C27. Removing a node whose points no other node shares moves only the objects it served: every other
  object keeps its node, and no look-up ever answers the removed node.
\<close>

theorem del_node_moves_only_its_own:
  assumes ok: "nodes_ok md5 st" and d: "um_find (m_nodes st) i = Some node"
    and own: "\<forall>v\<in>set (n_vnodes node). om_find (ring_of (n_type node) st) v = Some node"
  shows "(\<forall>n. get_node_in_hash t obj st = Some n \<longrightarrow> n \<noteq> node \<longrightarrow> get_node_in_hash t obj (snd (del_node i st)) = Some n) \<and>
    get_node_in_hash t obj (snd (del_node i st)) \<noteq> Some node"
proof (intro conjI allI impI)
  let ?st = "snd (del_node i st)"
  fix n
  assume l: "get_node_in_hash t obj st = Some n" and n: "n \<noteq> node"
  show "get_node_in_hash t obj ?st = Some n"
    unfolding get_node_in_hash_ring
  proof (rule ring_lookup_shrink)
    show "om_ok (ring_of t ?st)" "om_ok (ring_of t st)" using del_node_ring(2) [OF ok d] nodes_okD(6) [OF ok] by blast+
    show "ring_lookup (hash_key (m_ha ?st) obj) (ring_of t st) = Some n" using l unfolding get_node_in_hash_ring by simp
    show "om_find (ring_of t st) v = Some x" if "om_find (ring_of t ?st) v = Some x" for v x
      using that by (simp add: del_node_ring(1) [OF ok d] split: if_splits)
    show "om_find (ring_of t ?st) v \<noteq> None" if "om_find (ring_of t st) v = Some n" for v
      using that own n by (auto simp: del_node_ring(1) [OF ok d])
  qed
next
  show "get_node_in_hash t obj (snd (del_node i st)) \<noteq> Some node"
    using in_hash_spec [OF del_node_ok [OF ok], of t obj i node] nodes_okD(5) [OF ok d] del_node_nodes [OF ok, of i i] by auto
qed

theorem del_node_moves_only_its_own_witness:
  "\<exists>st node. um_find (m_nodes st) (format_nodes_id ''h'' 1 1) = Some node \<and>
    (\<forall>n. get_node_in_hash ''logic'' ''42'' st = Some n \<longrightarrow> n \<noteq> node \<longrightarrow>
       get_node_in_hash ''logic'' ''42'' (snd (del_node (format_nodes_id ''h'' 1 1) st)) = Some n) \<and>
    get_node_in_hash ''logic'' ''42'' (snd (del_node (format_nodes_id ''h'' 1 1) st)) \<noteq> Some node"
proof -
  define st where "st = snd (add_node demo_md5 ''logic'' ''h'' 1 1 (new_nodes 4 FNV1A_64))"
  define node where "node = mk_node demo_md5 ''logic'' ''h'' 1 1 (new_nodes 4 FNV1A_64)"
  note first = add_first_node [OF demo_vnodes [of "format_nodes_id ''h'' 1 1"], of "''logic''" FNV1A_64, folded st_def node_def]
  have ok: "nodes_ok demo_md5 st" unfolding st_def by (intro ok_intros nodes_ok_new)
  have "n_type node = ''logic''" "n_vnodes node = gen_vnodes demo_md5 4 (format_nodes_id ''h'' 1 1)"
    by (simp_all add: node_def mk_node_def Let_def new_nodes_def)
  then have "\<forall>v\<in>set (n_vnodes node). om_find (ring_of (n_type node) st) v = Some node" using first by simp
  from del_node_moves_only_its_own [OF ok _ this, of "format_nodes_id ''h'' 1 1"] first show ?thesis by blast
qed

text \<open>
  \<^verbatim>\<open>del_zk_node\<close> of a registered path removes the path, its host entry and all its workers, keeps
  every node that is not one of them, and keeps the table consistent.
\<close>

theorem del_zk_node_removes_all:
  assumes ok: "nodes_ok md5 st" and z: "um_find (m_zk_nodes st) path = Some z"
  shows "fst (del_zk_node path st) \<and> nodes_ok md5 (snd (del_zk_node path st)) \<and>
    (\<forall>p. um_find (m_zk_nodes (snd (del_zk_node path st))) p = (if p = path then None else um_find (m_zk_nodes st) p)) \<and>
    um_find (m_host_zk_paths (snd (del_zk_node path st))) (zk_host z) = None \<and>
    (\<forall>j. um_find (m_nodes (snd (del_zk_node path st))) j =
       (if j \<in> worker_id z ` {1..z_worker_cnt z} then None else um_find (m_nodes st) j))"
proof -
  note d = fold_del_ok [OF ok, of z "workers (z_worker_cnt z)"]
  show ?thesis
    using del_zk_node_ok [OF ok, of path] d um.find_erase [OF nodes_okD(2) [OF d(1)]] um.find_erase [OF nodes_okD(1) [OF d(1)]]
    by (simp add: del_zk_node_def z Let_def)
qed

theorem del_zk_node_removes_all_witness:
  "let st = snd (add_zk_node demo_md5 (demo_zk 2) (new_nodes 4 FNV1A_64))
   in fst (del_zk_node ''/n/1'' st) \<and> nodes_ok demo_md5 (snd (del_zk_node ''/n/1'' st)) \<and>
    (\<forall>p. um_find (m_zk_nodes (snd (del_zk_node ''/n/1'' st))) p = (if p = ''/n/1'' then None else um_find (m_zk_nodes st) p)) \<and>
    um_find (m_host_zk_paths (snd (del_zk_node ''/n/1'' st))) (zk_host (demo_zk 2)) = None \<and>
    (\<forall>j. um_find (m_nodes (snd (del_zk_node ''/n/1'' st))) j =
       (if j \<in> worker_id (demo_zk 2) ` {1..z_worker_cnt (demo_zk 2)} then None else um_find (m_nodes st) j))"
  unfolding Let_def
  by (rule del_zk_node_removes_all [OF add_zk_node_ok [OF nodes_ok_new]], rule demo_registered)

text \<open>
  Updating a registered path leaves stale workers: only the ids of the new record's own workers
  are touched, so every node that the old record had and the new one has not (fewer workers, another
  host or port) stays registered and keeps its points on the ring. The reason is that the reference
  \<^verbatim>\<open>old\<close> reads the entry after it was overwritten.
\<close>

theorem update_keeps_stale_workers:
  assumes ok: "nodes_ok md5 st" and old: "um_find (m_zk_nodes st) (z_path z) = Some old"
    and same: "check_zk_node_host z st = (True, st)" and valid: "is_valid_zk_node z"
    and j: "j \<notin> worker_id z ` {1..z_worker_cnt z}"
  shows "fst (add_zk_node md5 z st) \<and> um_find (m_nodes (snd (add_zk_node md5 z st))) j = um_find (m_nodes st) j"
proof -
  define st1 where "st1 = st\<lparr>m_zk_nodes := um_put (z_path z) z (m_zk_nodes st)\<rparr>"
  have ok1: "nodes_ok md5 st1" unfolding st1_def by (rule other_fields_ok(4) [OF ok])
  have j1: "j \<notin> worker_id z ` set (workers (z_worker_cnt z - 1))" "j \<notin> worker_id z ` set (workers (z_worker_cnt z))"
    using j by (auto simp: image_iff)
  have "um_find (m_nodes (add_workers md5 z (workers (z_worker_cnt z)) (del_workers z (workers (z_worker_cnt z - 1)) st1))) j
      = um_find (m_nodes st1) j"
    using fold_add_other [OF fold_del_ok(1) [OF ok1] j1(2)] fold_del_ok(5) [OF ok1, of z "workers (z_worker_cnt z - 1)"] j1(1) by simp
  then show ?thesis
    using old same valid by (simp add: add_zk_node_def st1_def Let_def)
qed

theorem update_keeps_stale_workers_witness:
  "let st = snd (add_zk_node demo_md5 (demo_zk 2) (new_nodes 4 FNV1A_64))
   in fst (add_zk_node demo_md5 (demo_zk 1) st) \<and>
    um_find (m_nodes (snd (add_zk_node demo_md5 (demo_zk 1) st))) (worker_id (demo_zk 2) 2) = um_find (m_nodes st) (worker_id (demo_zk 2) 2)"
  unfolding Let_def
proof (rule update_keeps_stale_workers [OF add_zk_node_ok [OF nodes_ok_new]])
  show "um_find (m_zk_nodes (snd (add_zk_node demo_md5 (demo_zk 2) (new_nodes 4 FNV1A_64)))) (z_path (demo_zk 1)) = Some (demo_zk 2)"
    using demo_registered by (simp add: demo_zk_def)
  have "zk_host (demo_zk 1) = zk_host (demo_zk 2)" by (simp add: zk_host_def demo_zk_def)
  then show "check_zk_node_host (demo_zk 1) (snd (add_zk_node demo_md5 (demo_zk 2) (new_nodes 4 FNV1A_64))) =
      (True, snd (add_zk_node demo_md5 (demo_zk 2) (new_nodes 4 FNV1A_64)))"
    using demo_registered demo_host by (simp add: check_zk_node_host_def) (simp add: demo_zk_def)
  show "is_valid_zk_node (demo_zk 1)" by (simp add: is_valid_zk_node_def demo_zk_def)
  have "worker_id (demo_zk 2) 2 \<noteq> worker_id (demo_zk 1) 1"
    by (simp add: worker_id_def demo_zk_def format_nodes_id_def snprintf_def c_str_def dec_def dec_nat_small digit_def)
  then show "worker_id (demo_zk 2) 2 \<notin> worker_id (demo_zk 1) ` {1..z_worker_cnt (demo_zk 1)}" by (simp add: demo_zk_def)
qed

text \<open>
  \<^verbatim>\<open>get_zk_diff_nodes\<close>: for a list of paths without repetitions, \<^verbatim>\<open>adds\<close> are the listed paths that
  are not registered with this type and \<^verbatim>\<open>dels\<close> the registered paths of this type that are not listed.
\<close>

theorem zk_diff_nodes_correct:
  assumes "nodes_ok md5 st" "distinct inp"
  shows "case get_zk_diff_nodes t inp st of (inp', adds, dels) \<Rightarrow>
    set adds = {p \<in> set inp. \<nexists>z. um_find (m_zk_nodes st) p = Some z \<and> z_type z = t} \<and>
    set dels = {p. p \<notin> set inp \<and> (\<exists>z. um_find (m_zk_nodes st) p = Some z \<and> z_type z = t)} \<and>
    distinct adds \<and> distinct dels \<and> inp' = sort inp"
proof -
  define vec where "vec = map fst (filter (\<lambda>e. t = z_type (snd e)) (m_zk_nodes st))"
  have d: "distinct (map fst (m_zk_nodes st))" using nodes_okD(2) [OF assms(1)] by (simp add: um_ok_def)
  then have dv: "distinct vec" by (simp add: vec_def distinct_map_filter)
  have v: "p \<in> set vec \<longleftrightarrow> (\<exists>z. um_find (m_zk_nodes st) p = Some z \<and> z_type z = t)" for p
    using d by (force simp: vec_def um_find_def map_of_eq_Some_iff)
  have "set (fst (diff_cmp inp vec)) = set inp - set vec \<and> distinct (fst (diff_cmp inp vec))"
    "set (fst (diff_cmp (sort vec) (sort inp))) = set vec - set inp \<and> distinct (fst (diff_cmp (sort vec) (sort inp)))"
    using diff_cmp_spec [OF assms(2) dv] diff_cmp_spec [of "sort vec" "sort inp"] assms(2) dv by simp_all
  moreover have "get_zk_diff_nodes t inp st = (sort inp, fst (diff_cmp inp vec), fst (diff_cmp (sort vec) (sort inp)))"
    by (simp add: get_zk_diff_nodes_def vec_def [symmetric] diff_cmp_def sorted_sort_id)
  ultimately show ?thesis using v by auto
qed

theorem zk_diff_nodes_correct_witness:
  "case get_zk_diff_nodes ''logic'' [''b'', ''a''] (new_nodes 4 FNV1A_64) of (inp', adds, dels) \<Rightarrow>
    set adds = {p \<in> set [''b'', ''a'']. \<nexists>z. um_find (m_zk_nodes (new_nodes 4 FNV1A_64)) p = Some z \<and> z_type z = ''logic''} \<and>
    set dels = {p. p \<notin> set [''b'', ''a''] \<and> (\<exists>z. um_find (m_zk_nodes (new_nodes 4 FNV1A_64)) p = Some z \<and> z_type z = ''logic'')} \<and>
    distinct adds \<and> distinct dels \<and> inp' = sort [''b'', ''a'']"
  by (rule zk_diff_nodes_correct [OF nodes_ok_new [of demo_md5]]) simp

end
