(* ===== verification/Channel.thy ===== *)
theory Channel
  imports ProtoWire Server
begin

text \<open>
  Passing a descriptor from the manager to a worker over a socket pair
  (\<^verbatim>\<open>src/src/core/net/channel.h\<close>, \<^verbatim>\<open>channel.cpp\<close>). What \<^verbatim>\<open>sendmsg\<close> and \<^verbatim>\<open>recvmsg\<close> answer is an argument;
  the structure \<^verbatim>\<open>channel_t\<close> travels as its 16 bytes, little endian, and the descriptor as ancillary data.
  The ancillary block a reader finds is \<open>junk\<close>, the uninitialised stack, when the message carried none.
\<close>

record channel_t =
  ch_fd :: int
  ch_family :: int
  ch_codec :: int
  ch_is_system :: int

record cmsg_t =
  cmsg_len :: nat
  cmsg_level :: int
  cmsg_type :: int
  cmsg_fd :: int

record sendmsg_t =
  sm_iov :: bytes
  sm_control :: "cmsg_t option"

record recvmsg_t =
  rm_iov :: bytes
  rm_control :: "cmsg_t option"
  rm_truncated :: bool

text \<open>\<^verbatim>\<open>CMSG_LEN(sizeof(int))\<close>, \<^verbatim>\<open>SOL_SOCKET\<close> and \<^verbatim>\<open>SCM_RIGHTS\<close> of Linux on x86-64.\<close>

definition CMSG_LEN_INT :: nat where
  "CMSG_LEN_INT = 20"

definition SOL_SOCKET :: int where
  "SOL_SOCKET = 1"

definition SCM_RIGHTS :: int where
  "SCM_RIGHTS = 1"

definition int_bytes :: "int \<Rightarrow> bytes" where
  "int_bytes x = le32_enc (word_of_int x)"

definition bytes_int :: "bytes \<Rightarrow> int" where
  "bytes_int bs = sint (le32_dec bs)"

definition channel_bytes :: "channel_t \<Rightarrow> bytes" where
  "channel_bytes ch = int_bytes (ch_fd ch) @ int_bytes (ch_family ch) @ int_bytes (ch_codec ch) @ int_bytes (ch_is_system ch)"

definition bytes_channel :: "bytes \<Rightarrow> channel_t" where
  "bytes_channel bs = \<lparr>ch_fd = bytes_int (take 4 bs), ch_family = bytes_int (take 4 (drop 4 bs)),
     ch_codec = bytes_int (take 4 (drop 8 bs)), ch_is_system = bytes_int (take 4 (drop 12 bs))\<rparr>"

text \<open>The message \<^verbatim>\<open>write_channel\<close> hands to the kernel, and its return value; \<open>sent\<close> is \<open>None\<close> when
  \<^verbatim>\<open>sendmsg\<close> succeeded, else the error number.\<close>

definition channel_msg :: "channel_t \<Rightarrow> sendmsg_t" where
  "channel_msg ch = \<lparr>sm_iov = channel_bytes ch,
     sm_control = (if ch_fd ch = - 1 then None
        else Some \<lparr>cmsg_len = CMSG_LEN_INT, cmsg_level = SOL_SOCKET, cmsg_type = SCM_RIGHTS, cmsg_fd = ch_fd ch\<rparr>)\<rparr>"

definition write_channel :: "int option \<Rightarrow> int" where
  "write_channel sent = (case sent of None \<Rightarrow> 0 | Some e \<Rightarrow> if e = EAGAIN then e else - 1)"

text \<open>The first bytes of the structure are overwritten by what arrived, also when the call then fails.\<close>

definition read_channel :: "cmsg_t \<Rightarrow> int + recvmsg_t \<Rightarrow> channel_t \<Rightarrow> int \<times> channel_t" where
  "read_channel junk got ch = (case got of
       Inl e \<Rightarrow> (if e = EAGAIN then e else - 1, ch)
     | Inr r \<Rightarrow>
         let n = length (rm_iov r);
             ch1 = bytes_channel (rm_iov r @ drop n (channel_bytes ch));
             cm = (case rm_control r of None \<Rightarrow> junk | Some c \<Rightarrow> c)
         in if n = 0 then (- 1, ch)
            else if n < 16 then (- 1, ch1)
            else if cmsg_len cm < CMSG_LEN_INT then (- 1, ch1)
            else if cmsg_level cm \<noteq> SOL_SOCKET \<or> cmsg_type cm \<noteq> SCM_RIGHTS then (- 1, ch1)
            else let ch2 = ch1\<lparr>ch_fd := cmsg_fd cm\<rparr>
                 in if rm_truncated r then (- 1, ch2) else (0, ch2))"

text \<open>What the kernel delivers of a message: the same bytes, and the descriptor renumbered for the reader.\<close>

definition kernel_passes :: "int \<Rightarrow> sendmsg_t \<Rightarrow> recvmsg_t" where
  "kernel_passes fd m = \<lparr>rm_iov = sm_iov m, rm_control = map_option (\<lambda>c. c\<lparr>cmsg_fd := fd\<rparr>) (sm_control m), rm_truncated = False\<rparr>"

definition is_int :: "int \<Rightarrow> bool" where
  "is_int x \<longleftrightarrow> - 2147483648 \<le> x \<and> x \<le> 2147483647"

lemma int_bytes_length: "length (int_bytes x) = 4"
  by (simp add: int_bytes_def le32_enc_def Let_def)

lemma int_round_trip: "is_int x \<Longrightarrow> bytes_int (int_bytes x) = x"
  by (simp add: bytes_int_def int_bytes_def le32_round_trip is_int_def signed_of_int signed_take_bit_int_eq_self)

lemma channel_bytes_length: "length (channel_bytes ch) = 16"
  by (simp add: channel_bytes_def int_bytes_length)

lemma channel_round_trip:
  "is_int (ch_fd ch) \<Longrightarrow> is_int (ch_family ch) \<Longrightarrow> is_int (ch_codec ch) \<Longrightarrow> is_int (ch_is_system ch) \<Longrightarrow>
   bytes_channel (channel_bytes ch) = ch"
  by (simp add: bytes_channel_def channel_bytes_def int_bytes_length int_round_trip)

lemma channel_passes:
  assumes "ch_fd ch \<noteq> - 1" "is_int (ch_fd ch)" "is_int (ch_family ch)" "is_int (ch_codec ch)" "is_int (ch_is_system ch)"
  shows "read_channel junk (Inr (kernel_passes fd (channel_msg ch))) old = (0, ch\<lparr>ch_fd := fd\<rparr>)"
  using assms channel_round_trip [of ch] channel_bytes_length [of ch] channel_bytes_length [of old]
  by (auto simp: read_channel_def kernel_passes_def channel_msg_def Let_def CMSG_LEN_INT_def)

text \<open>
  A descriptor sent through a channel arrives: reading what \<^verbatim>\<open>write_channel\<close> sent succeeds and gives the
  same family, codec and system flag with the descriptor number the kernel made for the reader, whatever
  the reader's variable held before.
\<close>

theorem channel_passes_descriptor:
  assumes "ch_fd ch \<noteq> - 1" "is_int (ch_fd ch)" "is_int (ch_family ch)" "is_int (ch_codec ch)" "is_int (ch_is_system ch)"
  shows "read_channel junk (Inr (kernel_passes fd (channel_msg ch))) old = (0, ch\<lparr>ch_fd := fd\<rparr>)"
  using assms by (rule channel_passes)

theorem channel_passes_descriptor_witness:
  "read_channel junk (Inr (kernel_passes 9 (channel_msg \<lparr>ch_fd = 5, ch_family = 2, ch_codec = 1, ch_is_system = 1\<rparr>)))
     \<lparr>ch_fd = 0, ch_family = 0, ch_codec = 0, ch_is_system = 0\<rparr> = (0, \<lparr>ch_fd = 9, ch_family = 2, ch_codec = 1, ch_is_system = 1\<rparr>)"
  using channel_passes_descriptor [of "\<lparr>ch_fd = 5, ch_family = 2, ch_codec = 1, ch_is_system = 1\<rparr>" junk 9] by (simp add: is_int_def)

end
