(* ===== verification/Network.thy ===== *)
theory Network
  imports Connection WorkerData Nodes Channel
begin

text \<open>
  The connection tables and the sending side of the server (\<^verbatim>\<open>src/src/core/network.h\<close>, \<^verbatim>\<open>network.cpp\<close>)
  and the configuration it reads (\<^verbatim>\<open>sys_config.h\<close>). Connections are shared objects: they live in the store
  \<open>w_objs\<close> and the tables hold their addresses, so a coroutine may still hold a connection that the
  tables have dropped. The fields \<open>w_clock\<close>, \<open>w_sends\<close> and \<open>w_wire\<close> are the outside world: what
  \<^verbatim>\<open>mstime\<close> reads, what the kernel will answer to the next calls of \<^verbatim>\<open>send\<close> (an error number, or how
  many bytes the socket takes at most), the bytes each connection has put on the wire, and the
  descriptors the network has taken over and has closed (\<open>w_opened\<close>, \<open>w_closed\<close>); \<open>w_sendmsgs\<close> are the
  coming answers of \<^verbatim>\<open>sendmsg\<close> on the channels to the workers and \<open>w_transfers\<close> what was sent there. \<open>e_yield\<close> is what other coroutines do while one sleeps. \<open>None\<close> is undefined behaviour, or
  a call that still waits when the answers of the kernel run out.
\<close>

section \<open>Configuration\<close>

text \<open>\<^verbatim>\<open>(*m_config)(key)\<close> and \<^verbatim>\<open>m_config->Get(key, flag)\<close> of the JSON library, as look-ups.\<close>

record sys_config =
  cf_str :: "string \<Rightarrow> string"
  cf_reuseport :: "bool option"
  cf_zk_is_open :: "bool option"

definition cf_int :: "string \<Rightarrow> sys_config \<Rightarrow> int option" where
  "cf_int key cf = str_to_int (cf_str cf key)"

definition worker_name :: "sys_config \<Rightarrow> int \<Rightarrow> string" where
  "worker_name cf index = format_str (c_str (cf_str cf ''server_name'') @ ''_w_'' @ dec index)"

definition is_reuseport :: "sys_config \<Rightarrow> bool" where
  "is_reuseport cf = (case cf_reuseport cf of None \<Rightarrow> False | Some b \<Rightarrow> b)"

definition is_open_zookeeper :: "sys_config \<Rightarrow> bool" where
  "is_open_zookeeper cf = (case cf_zk_is_open cf of None \<Rightarrow> False | Some b \<Rightarrow> b)"

section \<open>State\<close>

datatype net_type = NET_UNKNOWN | NET_MANAGER | NET_WORKER

record net =
  m_config :: sys_config
  m_gate_codec :: codec_type
  m_fd_conns :: "(int, nat) umap"
  m_conns :: "(nat, nat) umap"
  m_node_conns :: "(string, nat) umap"
  m_seq :: u64
  m_time_index :: int
  m_now_time :: u64
  m_net_type :: net_type
  m_keep_alive :: u64
  m_worker_data_mgr :: worker_data
  m_node_fd :: int
  m_max_clients :: int
  m_gate_fd :: int
  m_worker_index :: int
  m_manager_fctrl :: fd_t
  m_manager_fdata :: fd_t
  m_payload :: payload
  m_node_table :: nodes
  w_objs :: "nat \<Rightarrow> connection"
  w_next :: nat
  w_clock :: u64
  w_sends :: "(int + nat) list"
  w_wire :: "(nat \<times> bytes) list"
  w_closed :: "int list"
  w_opened :: "int list"
  w_sendmsgs :: "int option list"
  w_transfers :: "(int \<times> sendmsg_t) list"

record env =
  e_pb :: protobuf
  e_heap :: heap
  e_junk :: "nat \<Rightarrow> u8"
  e_yield :: "net \<Rightarrow> net"

definition new_net :: "sys_config \<Rightarrow> net_type \<Rightarrow> u64 \<Rightarrow> nodes \<Rightarrow> net" where
  "new_net cf ty clock ns = \<lparr>m_config = cf, m_gate_codec = UNKNOWN, m_fd_conns = [], m_conns = [], m_node_conns = [],
     m_seq = 0, m_time_index = 0, m_now_time = clock, m_net_type = ty, m_keep_alive = of_nat IO_TIMEOUT_VAL,
     m_worker_data_mgr = new_worker_data, m_node_fd = - 1, m_max_clients = 1024 - CONFIG_MIN_RESERVED_FDS, m_gate_fd = - 1,
     m_worker_index = 0, m_manager_fctrl = no_fd, m_manager_fdata = no_fd, m_payload = payload0, m_node_table = ns,
     w_objs = (\<lambda>_. new_connection (- 1) 0 0), w_next = 0, w_clock = clock, w_sends = [], w_wire = [], w_closed = [], w_opened = [], w_sendmsgs = [], w_transfers = []\<rparr>"

definition is_worker :: "net \<Rightarrow> bool" where
  "is_worker st \<longleftrightarrow> m_net_type st = NET_WORKER"

definition is_manager :: "net \<Rightarrow> bool" where
  "is_manager st \<longleftrightarrow> m_net_type st = NET_MANAGER"

text \<open>\<^verbatim>\<open>node_port()\<close> of the network answers the gate port.\<close>

definition node_port :: "net \<Rightarrow> int option" where
  "node_port st = cf_int ''gate_port'' (m_config st)"

definition node_type :: "net \<Rightarrow> string" where
  "node_type st = cf_str (m_config st) ''node_type''"

definition node_host :: "net \<Rightarrow> string" where
  "node_host st = cf_str (m_config st) ''node_host''"

definition new_seq :: "net \<Rightarrow> u64 \<times> net" where
  "new_seq st = (m_seq st + 1, st\<lparr>m_seq := m_seq st + 1\<rparr>)"

text \<open>\<^verbatim>\<open>m_time_index\<close> is an \<^verbatim>\<open>int\<close>; the clock is read at every tenth call only.\<close>

definition net_now :: "bool \<Rightarrow> net \<Rightarrow> u64 \<times> net" where
  "net_now force st =
     (if force then (w_clock st, st\<lparr>m_now_time := w_clock st\<rparr>)
      else let i = i32 (m_time_index st + 1);
               t = (if i mod 10 = 0 then w_clock st else m_now_time st)
           in (t, st\<lparr>m_time_index := i, m_now_time := t\<rparr>))"

definition set_obj :: "nat \<Rightarrow> connection \<Rightarrow> net \<Rightarrow> net" where
  "set_obj a c st = st\<lparr>w_objs := (w_objs st)(a := c)\<rparr>"

definition close_fd :: "int \<Rightarrow> net \<Rightarrow> net" where
  "close_fd fd st = st\<lparr>w_closed := fd # w_closed st\<rparr>"

section \<open>Connections\<close>

definition create_conn_fd :: "int \<Rightarrow> net \<Rightarrow> nat \<times> net" where
  "create_conn_fd fd st =
     (let (cid, st1) = new_seq st;
          (t, st2) = net_now False st1;
          a = w_next st2;
          c = new_connection fd (unat cid) t
      in (a, st2\<lparr>w_objs := (w_objs st2)(a := c\<lparr>c_keep_alive := m_keep_alive st2\<rparr>),
                 w_next := Suc a, w_opened := fd # w_opened st2,
                 m_conns := um_put (unat cid) a (m_conns st2),
                 m_fd_conns := um_put fd (unat cid) (m_fd_conns st2)\<rparr>))"

text \<open>The three booleans are what \<^verbatim>\<open>anet_no_block\<close>, \<^verbatim>\<open>anet_keep_alive\<close> and \<^verbatim>\<open>anet_set_tcp_no_delay\<close> answer.\<close>

definition create_conn :: "bool \<times> bool \<times> bool \<Rightarrow> int \<Rightarrow> codec_type \<Rightarrow> bool \<Rightarrow> net \<Rightarrow> nat option \<times> net" where
  "create_conn opts fd codec is_channel st =
     (let (no_block, keep, no_delay) = opts
      in if \<not> no_block then (None, st)
         else if \<not> is_channel \<and> \<not> (keep \<and> no_delay) then (None, st)
         else let (a, st1) = create_conn_fd fd st;
                  (t1, st2) = (if codec = HTTP \<or> codec = PROTOBUF then net_now False st1 else (0, st1));
                  c1 = snd (conn_init codec t1 (w_objs st2 a));
                  (t2, st3) = net_now False st2;
                  c2 = c1\<lparr>c_active_time := t2, c_state := ST_CONNECTED\<rparr>;
                  c3 = (if is_channel then c2\<lparr>c_is_system := True\<rparr> else c2)
              in (Some a, set_obj a c3 st3))"

definition get_conn :: "fd_t \<Rightarrow> net \<Rightarrow> nat option" where
  "get_conn ft st =
     (case um_find (m_conns st) (ft_id ft) of
        None \<Rightarrow> None
      | Some a \<Rightarrow> if ft_fd (c_ft (w_objs st a)) \<noteq> ft_fd ft then None else Some a)"

definition is_valid_conn :: "nat \<Rightarrow> net \<Rightarrow> bool" where
  "is_valid_conn cid st =
     (case um_find (m_conns st) cid of
        None \<Rightarrow> False
      | Some a \<Rightarrow>
          let c = w_objs st a
          in if is_invalid c then False
             else case um_find (m_fd_conns st) (ft_fd (c_ft c)) of
                    None \<Rightarrow> False
                  | Some i \<Rightarrow> i = ft_id (c_ft c))"

definition close_conn :: "nat \<Rightarrow> net \<Rightarrow> bool \<times> net" where
  "close_conn cid st =
     (case um_find (m_conns st) cid of
        None \<Rightarrow> (False, st)
      | Some a \<Rightarrow>
          let c = (w_objs st a)\<lparr>c_state := ST_CLOSED\<rparr>;
              st1 = set_obj a c st;
              st2 = (if c_node_id c \<noteq> [] then st1\<lparr>m_node_conns := um_erase (c_node_id c) (m_node_conns st1)\<rparr> else st1);
              st3 = st2\<lparr>m_conns := um_erase cid (m_conns st2)\<rparr>;
              fd = ft_fd (c_ft c)
          in (True, if um_find (m_fd_conns st3) fd = Some (ft_id (c_ft c))
                    then close_fd fd (st3\<lparr>m_fd_conns := um_erase fd (m_fd_conns st3)\<rparr>)
                    else st3))"

definition close_conn_ptr :: "nat option \<Rightarrow> net \<Rightarrow> bool \<times> net" where
  "close_conn_ptr co st = (case co of None \<Rightarrow> (False, st) | Some a \<Rightarrow> close_conn (ft_id (c_ft (w_objs st a))) st)"

definition update_conn_state :: "fd_t \<Rightarrow> conn_state \<Rightarrow> net \<Rightarrow> bool \<times> net" where
  "update_conn_state ft s st =
     (case um_find (m_conns st) (ft_id ft) of
        None \<Rightarrow> (False, st)
      | Some a \<Rightarrow> (True, set_obj a ((w_objs st a)\<lparr>c_state := s\<rparr>) st))"

definition add_client_conn :: "string \<Rightarrow> fd_t \<Rightarrow> net \<Rightarrow> bool \<times> net" where
  "add_client_conn node_id ft st =
     (case get_conn ft st of
        None \<Rightarrow> (False, st)
      | Some a \<Rightarrow> (True, st\<lparr>m_node_conns := um_put node_id a (m_node_conns st)\<rparr>))"

definition close_fds :: "net \<Rightarrow> net" where
  "close_fds st =
     (fold (\<lambda>e s. if \<not> is_invalid (w_objs s (snd e)) then close_fd (ft_fd (c_ft (w_objs s (snd e)))) s else s) (m_conns st) st)
       \<lparr>m_conns := [], m_node_conns := []\<rparr>"

definition close_channel :: "int \<times> int \<Rightarrow> net \<Rightarrow> net" where
  "close_channel fds st = close_fd (snd fds) (close_fd (fst fds) st)"

section \<open>Sending\<close>

definition has_output :: "connection \<Rightarrow> bool" where
  "has_output c = (case c_send_buf c of None \<Rightarrow> False | Some b \<Rightarrow> is_readable b)"

text \<open>What one call of \<^verbatim>\<open>send\<close> does with the waiting bytes.\<close>

definition kernel_takes :: "int + nat \<Rightarrow> connection \<Rightarrow> int + nat" where
  "kernel_takes k c = (case k of Inl e \<Rightarrow> Inl e | Inr room \<Rightarrow> Inr (min room (length (out_bytes c))))"

text \<open>\<^verbatim>\<open>now()\<close> is called, the counters move and bytes leave exactly when \<^verbatim>\<open>send\<close> succeeded.\<close>

definition conn_write_data :: "'z env_scheme \<Rightarrow> int + nat \<Rightarrow> nat \<Rightarrow> net \<Rightarrow> status \<times> net" where
  "conn_write_data env k a st =
     (let c = w_objs st a;
          sent = kernel_takes k c;
          (t, st_now) = net_now False st;
          (status, c1) = conn_write_fd (e_heap env) sent t c;
          wrote = c_write_cnt c1 \<noteq> c_write_cnt c;
          st1 = (if wrote then st_now\<lparr>w_wire := w_wire st_now @ [(a, take (case sent of Inr n \<Rightarrow> n | _ \<Rightarrow> 0) (out_bytes c))]\<rparr> else st);
          pl = m_payload st1;
          st2 = (if status \<noteq> ERR
                 then st1\<lparr>m_payload := pl\<lparr>write_cnt := write_cnt pl + word_of_int (c_write_cnt c1 - c_write_cnt c),
                                          write_bytes := ucast (ucast (write_bytes pl) + (c_write_bytes c1 - c_write_bytes c))\<rparr>\<rparr>
                 else st1)
      in (status, set_obj a c1 st2))"

fun send_loop :: "'z env_scheme \<Rightarrow> (int + nat) list \<Rightarrow> nat \<Rightarrow> net \<Rightarrow> (int \<times> net) option" where
  "send_loop env ks a st =
     (if \<not> is_valid_conn (ft_id (c_ft (w_objs st a))) st then Some (ERR_INVALID_CONN, st\<lparr>w_sends := ks\<rparr>)
      else if \<not> has_output (w_objs st a) then Some (ERR_OK, (snd (conn_write_data env (Inl 0) a st))\<lparr>w_sends := ks\<rparr>)
      else case ks of
          [] \<Rightarrow> None
        | k # ks' \<Rightarrow>
            let (status, st1) = conn_write_data env k a st
            in if status = OK then Some (ERR_OK, st1\<lparr>w_sends := ks'\<rparr>)
               else if status = PAUSE then send_loop env ks' a (e_yield env st1)
               else Some (ERR_SEND_DATA_FAILED, st1\<lparr>w_sends := ks'\<rparr>))"

definition send_to :: "'z env_scheme \<Rightarrow> nat option \<Rightarrow> msg \<Rightarrow> net \<Rightarrow> (int \<times> net) option" where
  "send_to env co m st =
     (case co of
        None \<Rightarrow> Some (ERR_INVALID_CONN, st)
      | Some a \<Rightarrow>
          if is_invalid (w_objs st a) then Some (ERR_INVALID_CONN, st)
          else do {
            (status, c) \<leftarrow> conn_append_message (e_pb env) (e_heap env) (e_junk env) m (w_objs st a);
            let st1 = set_obj a c st;
            if status \<noteq> OK then Some (ERR_ENCODE_DATA_FAILED, st1)
            else send_loop env (w_sends st1) a st1
          })"

definition send_to_ft :: "'z env_scheme \<Rightarrow> fd_t \<Rightarrow> msg \<Rightarrow> net \<Rightarrow> (int \<times> net) option" where
  "send_to_ft env ft m st = send_to env (get_conn ft st) m st"

definition ack_msg :: "protobuf \<Rightarrow> msg \<Rightarrow> int \<Rightarrow> string \<Rightarrow> bytes \<Rightarrow> msg" where
  "ack_msg p req err errstr dat =
     (let body = body0\<lparr>data := dat, m_type := RspResult (word_of_int err) errstr\<rparr>
      in (new_msg no_fd)\<lparr>m_msg_body := body,
           m_msg_head := \<lparr>cmd = cmd (m_msg_head req) + 1, seq = seq (m_msg_head req), len = of_nat (length (ser_body p body))\<rparr>\<rparr>)"

definition send_ack :: "'z env_scheme \<Rightarrow> msg \<Rightarrow> int \<Rightarrow> string \<Rightarrow> bytes \<Rightarrow> net \<Rightarrow> (int \<times> net) option" where
  "send_ack env req err errstr dat st = send_to_ft env (m_ft req) (ack_msg (e_pb env) req err errstr dat) st"

definition req_msg :: "protobuf \<Rightarrow> u32 \<Rightarrow> u32 \<Rightarrow> bytes \<Rightarrow> msg" where
  "req_msg p c s dat =
     (let body = body0\<lparr>data := dat\<rparr>
      in (new_msg no_fd)\<lparr>m_msg_body := body, m_msg_head := \<lparr>cmd = c, seq = s, len = of_nat (length (ser_body p body))\<rparr>\<rparr>)"

text \<open>For a null connection the function returns \<^verbatim>\<open>false\<close>, which is the number of \<^verbatim>\<open>ERR_OK\<close>.\<close>

definition send_req :: "'z env_scheme \<Rightarrow> nat option \<Rightarrow> u32 \<Rightarrow> u32 \<Rightarrow> bytes \<Rightarrow> net \<Rightarrow> (int \<times> net) option" where
  "send_req env co c s dat st =
     (if co = None then Some (0, st) else send_to env co (req_msg (e_pb env) c s dat) st)"

definition send_req_ft :: "'z env_scheme \<Rightarrow> fd_t \<Rightarrow> u32 \<Rightarrow> u32 \<Rightarrow> bytes \<Rightarrow> net \<Rightarrow> (int \<times> net) option" where
  "send_req_ft env ft c s dat st = send_to_ft env ft (req_msg (e_pb env) c s dat) st"

definition send_to_manager :: "'z env_scheme \<Rightarrow> int \<Rightarrow> u64 \<Rightarrow> bytes \<Rightarrow> net \<Rightarrow> (int \<times> net) option" where
  "send_to_manager env c s dat st =
     (if \<not> is_worker st then Some (ERR_INVALID_PROCESS_TYPE, st)
      else case um_find (m_conns st) (ft_id (m_manager_fctrl st)) of
          None \<Rightarrow> Some (ERR_INVALID_CONN, st)
        | Some a \<Rightarrow> send_req env (Some a) (word_of_int c) (ucast s) dat st)"

text \<open>The loop over the table of workers; \<open>pids\<close> are its keys in the order of the loop. A failure is skipped.\<close>

fun send_each :: "'z env_scheme \<Rightarrow> int \<Rightarrow> u64 \<Rightarrow> bytes \<Rightarrow> nat list \<Rightarrow> net \<Rightarrow> net option" where
  "send_each env c s dat [] st = Some st"
| "send_each env c s dat (w # ws) st = do {
     info \<leftarrow> deref_info (m_worker_data_mgr st) w;
     st1 \<leftarrow> (case um_find (m_conns st) (ft_id (w_fctrl info)) of
          None \<Rightarrow> Some st
        | Some a \<Rightarrow> if is_invalid (w_objs st a) then Some st
                    else map_option snd (send_req env (Some a) (word_of_int c) (ucast s) dat st));
     send_each env c s dat ws st1
   }"

definition send_to_workers :: "'z env_scheme \<Rightarrow> int \<Rightarrow> u64 \<Rightarrow> bytes \<Rightarrow> net \<Rightarrow> (int \<times> net) option" where
  "send_to_workers env c s dat st =
     (if \<not> is_manager st then Some (ERR_INVALID_PROCESS_TYPE, st)
      else map_option (Pair ERR_OK) (send_each env c s dat (map snd (m_workers (m_worker_data_mgr st))) st))"

section \<open>Set-up\<close>

definition set_gate_codec :: "string \<Rightarrow> net \<Rightarrow> bool \<times> net" where
  "set_gate_codec s st =
     (let t = get_codec_type s in if t \<noteq> UNKNOWN then (True, st\<lparr>m_gate_codec := t\<rparr>) else (False, st))"

definition net_load_config :: "net \<Rightarrow> (bool \<times> net) option" where
  "net_load_config st =
     (let cf = m_config st; codec = cf_str cf ''gate_codec'';
          (ok, st1) = (if codec \<noteq> [] then set_gate_codec codec st else (True, st))
      in if \<not> ok then Some (False, st1)
         else do {
           secs \<leftarrow> cf_int ''keep_alive'' cf;
           let st2 = (if secs > 0 then st1\<lparr>m_keep_alive := word_of_int secs\<rparr> else st1);
           Some (cf_str cf ''node_type'' \<noteq> [], st2)
         })"

definition ensure_files_limit :: "int + nat \<Rightarrow> (nat \<Rightarrow> int option) \<Rightarrow> net \<Rightarrow> (bool \<times> net) option" where
  "ensure_files_limit getrl setrl st = do {
     max_clients \<leftarrow> cf_int ''max_clients'' (m_config st);
     if max_clients = 0 then Some (False, st)
     else let file_limit = fst (adjust_files_limit getrl setrl (max_clients + CONFIG_MIN_RESERVED_FDS) 0) - CONFIG_MIN_RESERVED_FDS
          in if file_limit < 0 then Some (False, st) else Some (True, st\<lparr>m_max_clients := file_limit\<rparr>)
   }"

declare send_loop.simps [simp del]

section \<open>Histories and the invariant of the tables\<close>

datatype net_op =
    NCreate "bool \<times> bool \<times> bool" int codec_type bool
  | NClose nat
  | NState fd_t conn_state
  | NClient string fd_t
  | NSend "nat option" msg

definition net_step :: "'z env_scheme \<Rightarrow> net \<Rightarrow> net_op \<Rightarrow> net" where
  "net_step env st x = (case x of
       NCreate opts fd codec ch \<Rightarrow> snd (create_conn opts fd codec ch st)
     | NClose cid \<Rightarrow> snd (close_conn cid st)
     | NState ft s \<Rightarrow> snd (update_conn_state ft s st)
     | NClient nid ft \<Rightarrow> snd (add_client_conn nid ft st)
     | NSend co m \<Rightarrow> (case send_to env co m st of None \<Rightarrow> st | Some (_, st') \<Rightarrow> st'))"

text \<open>What the tables say, without buffers and counters.\<close>

definition skel where
  "skel st = (m_conns st, m_fd_conns st, m_seq st, w_next st, w_opened st, w_closed st, \<lambda>a. c_ft (w_objs st a))"

definition net_inv :: "net \<Rightarrow> bool" where
  "net_inv st \<longleftrightarrow> um_ok (m_conns st) \<and> um_ok (m_fd_conns st) \<and>
     (\<forall>cid a. um_find (m_conns st) cid = Some a \<longrightarrow> a < w_next st \<and> ft_id (c_ft (w_objs st a)) = cid \<and>
        um_find (m_fd_conns st) (ft_fd (c_ft (w_objs st a))) = Some cid \<and> cid \<le> unat (m_seq st)) \<and>
     (\<forall>fd cid. um_find (m_fd_conns st) fd = Some cid \<longrightarrow>
        (\<exists>a. um_find (m_conns st) cid = Some a \<and> ft_fd (c_ft (w_objs st a)) = fd)) \<and>
     (\<forall>fd. count_list (w_closed st) fd + (if um_find (m_fd_conns st) fd = None then 0 else 1) = count_list (w_opened st) fd)"

text \<open>What the kernel and the callers guarantee: a descriptor that comes in is not one that is open here,
  the 64-bit sequence number does not wrap around, and other coroutines keep the invariant too.\<close>

definition net_enabled :: "'z env_scheme \<Rightarrow> net \<Rightarrow> net_op \<Rightarrow> bool" where
  "net_enabled env st x = (case x of
       NCreate _ fd _ _ \<Rightarrow> um_find (m_fd_conns st) fd = None \<and> unat (m_seq st) < 18446744073709551615
     | NSend _ _ \<Rightarrow> \<forall>s. net_inv s \<longrightarrow> net_inv (e_yield env s)
     | _ \<Rightarrow> True)"

lemma net_inv_skel: "skel st = skel st' \<Longrightarrow> net_inv st \<Longrightarrow> net_inv st'"
  unfolding net_inv_def skel_def by (auto simp: fun_eq_iff)

lemma net_now_skel [simp]: "skel (snd (net_now f st)) = skel st" "w_objs (snd (net_now f st)) = w_objs st"
  "w_wire (snd (net_now f st)) = w_wire st" "m_node_conns (snd (net_now f st)) = m_node_conns st"
  by (simp_all add: net_now_def skel_def Let_def)

lemma set_obj_skel: "c_ft c = c_ft (w_objs st a) \<Longrightarrow> skel (set_obj a c st) = skel st"
  by (auto simp: skel_def set_obj_def fun_eq_iff)

lemma conn_write_fd_ft: "c_ft (snd (conn_write_fd h sent t c)) = c_ft c"
  by (simp add: conn_write_fd_def Let_def split_beta split: option.splits)

lemma conn_append_ft: "conn_append_message p h junk m c = Some (st, c') \<Longrightarrow> c_ft c' = c_ft c"
  by (auto simp: conn_append_message_def split: if_splits)

lemma conn_write_data_skel: "skel (snd (conn_write_data env k a st)) = skel st"
proof -
  obtain t stn where n: "net_now False st = (t, stn)" by force
  then have "skel stn = skel st" "w_objs stn = w_objs st" using net_now_skel [of False st] by simp_all
  then show ?thesis
    using conn_write_fd_ft [of "e_heap env" "kernel_takes k (w_objs st a)" t "w_objs st a"]
    by (auto simp: conn_write_data_def Let_def n split_beta set_obj_def skel_def fun_eq_iff)
qed

lemma sends_skel: "skel (st\<lparr>w_sends := ks\<rparr>) = skel st"
  by (simp add: skel_def)

lemma send_loop_inv:
  assumes y: "\<forall>s. net_inv s \<longrightarrow> net_inv (e_yield env s)"
  shows "net_inv st \<Longrightarrow> send_loop env ks a st = Some (r, st') \<Longrightarrow> net_inv st'"
proof (induction ks arbitrary: st)
  case Nil
  then show ?case
    using net_inv_skel [of st st'] by (subst (asm) send_loop.simps)
      (auto simp: conn_write_data_skel sends_skel split: if_splits)
next
  case (Cons k ks)
  define st1 where "st1 = snd (conn_write_data env k a st)"
  have w: "net_inv st1" by (rule net_inv_skel [OF _ Cons.prems(1)]) (simp add: conn_write_data_skel st1_def)
  have s: "skel st' = skel st \<Longrightarrow> net_inv st'" using net_inv_skel [of st st'] Cons.prems(1) by simp
  from Cons.prems(2) show ?case
    using Cons.IH [of "e_yield env st1"] y w s conn_write_data_skel [of env k a st]
    by (subst (asm) send_loop.simps)
      (auto simp: conn_write_data_skel sends_skel st1_def [symmetric] split_beta Let_def split: if_splits)
qed

lemma net_invD:
  assumes "net_inv st"
  shows "um_ok (m_conns st)" "um_ok (m_fd_conns st)"
    "um_find (m_conns st) cid = Some a \<Longrightarrow> a < w_next st \<and> ft_id (c_ft (w_objs st a)) = cid \<and>
        um_find (m_fd_conns st) (ft_fd (c_ft (w_objs st a))) = Some cid \<and> cid \<le> unat (m_seq st)"
    "um_find (m_fd_conns st) fd = Some cid \<Longrightarrow> \<exists>a. um_find (m_conns st) cid = Some a \<and> ft_fd (c_ft (w_objs st a)) = fd"
    "count_list (w_closed st) fd + (if um_find (m_fd_conns st) fd = None then 0 else 1) = count_list (w_opened st) fd"
  using assms unfolding net_inv_def by blast+

lemma net_invI:
  assumes "um_ok (m_conns st)" "um_ok (m_fd_conns st)"
    "\<And>cid a. um_find (m_conns st) cid = Some a \<Longrightarrow> a < w_next st \<and> ft_id (c_ft (w_objs st a)) = cid \<and>
        um_find (m_fd_conns st) (ft_fd (c_ft (w_objs st a))) = Some cid \<and> cid \<le> unat (m_seq st)"
    "\<And>fd cid. um_find (m_fd_conns st) fd = Some cid \<Longrightarrow> \<exists>a. um_find (m_conns st) cid = Some a \<and> ft_fd (c_ft (w_objs st a)) = fd"
    "\<And>fd. count_list (w_closed st) fd + (if um_find (m_fd_conns st) fd = None then 0 else 1) = count_list (w_opened st) fd"
  shows "net_inv st"
  using assms unfolding net_inv_def by blast

lemma net_inv_new: "net_inv (new_net cf ty clock ns)"
  by (auto simp: net_inv_def new_net_def um_ok_def um_find_def)

lemma new_seq_next: "unat (m_seq st) < 18446744073709551615 \<Longrightarrow> unat (m_seq st + 1) = Suc (unat (m_seq st))"
  by (simp add: unat_plus_if_size word_size)

lemma create_conn_fd_inv:
  assumes inv: "net_inv st" and new: "um_find (m_fd_conns st) fd = None" "unat (m_seq st) < 18446744073709551615"
  shows "net_inv (snd (create_conn_fd fd st))"
proof -
  define cid a where "cid = unat (m_seq st + 1)" and "a = w_next st"
  obtain st' where st': "snd (create_conn_fd fd st) = st'" by simp
  have f: "m_conns st' = um_put cid a (m_conns st)" "m_fd_conns st' = um_put fd cid (m_fd_conns st)"
    "w_next st' = Suc a" "w_closed st' = w_closed st" "w_opened st' = fd # w_opened st" "unat (m_seq st') = cid"
    "c_ft (w_objs st' b) = (if b = a then \<lparr>ft_fd = fd, ft_id = cid\<rparr> else c_ft (w_objs st b))" for b
    using st' by (auto simp: create_conn_fd_def new_seq_def net_now_def Let_def split_beta cid_def a_def new_connection_def)
  have c: "cid = Suc (unat (m_seq st))" unfolding cid_def by (rule new_seq_next [OF new(2)])
  note d = net_invD [OF inv]
  have fresh: "um_find (m_conns st) cid = None" using d(3) [of cid] c by (cases "um_find (m_conns st) cid") auto
  have old: "b \<noteq> a \<and> ft_fd (c_ft (w_objs st b)) \<noteq> fd" if "um_find (m_conns st) i = Some b" for i b
    using d(3) [OF that] new(1) by (auto simp: a_def)
  have "net_inv st'"
  proof (rule net_invI)
    show "um_ok (m_conns st')" "um_ok (m_fd_conns st')" using d(1,2) by (simp_all add: f um.ok_put)
    fix i b assume "um_find (m_conns st') i = Some b"
    then show "b < w_next st' \<and> ft_id (c_ft (w_objs st' b)) = i \<and>
        um_find (m_fd_conns st') (ft_fd (c_ft (w_objs st' b))) = Some i \<and> i \<le> unat (m_seq st')"
      using d(3) [of i b] old [of i b] by (cases "i = cid") (auto simp: f um_find_put c a_def)
  next
    fix fd' i assume "um_find (m_fd_conns st') fd' = Some i"
    then show "\<exists>b. um_find (m_conns st') i = Some b \<and> ft_fd (c_ft (w_objs st' b)) = fd'"
      using d(4) [of fd' i] old fresh by (cases "fd' = fd") (fastforce simp: f um_find_put)+
  next
    fix fd'
    show "count_list (w_closed st') fd' + (if um_find (m_fd_conns st') fd' = None then 0 else 1) = count_list (w_opened st') fd'"
      using d(5) [of fd'] new(1) by (auto simp: f um_find_put)
  qed
  with st' show ?thesis by simp
qed

lemma conn_init_ft: "c_ft (snd (conn_init codec t c)) = c_ft c"
  by (simp add: conn_init_def Let_def split: codec_type.splits)

lemma create_conn_inv:
  assumes "net_inv st" "um_find (m_fd_conns st) fd = None" "unat (m_seq st) < 18446744073709551615"
  shows "net_inv (snd (create_conn opts fd codec ch st))"
proof -
  obtain a st1 where a: "create_conn_fd fd st = (a, st1)" by force
  with create_conn_fd_inv [OF assms] have i: "net_inv st1" by simp
  obtain t2 st2 where s2: "(if codec = HTTP \<or> codec = PROTOBUF then net_now False st1 else (0, st1)) = (t2, st2)" by force
  then have k2: "skel st2 = skel st1" "w_objs st2 = w_objs st1"
    by (metis net_now_skel(1,2) snd_conv)+
  obtain t3 st3 where s3: "net_now False st2 = (t3, st3)" by force
  then have k3: "skel st3 = skel st2" "w_objs st3 = w_objs st2" using net_now_skel [of False st2] by simp_all
  define c where "c = (let c2 = (snd (conn_init codec t2 (w_objs st2 a)))\<lparr>c_active_time := t3, c_state := ST_CONNECTED\<rparr>
     in if ch then c2\<lparr>c_is_system := True\<rparr> else c2)"
  have "c_ft c = c_ft (w_objs st3 a)" using conn_init_ft [of codec t2 "w_objs st2 a"] k3(2) by (simp add: c_def Let_def)
  moreover have "snd (create_conn opts fd codec ch st) = st \<or> snd (create_conn opts fd codec ch st) = set_obj a c st3"
    by (simp add: create_conn_def a s2 s3 Let_def split_beta c_def)
  ultimately show ?thesis
    using assms(1) i k2(1) k3(1) net_inv_skel set_obj_skel by metis
qed

lemma close_conn_skel:
  assumes "um_find (m_conns st) cid = Some a"
  defines "st' \<equiv> snd (close_conn cid st)"
    and "fd \<equiv> ft_fd (c_ft (w_objs st a))"
    and "hit \<equiv> um_find (m_fd_conns st) (ft_fd (c_ft (w_objs st a))) = Some (ft_id (c_ft (w_objs st a)))"
  shows "m_conns st' = um_erase cid (m_conns st)"
    "m_fd_conns st' = (if hit then um_erase fd (m_fd_conns st) else m_fd_conns st)"
    "w_closed st' = (if hit then fd # w_closed st else w_closed st)"
    "w_next st' = w_next st" "w_opened st' = w_opened st" "m_seq st' = m_seq st"
    "c_ft (w_objs st' b) = c_ft (w_objs st b)"
  using assms(1) by (simp_all add: close_conn_def st'_def Let_def set_obj_def close_fd_def fd_def hit_def)

lemma close_conn_inv:
  assumes inv: "net_inv st"
  shows "net_inv (snd (close_conn cid st))"
proof (cases "um_find (m_conns st) cid")
  case None
  then show ?thesis using inv by (simp add: close_conn_def)
next
  case (Some a)
  define st' fd where "st' = snd (close_conn cid st)" and "fd = ft_fd (c_ft (w_objs st a))"
  note d = net_invD [OF inv]
  have hit: "um_find (m_fd_conns st) (ft_fd (c_ft (w_objs st a))) = Some (ft_id (c_ft (w_objs st a)))"
    "ft_id (c_ft (w_objs st a)) = cid" "um_find (m_fd_conns st) fd = Some cid" using d(3) [OF Some] by (auto simp: fd_def)
  note f = close_conn_skel [OF Some, folded st'_def fd_def, simplified hit(2,3) simp_thms if_True]
  have "net_inv st'"
  proof (rule net_invI)
    show "um_ok (m_conns st')" "um_ok (m_fd_conns st')" using d(1,2) by (simp_all add: f um.ok_erase)
    fix i b assume i: "um_find (m_conns st') i = Some b"
    then have n: "i \<noteq> cid" "um_find (m_conns st) i = Some b" by (auto simp: f um_find_erase split: if_splits)
    moreover have "ft_fd (c_ft (w_objs st b)) \<noteq> fd" using d(3) [OF n(2)] hit(3) n(1) by auto
    ultimately show "b < w_next st' \<and> ft_id (c_ft (w_objs st' b)) = i \<and>
        um_find (m_fd_conns st') (ft_fd (c_ft (w_objs st' b))) = Some i \<and> i \<le> unat (m_seq st')"
      using d(3) [OF n(2)] by (simp add: f um_find_erase)
  next
    fix fd' i assume "um_find (m_fd_conns st') fd' = Some i"
    then have n: "fd' \<noteq> fd" "um_find (m_fd_conns st) fd' = Some i" by (auto simp: f um_find_erase split: if_splits)
    then obtain b where b: "um_find (m_conns st) i = Some b" "ft_fd (c_ft (w_objs st b)) = fd'" using d(4) by blast
    moreover have "i \<noteq> cid" using b n(1) Some by (auto simp: fd_def)
    ultimately show "\<exists>b. um_find (m_conns st') i = Some b \<and> ft_fd (c_ft (w_objs st' b)) = fd'"
      by (auto simp: f um_find_erase)
  next
    fix fd'
    show "count_list (w_closed st') fd' + (if um_find (m_fd_conns st') fd' = None then 0 else 1) = count_list (w_opened st') fd'"
      using d(5) [of fd'] hit(3) by (auto simp: f um_find_erase)
  qed
  then show ?thesis by (simp add: st'_def)
qed

lemma send_to_inv:
  assumes "\<forall>s. net_inv s \<longrightarrow> net_inv (e_yield env s)" "net_inv st" "send_to env co m st = Some (r, st')"
  shows "net_inv st'"
proof (cases co)
  case None
  then show ?thesis using assms by (simp add: send_to_def)
next
  case (Some a)
  show ?thesis
  proof (cases "is_invalid (w_objs st a)")
    case True
    then show ?thesis using assms Some by (simp add: send_to_def)
  next
    case False
    with assms(3) Some obtain status c where c: "conn_append_message (e_pb env) (e_heap env) (e_junk env) m (w_objs st a) = Some (status, c)"
      and r: "(if status \<noteq> OK then Some (ERR_ENCODE_DATA_FAILED, set_obj a c st)
               else send_loop env (w_sends (set_obj a c st)) a (set_obj a c st)) = Some (r, st')"
      by (auto simp: send_to_def Let_def split: bind_splits)
    have "net_inv (set_obj a c st)"
      by (rule net_inv_skel [OF _ assms(2)]) (simp add: set_obj_skel conn_append_ft [OF c])
    then show ?thesis using r send_loop_inv [OF assms(1)] by (auto split: if_splits)
  qed
qed

lemma net_step_inv: "net_inv st \<Longrightarrow> net_enabled env st x \<Longrightarrow> net_inv (net_step env st x)"
proof (cases x)
  case (NState ft s)
  assume "net_inv st"
  with NState show ?thesis
    by (auto simp: net_step_def update_conn_state_def split: option.splits intro: net_inv_skel [OF set_obj_skel [symmetric]])
next
  case (NClient nid ft)
  assume "net_inv st"
  with NClient net_inv_skel [of st] show ?thesis
    by (auto simp: net_step_def add_client_conn_def skel_def split: option.splits)
qed (auto simp: net_step_def net_enabled_def intro: create_conn_inv close_conn_inv send_to_inv split: option.splits)

interpretation nt: invariant_system "\<lambda>st. \<exists>cf ty clock ns. st = new_net cf ty clock ns" "net_step env" "net_enabled env" net_inv for env
  by unfold_locales (auto simp: net_inv_new net_step_inv)

section \<open>Delivery\<close>

definition wire_of :: "nat \<Rightarrow> net \<Rightarrow> bytes" where
  "wire_of a st = concat (map snd (filter (\<lambda>e. fst e = a) (w_wire st)))"

text \<open>Answers of a kernel whose socket is sometimes full but never broken, and what it takes in total.\<close>

fun total_room :: "(int + nat) list \<Rightarrow> nat" where
  "total_room [] = 0"
| "total_room (Inl e # ks) = total_room ks"
| "total_room (Inr n # ks) = n + total_room ks"

definition only_again :: "(int + nat) list \<Rightarrow> bool" where
  "only_again ks \<longleftrightarrow> (\<forall>e. Inl e \<in> set ks \<longrightarrow> e = EAGAIN)"

text \<open>Other coroutines leave the connection alone: its object, its table entries and its part of the wire.\<close>

definition leaves_alone :: "'z env_scheme \<Rightarrow> nat \<Rightarrow> bool" where
  "leaves_alone env a \<longleftrightarrow> (\<forall>st. w_objs (e_yield env st) a = w_objs st a \<and> m_conns (e_yield env st) = m_conns st \<and>
     m_fd_conns (e_yield env st) = m_fd_conns st \<and> wire_of a (e_yield env st) = wire_of a st)"

definition registered :: "nat \<Rightarrow> net \<Rightarrow> bool" where
  "registered a st \<longleftrightarrow> um_find (m_conns st) (ft_id (c_ft (w_objs st a))) = Some a \<and>
     um_find (m_fd_conns st) (ft_fd (c_ft (w_objs st a))) = Some (ft_id (c_ft (w_objs st a)))"

lemma registered_valid:
  "registered a st \<Longrightarrow> is_valid_conn (ft_id (c_ft (w_objs st a))) st \<longleftrightarrow> \<not> is_invalid (w_objs st a)"
  by (simp add: registered_def is_valid_conn_def Let_def)

lemma conn_write_fd_frame:
  assumes "conn_write_fd h sent t c = (st, c')"
  shows "c_state c' = c_state c" "c_ft c' = c_ft c" "c_codec c' = c_codec c"
  using assms by (auto simp: conn_write_fd_def Let_def split_beta split: option.splits if_splits)

lemma conn_write_cnt:
  assumes "\<not> is_invalid c" "c_send_buf c = Some b" "buf_room n b" "is_readable b"
  shows "c_write_cnt (snd (conn_write_fd h (Inr k) t c)) = c_write_cnt c + 1"
    "c_write_cnt (snd (conn_write_fd h (Inl e) t c)) = c_write_cnt c"
proof -
  have "i32 (int (readable_len b)) \<noteq> 0"
    using assms(4) buf_roomD(5) [OF assms(3)] by (auto simp: readable_len_def is_readable_def INT_MAX_def)
  then show "c_write_cnt (snd (conn_write_fd h (Inr k) t c)) = c_write_cnt c + 1"
    "c_write_cnt (snd (conn_write_fd h (Inl e) t c)) = c_write_cnt c"
    using assms(1,2,4) by (simp_all add: conn_write_fd_def write_fd_def Let_def)
qed

text \<open>One round of the loop: the wire and the buffer together hold the same bytes as before.\<close>

lemma conn_write_data_spec:
  assumes "\<not> is_invalid (w_objs st a)" "c_send_buf (w_objs st a) = Some b" "buf_room n b" "is_readable b"
  shows "\<exists>status st'. conn_write_data env (Inr k) a st = (status, st') \<and> m_conns st' = m_conns st \<and> m_fd_conns st' = m_fd_conns st \<and>
     c_ft (w_objs st' a) = c_ft (w_objs st a) \<and> c_state (w_objs st' a) = c_state (w_objs st a) \<and>
     (\<exists>b'. c_send_buf (w_objs st' a) = Some b' \<and> buf_room n b' \<and> readable b' = drop k (readable b)) \<and>
     wire_of a st' = wire_of a st @ take k (readable b) \<and>
     status = (if length (readable b) \<le> k then OK else PAUSE)"
    "\<exists>st'. conn_write_data env (Inl EAGAIN) a st = (PAUSE, st') \<and> m_conns st' = m_conns st \<and> m_fd_conns st' = m_fd_conns st \<and>
     c_ft (w_objs st' a) = c_ft (w_objs st a) \<and> c_state (w_objs st' a) = c_state (w_objs st a) \<and>
     c_send_buf (w_objs st' a) = Some b \<and> wire_of a st' = wire_of a st"
proof -
  define c where "c = w_objs st a"
  obtain t stn where n: "net_now False st = (t, stn)" by force
  then have sn: "w_wire stn = w_wire st" "m_conns stn = m_conns st" "m_fd_conns stn = m_fd_conns st" "w_objs stn = w_objs st"
    by (auto simp: net_now_def Let_def split: if_splits)
  have o: "out_bytes c = readable b" using assms(2) by (simp add: out_bytes_def c_def)
  define k' where "k' = min k (length (readable b))"
  have ke: "kernel_takes (Inr k) c = Inr k'" by (simp add: kernel_takes_def o k'_def)
  note w = conn_write_spec [OF assms, of "e_heap env" t, folded c_def]
  from w [THEN conjunct1, rule_format, of k'] obtain st1 c1 b1 where
    c1: "conn_write_fd (e_heap env) (Inr k') t c = (st1, c1)" "c_send_buf c1 = Some b1" "buf_room n b1"
      "readable b1 = drop k' (readable b)" "st1 = (if k' = length (readable b) then OK else PAUSE)" by (auto simp: k'_def)
  note cnt = conn_write_cnt [OF assms, folded c_def, of "e_heap env"]
  have "drop k' (readable b) = drop k (readable b)" "take k' (readable b) = take k (readable b)" by (simp_all add: k'_def min_def)
  with c1 cnt(1) [of k' t] conn_write_fd_frame [OF c1(1)]
  show "\<exists>status st'. conn_write_data env (Inr k) a st = (status, st') \<and> m_conns st' = m_conns st \<and> m_fd_conns st' = m_fd_conns st \<and>
     c_ft (w_objs st' a) = c_ft (w_objs st a) \<and> c_state (w_objs st' a) = c_state (w_objs st a) \<and>
     (\<exists>b'. c_send_buf (w_objs st' a) = Some b' \<and> buf_room n b' \<and> readable b' = drop k (readable b)) \<and>
     wire_of a st' = wire_of a st @ take k (readable b) \<and>
     status = (if length (readable b) \<le> k then OK else PAUSE)"
    unfolding conn_write_data_def Let_def n c_def [symmetric] ke
    by (auto simp: set_obj_def wire_of_def sn o k'_def c_def [symmetric])
  have e: "conn_write_fd (e_heap env) (Inl EAGAIN) t c = (PAUSE, c\<lparr>c_errno := EAGAIN\<rparr>)" using w by simp
  have "kernel_takes (Inl EAGAIN) c = Inl EAGAIN" by (simp add: kernel_takes_def)
  with e assms(2)
  show "\<exists>st'. conn_write_data env (Inl EAGAIN) a st = (PAUSE, st') \<and> m_conns st' = m_conns st \<and> m_fd_conns st' = m_fd_conns st \<and>
     c_ft (w_objs st' a) = c_ft (w_objs st a) \<and> c_state (w_objs st' a) = c_state (w_objs st a) \<and>
     c_send_buf (w_objs st' a) = Some b \<and> wire_of a st' = wire_of a st"
    unfolding conn_write_data_def Let_def n c_def [symmetric]
    by (simp add: set_obj_def wire_of_def c_def [symmetric])
qed

lemma send_loop_delivers:
  assumes y: "leaves_alone env a"
  shows "registered a st \<Longrightarrow> \<not> is_invalid (w_objs st a) \<Longrightarrow> c_send_buf (w_objs st a) = Some b \<Longrightarrow> buf_room n b \<Longrightarrow>
    is_readable b \<Longrightarrow> only_again ks \<Longrightarrow> length (readable b) \<le> total_room ks \<Longrightarrow>
    \<exists>st'. send_loop env ks a st = Some (ERR_OK, st') \<and> wire_of a st' = wire_of a st @ readable b \<and> out_bytes (w_objs st' a) = []"
proof (induction ks arbitrary: st b)
  case Nil
  then show ?case using readable_length [OF buf_roomD(1) [OF Nil(4)]] by (simp add: readable_len_def is_readable_def)
next
  case (Cons k ks)
  have v: "is_valid_conn (ft_id (c_ft (w_objs st a))) st" "has_output (w_objs st a)"
    using Cons.prems registered_valid by (auto simp: has_output_def)
  have again: "only_again ks" using Cons.prems(6) by (auto simp: only_again_def)
  show ?case
  proof (cases k)
    case (Inl e)
    with Cons.prems(6) have k: "k = Inl EAGAIN" by (auto simp: only_again_def)
    obtain st1 where s: "conn_write_data env k a st = (PAUSE, st1)" "m_conns st1 = m_conns st" "m_fd_conns st1 = m_fd_conns st"
      "c_ft (w_objs st1 a) = c_ft (w_objs st a)" "c_state (w_objs st1 a) = c_state (w_objs st a)"
      "c_send_buf (w_objs st1 a) = Some b" "wire_of a st1 = wire_of a st"
      using conn_write_data_spec(2) [OF Cons.prems(2-5), of env] k by blast
    have "\<exists>st'. send_loop env ks a (e_yield env st1) = Some (ERR_OK, st') \<and>
       wire_of a st' = wire_of a (e_yield env st1) @ readable b \<and> out_bytes (w_objs st' a) = []"
      using Cons.prems s again k y by (intro Cons.IH) (auto simp: leaves_alone_def registered_def is_invalid_def)
    then show ?thesis using s(1,7) v y by (subst send_loop.simps) (auto simp: leaves_alone_def)
  next
    case (Inr r)
    obtain status st1 b1 where s: "conn_write_data env k a st = (status, st1)" "m_conns st1 = m_conns st" "m_fd_conns st1 = m_fd_conns st"
      "c_ft (w_objs st1 a) = c_ft (w_objs st a)" "c_state (w_objs st1 a) = c_state (w_objs st a)"
      "c_send_buf (w_objs st1 a) = Some b1" "buf_room n b1" "readable b1 = drop r (readable b)"
      "wire_of a st1 = wire_of a st @ take r (readable b)" "status = (if length (readable b) \<le> r then OK else PAUSE)"
      using conn_write_data_spec(1) [OF Cons.prems(2-5), of env r] Inr by blast
    show ?thesis
    proof (cases "length (readable b) \<le> r")
      case True
      then show ?thesis using s v by (subst send_loop.simps) (simp add: out_bytes_def wire_of_def)
    next
      case False
      have rb1: "is_readable b1" using False s(8) readable_length [OF buf_roomD(1) [OF s(7)]]
        by (auto simp: readable_len_def is_readable_def split: if_splits)
      have "\<exists>st'. send_loop env ks a (e_yield env st1) = Some (ERR_OK, st') \<and>
         wire_of a st' = wire_of a (e_yield env st1) @ readable b1 \<and> out_bytes (w_objs st' a) = []"
        using Cons.prems s again y rb1 Inr by (intro Cons.IH) (auto simp: leaves_alone_def registered_def is_invalid_def)
      then show ?thesis using s v y False by (subst send_loop.simps) (auto simp: leaves_alone_def)
    qed
  qed
qed

lemma send_to_spec:
  assumes p: "proto_wire (e_pb env)" and y: "leaves_alone env a" and mem: "\<forall>n. \<not> fst (e_heap env) n"
    and reg: "registered a st" and c: "\<not> is_invalid (w_objs st a)" "c_codec (w_objs st a) = Some PROTOBUF"
    and m: "sendable (e_pb env) m" and room: "buf_room (length (frame (e_pb env) m)) (check_new (c_send_buf (w_objs st a)))"
    and ks: "only_again (w_sends st)" "length (out_bytes (w_objs st a)) + length (frame (e_pb env) m) \<le> total_room (w_sends st)"
  shows "\<exists>st'. send_to env (Some a) m st = Some (ERR_OK, st') \<and>
    wire_of a st' = wire_of a st @ out_bytes (w_objs st a) @ frame (e_pb env) m \<and> out_bytes (w_objs st' a) = []"
proof -
  have "buf_room (length (frame (e_pb env) m) + 0) (check_new (c_send_buf (w_objs st a)))" using room by simp

  from conn_append_room [OF p c this m mem, of "e_junk env"] obtain b where
    b: "conn_append_message (e_pb env) (e_heap env) (e_junk env) m (w_objs st a) = Some (OK, (w_objs st a)\<lparr>c_send_buf := Some b\<rparr>)"
      "buf_room 0 b" "readable b = out_bytes (w_objs st a) @ frame (e_pb env) m" by blast
  define st1 where "st1 = set_obj a ((w_objs st a)\<lparr>c_send_buf := Some b\<rparr>) st"
  have s1: "w_objs st1 a = (w_objs st a)\<lparr>c_send_buf := Some b\<rparr>" "wire_of a st1 = wire_of a st" "w_sends st1 = w_sends st"
    "m_conns st1 = m_conns st" "m_fd_conns st1 = m_fd_conns st" by (simp_all add: st1_def set_obj_def wire_of_def)
  have "readable_len b \<noteq> 0"
    using b(3) frame_nonempty [OF p m] readable_length [OF buf_roomD(1) [OF b(2)]] by (cases "frame (e_pb env) m") auto
  then have "is_readable b" by (auto simp: readable_len_def split: if_splits)
  with send_loop_delivers [OF y, of st1 b 0 "w_sends st"] reg c(1) b(2,3) ks s1 obtain st' where
    "send_loop env (w_sends st1) a st1 = Some (ERR_OK, st')" "wire_of a st' = wire_of a st @ readable b" "out_bytes (w_objs st' a) = []"
    by (auto simp: registered_def is_invalid_def)
  then show ?thesis using c(1) b(1,3) by (simp add: send_to_def st1_def [symmetric])
qed

section \<open>What sending leaves alone\<close>

definition recv_side where
  "recv_side c = (c_ft c, c_node_id c, c_recv_buf c, c_codec c, c_state c)"

definition rest_of where
  "rest_of st = (m_config st, m_net_type st, m_worker_index st, m_worker_data_mgr st, m_node_table st, m_node_conns st,
     m_conns st, m_fd_conns st, m_manager_fctrl st, w_sendmsgs st, w_transfers st, \<lambda>a. recv_side (w_objs st a))"

lemma conn_write_data_rest: "rest_of (snd (conn_write_data env k a st)) = rest_of st"
proof -
  obtain t stn where n: "net_now False st = (t, stn)" by force
  then have "rest_of stn = rest_of st" "w_objs stn = w_objs st" by (auto simp: net_now_def rest_of_def Let_def split: if_splits)
  moreover have "recv_side (snd (conn_write_fd h s t c)) = recv_side c" for h s t c
    by (simp add: recv_side_def conn_write_fd_def Let_def split_beta split: option.splits)
  ultimately show ?thesis
    by (auto simp: conn_write_data_def Let_def n split_beta set_obj_def rest_of_def fun_eq_iff)
qed

lemma send_loop_rest:
  assumes y: "\<forall>s. rest_of (e_yield env s) = rest_of s"
  shows "send_loop env ks a st = Some (r, st') \<Longrightarrow> rest_of st' = rest_of st"
proof (induction ks arbitrary: st)
  case Nil
  then show ?case
    using conn_write_data_rest [of env "Inl 0" a st] by (subst (asm) send_loop.simps) (auto simp: rest_of_def split: if_splits)
next
  case (Cons k ks)
  have u: "rest_of (s\<lparr>w_sends := x\<rparr>) = rest_of s" for s x by (simp add: rest_of_def)
  from Cons.prems show ?case
    using Cons.IH [of "e_yield env (snd (conn_write_data env k a st))"] y
    by (subst (asm) send_loop.simps) (auto simp: u conn_write_data_rest split_beta Let_def split: if_splits)
qed

lemma send_to_rest:
  assumes "\<forall>s. rest_of (e_yield env s) = rest_of s" "send_to env co m st = Some (r, st')"
  shows "rest_of st' = rest_of st"
proof (cases "co = None \<or> is_invalid (w_objs st (the co))")
  case True
  then show ?thesis using assms(2) by (cases co) (auto simp: send_to_def)
next
  case False
  then obtain a where a: "co = Some a" "\<not> is_invalid (w_objs st a)" by auto
  with assms(2) obtain status c where c: "conn_append_message (e_pb env) (e_heap env) (e_junk env) m (w_objs st a) = Some (status, c)"
    and r: "(if status \<noteq> OK then Some (ERR_ENCODE_DATA_FAILED, set_obj a c st)
             else send_loop env (w_sends (set_obj a c st)) a (set_obj a c st)) = Some (r, st')"
    by (auto simp: send_to_def Let_def split: bind_splits)
  have "recv_side c = recv_side (w_objs st a)" using c by (auto simp: recv_side_def conn_append_message_def split: if_splits)
  then have "rest_of (set_obj a c st) = rest_of st" by (auto simp: rest_of_def set_obj_def fun_eq_iff)
  then show ?thesis using r send_loop_rest [OF assms(1)] by (auto split: if_splits)
qed

section \<open>Properties\<close>

text \<open>
  C13. The connection tables stay consistent under any sequence of creating, closing, renaming and
  sending, with other coroutines running in between: a connection is valid exactly when it is in the
  table with a usable state, the two tables describe the same connections, and every descriptor the
  network took over has been closed exactly as often as it was taken, except while it is open: none
  leaks and none is closed twice.
\<close>

theorem conn_tables_consistent:
  assumes "enabled_run (net_step env) (net_enabled env) (new_net cf ty clock ns) xs"
    and "st = foldl (net_step env) (new_net cf ty clock ns) xs"
  shows "(\<forall>cid. is_valid_conn cid st \<longleftrightarrow> (\<exists>a. um_find (m_conns st) cid = Some a \<and> \<not> is_invalid (w_objs st a))) \<and>
    (\<forall>fd cid. um_find (m_fd_conns st) fd = Some cid \<longleftrightarrow> (\<exists>a. get_conn \<lparr>ft_fd = fd, ft_id = cid\<rparr> st = Some a)) \<and>
    (\<forall>fd. count_list (w_opened st) fd = count_list (w_closed st) fd + (if um_find (m_fd_conns st) fd = None then 0 else 1))"
proof -
  have "net_inv st" unfolding assms(2) by (rule nt.run_ok [OF _ assms(1)]) blast
  note d = net_invD [OF this]
  have "is_valid_conn cid st \<longleftrightarrow> (\<exists>a. um_find (m_conns st) cid = Some a \<and> \<not> is_invalid (w_objs st a))" for cid
    using d(3) [of cid] by (auto simp: is_valid_conn_def Let_def split: option.splits)
  moreover have "um_find (m_fd_conns st) fd = Some cid \<longleftrightarrow> (\<exists>a. get_conn \<lparr>ft_fd = fd, ft_id = cid\<rparr> st = Some a)" for fd cid
    using d(3) [of cid] d(4) [of fd cid] by (auto simp: get_conn_def split: option.splits if_splits)
  ultimately show ?thesis using d(5) by auto
qed

definition test_conf :: sys_config where
  "test_conf = \<lparr>cf_str = (\<lambda>k. if k = ''gate_port'' then ''3344'' else if k = ''node_host'' then ''127.0.0.1''
       else if k = ''node_type'' then ''gate'' else []), cf_reuseport = None, cf_zk_is_open = None\<rparr>"

definition test_env :: env where
  "test_env = \<lparr>e_pb = proto3, e_heap = (\<lambda>_. False, \<lambda>_. 0), e_junk = (\<lambda>_. 0), e_yield = (\<lambda>s. s)\<rparr>"

definition test_ops :: "net_op list" where
  "test_ops = [NCreate (True, True, True) 5 PROTOBUF False, NClose 1, NCreate (True, True, True) 5 PROTOBUF False,
     NCreate (True, True, True) 6 PROTOBUF True, NSend None ping]"

lemmas test_net_defs = test_ops_def new_net_def net_step_def create_conn_def create_conn_fd_def new_seq_def net_now_def
  new_connection_def conn_init_def set_codec_def set_obj_def close_conn_def close_fd_def send_to_def um_put_def um_find_def um_erase_def

theorem conn_tables_consistent_witness:
  "let st = foldl (net_step test_env) (new_net test_conf NET_WORKER 1000 (new_nodes 4 FNV1A_64)) test_ops
   in is_valid_conn 2 st \<and> \<not> is_valid_conn 1 st \<and> count_list (w_opened st) 5 = 2 \<and> count_list (w_closed st) 5 = 1"
proof -
  define st where "st = foldl (net_step test_env) (new_net test_conf NET_WORKER 1000 (new_nodes 4 FNV1A_64)) test_ops"
  have "enabled_run (net_step test_env) (net_enabled test_env) (new_net test_conf NET_WORKER 1000 (new_nodes 4 FNV1A_64)) test_ops"
    by (simp add: test_net_defs net_enabled_def test_env_def Let_def)
  note t = conn_tables_consistent [OF this st_def]
  have s: "m_conns st = [(2, 1), (3, 2)]" "m_fd_conns st = [(5, 2), (6, 3)]" "w_opened st = [6, 5, 5]"
    "\<not> is_invalid (w_objs st 1)"
    by (simp_all add: st_def test_net_defs Let_def is_invalid_def type_num_def)
  have "is_valid_conn 2 st" "\<not> is_valid_conn 1 st" using t s by (auto simp: um_find_def)
  moreover from t have "count_list (w_opened st) 5 = count_list (w_closed st) 5 + (if um_find (m_fd_conns st) 5 = None then 0 else 1)" by blast
  ultimately show ?thesis using s by (simp add: st_def [symmetric] um_find_def Let_def)
qed

text \<open>
  C8. Delivery: \<^verbatim>\<open>send_to\<close> on a registered connection returns \<^verbatim>\<open>ERR_OK\<close> as soon as the kernel has taken
  enough bytes, however often it answers EAGAIN and however it splits the data, and what has then gone
  over the wire is the output that was waiting followed by the complete frame of the message.
\<close>

theorem send_to_delivers:
  assumes "proto_wire (e_pb env)" "leaves_alone env a" "\<forall>n. \<not> fst (e_heap env) n"
    and "registered a st" "\<not> is_invalid (w_objs st a)" "c_codec (w_objs st a) = Some PROTOBUF"
    and "sendable (e_pb env) m" "buf_room (length (frame (e_pb env) m)) (check_new (c_send_buf (w_objs st a)))"
    and "only_again (w_sends st)" "length (out_bytes (w_objs st a)) + length (frame (e_pb env) m) \<le> total_room (w_sends st)"
  shows "\<exists>st'. send_to env (Some a) m st = Some (ERR_OK, st') \<and>
    wire_of a st' = wire_of a st @ out_bytes (w_objs st a) @ frame (e_pb env) m \<and> out_bytes (w_objs st' a) = []"
  by (rule send_to_spec [OF assms])

definition one_conn :: net where
  "one_conn = (snd (create_conn (True, True, True) 5 PROTOBUF False (new_net test_conf NET_WORKER 1000 (new_nodes 4 FNV1A_64))))
     \<lparr>w_sends := [Inr 10, Inl EAGAIN, Inr 100]\<rparr>"

lemma one_conn_facts:
  "w_objs one_conn 0 = (new_connection 5 1 1000)\<lparr>c_codec := Some PROTOBUF, c_codec_type := PROTOBUF, c_state := ST_CONNECTED, c_keep_alive := 15000\<rparr>"
  "m_conns one_conn = [(1, 0)]" "m_fd_conns one_conn = [(5, 1)]" "w_sends one_conn = [Inr 10, Inl EAGAIN, Inr 100]" "w_wire one_conn = []"
  "m_node_conns one_conn = []" "m_worker_data_mgr one_conn = new_worker_data"
  by (simp_all add: one_conn_def test_net_defs Let_def type_num_def IO_TIMEOUT_VAL_def)

lemma test_env_facts:
  "e_pb test_env = proto3" "\<not> fst (e_heap test_env) n" "e_yield test_env s = s" "leaves_alone test_env a"
  by (simp_all add: test_env_def leaves_alone_def)

theorem send_to_delivers_witness:
  "\<exists>st'. send_to test_env (Some 0) ping one_conn = Some (ERR_OK, st') \<and>
    wire_of 0 st' = wire_of 0 one_conn @ out_bytes (w_objs one_conn 0) @ frame (e_pb test_env) ping \<and> out_bytes (w_objs st' 0) = []"
  by (rule send_to_delivers)
    (simp_all add: test_env_facts one_conn_facts pw.proto_wire_axioms registered_def um_find_def new_connection_def is_invalid_def
      ping_sendable ping_frame_length check_new_def buf_room_new INT_MAX_def only_again_def out_bytes_def)

text \<open>
  \<^verbatim>\<open>close_conn\<close> forgets the entry that \<^verbatim>\<open>add_client_conn\<close> made: it erases under the node id of the
  connection, which is only set for outgoing connections, so after a client node's connection is closed
  \<^verbatim>\<open>m_node_conns\<close> still holds the closed object.
\<close>

theorem client_entry_outlives_connection:
  assumes "get_conn ft st = Some a" "c_node_id (w_objs st a) = []"
    and "st' = snd (close_conn (ft_id ft) (snd (add_client_conn nid ft st)))"
  shows "um_find (m_node_conns st') nid = Some a \<and> is_invalid (w_objs st' a) \<and> get_conn ft st' = None"
  using assms
  by (auto simp: add_client_conn_def get_conn_def close_conn_def Let_def set_obj_def close_fd_def is_invalid_def
      um_find_put um_find_erase split: option.splits if_splits)

theorem client_entry_outlives_connection_witness:
  "let st' = snd (close_conn 1 (snd (add_client_conn ''n'' \<lparr>ft_fd = 5, ft_id = 1\<rparr> one_conn)))
   in um_find (m_node_conns st') ''n'' = Some 0 \<and> is_invalid (w_objs st' 0)"
  using client_entry_outlives_connection [of "\<lparr>ft_fd = 5, ft_id = 1\<rparr>" one_conn 0 _ "''n''"]
  by (simp add: one_conn_facts get_conn_def um_find_def new_connection_def Let_def)

end
