(* ===== verification/Timers.thy ===== *)
theory Timers
  imports Prelude
begin

text \<open>
  The timer queue (\<^verbatim>\<open>src/src/core/timers.h\<close>, \<^verbatim>\<open>timers.cpp\<close>) and the periodic driver
  (\<^verbatim>\<open>timer.h\<close>). Timers are kept in a map ordered by due time and id, and a second map takes ids to
  positions. The readings of the clock are arguments. Callbacks are values of a type \<open>'c\<close> that a
  function argument interprets as a change of the state; the state record is extensible so that a
  component that owns a timer queue can put its own state behind it and let callbacks reach it. The
  counter of timer ids is a mathematical integer: the statements hold below the 2147483648th timer.
\<close>

section \<open>Data\<close>

type_synonym timer_gid = "nat \<times> int"

record ('c, 'd) timer =
  tm_id :: int
  tm_after_time :: nat
  tm_repeat_time :: nat
  tm_privdata :: 'd
  tm_callback :: "'c option"

record ('c, 'd) timers =
  m_last_timer_id :: int
  m_timers :: "(timer_gid, ('c, 'd) timer) omap"
  m_ids :: "(int, timer_gid) umap"
  m_hz :: int
  m_cronloops :: int

definition U64 :: nat where
  "U64 = 18446744073709551616"

definition DEFAULT_TIMER_RATE :: int where
  "DEFAULT_TIMER_RATE = 10"

definition new_timers :: "('c, 'd) timers" where
  "new_timers = \<lparr>m_last_timer_id = 0, m_timers = [], m_ids = [], m_hz = DEFAULT_TIMER_RATE, m_cronloops = 1\<rparr>"

section \<open>Operations\<close>

definition add_timer :: "nat \<Rightarrow> 'c option \<Rightarrow> nat \<Rightarrow> nat \<Rightarrow> 'd \<Rightarrow> ('c, 'd, 's) timers_scheme
    \<Rightarrow> int \<times> ('c, 'd, 's) timers_scheme" where
  "add_timer t fn after repeat privdata st =
     (let i = m_last_timer_id st + 1;
          gid = ((t + after) mod U64, i);
          timer = \<lparr>tm_id = i, tm_after_time = after, tm_repeat_time = repeat, tm_privdata = privdata, tm_callback = fn\<rparr>
      in (i, st\<lparr>m_last_timer_id := i, m_timers := om_put gid timer (m_timers st), m_ids := um_put i gid (m_ids st)\<rparr>))"

definition del_timer :: "int \<Rightarrow> ('c, 'd, 's) timers_scheme \<Rightarrow> bool \<times> ('c, 'd, 's) timers_scheme" where
  "del_timer i st =
     (case um_find (m_ids st) i of
        None \<Rightarrow> (False, st)
      | Some gid \<Rightarrow> (True, st\<lparr>m_timers := om_erase gid (m_timers st), m_ids := um_erase i (m_ids st)\<rparr>))"

text \<open>
  The body of the loop of \<^verbatim>\<open>on_repeat_timer\<close> for the first timer of the map. A one-shot timer's id is
  looked up in \<^verbatim>\<open>m_ids\<close> under \<^verbatim>\<open>gid.first\<close>, the due time converted to \<^verbatim>\<open>int\<close>.
\<close>

definition fire_timer :: "('c \<Rightarrow> int \<Rightarrow> bool \<Rightarrow> 'd \<Rightarrow> ('c, 'd, 's) timers_scheme \<Rightarrow> ('c, 'd, 's) timers_scheme)
    \<Rightarrow> nat \<Rightarrow> timer_gid \<Rightarrow> ('c, 'd) timer \<Rightarrow> ('c, 'd, 's) timers_scheme \<Rightarrow> ('c, 'd, 's) timers_scheme" where
  "fire_timer cb t gid timer st =
     (let st1 = st\<lparr>m_timers := om_erase gid (m_timers st)\<rparr>;
          st2 = (case tm_callback timer of
                   None \<Rightarrow> st1
                 | Some c \<Rightarrow> cb c (tm_id timer) (tm_repeat_time timer \<noteq> 0) (tm_privdata timer) st1)
      in if tm_repeat_time timer \<noteq> 0
         then let new_gid = ((t + tm_repeat_time timer) mod U64, snd gid)
              in st2\<lparr>m_timers := om_put new_gid timer (m_timers st2), m_ids := um_put (snd gid) new_gid (m_ids st2)\<rparr>
         else st2\<lparr>m_ids := um_erase (i32 (int (fst gid))) (m_ids st2)\<rparr>)"

text \<open>The loop; the first result lists the timers whose callbacks ran, \<open>clk k\<close> is the clock in round \<open>k\<close>.\<close>

partial_function (option) timers_loop :: "('c \<Rightarrow> int \<Rightarrow> bool \<Rightarrow> 'd \<Rightarrow> ('c, 'd, 's) timers_scheme \<Rightarrow> ('c, 'd, 's) timers_scheme)
    \<Rightarrow> nat \<Rightarrow> (nat \<Rightarrow> nat) \<Rightarrow> nat \<Rightarrow> ('c, 'd, 's) timers_scheme \<Rightarrow> (timer_gid list \<times> ('c, 'd, 's) timers_scheme) option" where
  "timers_loop cb now clk k st =
     (case om_begin (m_timers st) of
        None \<Rightarrow> Some ([], st)
      | Some (gid, timer) \<Rightarrow>
          if fst gid < now
          then do {
            (fired, st') \<leftarrow> timers_loop cb now clk (Suc k) (fire_timer cb (clk k) gid timer st);
            Some (gid # fired, st')
          }
          else Some ([], st))"

definition on_repeat_timer :: "('c \<Rightarrow> int \<Rightarrow> bool \<Rightarrow> 'd \<Rightarrow> ('c, 'd, 's) timers_scheme \<Rightarrow> ('c, 'd, 's) timers_scheme)
    \<Rightarrow> nat \<Rightarrow> (nat \<Rightarrow> nat) \<Rightarrow> ('c, 'd, 's) timers_scheme \<Rightarrow> (timer_gid list \<times> ('c, 'd, 's) timers_scheme) option" where
  "on_repeat_timer cb now clk st = timers_loop cb now clk 0 st"

text \<open>\<^verbatim>\<open>TimerCron::on_timer\<close>, and the guard of the macro \<^verbatim>\<open>run_with_period\<close>.\<close>

definition on_timer :: "('c \<Rightarrow> int \<Rightarrow> bool \<Rightarrow> 'd \<Rightarrow> ('c, 'd, 's) timers_scheme \<Rightarrow> ('c, 'd, 's) timers_scheme)
    \<Rightarrow> nat \<Rightarrow> (nat \<Rightarrow> nat) \<Rightarrow> ('c, 'd, 's) timers_scheme \<Rightarrow> (timer_gid list \<times> ('c, 'd, 's) timers_scheme) option" where
  "on_timer cb now clk st = do {
     (fired, st') \<leftarrow> on_repeat_timer cb now clk st;
     Some (fired, st'\<lparr>m_cronloops := m_cronloops st' + 1\<rparr>)
   }"

definition run_with_period :: "int \<Rightarrow> int \<Rightarrow> int \<Rightarrow> bool" where
  "run_with_period ms hz cronloops \<longleftrightarrow> ms \<le> 1000 div hz \<or> cronloops mod (ms div (1000 div hz)) = 0"

section \<open>Invariant\<close>

text \<open>Timers sit under their own id, ids are below the counter and no id occurs twice.\<close>

definition timers_ok :: "('c, 'd, 's) timers_scheme \<Rightarrow> bool" where
  "timers_ok st \<longleftrightarrow> om_ok (m_timers st) \<and> um_ok (m_ids st) \<and> 0 \<le> m_last_timer_id st \<and>
     (\<forall>g t. om_find (m_timers st) g = Some t \<longrightarrow> tm_id t = snd g \<and> snd g \<le> m_last_timer_id st) \<and>
     (\<forall>g g'. om_find (m_timers st) g \<noteq> None \<and> om_find (m_timers st) g' \<noteq> None \<and> snd g = snd g' \<longrightarrow> g = g') \<and>
     (\<forall>i g. um_find (m_ids st) i = Some g \<longrightarrow> snd g = i \<and> i \<le> m_last_timer_id st)"

text \<open>Every queued timer can be cancelled: its id leads to its position.\<close>

definition linked :: "('c, 'd, 's) timers_scheme \<Rightarrow> bool" where
  "linked st \<longleftrightarrow> (\<forall>g. om_find (m_timers st) g \<noteq> None \<longrightarrow> um_find (m_ids st) (snd g) = Some g)"

text \<open>
  What a callback may do to the queue, in any order and number: add timers at the current time, cancel
  timers, and change the owner's state.
\<close>

inductive timer_calls :: "nat \<Rightarrow> ('c, 'd, 's) timers_scheme \<Rightarrow> ('c, 'd, 's) timers_scheme \<Rightarrow> bool"
  for now :: nat and st :: "('c, 'd, 's) timers_scheme" where
  calls_none: "timer_calls now st st"
| calls_add: "timer_calls now st st1 \<Longrightarrow> now \<le> t \<Longrightarrow> t + after < U64 \<Longrightarrow>
    timer_calls now st (snd (add_timer t fn after repeat privdata st1))"
| calls_del: "timer_calls now st st1 \<Longrightarrow> timer_calls now st (snd (del_timer i st1))"
| calls_owner: "timer_calls now st st1 \<Longrightarrow> timer_calls now st (timers.more_update f st1)"

section \<open>Lemmas\<close>

lemma timers_okD:
  assumes "timers_ok st"
  shows "om_ok (m_timers st)" "um_ok (m_ids st)" "0 \<le> m_last_timer_id st"
    "om_find (m_timers st) g = Some t \<Longrightarrow> tm_id t = snd g \<and> snd g \<le> m_last_timer_id st"
    "om_find (m_timers st) g \<noteq> None \<Longrightarrow> om_find (m_timers st) g' \<noteq> None \<Longrightarrow> snd g = snd g' \<Longrightarrow> g = g'"
    "um_find (m_ids st) i = Some g \<Longrightarrow> snd g = i \<and> i \<le> m_last_timer_id st"
  using assms unfolding timers_ok_def by blast+

lemma timers_okI:
  assumes "om_ok (m_timers st)" "um_ok (m_ids st)" "0 \<le> m_last_timer_id st"
    "\<And>g t. om_find (m_timers st) g = Some t \<Longrightarrow> tm_id t = snd g \<and> snd g \<le> m_last_timer_id st"
    "\<And>g g'. om_find (m_timers st) g \<noteq> None \<Longrightarrow> om_find (m_timers st) g' \<noteq> None \<Longrightarrow> snd g = snd g' \<Longrightarrow> g = g'"
    "\<And>i g. um_find (m_ids st) i = Some g \<Longrightarrow> snd g = i \<and> i \<le> m_last_timer_id st"
  shows "timers_ok st"
  using assms unfolding timers_ok_def by blast

lemma timers_ok_new [simp, ok_intros]: "timers_ok new_timers" "linked new_timers"
  by (simp_all add: timers_ok_def linked_def new_timers_def om_ok_def um_ok_def om_find_def um_find_def)

lemma add_timer_find:
  assumes "timers_ok st"
  shows "om_find (m_timers (snd (add_timer t fn after repeat privdata st))) g =
     (if g = ((t + after) mod U64, m_last_timer_id st + 1)
      then Some \<lparr>tm_id = m_last_timer_id st + 1, tm_after_time = after, tm_repeat_time = repeat,
                 tm_privdata = privdata, tm_callback = fn\<rparr>
      else om_find (m_timers st) g)"
  using om.find_put [OF timers_okD(1) [OF assms]] by (simp add: add_timer_def Let_def)

lemma queued_id: "timers_ok st \<Longrightarrow> om_find (m_timers st) g \<noteq> None \<Longrightarrow> snd g \<le> m_last_timer_id st"
  using timers_okD(4) by blast

lemma put_timer_ok:
  assumes ok: "timers_ok st" and i: "tm_id timer = i" "i \<le> l" "m_last_timer_id st \<le> l"
    and free: "\<And>g. om_find (m_timers st) g \<noteq> None \<Longrightarrow> snd g \<noteq> i"
  shows "timers_ok (st\<lparr>m_last_timer_id := l, m_timers := om_put (due, i) timer (m_timers st),
                      m_ids := um_put i (due, i) (m_ids st)\<rparr>)"
proof (rule timers_okI, goal_cases)
  case 1 show ?case using om.ok_put [OF timers_okD(1) [OF ok]] by simp
next
  case 2 show ?case using um.ok_put [OF timers_okD(2) [OF ok]] by simp
next
  case 3 show ?case using timers_okD(3) [OF ok] i by simp
next
  case (4 g t)
  then show ?case
    using om.find_put [OF timers_okD(1) [OF ok]] timers_okD(4) [OF ok, of g t] i by (auto split: if_splits)
next
  case (5 g g')
  then show ?case
    using om.find_put [OF timers_okD(1) [OF ok]] timers_okD(5) [OF ok, of g g'] free [of g] free [of g'] i
    by (auto split: if_splits)
next
  case (6 j g)
  then show ?case
    using um.find_put [OF timers_okD(2) [OF ok]] timers_okD(6) [OF ok, of j g] i by (auto split: if_splits)
qed

lemma add_timer_ok [ok_intros]:
  assumes "timers_ok st"
  shows "timers_ok (snd (add_timer t fn after repeat privdata st))"
proof -
  have "snd g \<noteq> m_last_timer_id st + 1" if "om_find (m_timers st) g \<noteq> None" for g
    using queued_id [OF assms that] by simp
  then show ?thesis
    using put_timer_ok [OF assms, of _ "m_last_timer_id st + 1" "m_last_timer_id st + 1"]
    by (simp add: add_timer_def Let_def)
qed

lemma erase_timer_ok:
  assumes ok: "timers_ok st"
  shows "timers_ok (st\<lparr>m_timers := om_erase g (m_timers st), m_ids := um_erase i (m_ids st)\<rparr>)"
    "timers_ok (st\<lparr>m_timers := om_erase g (m_timers st)\<rparr>)"
    "timers_ok (st\<lparr>m_ids := um_erase i (m_ids st)\<rparr>)"
  using ok om.find_erase [OF timers_okD(1) [OF ok]] um.find_erase [OF timers_okD(2) [OF ok]]
    om.ok_erase [OF timers_okD(1) [OF ok]] um.ok_erase [OF timers_okD(2) [OF ok]]
  unfolding timers_ok_def by simp_all

lemma del_timer_ok [ok_intros]: "timers_ok st \<Longrightarrow> timers_ok (snd (del_timer i st))"
  by (auto simp: del_timer_def erase_timer_ok split: option.split)

lemma more_timer_ok [simp]:
  "timers_ok (timers.more_update f st) = timers_ok st" "linked (timers.more_update f st) = linked st"
  by (simp_all add: timers_ok_def linked_def)

lemma cron_timer_ok [simp]: "timers_ok (st\<lparr>m_cronloops := n\<rparr>) = timers_ok st"
  by (simp add: timers_ok_def)

lemma calls_ok: "timer_calls now st st' \<Longrightarrow> timers_ok st \<Longrightarrow> timers_ok st'"
  by (induction rule: timer_calls.induct) (auto intro: ok_intros)

lemma del_timer_find:
  assumes "timers_ok st"
  shows "om_find (m_timers (snd (del_timer i st))) g =
    (if um_find (m_ids st) i = Some g then None else om_find (m_timers st) g)"
  using om.find_erase [OF timers_okD(1) [OF assms]] by (auto simp: del_timer_def split: option.split)

text \<open>A callback cannot queue anything that is already due, nor bring back an id that is not queued.\<close>

lemma calls_due:
  assumes "timer_calls now st st'" "timers_ok st"
  shows "fst g < now \<Longrightarrow> om_find (m_timers st') g = Some t \<Longrightarrow> om_find (m_timers st) g = Some t"
  using assms
proof (induction rule: timer_calls.induct)
  case (calls_add st1 t' after fn repeat privdata)
  then show ?case
    using calls_ok [OF calls_add.hyps(1)] by (auto simp: add_timer_find split: if_splits)
next
  case (calls_del st1 i)
  then show ?case
    using calls_ok [OF calls_del.hyps] by (auto simp: del_timer_find split: if_splits)
qed auto

lemma calls_last: "timer_calls now st st' \<Longrightarrow> m_last_timer_id st \<le> m_last_timer_id st'"
  by (induction rule: timer_calls.induct) (auto simp: add_timer_def Let_def del_timer_def split: option.split)

lemma calls_free_id:
  assumes "timer_calls now st st'" "timers_ok st" "i \<le> m_last_timer_id st"
    "\<And>g. om_find (m_timers st) g \<noteq> None \<Longrightarrow> snd g \<noteq> i"
  shows "om_find (m_timers st') g \<noteq> None \<Longrightarrow> snd g \<noteq> i"
  using assms
proof (induction rule: timer_calls.induct)
  case (calls_add st1 t' after fn repeat privdata)
  then show ?case
    using calls_ok [OF calls_add.hyps(1)] calls_last [OF calls_add.hyps(1)]
    by (auto simp: add_timer_find split: if_splits)
next
  case (calls_del st1 i)
  then show ?case
    using calls_ok [OF calls_del.hyps] by (auto simp: del_timer_find split: if_splits)
qed auto

text \<open>One round of the loop.\<close>

definition callbacks_behave :: "nat \<Rightarrow> ('c \<Rightarrow> int \<Rightarrow> bool \<Rightarrow> 'd \<Rightarrow> ('c, 'd, 's) timers_scheme \<Rightarrow> ('c, 'd, 's) timers_scheme) \<Rightarrow> bool" where
  "callbacks_behave now cb \<longleftrightarrow> (\<forall>c i r d st. timer_calls now st (cb c i r d st))"

definition due_timers :: "nat \<Rightarrow> ('c, 'd, 's) timers_scheme \<Rightarrow> timer_gid set" where
  "due_timers now st = {g. fst g < now \<and> om_find (m_timers st) g \<noteq> None}"

lemma due_timers_finite: "finite (due_timers now st)"
proof -
  have "due_timers now st \<subseteq> dom (map_of (m_timers st))" by (auto simp: due_timers_def om_find_def)
  then show ?thesis by (rule finite_subset) (rule finite_dom_map_of)
qed

lemma fire_timer_ok:
  assumes ok: "timers_ok st" and g: "om_find (m_timers st) g = Some timer" and cb: "callbacks_behave now cb"
    and clock: "now \<le> t" "t + tm_repeat_time timer < U64"
  shows "timers_ok (fire_timer cb t g timer st) \<and>
    (\<forall>g' t'. fst g' < now \<longrightarrow> om_find (m_timers (fire_timer cb t g timer st)) g' = Some t' \<longrightarrow>
       g' \<noteq> g \<and> om_find (m_timers st) g' = Some t')"
proof -
  define st1 where "st1 = st\<lparr>m_timers := om_erase g (m_timers st)\<rparr>"
  define st2 where "st2 = (case tm_callback timer of None \<Rightarrow> st1
      | Some c \<Rightarrow> cb c (tm_id timer) (tm_repeat_time timer \<noteq> 0) (tm_privdata timer) st1)"
  have calls: "timer_calls now st1 st2"
    using cb by (auto simp: st2_def callbacks_behave_def intro: calls_none split: option.split)
  have ok1: "timers_ok st1" unfolding st1_def by (rule erase_timer_ok(2) [OF ok])
  have ok2: "timers_ok st2" by (rule calls_ok [OF calls ok1])
  have f1: "om_find (m_timers st1) g' = (if g' = g then None else om_find (m_timers st) g')" for g'
    using om.find_erase [OF timers_okD(1) [OF ok]] by (simp add: st1_def)
  have f2: "g' \<noteq> g \<and> om_find (m_timers st) g' = Some t'"
    if "fst g' < now" "om_find (m_timers st2) g' = Some t'" for g' t'
    using calls_due [OF calls ok1 that] by (simp add: f1 split: if_splits)
  have i: "snd g \<le> m_last_timer_id st1" "tm_id timer = snd g" using timers_okD(4) [OF ok g] by (simp_all add: st1_def)
  have "snd g' \<noteq> snd g" if "om_find (m_timers st1) g' \<noteq> None" for g'
    using that timers_okD(5) [OF ok, of g' g] g by (auto simp: f1 split: if_splits)
  then have free: "snd g' \<noteq> snd g" if "om_find (m_timers st2) g' \<noteq> None" for g'
    using calls_free_id [OF calls ok1 i(1)] that by blast
  have e: "fire_timer cb t g timer st =
      (if tm_repeat_time timer \<noteq> 0
       then st2\<lparr>m_timers := om_put (t + tm_repeat_time timer, snd g) timer (m_timers st2),
                m_ids := um_put (snd g) (t + tm_repeat_time timer, snd g) (m_ids st2)\<rparr>
       else st2\<lparr>m_ids := um_erase (i32 (int (fst g))) (m_ids st2)\<rparr>)"
    using clock(2) by (simp add: fire_timer_def st2_def st1_def Let_def cong: option.case_cong)
  show ?thesis
  proof (cases "tm_repeat_time timer = 0")
    case True
    then show ?thesis using e erase_timer_ok(3) [OF ok2] f2 by simp
  next
    case False
    have "timers_ok (fire_timer cb t g timer st)"
      using put_timer_ok [OF ok2 i(2) _ order.refl free, of "t + tm_repeat_time timer"]
        i(1) calls_last [OF calls] False e by simp
    then show ?thesis
      using False e f2 clock(1) om.find_put [OF timers_okD(1) [OF ok2]] by (simp split: if_splits)
  qed
qed

lemma om_begin_least: "om_ok m \<Longrightarrow> om_begin m = Some (g, t) \<Longrightarrow> om_find m g = Some t \<and> (\<forall>g'. om_find m g' \<noteq> None \<longrightarrow> g \<le> g')"
  by (rule om.first_Some)

lemma timers_loop_fire:
  "om_begin (m_timers st) = Some (gid, timer) \<Longrightarrow> fst gid < now \<Longrightarrow>
   timers_loop cb now clk k st = do {
     (fired, st') \<leftarrow> timers_loop cb now clk (Suc k) (fire_timer cb (clk k) gid timer st);
     Some (gid # fired, st') }"
  by (subst timers_loop.simps) simp

lemma timers_loop_stop:
  "om_begin (m_timers st) = None \<or> (\<exists>gid timer. om_begin (m_timers st) = Some (gid, timer) \<and> \<not> fst gid < now) \<Longrightarrow>
   timers_loop cb now clk k st = Some ([], st)"
  by (subst timers_loop.simps) auto

lemma begin_not_due:
  assumes "om_ok m" "\<nexists>g t. om_begin m = Some (g, t) \<and> fst g < now" "fst g < now"
  shows "om_find m g = None"
proof (cases "om_begin m")
  case None
  then show ?thesis using om.first_None [OF assms(1)] by blast
next
  case (Some e)
  obtain g0 t0 where e: "e = (g0, t0)" by (cases e)
  have "om_find m g \<noteq> None \<Longrightarrow> g0 \<le> g" using om_begin_least [OF assms(1)] Some e by blast
  moreover have "\<not> fst g0 < now" using assms(2) Some e by blast
  ultimately show ?thesis using assms(3) by (force simp: less_eq_prod_def)
qed

lemma timers_loop_spec:
  assumes "timers_ok st" "callbacks_behave now cb" "\<And>k. now \<le> clk k"
    "\<And>g t k. fst g < now \<Longrightarrow> om_find (m_timers st) g = Some t \<Longrightarrow> clk k + tm_repeat_time t < U64"
  shows "\<exists>fired st'. timers_loop cb now clk k st = Some (fired, st') \<and> timers_ok st' \<and> due_timers now st' = {} \<and>
    sorted_wrt (<) fired \<and> set fired \<subseteq> due_timers now st"
  using assms
proof (induction "card (due_timers now st)" arbitrary: st k rule: less_induct)
  case less
  note ok = less.prems(1)
  show ?case
  proof (cases "\<exists>g t. om_begin (m_timers st) = Some (g, t) \<and> fst g < now")
    case False
    then have "due_timers now st = {}" using begin_not_due [OF timers_okD(1) [OF ok]] by (auto simp: due_timers_def)
    moreover have "timers_loop cb now clk k st = Some ([], st)"
      by (rule timers_loop_stop) (use False in \<open>cases "om_begin (m_timers st)"; force\<close>)
    ultimately show ?thesis using ok by simp
  next
    case T: True
    then obtain g timer where b: "om_begin (m_timers st) = Some (g, timer)" and True: "fst g < now" by blast
    have g: "om_find (m_timers st) g = Some timer" "\<And>g'. om_find (m_timers st) g' \<noteq> None \<Longrightarrow> g \<le> g'"
      using om_begin_least [OF timers_okD(1) [OF ok] b] by blast+
    define st1 where "st1 = fire_timer cb (clk k) g timer st"
    have f: "timers_ok st1" "\<And>g' t'. fst g' < now \<Longrightarrow> om_find (m_timers st1) g' = Some t' \<Longrightarrow>
       g' \<noteq> g \<and> om_find (m_timers st) g' = Some t'"
      using fire_timer_ok [OF ok g(1) less.prems(2,3) less.prems(4) [OF True g(1)]] unfolding st1_def by blast+
    have d: "due_timers now st1 \<subseteq> due_timers now st - {g}" "g \<in> due_timers now st"
      using f(2) g(1) True by (auto simp: due_timers_def)
    then have "due_timers now st1 \<subset> due_timers now st" by blast
    then have c: "card (due_timers now st1) < card (due_timers now st)"
      by (rule psubset_card_mono [OF due_timers_finite])
    have "\<exists>fired st'. timers_loop cb now clk (Suc k) st1 = Some (fired, st') \<and> timers_ok st' \<and>
        due_timers now st' = {} \<and> sorted_wrt (<) fired \<and> set fired \<subseteq> due_timers now st1"
    proof (rule less.hyps [OF c f(1) less.prems(2,3)])
      fix g' t j
      assume "fst g' < now" "om_find (m_timers st1) g' = Some t"
      with f(2) less.prems(4) show "clk j + tm_repeat_time t < U64" by blast
    qed
    then obtain fired st' where
      l: "timers_loop cb now clk (Suc k) st1 = Some (fired, st')" "timers_ok st'" "due_timers now st' = {}"
        "sorted_wrt (<) fired" "set fired \<subseteq> due_timers now st1" by auto
    have "g < g'" if "g' \<in> set fired" for g'
    proof -
      have "g' \<noteq> g" "om_find (m_timers st) g' \<noteq> None" using that l(5) d(1) by (auto simp: due_timers_def)
      with g(2) [of g'] show ?thesis by simp
    qed
    then have "sorted_wrt (<) (g # fired)" "set (g # fired) \<subseteq> due_timers now st" using l(4,5) d by auto
    then show ?thesis using l(1-3) by (simp add: timers_loop_fire [OF b True] st1_def)
  qed
qed

lemma linkedD: "linked st \<Longrightarrow> om_find (m_timers st) g \<noteq> None \<Longrightarrow> um_find (m_ids st) (snd g) = Some g"
  unfolding linked_def by blast

lemma linkedI: "(\<And>g. om_find (m_timers st) g \<noteq> None \<Longrightarrow> um_find (m_ids st) (snd g) = Some g) \<Longrightarrow> linked st"
  unfolding linked_def by blast

lemma linked_add:
  assumes "timers_ok st" "linked st"
  shows "linked (snd (add_timer t fn after repeat privdata st))"
proof (rule linkedI)
  fix g
  assume g: "om_find (m_timers (snd (add_timer t fn after repeat privdata st))) g \<noteq> None"
  have ids: "um_find (m_ids (snd (add_timer t fn after repeat privdata st))) i =
      (if i = m_last_timer_id st + 1 then Some ((t + after) mod U64, m_last_timer_id st + 1) else um_find (m_ids st) i)" for i
    using um.find_put [OF timers_okD(2) [OF assms(1)]] by (simp add: add_timer_def Let_def)
  show "um_find (m_ids (snd (add_timer t fn after repeat privdata st))) (snd g) = Some g"
  proof (cases "g = ((t + after) mod U64, m_last_timer_id st + 1)")
    case False
    then have "om_find (m_timers st) g \<noteq> None" using g by (simp add: add_timer_find [OF assms(1)])
    with queued_id [OF assms(1) this] linkedD [OF assms(2) this] show ?thesis by (simp add: ids)
  qed (simp add: ids)
qed

lemma linked_del:
  assumes "timers_ok st" "linked st"
  shows "linked (snd (del_timer i st))"
proof (rule linkedI)
  fix g
  assume g: "om_find (m_timers (snd (del_timer i st))) g \<noteq> None"
  then have l: "um_find (m_ids st) (snd g) = Some g" "um_find (m_ids st) i \<noteq> Some g"
    using linkedD [OF assms(2)] by (auto simp: del_timer_find [OF assms(1)] split: if_splits)
  then have "snd g \<noteq> i" by auto
  then show "um_find (m_ids (snd (del_timer i st))) (snd g) = Some g"
    using l um.find_erase [OF timers_okD(2) [OF assms(1)]] by (auto simp: del_timer_def split: option.split)
qed

section \<open>Properties\<close>



text \<open>
  A queued timer whose id is registered can be cancelled: \<^verbatim>\<open>del_timer\<close> answers true, exactly this
  timer leaves the queue, and the registration of all others survives; \<^verbatim>\<open>add_timer\<close> registers what it
  queues.
\<close>

theorem cancel_removes_exactly_one:
  assumes "timers_ok st" "linked st" "om_find (m_timers st) g = Some timer"
  shows "fst (del_timer (snd g) st) \<and>
    (\<forall>g'. om_find (m_timers (snd (del_timer (snd g) st))) g' = (if g' = g then None else om_find (m_timers st) g')) \<and>
    timers_ok (snd (del_timer (snd g) st)) \<and> linked (snd (del_timer (snd g) st)) \<and>
    linked (snd (add_timer t fn after repeat privdata st))"
proof -
  have "um_find (m_ids st) (snd g) = Some g" using assms by (intro linkedD) simp_all
  moreover from this have "fst (del_timer (snd g) st)" by (simp add: del_timer_def)
  ultimately show ?thesis
    using linked_del [OF assms(1,2)] linked_add [OF assms(1,2)] del_timer_ok [OF assms(1)]
    by (simp add: del_timer_find [OF assms(1)] eq_commute [of g])
qed

theorem cancel_removes_exactly_one_witness:
  "let st = snd (add_timer 100 (Some ()) 5 50 () new_timers)
   in fst (del_timer (snd (105::nat, 1)) st) \<and>
    (\<forall>g'. om_find (m_timers (snd (del_timer (snd (105::nat, 1)) st))) g' = (if g' = (105, 1) then None else om_find (m_timers st) g')) \<and>
    timers_ok (snd (del_timer (snd (105::nat, 1)) st)) \<and> linked (snd (del_timer (snd (105::nat, 1)) st)) \<and>
    linked (snd (add_timer 7 None 1 1 () st))"
  unfolding Let_def
  by (rule cancel_removes_exactly_one [OF add_timer_ok [OF timers_ok_new(1)] linked_add [OF timers_ok_new]])
    (simp add: add_timer_def new_timers_def om_find_def U64_def Let_def)

text \<open>
  A repeating timer that is cancelled by its own callback comes back: the loop queues it again
  after the callback, without looking whether it was cancelled, and registers its id again.
\<close>

theorem cancel_in_own_callback_is_undone:
  assumes "t + after < now" "clk 0 + repeat < U64" "0 < repeat" "now \<le> clk 0" "now < U64"
  shows "\<exists>timer. on_repeat_timer (\<lambda>c i r d s. snd (del_timer i s)) now clk
      (snd (add_timer t (Some ()) after repeat () new_timers)) =
    Some ([(t + after, 1)], (new_timers :: (unit, unit) timers)\<lparr>m_last_timer_id := 1,
      m_timers := [((clk 0 + repeat, 1), timer)], m_ids := [(1, (clk 0 + repeat, 1))]\<rparr>)"
proof -
  define timer :: "(unit, unit) timer" where
    "timer = \<lparr>tm_id = 1, tm_after_time = after, tm_repeat_time = repeat, tm_privdata = (), tm_callback = Some ()\<rparr>"
  have b: "om_begin (m_timers (snd (add_timer t (Some ()) after repeat () new_timers))) = Some ((t + after, 1), timer)"
    using assms by (simp add: add_timer_def new_timers_def om_begin_def Let_def timer_def)
  have fire: "fire_timer (\<lambda>c i r d s. snd (del_timer i s)) (clk 0) (t + after, 1) timer
      (snd (add_timer t (Some ()) after repeat () new_timers)) = new_timers\<lparr>m_last_timer_id := 1,
        m_timers := [((clk 0 + repeat, 1), timer)], m_ids := [(1, (clk 0 + repeat, 1))]\<rparr>"
    using assms by (simp add: add_timer_def new_timers_def fire_timer_def Let_def del_timer_def timer_def
      um_find_def um_put_def om_erase_def um_erase_def)
  show ?thesis
    unfolding on_repeat_timer_def
    using assms fire
    by (intro exI [of _ timer]) (simp add: timers_loop_fire [OF b] timers_loop_stop om_begin_def)
qed

theorem cancel_in_own_callback_is_undone_witness:
  "\<exists>timer. on_repeat_timer (\<lambda>c i r d s. snd (del_timer i s)) 200 (\<lambda>_. 201)
      (snd (add_timer 100 (Some ()) 5 50 () new_timers)) =
    Some ([(100 + 5, 1)], (new_timers :: (unit, unit) timers)\<lparr>m_last_timer_id := 1,
      m_timers := [(((\<lambda>_::nat. 201) 0 + 50, 1), timer)], m_ids := [(1, ((\<lambda>_::nat. 201) 0 + 50, 1))]\<rparr>)"
  by (rule cancel_in_own_callback_is_undone) (simp_all add: U64_def)

text \<open>
  The id of a one-shot timer stays registered after the timer has fired, because the loop looks
  it up under the due time instead of the id; cancelling the id later still answers true.
\<close>

theorem fired_one_shot_id_leaks:
  assumes "t + after < now" "now < U64" "i32 (int (t + after)) \<noteq> 1"
  shows "\<exists>st'. on_repeat_timer (\<lambda>c i r d s. s) now clk (snd (add_timer t (Some ()) after 0 () new_timers)) =
      Some ([(t + after, 1)], st') \<and> m_timers st' = [] \<and>
    um_find (m_ids (st' :: (unit, unit) timers)) 1 = Some (t + after, 1) \<and> fst (del_timer 1 st')"
proof -
  define timer :: "(unit, unit) timer" where
    "timer = \<lparr>tm_id = 1, tm_after_time = after, tm_repeat_time = 0, tm_privdata = (), tm_callback = Some ()\<rparr>"
  have b: "om_begin (m_timers (snd (add_timer t (Some ()) after 0 () new_timers))) = Some ((t + after, 1), timer)"
    using assms by (simp add: add_timer_def new_timers_def om_begin_def Let_def timer_def)
  have fire: "fire_timer (\<lambda>c i r d s. s) (clk 0) (t + after, 1) timer
      (snd (add_timer t (Some ()) after 0 () new_timers)) = new_timers\<lparr>m_last_timer_id := 1,
        m_timers := [], m_ids := [(1, (t + after, 1))]\<rparr>"
    using assms by (simp add: add_timer_def new_timers_def fire_timer_def Let_def timer_def
      um_put_def om_erase_def um_erase_def)
  show ?thesis
    unfolding on_repeat_timer_def
    using assms fire
    by (simp add: timers_loop_fire [OF b] timers_loop_stop om_begin_def um_find_def del_timer_def)
qed

theorem fired_one_shot_id_leaks_witness:
  "\<exists>st'. on_repeat_timer (\<lambda>c i r d s. s) 200 (\<lambda>_. 200) (snd (add_timer 100 (Some ()) 5 0 () new_timers)) =
      Some ([(100 + 5, 1)], st') \<and> m_timers st' = [] \<and>
    um_find (m_ids (st' :: (unit, unit) timers)) 1 = Some (100 + 5, 1) \<and> fst (del_timer 1 st')"
  by (rule fired_one_shot_id_leaks) (simp_all add: U64_def)

text \<open>
  With the default rate of ten ticks a second, work guarded by \<^verbatim>\<open>run_with_period(ms)\<close> for a whole
  number \<open>n\<close> of tenths runs on every \<open>n\<close>-th tick: exactly once in any \<open>n\<close> consecutive ticks.
\<close>

theorem run_with_period_once:
  fixes n start :: int
  assumes "0 < n"
  shows "\<exists>!k. start \<le> k \<and> k < start + n \<and> run_with_period (100 * n) DEFAULT_TIMER_RATE k"
proof (cases "n = 1")
  case True
  then show ?thesis by (intro ex1I [of _ start]) (auto simp: run_with_period_def DEFAULT_TIMER_RATE_def)
next
  case False
  have r: "run_with_period (100 * n) DEFAULT_TIMER_RATE k \<longleftrightarrow> k mod n = 0" for k
    using False assms by (simp add: run_with_period_def DEFAULT_TIMER_RATE_def)
  define d where "d = start + (- start) mod n"
  have d: "d mod n = 0" unfolding d_def by (simp add: mod_add_right_eq)
  have "0 \<le> (- start) mod n" "(- start) mod n < n" using assms by simp_all
  then have sd: "start \<le> d" "d < start + n" by (simp_all add: d_def)
  have u: "k = d" if "start \<le> k" "k < start + n" "k mod n = 0" for k
  proof -
    have "n dvd k - d" using that(3) d by (intro dvd_diff) (simp_all add: mod_0_imp_dvd)
    moreover have "\<bar>k - d\<bar> < n" using that sd by linarith
    ultimately show ?thesis using dvd_imp_le_int [of "k - d" n] by linarith
  qed
  show ?thesis unfolding r
  proof (rule ex1I [of _ d])
    show "start \<le> d \<and> d < start + n \<and> d mod n = 0" using sd d by simp
  next
    fix k
    assume "start \<le> k \<and> k < start + n \<and> k mod n = 0"
    then show "k = d" by (intro u) simp_all
  qed
qed

theorem run_with_period_once_witness:
  "\<exists>!k. 7 \<le> k \<and> k < 7 + 10 \<and> run_with_period (100 * 10) DEFAULT_TIMER_RATE k"
  by (rule run_with_period_once) simp

end
