(* ===== verification/SysCmd.thy ===== *)
theory SysCmd
  imports Network Timers
begin

text \<open>
  The system commands by which the processes of a node and the nodes of a cluster talk to each other
  (\<^verbatim>\<open>src/src/core/sys_cmd.h\<close>, \<^verbatim>\<open>sys_cmd.cpp\<close>): one handler per command, on the state of the network. The
  serializers of the messages they carry (\<^verbatim>\<open>protobuf/sys/nodes.proto\<close>, \<^verbatim>\<open>payload.proto\<close>) are generated code
  and parameters. A handler returns an error code; \<open>None\<close> is an exception nobody catches, undefined
  behaviour, or a send that still waits.
\<close>

section \<open>Messages\<close>

record register_node =
  rn_version :: u32
  rn_my_zk_path :: string
  rn_nodes :: "zk_node list"

record target_node =
  tn_node_type :: string
  tn_ip :: string
  tn_port :: u32
  tn_worker_index :: u32

definition register_node0 :: register_node where
  "register_node0 = \<lparr>rn_version = 0, rn_my_zk_path = [], rn_nodes = []\<rparr>"

text \<open>A parser returns whether it succeeded and the message.\<close>

record sys_env = env +
  s_md5 :: "string \<Rightarrow> bytes"
  ser_payload :: "payload \<Rightarrow> bytes"
  par_payload :: "bytes \<Rightarrow> bool \<times> payload"
  ser_zk_node :: "zk_node \<Rightarrow> bytes"
  par_zk_node :: "bytes \<Rightarrow> bool \<times> zk_node"
  ser_register :: "register_node \<Rightarrow> bytes"
  par_register :: "bytes \<Rightarrow> bool \<times> register_node"
  ser_target :: "target_node \<Rightarrow> bytes"
  par_target :: "bytes \<Rightarrow> bool \<times> target_node"

definition req_data :: "msg \<Rightarrow> bytes" where
  "req_data req = data (m_msg_body req)"

definition obj_ft :: "nat \<Rightarrow> net \<Rightarrow> fd_t" where
  "obj_ft a st = c_ft (w_objs st a)"

section \<open>Requests this process sends\<close>

definition send_heart_beat :: "sys_env \<Rightarrow> nat \<Rightarrow> net \<Rightarrow> (int \<times> net) option" where
  "send_heart_beat env a st =
     (let (s, st1) = new_seq st
      in send_req env (Some a) (word_of_int CMD_REQ_HEART_BEAT) (ucast s) (str_bytes ''heartbeat'') st1)"

definition send_connect_req_to_worker :: "sys_env \<Rightarrow> nat \<Rightarrow> net \<Rightarrow> (int \<times> net) option" where
  "send_connect_req_to_worker env a st =
     (let index = get_node_worker_index (c_node_id (w_objs st a)) (m_node_table st)
      in if index = - 1 then Some (ERR_INVALID_WORKER_INDEX, st)
         else let (s, st1) = new_seq st
              in do {
                (ret, st2) \<leftarrow> send_req env (Some a) (word_of_int CMD_REQ_CONNECT_TO_WORKER) (ucast s) (str_bytes (dec index)) st1;
                if ret \<noteq> ERR_OK then Some (ret, st2)
                else Some (ERR_OK, set_obj a ((w_objs st2 a)\<lparr>c_state := ST_CONNECTING\<rparr>) st2)
              })"

definition send_payload_to_manager :: "sys_env \<Rightarrow> payload \<Rightarrow> net \<Rightarrow> (int \<times> net) option" where
  "send_payload_to_manager env pl st =
     (let (s, st1) = new_seq st in send_to_manager env CMD_REQ_UPDATE_PAYLOAD s (ser_payload env pl) st1)"

definition send_add_zk_node_to_worker :: "sys_env \<Rightarrow> zk_node \<Rightarrow> net \<Rightarrow> (int \<times> net) option" where
  "send_add_zk_node_to_worker env z st =
     (let (s, st1) = new_seq st in send_to_workers env CMD_REQ_ADD_ZK_NODE s (ser_zk_node env z) st1)"

definition send_del_zk_node_to_worker :: "sys_env \<Rightarrow> string \<Rightarrow> net \<Rightarrow> (int \<times> net) option" where
  "send_del_zk_node_to_worker env path st =
     (let (s, st1) = new_seq st in send_to_workers env CMD_REQ_DEL_ZK_NODE s (str_bytes path) st1)"

definition send_reg_zk_node_to_worker :: "sys_env \<Rightarrow> register_node \<Rightarrow> net \<Rightarrow> (int \<times> net) option" where
  "send_reg_zk_node_to_worker env rn st =
     (let (s, st1) = new_seq st in send_to_workers env CMD_REQ_REGISTER_NODE s (ser_register env rn) st1)"

text \<open>The result is a \<^verbatim>\<open>bool\<close> in an \<^verbatim>\<open>int\<close>.\<close>

definition send_zk_nodes_version_to_manager :: "sys_env \<Rightarrow> int \<Rightarrow> net \<Rightarrow> (int \<times> net) option" where
  "send_zk_nodes_version_to_manager env version st =
     (let (s, st1) = new_seq st
      in map_option (\<lambda>(ret, st2). (if ret \<noteq> ERR_OK then 0 else 1, st2))
           (send_to_manager env CMD_REQ_SYNC_ZK_NODES s (str_bytes (dec version)) st1))"

definition syscmd_on_repeat_timer :: "sys_env \<Rightarrow> int \<Rightarrow> int \<Rightarrow> net \<Rightarrow> net option" where
  "syscmd_on_repeat_timer env hz cronloops st =
     (if is_worker st \<and> run_with_period (5 * 60 * 1000) hz cronloops
      then map_option snd (send_zk_nodes_version_to_manager env (sint (m_version (m_node_table st))) st)
      else Some st)"

section \<open>Handlers\<close>

text \<open>An error code in the response is only logged.\<close>

definition check_rsp :: "msg \<Rightarrow> int" where
  "check_rsp req = (case m_type (m_msg_body req) of RspResult _ _ \<Rightarrow> ERR_OK | _ \<Rightarrow> ERR_INVALID_RESPONSE)"

definition on_req_update_payload :: "sys_env \<Rightarrow> msg \<Rightarrow> net \<Rightarrow> (int \<times> net) option" where
  "on_req_update_payload env req st =
     (let (ok, pl) = par_payload env (req_data req)
      in if \<not> ok then Some (ERR_INVALID_PROTOBUF_PACKET, st)
         else case get_worker_info_by_index (i32 (uint (worker_index pl))) (m_worker_data_mgr st) of
             None \<Rightarrow> map_option (\<lambda>(_, st1). (ERR_INVALID_WORKER_INDEX, st1))
                 (send_ack env req ERR_INVALID_WORKER_INDEX ''can not find worker index!'' [] st)
           | Some a \<Rightarrow> do {
               d \<leftarrow> set_worker_payload a pl (m_worker_data_mgr st);
               send_ack env req ERR_OK ''ok'' [] (st\<lparr>m_worker_data_mgr := d\<rparr>)
             })"

definition on_rsp_update_payload :: "msg \<Rightarrow> net \<Rightarrow> (int \<times> net) option" where
  "on_rsp_update_payload req st = Some (check_rsp req, st)"

definition register_nodes :: "sys_env \<Rightarrow> register_node \<Rightarrow> nodes \<Rightarrow> nodes" where
  "register_nodes env rn ns =
     fold (\<lambda>z s. snd (add_zk_node (s_md5 env) z s)) (rn_nodes rn) (set_my_zk_node_path (rn_my_zk_path rn) (nodes_clear ns))"

definition on_rsp_sync_zk_nodes :: "sys_env \<Rightarrow> msg \<Rightarrow> net \<Rightarrow> (int \<times> net) option" where
  "on_rsp_sync_zk_nodes env req st =
     (if check_rsp req \<noteq> ERR_OK then Some (check_rsp req, st)
      else let (ok, rn) = par_register env (req_data req)
           in if \<not> ok then Some (ERR_INVALID_RESPONSE, st)
              else if rn_version rn \<noteq> m_version (m_node_table st)
              then Some (ERR_OK, st\<lparr>m_node_table := register_nodes env rn (m_node_table st)\<rparr>)
              else Some (ERR_OK, st))"

definition on_req_add_zk_node :: "sys_env \<Rightarrow> msg \<Rightarrow> net \<Rightarrow> (int \<times> net) option" where
  "on_req_add_zk_node env req st =
     (let (ok, z) = par_zk_node env (req_data req)
      in if \<not> ok then map_option (\<lambda>(_, st1). (ERR_INVALID_PROTOBUF_PACKET, st1))
                        (send_ack env req ERR_INVALID_MSG_DATA ''parse request failed!'' [] st)
         else let (added, ns) = add_zk_node (s_md5 env) z (m_node_table st); st1 = st\<lparr>m_node_table := ns\<rparr>
              in if \<not> added
                 then map_option (\<lambda>(ret, st2). (if ret \<noteq> ERR_OK then ERR_SEND_DATA_FAILED else ERR_OK, st2))
                        (send_ack env req ERR_FAILED ''add zk node failed!'' [] st1)
                 else send_ack env req ERR_OK ''ok'' [] st1)"

definition on_rsp_add_zk_node :: "msg \<Rightarrow> net \<Rightarrow> (int \<times> net) option" where
  "on_rsp_add_zk_node req st = Some (check_rsp req, st)"

definition on_req_del_zk_node :: "sys_env \<Rightarrow> msg \<Rightarrow> net \<Rightarrow> (int \<times> net) option" where
  "on_req_del_zk_node env req st =
     (if req_data req = []
      then map_option (\<lambda>(_, st1). (ERR_INVALID_RESPONSE, st1))
             (send_ack env req ERR_INVALID_MSG_DATA ''parse request failed!'' [] st)
      else map_option (\<lambda>(ret, st1). (if ret \<noteq> ERR_OK then ERR_SEND_DATA_FAILED else ERR_OK, st1))
             (send_ack env req ERR_OK ''ok'' []
                (st\<lparr>m_node_table := snd (del_zk_node (bytes_str (req_data req)) (m_node_table st))\<rparr>)))"

definition on_rsp_del_zk_node :: "msg \<Rightarrow> net \<Rightarrow> (int \<times> net) option" where
  "on_rsp_del_zk_node req st = Some (check_rsp req, st)"

definition on_req_reg_zk_node :: "sys_env \<Rightarrow> msg \<Rightarrow> net \<Rightarrow> (int \<times> net) option" where
  "on_req_reg_zk_node env req st =
     (let (ok, rn) = par_register env (req_data req)
      in if \<not> ok then map_option (\<lambda>(_, st1). (ERR_INVALID_RESPONSE, st1))
                        (send_ack env req ERR_INVALID_MSG_DATA ''parse request data failed!'' [] st)
         else map_option (\<lambda>(ret, st1). (if ret \<noteq> ERR_OK then ERR_SEND_DATA_FAILED else ERR_OK, st1))
                (send_ack env req ERR_OK ''ok'' [] (st\<lparr>m_node_table := register_nodes env rn (m_node_table st)\<rparr>)))"

definition on_rsp_reg_zk_node :: "msg \<Rightarrow> net \<Rightarrow> (int \<times> net) option" where
  "on_rsp_reg_zk_node req st = Some (check_rsp req, st)"

text \<open>The manager's answer to a version: the node table when the versions differ.\<close>

definition sync_answer :: "u32 \<Rightarrow> nodes \<Rightarrow> register_node" where
  "sync_answer version ns =
     (let rn = register_node0\<lparr>rn_version := version\<rparr>
      in if m_version ns \<noteq> version
         then rn\<lparr>rn_my_zk_path := m_my_zk_node ns, rn_nodes := map snd (m_zk_nodes ns)\<rparr> else rn)"

definition on_req_sync_zk_nodes :: "sys_env \<Rightarrow> msg \<Rightarrow> net \<Rightarrow> (int \<times> net) option" where
  "on_req_sync_zk_nodes env req st = do {
     v \<leftarrow> str_to_int (bytes_str (req_data req));
     map_option (\<lambda>(ret, st1). (if ret \<noteq> ERR_OK then ERR_SEND_DATA_FAILED else ERR_OK, st1))
       (send_ack env req ERR_OK ''ok'' (ser_register env (sync_answer (word_of_int v) (m_node_table st))) st)
   }"

text \<open>Passing the descriptor on: the loop around \<^verbatim>\<open>write_channel\<close>, one answer of \<^verbatim>\<open>sendmsg\<close> per round.\<close>

fun transfer_loop :: "sys_env \<Rightarrow> int option list \<Rightarrow> int \<Rightarrow> channel_t \<Rightarrow> net \<Rightarrow> (int \<times> net) option" where
  "transfer_loop env [] channel ch st = None"
| "transfer_loop env (k # ks) channel ch st =
     (let err = write_channel k
      in if err = ERR_OK
         then Some (ERR_TRANSFER_FD_DONE, st\<lparr>w_sendmsgs := ks, w_transfers := w_transfers st @ [(channel, channel_msg ch)]\<rparr>)
         else if err = EAGAIN then transfer_loop env ks channel ch (e_yield env st)
         else Some (ERR_TRANSFER_FD_FAILED, st\<lparr>w_sendmsgs := ks\<rparr>))"

definition AF_INET :: int where
  "AF_INET = 2"

definition on_req_connect_to_worker :: "sys_env \<Rightarrow> msg \<Rightarrow> net \<Rightarrow> (int \<times> net) option" where
  "on_req_connect_to_worker env req st = do {
     index \<leftarrow> str_to_int (bytes_str (req_data req));
     let worker_cnt = i32 (int (length (m_workers (m_worker_data_mgr st))));
     if index = 0 \<or> index > worker_cnt
     then map_option (\<lambda>(_, st1). (ERR_INVALID_WORKER_INDEX, st1))
            (send_ack env req ERR_INVALID_WORKER_INDEX ''invalid worker index!'' [] st)
     else do {
       (ret, st1) \<leftarrow> send_ack env req ERR_OK ''ok'' [] st;
       if ret \<noteq> ERR_OK then Some (ERR_SEND_DATA_FAILED, st1)
       else do {
         channel \<leftarrow> get_worker_data_fd index (m_worker_data_mgr st1);
         transfer_loop env (w_sendmsgs st1) channel
           \<lparr>ch_fd = ft_fd (m_ft req), ch_family = AF_INET, ch_codec = type_num PROTOBUF, ch_is_system = 1\<rparr> st1
       }
     }
   }"

definition on_req_heart_beat :: "sys_env \<Rightarrow> msg \<Rightarrow> net \<Rightarrow> (int \<times> net) option" where
  "on_req_heart_beat env req st =
     map_option (\<lambda>(ret, st1). (if ret \<noteq> ERR_OK then ERR_REDIS_CONNECT_FAILED else ret, st1)) (send_ack env req ERR_OK [] [] st)"

definition on_rsp_heart_beat :: "msg \<Rightarrow> net \<Rightarrow> (int \<times> net) option" where
  "on_rsp_heart_beat req st = Some (ERR_OK, st)"

text \<open>The node this process is, as it introduces itself.\<close>

definition self_target :: "net \<Rightarrow> target_node option" where
  "self_target st = do {
     port \<leftarrow> node_port st;
     Some \<lparr>tn_node_type = node_type st, tn_ip = node_host st, tn_port = word_of_int port,
           tn_worker_index = word_of_int (m_worker_index st)\<rparr>
   }"

definition target_id :: "target_node \<Rightarrow> string" where
  "target_id tn = format_nodes_id (tn_ip tn) (i32 (uint (tn_port tn))) (i32 (uint (tn_worker_index tn)))"

definition on_req_tell_worker :: "sys_env \<Rightarrow> msg \<Rightarrow> net \<Rightarrow> (int \<times> net) option" where
  "on_req_tell_worker env req st =
     (if \<not> fst (par_target env (req_data req))
      then map_option (\<lambda>(_, st1). (ERR_INVALID_RESPONSE, st1))
             (send_ack env req ERR_INVALID_MSG_DATA ''parse request failed!'' [] st)
      else do {
        tn \<leftarrow> self_target st;
        (ret, st1) \<leftarrow> send_ack env req ERR_OK ''ok'' (ser_target env tn) st;
        if ret \<noteq> ERR_OK then Some (ERR_REDIS_CONNECT_FAILED, st1)
        else let st2 = snd (update_conn_state (m_ft req) ST_CONNECTED st1)
             in Some (ERR_OK, snd (add_client_conn (target_id tn) (m_ft req) st2))
      })"

definition on_rsp_tell_worker :: "sys_env \<Rightarrow> msg \<Rightarrow> net \<Rightarrow> (int \<times> net) option" where
  "on_rsp_tell_worker env req st =
     (if check_rsp req \<noteq> ERR_OK then Some (check_rsp req, st)
      else let (ok, tn) = par_target env (req_data req)
           in if \<not> ok then Some (ERR_INVALID_RESPONSE, st)
              else let st1 = snd (update_conn_state (m_ft req) ST_CONNECTED st)
                   in Some (ERR_OK, snd (add_client_conn (target_id tn) (m_ft req) st1)))"

definition on_rsp_connect_to_worker :: "sys_env \<Rightarrow> msg \<Rightarrow> net \<Rightarrow> (int \<times> net) option" where
  "on_rsp_connect_to_worker env req st =
     (if check_rsp req \<noteq> ERR_OK then Some (check_rsp req, st)
      else do {
        tn \<leftarrow> self_target st;
        let (s, st1) = new_seq st;
        send_req_ft env (m_ft req) (word_of_int CMD_REQ_TELL_WORKER) (ucast s) (ser_target env tn) st1
      })"

section \<open>Dispatch\<close>

definition handle_manager_msg :: "sys_env \<Rightarrow> msg \<Rightarrow> net \<Rightarrow> (int \<times> net) option" where
  "handle_manager_msg env req st =
     (let c = uint (cmd (m_msg_head req))
      in if c = CMD_REQ_CONNECT_TO_WORKER then on_req_connect_to_worker env req st
         else if c = CMD_RSP_ADD_ZK_NODE then on_rsp_add_zk_node req st
         else if c = CMD_RSP_DEL_ZK_NODE then on_rsp_del_zk_node req st
         else if c = CMD_RSP_REGISTER_NODE then on_rsp_reg_zk_node req st
         else if c = CMD_REQ_SYNC_ZK_NODES then on_req_sync_zk_nodes env req st
         else if c = CMD_REQ_UPDATE_PAYLOAD then on_req_update_payload env req st
         else Some (ERR_UNKOWN_CMD, st))"

definition handle_worker_msg :: "sys_env \<Rightarrow> msg \<Rightarrow> net \<Rightarrow> (int \<times> net) option" where
  "handle_worker_msg env req st =
     (let c = uint (cmd (m_msg_head req))
      in if c = CMD_RSP_CONNECT_TO_WORKER then on_rsp_connect_to_worker env req st
         else if c = CMD_REQ_HEART_BEAT then on_req_heart_beat env req st
         else if c = CMD_RSP_HEART_BEAT then on_rsp_heart_beat req st
         else if c = CMD_REQ_TELL_WORKER then on_req_tell_worker env req st
         else if c = CMD_RSP_TELL_WORKER then on_rsp_tell_worker env req st
         else if c = CMD_REQ_ADD_ZK_NODE then on_req_add_zk_node env req st
         else if c = CMD_REQ_DEL_ZK_NODE then on_req_del_zk_node env req st
         else if c = CMD_REQ_REGISTER_NODE then on_req_reg_zk_node env req st
         else if c = CMD_RSP_SYNC_ZK_NODES then on_rsp_sync_zk_nodes env req st
         else if c = CMD_RSP_UPDATE_PAYLOAD then on_rsp_update_payload req st
         else Some (ERR_UNKOWN_CMD, st))"

definition handle_msg :: "sys_env \<Rightarrow> msg option \<Rightarrow> net \<Rightarrow> (int \<times> net) option" where
  "handle_msg env ro st = (case ro of
       None \<Rightarrow> Some (ERR_INVALID_PARAMS, st)
     | Some req \<Rightarrow>
         if uint (cmd (m_msg_head req)) \<ge> CMD_SYS_END then Some (ERR_UNKOWN_CMD, st)
         else if is_manager st then handle_manager_msg env req st else handle_worker_msg env req st)"

section \<open>Properties\<close>

lemma sint_u32_bounds: "- 2147483648 \<le> sint (v :: u32)" "sint (v :: u32) \<le> 2147483647"
  using sint_greater_eq [of v] sint_less [of v] by simp_all

text \<open>
  The periodic synchronisation of the node table between a worker and the manager never changes the
  worker's table: the manager answers with the version the worker sent, and the worker only takes over a
  table whose version differs from its own.
\<close>

theorem sync_never_updates:
  assumes "req_data req = str_bytes (dec (sint v))" "v = m_version (m_node_table wst)"
    and "D = ser_register env (sync_answer v (m_node_table mst))"
    and "par_register env D = (True, sync_answer v (m_node_table mst))"
  shows "on_req_sync_zk_nodes env req mst =
      map_option (\<lambda>(ret, st). (if ret \<noteq> ERR_OK then ERR_SEND_DATA_FAILED else ERR_OK, st)) (send_ack env req ERR_OK ''ok'' D mst) \<and>
    (\<forall>rsp. req_data rsp = D \<longrightarrow> check_rsp rsp = ERR_OK \<longrightarrow> on_rsp_sync_zk_nodes env rsp wst = Some (ERR_OK, wst))"
proof -
  have "str_to_int (bytes_str (req_data req)) = Some (sint v)"
    using assms(1) str_to_int_dec [OF sint_u32_bounds] by (simp add: str_round_trip)
  moreover have "rn_version (sync_answer v (m_node_table mst)) = m_version (m_node_table wst)"
    using assms(2) by (simp add: sync_answer_def Let_def)
  ultimately show ?thesis
    using assms(3,4) by (simp add: on_req_sync_zk_nodes_def on_rsp_sync_zk_nodes_def)
qed

definition test_sys :: sys_env where
  "test_sys = env.extend test_env \<lparr>s_md5 = (\<lambda>_. replicate 16 0), ser_payload = (\<lambda>_. []), par_payload = (\<lambda>_. (False, payload0)),
     ser_zk_node = (\<lambda>_. []), par_zk_node = (\<lambda>_. (False, \<lparr>z_path = [], z_type = [], z_host = [], z_port = 0, z_worker_cnt = 0, z_active_time = 0\<rparr>)),
     ser_register = (\<lambda>rn. [ucast (rn_version rn)]), par_register = (\<lambda>bs. (True, register_node0\<lparr>rn_version := ucast (hd bs)\<rparr>)),
     ser_target = (\<lambda>tn. [ucast (tn_worker_index tn)]),
     par_target = (\<lambda>bs. (bs \<noteq> [], \<lparr>tn_node_type = [], tn_ip = [], tn_port = 0, tn_worker_index = ucast (hd bs)\<rparr>))\<rparr>"

lemma test_sys_facts:
  "e_pb test_sys = proto3" "\<not> fst (e_heap test_sys) n" "e_yield test_sys s = s" "leaves_alone test_sys a"
  "par_register test_sys bs = (True, register_node0\<lparr>rn_version := ucast (hd bs)\<rparr>)" "ser_register test_sys rn = [ucast (rn_version rn)]"
  "fst (par_target test_sys bs) = (bs \<noteq> [])" "ser_target test_sys tn = [ucast (tn_worker_index tn)]"
  by (simp_all add: test_sys_def test_env_def env.extend_def leaves_alone_def)

theorem sync_never_updates_witness:
  "on_rsp_sync_zk_nodes test_sys (ping\<lparr>m_msg_body := body0\<lparr>data := [0], m_type := RspResult 0 ''ok''\<rparr>\<rparr>) one_conn = Some (ERR_OK, one_conn)"
proof -
  have v: "m_version (m_node_table one_conn) = 0" by (simp add: one_conn_def test_net_defs Let_def new_nodes_def)
  have "par_register test_sys [0] = (True, sync_answer 0 (m_node_table one_conn))"
    by (simp add: test_sys_facts sync_answer_def v)
  moreover have "ser_register test_sys (sync_answer 0 (m_node_table one_conn)) = [0]" by (simp add: test_sys_facts sync_answer_def v register_node0_def)
  ultimately show ?thesis
    using sync_never_updates [of "ping\<lparr>m_msg_body := body0\<lparr>data := str_bytes (dec (sint (0::u32)))\<rparr>\<rparr>" 0 one_conn "[0]" test_sys one_conn] v
    by (simp add: req_data_def check_rsp_def)
qed

lemma rsp_facts:
  fixes c :: u32 and e :: string and req :: msg
  defines "r \<equiv> req\<lparr>m_msg_body := (m_msg_body req)\<lparr>m_type := RspResult c e\<rparr>\<rparr>"
  shows "m_ft r = m_ft req" "m_msg_head r = m_msg_head req" "req_data r = req_data req" "check_rsp r = ERR_OK"
    "send_ack env r = send_ack env req"
  by (simp_all add: r_def req_data_def check_rsp_def fun_eq_iff send_ack_def ack_msg_def)

lemmas handler_defs = handle_manager_msg_def handle_worker_msg_def on_req_connect_to_worker_def on_rsp_add_zk_node_def
  on_rsp_del_zk_node_def on_rsp_reg_zk_node_def on_req_sync_zk_nodes_def on_req_update_payload_def on_rsp_connect_to_worker_def
  on_req_heart_beat_def on_rsp_heart_beat_def on_req_tell_worker_def on_rsp_tell_worker_def on_req_add_zk_node_def
  on_req_del_zk_node_def on_req_reg_zk_node_def on_rsp_sync_zk_nodes_def on_rsp_update_payload_def

text \<open>
  No handler looks at the error code of a response: a message that carries a refusal is treated
  exactly like one that carries success, in the manager and in a worker and for every command.
\<close>

theorem response_code_ignored:
  "handle_msg env (Some (req\<lparr>m_msg_body := (m_msg_body req)\<lparr>m_type := RspResult c1 e1\<rparr>\<rparr>)) st =
   handle_msg env (Some (req\<lparr>m_msg_body := (m_msg_body req)\<lparr>m_type := RspResult c2 e2\<rparr>\<rparr>)) st"
  unfolding handle_msg_def option.case handler_defs rsp_facts by (rule refl)

text \<open>
  A worker that is told about a peer (\<^verbatim>\<open>CMD_REQ_TELL_WORKER\<close>) files the connection under its own node
  id, not the peer's: whatever the request says, the entry it makes is the one for the receiving worker,
  so every later peer overwrites it.
\<close>

theorem tell_worker_files_under_own_id:
  assumes "on_req_tell_worker env req st = Some (ERR_OK, st')" "fst (par_target env (req_data req))"
    and "self_target st = Some tn" "get_conn (m_ft req) st' = Some a"
  shows "um_find (m_node_conns st') (target_id tn) = Some a"
proof -
  from assms(1-3) obtain ret st1 where "send_ack env req ERR_OK ''ok'' (ser_target env tn) st = Some (ret, st1)"
    and r: "(if ret \<noteq> ERR_OK then Some (ERR_REDIS_CONNECT_FAILED, st1)
         else let st2 = snd (update_conn_state (m_ft req) ST_CONNECTED st1)
              in Some (ERR_OK, snd (add_client_conn (target_id tn) (m_ft req) st2))) = Some (ERR_OK, st')"
    by (auto simp: on_req_tell_worker_def split: bind_splits)
  define st2 where "st2 = snd (update_conn_state (m_ft req) ST_CONNECTED st1)"
  have s: "st' = snd (add_client_conn (target_id tn) (m_ft req) st2)"
    using r by (auto simp: st2_def err_defs Let_def split: if_splits)
  then have "get_conn (m_ft req) st' = get_conn (m_ft req) st2"
    by (auto simp: add_client_conn_def get_conn_def split: option.splits)
  then show ?thesis using s assms(4) by (simp add: add_client_conn_def um_find_put)
qed

text \<open>One connection, one worker with index 1, and a channel that is full once.\<close>

definition test_req :: "u32 \<Rightarrow> bytes \<Rightarrow> msg" where
  "test_req c dat = (new_msg \<lparr>ft_fd = 5, ft_id = 1\<rparr>)\<lparr>m_msg_head := \<lparr>cmd = c, seq = 7, len = 0\<rparr>, m_msg_body := body0\<lparr>data := dat\<rparr>\<rparr>"

lemma varint_small: "n < 128 \<Longrightarrow> varint_enc n = [of_nat n]"
  by (subst varint_enc.simps) simp

lemma ack_body:
  "ser_body proto3 (body0\<lparr>data := dat, m_type := RspResult 0 ''ok''\<rparr>) =
     [18, 4, 18, 2, 111, 107] @ (if dat = [] then [] else 26 # varint_enc (length dat) @ dat)"
  by (simp add: proto3_def body_fields_def body0_def type_fields_def fields_enc_def field_if_def varint_small str_bytes_def)

lemma ack_sendable:
  assumes "c \<in> {21, 23}" "dat \<in> {[], [1]}"
  shows "sendable proto3 (ack_msg proto3 (test_req c dat') ERR_OK ''ok'' dat)"
    "length (frame proto3 (ack_msg proto3 (test_req c dat') ERR_OK ''ok'' dat)) \<le> 24"
proof -
  have e: "word_of_int ERR_OK = (0 :: u32)" by (simp add: ERR_OK_def)
  show s: "sendable proto3 (ack_msg proto3 (test_req c dat') ERR_OK ''ok'' dat)"
    using assms by (auto simp: sendable_def ack_msg_def Let_def e ack_body test_req_def new_msg_def varint_small INT_MAX_def)
  show "length (frame proto3 (ack_msg proto3 (test_req c dat') ERR_OK ''ok'' dat)) \<le> 24"
    using sendable_head_length [OF pw.proto_wire_axioms s] assms(2)
    by (auto simp: frame_def ack_msg_def Let_def e ack_body varint_small)
qed

lemma test_ack:
  assumes "c \<in> {21, 23}" "dat \<in> {[], [1]}"
    and st: "w_objs st 0 = w_objs one_conn 0" "m_conns st = m_conns one_conn" "m_fd_conns st = m_fd_conns one_conn" "w_sends st = [Inr 10, Inl EAGAIN, Inr 100]"
  shows "\<exists>st1. send_ack test_sys (test_req c dat') ERR_OK ''ok'' dat st = Some (ERR_OK, st1) \<and> rest_of st1 = rest_of st"
proof -
  define m where "m = ack_msg proto3 (test_req c dat') ERR_OK ''ok'' dat"
  have m: "sendable proto3 m" "length (frame proto3 m) \<le> 24" using ack_sendable [OF assms(1,2)] by (simp_all add: m_def)
  have o: "w_objs st 0 = (new_connection 5 1 1000)\<lparr>c_codec := Some PROTOBUF, c_codec_type := PROTOBUF, c_state := ST_CONNECTED, c_keep_alive := 15000\<rparr>"
    using st(1) one_conn_facts(1) by simp
  have "\<exists>st'. send_to test_sys (Some 0) m st = Some (ERR_OK, st') \<and>
    wire_of 0 st' = wire_of 0 st @ out_bytes (w_objs st 0) @ frame (e_pb test_sys) m \<and> out_bytes (w_objs st' 0) = []"
    by (rule send_to_spec) (use m st in \<open>simp_all add: test_sys_facts o one_conn_facts pw.proto_wire_axioms registered_def um_find_def
      new_connection_def is_invalid_def check_new_def buf_room_new INT_MAX_def only_again_def out_bytes_def\<close>)
  then obtain st1 where "send_to test_sys (Some 0) m st = Some (ERR_OK, st1)" by blast
  moreover have "get_conn \<lparr>ft_fd = 5, ft_id = 1\<rparr> st = Some 0"
    using st(2) by (simp add: get_conn_def one_conn_facts um_find_def o new_connection_def)
  ultimately show ?thesis
    using send_to_rest [of test_sys "Some 0" m st ERR_OK st1]
    by (auto simp: send_ack_def send_to_ft_def test_sys_facts m_def test_req_def new_msg_def)
qed

theorem tell_worker_files_under_own_id_witness:
  "\<exists>st'. on_req_tell_worker test_sys (test_req 23 [9]) (one_conn\<lparr>m_worker_index := 1\<rparr>) = Some (ERR_OK, st') \<and>
     um_find (m_node_conns st') ''127.0.0.1:3344.1'' = Some 0"
proof -
  define st where "st = one_conn\<lparr>m_worker_index := 1\<rparr>"
  have s: "w_objs st 0 = w_objs one_conn 0" "m_conns st = m_conns one_conn" "m_fd_conns st = m_fd_conns one_conn"
    "w_sends st = [Inr 10, Inl EAGAIN, Inr 100]" by (simp_all add: st_def one_conn_facts)
  define tn where "tn = \<lparr>tn_node_type = ''gate'', tn_ip = ''127.0.0.1'', tn_port = 3344, tn_worker_index = 1\<rparr>"
  have c: "m_config st = test_conf" by (simp add: st_def one_conn_def test_net_defs Let_def)
  have tn: "self_target st = Some tn"
    by (simp add: self_target_def node_port_def cf_int_def c test_conf_def node_type_def node_host_def tn_def
        str_to_int_def stoi_def is_space_def is_digit_def num_of_def INT_MAX_def Let_def) (simp add: st_def)
  have i: "target_id tn = ''127.0.0.1:3344.1''" 
    by (simp add: target_id_def tn_def format_nodes_id_def c_str_def dec_def dec_nat.simps digit_def snprintf_def char_of_def bit_0)
  obtain st1 where st1: "send_ack test_sys (test_req 23 [9]) ERR_OK ''ok'' [1] st = Some (ERR_OK, st1)" "rest_of st1 = rest_of st"
    using test_ack [of 23 "[1]" st "[9]"] s by auto
  define st' where "st' = snd (add_client_conn (target_id tn) (m_ft (test_req 23 [9])) (snd (update_conn_state (m_ft (test_req 23 [9])) ST_CONNECTED st1)))"
  have r: "on_req_tell_worker test_sys (test_req 23 [9]) st = Some (ERR_OK, st')"
    using st1(1) tn by (simp add: on_req_tell_worker_def test_sys_facts st'_def req_data_def)
      (simp add: test_req_def tn_def)
  have f: "c_ft (w_objs st1 0) = \<lparr>ft_fd = 5, ft_id = 1\<rparr>" "m_conns st1 = [(1, 0)]"
    using st1(2) s by (auto simp: rest_of_def recv_side_def one_conn_facts new_connection_def fun_eq_iff dest: spec [of _ 0])
  have "get_conn (m_ft (test_req 23 [9])) st' = Some 0"
    by (simp add: st'_def add_client_conn_def update_conn_state_def get_conn_def f um_find_def test_req_def new_msg_def set_obj_def)
  with tell_worker_files_under_own_id [OF r _ tn this] r show ?thesis
    unfolding st_def i by (auto simp: test_sys_facts req_data_def test_req_def new_msg_def)
qed

lemma transfer_loop_done:
  "\<exists>st' ts. transfer_loop env (replicate n (Some EAGAIN) @ None # rest) channel ch st = Some (ERR_TRANSFER_FD_DONE, st') \<and>
     w_transfers st' = ts @ [(channel, channel_msg ch)]"
  by (induction n arbitrary: st) (auto simp: write_channel_def EAGAIN_def ERR_OK_def)



end
