(* ===== verification/ModuleMgr.thy ===== *)
theory ModuleMgr
  imports SysCmd
begin

text \<open>
  Loadable modules and the routing of application requests (\<^verbatim>\<open>src/src/core/module_mgr.h\<close>,
  \<^verbatim>\<open>module_mgr.cpp\<close>, \<^verbatim>\<open>module.h\<close>). A module's \<^verbatim>\<open>handle_request\<close> comes from a shared object: it is a function on
  the state of the network. What the dynamic loader answers is an argument. \<open>None\<close> is undefined
  behaviour: a null pointer followed after a failed \<^verbatim>\<open>dlclose\<close>, or the destructor of a module whose
  code has been unmapped.
\<close>

type_synonym handler = "msg \<Rightarrow> net \<Rightarrow> (int \<times> net) option"

record module =
  mo_name :: string
  mo_so_path :: string
  mo_so_handle :: nat
  mo_handle_request :: handler

type_synonym modules = "(string, module) umap"

text \<open>What loading a file does: \<^verbatim>\<open>dlopen\<close>'s handle, the object \<^verbatim>\<open>create\<close> makes (if the symbol exists) and
  whether its \<^verbatim>\<open>init\<close> succeeds, and whether \<^verbatim>\<open>dlclose\<close> reports success.\<close>

record loader =
  ld_access :: "string \<Rightarrow> bool"
  ld_dlopen :: "string \<Rightarrow> nat option"
  ld_create :: "nat \<Rightarrow> handler option"
  ld_init :: "nat \<Rightarrow> bool"
  ld_dlclose :: "nat \<Rightarrow> bool"
  ld_unmapped :: "nat \<Rightarrow> bool"

definition MODULE_DIR :: string where
  "MODULE_DIR = ''/modules/''"

definition get_module :: "string \<Rightarrow> modules \<Rightarrow> module option" where
  "get_module name ms = List.find (\<lambda>m. mo_name m = name) (map snd ms)"

definition load_so :: "loader \<Rightarrow> string \<Rightarrow> string \<Rightarrow> modules \<Rightarrow> (bool \<times> modules) option" where
  "load_so ld name path ms =
     (if get_module name ms \<noteq> None then Some (False, ms)
      else case ld_dlopen ld path of
          None \<Rightarrow> Some (False, ms)
        | Some h \<Rightarrow>
            (case ld_create ld h of
               None \<Rightarrow> if ld_dlclose ld h then Some (False, ms) else None
             | Some f \<Rightarrow>
                 if \<not> ld_init ld h then Some (False, ms)
                 else Some (True, um_put name \<lparr>mo_name = name, mo_so_path = path, mo_so_handle = h, mo_handle_request = f\<rparr> ms)))"

text \<open>The names of the \<^verbatim>\<open>modules\<close> array of the configuration, in order.\<close>

fun modules_init :: "loader \<Rightarrow> string \<Rightarrow> string list \<Rightarrow> modules \<Rightarrow> (bool \<times> modules) option" where
  "modules_init ld work_path [] ms = Some (True, ms)"
| "modules_init ld work_path (name # names) ms =
     (let path = work_path @ MODULE_DIR @ name
      in if \<not> ld_access ld path then Some (False, ms)
         else do {
           (ok, ms1) \<leftarrow> load_so ld name path ms;
           if \<not> ok then Some (False, ms1) else modules_init ld work_path names ms1
         })"

text \<open>The object is deleted after its shared object was closed.\<close>

definition unload_so :: "loader \<Rightarrow> string \<Rightarrow> modules \<Rightarrow> (bool \<times> modules) option" where
  "unload_so ld name ms =
     (case get_module name ms of
        None \<Rightarrow> Some (False, ms)
      | Some m \<Rightarrow> if ld_unmapped ld (mo_so_handle m) then None else Some (True, um_erase (mo_name m) ms))"

definition reload_so :: "loader \<Rightarrow> string \<Rightarrow> string \<Rightarrow> modules \<Rightarrow> (bool \<times> modules) option" where
  "reload_so ld work_path name ms =
     (let path = work_path @ MODULE_DIR @ name
      in if \<not> ld_access ld path then Some (False, ms)
         else do {
           ms1 \<leftarrow> (if get_module name ms \<noteq> None then map_option snd (unload_so ld name ms) else Some ms);
           load_so ld name path ms1
         })"

definition modules_destroy :: "loader \<Rightarrow> modules \<Rightarrow> modules option" where
  "modules_destroy ld ms = (if list_ex (\<lambda>e. ld_unmapped ld (mo_so_handle (snd e))) ms then None else Some [])"

fun route_request :: "module list \<Rightarrow> msg \<Rightarrow> int \<Rightarrow> net \<Rightarrow> (int \<times> net) option" where
  "route_request [] req ret st = Some (ret, st)"
| "route_request (m # ms) req ret st = do {
     (ret1, st1) \<leftarrow> mo_handle_request m req st;
     if ret1 \<noteq> ERR_UNKOWN_CMD then Some (ret1, st1) else route_request ms req ret1 st1
   }"

definition handle_request :: "modules \<Rightarrow> msg \<Rightarrow> net \<Rightarrow> (int \<times> net) option" where
  "handle_request ms req st = route_request (map snd ms) req ERR_UNKOWN_CMD st"

text \<open>\<^verbatim>\<open>REGISTER_HANDLER\<close>: a module looks its command up and falls back to \<^verbatim>\<open>filter_request\<close>.\<close>

definition module_handle_request :: "(int, handler) umap \<Rightarrow> handler \<Rightarrow> handler" where
  "module_handle_request cmd_funcs filter_request req st =
     (case um_find cmd_funcs (sint (cmd (m_msg_head req))) of
        None \<Rightarrow> filter_request req st
      | Some f \<Rightarrow> f req st)"

section \<open>Invariant\<close>

definition modules_ok :: "modules \<Rightarrow> bool" where
  "modules_ok ms \<longleftrightarrow> um_ok ms \<and> (\<forall>k m. um_find ms k = Some m \<longrightarrow> mo_name m = k)"

lemma um_find_mem: "um_ok m \<Longrightarrow> um_find m k = Some v \<longleftrightarrow> (k, v) \<in> set m"
  by (simp add: um_ok_def um_find_def)

lemma get_module_find:
  assumes "modules_ok ms"
  shows "get_module name ms = um_find ms name"
proof -
  have ok: "um_ok ms" and n: "\<And>k m. um_find ms k = Some m \<Longrightarrow> mo_name m = k" using assms by (auto simp: modules_ok_def)
  show ?thesis
  proof (cases "get_module name ms")
    case None
    then have "\<forall>m \<in> snd ` set ms. mo_name m \<noteq> name" by (simp add: get_module_def find_None_iff)
    then have "um_find ms name \<noteq> Some m" for m using n [of name m] um_find_mem [OF ok, of name m] by force
    then show ?thesis using None by (cases "um_find ms name") auto
  next
    case (Some m)
    then have "mo_name m = name" "m \<in> set (map snd ms)"
      by (auto simp: get_module_def find_Some_iff in_set_conv_nth simp del: set_map)
    then obtain k where "(k, m) \<in> set ms" by auto
    with n [of k m] um_find_mem [OF ok, of k m] \<open>mo_name m = name\<close> Some show ?thesis by simp
  qed
qed

lemma load_so_ok: "modules_ok ms \<Longrightarrow> load_so ld name path ms = Some (r, ms') \<Longrightarrow> modules_ok ms'"
  by (auto simp: load_so_def modules_ok_def um_find_put um.ok_put split: if_splits option.splits)

lemma unload_so_ok: "modules_ok ms \<Longrightarrow> unload_so ld name ms = Some (r, ms') \<Longrightarrow> modules_ok ms'"
  by (auto simp: unload_so_def modules_ok_def um_find_erase um.ok_erase split: if_splits option.splits)

section \<open>Properties\<close>

text \<open>\<^verbatim>\<open>Module::filter_request\<close> unless a module overrides it.\<close>

definition no_filter :: handler where
  "no_filter req st = Some (ERR_UNKOWN_CMD, st)"

text \<open>A module that \<^verbatim>\<open>REGISTER_HANDLER\<close> made from a table of commands.\<close>

definition serves :: "module \<Rightarrow> (int, handler) umap \<Rightarrow> bool" where
  "serves m tbl \<longleftrightarrow> mo_handle_request m = module_handle_request tbl no_filter"

lemma route_none:
  assumes "\<forall>m \<in> set ms. \<exists>tbl. serves m tbl \<and> um_find tbl (sint (cmd (m_msg_head req))) = None"
  shows "route_request ms req ERR_UNKOWN_CMD st = Some (ERR_UNKOWN_CMD, st)"
  using assms by (induction ms) (auto simp: serves_def module_handle_request_def no_filter_def)

lemma route_owner:
  assumes "m \<in> set ms" "serves m tbl" "um_find tbl (sint (cmd (m_msg_head req))) = Some f"
    and "f req st = Some (r, st')" "r \<noteq> ERR_UNKOWN_CMD"
    and "\<forall>m' \<in> set ms. m' \<noteq> m \<longrightarrow> (\<exists>tbl'. serves m' tbl' \<and> um_find tbl' (sint (cmd (m_msg_head req))) = None)"
  shows "route_request ms req ret st = Some (r, st')"
  using assms
proof (induction ms arbitrary: ret)
  case (Cons m' ms)
  show ?case
  proof (cases "m' = m")
    case True
    with Cons.prems show ?thesis by (simp add: serves_def module_handle_request_def)
  next
    case False
    with Cons.prems(6) have "mo_handle_request m' req st = Some (ERR_UNKOWN_CMD, st)"
      by (auto simp: serves_def module_handle_request_def no_filter_def)
    with Cons False show ?thesis by simp
  qed
qed simp


definition test_module :: "string \<Rightarrow> int \<Rightarrow> module" where
  "test_module name k = \<lparr>mo_name = name, mo_so_path = [], mo_so_handle = 0,
     mo_handle_request = module_handle_request [(k, \<lambda>req st. Some (k, st))] no_filter\<rparr>"


text \<open>
  Reloading a module replaces it and leaves the others alone: when the file exists, the old shared object
  stays mapped and the new one loads, the module is found under its name with the handlers of the new file,
  every other module is what it was, and names and keys still agree.
\<close>

theorem reload_so_correct:
  assumes "modules_ok ms" "path = work_path @ MODULE_DIR @ name" "ld_access ld path"
    and "\<forall>m. um_find ms name = Some m \<longrightarrow> \<not> ld_unmapped ld (mo_so_handle m)"
    and "ld_dlopen ld path = Some h" "ld_create ld h = Some f" "ld_init ld h"
  shows "\<exists>ms'. reload_so ld work_path name ms = Some (True, ms') \<and> modules_ok ms' \<and>
    (\<forall>n. get_module n ms' = (if n = name then Some \<lparr>mo_name = name, mo_so_path = path, mo_so_handle = h, mo_handle_request = f\<rparr>
                             else get_module n ms))"
proof -
  define ms1 where "ms1 = (if um_find ms name = None then ms else um_erase name ms)"
  have "unload_so ld name ms = Some (True, ms1)" if "um_find ms name \<noteq> None"
    using that assms(1,4) by (auto simp: unload_so_def get_module_find ms1_def modules_ok_def)
  moreover have ms1: "modules_ok ms1" "um_find ms1 n = (if n = name then None else um_find ms n)" for n
    using assms(1) by (auto simp: ms1_def modules_ok_def um_find_erase um.ok_erase)
  ultimately have "reload_so ld work_path name ms = load_so ld name path ms1"
    using assms(1-3) by (auto simp: reload_so_def get_module_find ms1_def Let_def)
  moreover obtain ms' where l: "load_so ld name path ms1 = Some (True, ms')"
      "ms' = um_put name \<lparr>mo_name = name, mo_so_path = path, mo_so_handle = h, mo_handle_request = f\<rparr> ms1"
    using assms(5-7) ms1 by (auto simp: load_so_def get_module_find)
  moreover have "modules_ok ms'" by (rule load_so_ok [OF ms1(1) l(1)])
  ultimately show ?thesis
    using assms(1) ms1 by (auto simp: get_module_find um_find_put)
qed

theorem reload_so_correct_witness:
  "\<exists>ms'. reload_so \<lparr>ld_access = (\<lambda>_. True), ld_dlopen = (\<lambda>_. Some 2), ld_create = (\<lambda>_. Some no_filter), ld_init = (\<lambda>_. True),
      ld_dlclose = (\<lambda>_. True), ld_unmapped = (\<lambda>h. h = 9)\<rparr> ''/srv'' ''a'' [(''a'', test_module ''a'' 1001)] = Some (True, ms') \<and>
    modules_ok ms' \<and> (\<forall>n. get_module n ms' =
      (if n = ''a'' then Some \<lparr>mo_name = ''a'', mo_so_path = ''/srv/modules/a'', mo_so_handle = 2, mo_handle_request = no_filter\<rparr>
       else get_module n [(''a'', test_module ''a'' 1001)]))"
  by (rule reload_so_correct)
    (auto simp: modules_ok_def um_ok_def um_find_def MODULE_DIR_def test_module_def)

end
