(* ===== verification/Dispatch.thy ===== *)
theory Dispatch
  imports ModuleMgr
begin

text \<open>
  The receiving side of the server (\<^verbatim>\<open>src/src/core/network.cpp\<close>): the coroutines that accept connections,
  pass descriptors on and answer requests, the payload reports, and the set-up of the two kinds of
  process. Every turn of a loop takes what the kernel answers in it as an argument. Starting a coroutine
  runs it until it waits, which is \<open>e_yield\<close>, as is waiting. \<open>None\<close> is undefined behaviour, the exit of
  the process, or a send that still waits.
\<close>

section \<open>Requests\<close>

definition clear_msg :: "msg \<Rightarrow> msg" where
  "clear_msg m = m\<lparr>m_msg_head := head0, m_msg_body := body0\<rparr>"

text \<open>The loop over the messages that have arrived; the fuel bounds their number.\<close>

fun dispatch_loop :: "nat \<Rightarrow> sys_env \<Rightarrow> modules \<Rightarrow> nat \<Rightarrow> status \<Rightarrow> msg \<Rightarrow> int \<Rightarrow> net \<Rightarrow> (status \<times> int \<times> net) option" where
  "dispatch_loop 0 env ms a status m ret st = None"
| "dispatch_loop (Suc n) env ms a status m ret st =
     (if status \<noteq> OK then Some (status, ret, st)
      else do {
        (ret1, st1) \<leftarrow> (if c_is_system (w_objs st a) then handle_msg env (Some m) st else Some (ERR_UNKOWN_CMD, st));
        if ret1 \<noteq> ERR_OK \<and> ret1 \<noteq> ERR_UNKOWN_CMD then Some (status, ret1, st1)
        else if ret1 = ERR_UNKOWN_CMD \<and> \<not> is_worker st1
        then map_option (\<lambda>(_, st2). (status, ret1, st2)) (send_ack env m ERR_UNKOWN_CMD ''invalid cmd!'' [] st1)
        else do {
          (ret2, st2) \<leftarrow> (if ret1 = ERR_UNKOWN_CMD then handle_request ms m st1 else Some (ret1, st1));
          if ret2 = ERR_UNKOWN_CMD
          then map_option (\<lambda>(_, st3). (status, ret2, st3)) (send_ack env m ERR_UNKOWN_CMD ''invalid cmd!'' [] st2)
          else if ret2 \<noteq> ERR_OK then Some (status, ret2, st2)
          else do {
            (status', m', c) \<leftarrow> fetch_data (e_pb env) (clear_msg m) (w_objs st2 a);
            dispatch_loop n env ms a status' m' ret2 (set_obj a c st2)
          }
        }
      })"

definition count_read :: "connection \<Rightarrow> connection \<Rightarrow> payload \<Rightarrow> payload" where
  "count_read c c1 pl = pl\<lparr>read_cnt := read_cnt pl + word_of_int (c_read_cnt c1 - c_read_cnt c),
     read_bytes := ucast (ucast (read_bytes pl) + (c_read_bytes c1 - c_read_bytes c))\<rparr>"

text \<open>\<^verbatim>\<open>now()\<close> is called exactly when bytes were read; \<open>got\<close> is what \<^verbatim>\<open>readv\<close> answers if it is called.\<close>

definition process_tcp_msg :: "nat \<Rightarrow> sys_env \<Rightarrow> modules \<Rightarrow> int + bytes \<Rightarrow> nat \<Rightarrow> net \<Rightarrow> (int \<times> net) option" where
  "process_tcp_msg fuel env ms got a st = do {
     let c = w_objs st a;
     let (t, st_now) = net_now False st;
     (status, m, c1) \<leftarrow> conn_read (e_pb env) (e_heap env) got t (new_msg (c_ft c)) c;
     let st1 = set_obj a c1 (if c_read_cnt c1 \<noteq> c_read_cnt c then st_now else st);
     let st2 = (if status \<noteq> ERR then st1\<lparr>m_payload := count_read c c1 (m_payload st1)\<rparr> else st1);
     (status', ret, st3) \<leftarrow> dispatch_loop fuel env ms a status m ERR_OK st2;
     Some (if status' = ERR \<or> status' = CLOSED then ERR_PACKET_DECODE_FAILED else ret, st3)
   }"

definition process_http_msg :: "nat \<Rightarrow> net \<Rightarrow> (int \<times> net) option" where
  "process_http_msg a st = Some (ERR_OK, st)"

definition process_msg :: "nat \<Rightarrow> sys_env \<Rightarrow> modules \<Rightarrow> int + bytes \<Rightarrow> nat \<Rightarrow> net \<Rightarrow> (int \<times> net) option" where
  "process_msg fuel env ms got a st =
     (if is_http (w_objs st a) then process_http_msg a st else process_tcp_msg fuel env ms got a st)"

text \<open>\<^verbatim>\<open>/* check alive. */\<close> The message of a timeout calls \<^verbatim>\<open>now()\<close> once more.\<close>

definition check_alive :: "nat \<Rightarrow> net \<Rightarrow> bool \<times> net" where
  "check_alive a st =
     (if c_is_system (w_objs st a) then (True, st)
      else let (t, st1) = net_now False st
           in if t - c_active_time (w_objs st1 a) > m_keep_alive st1 then (False, snd (net_now False st1)) else (True, st1))"

text \<open>The coroutine of a connection, one answer of \<^verbatim>\<open>readv\<close> per turn: whether it has ended, and the state.\<close>

fun on_handle_requests :: "nat \<Rightarrow> sys_env \<Rightarrow> modules \<Rightarrow> (int + bytes) list \<Rightarrow> nat \<Rightarrow> net \<Rightarrow> (bool \<times> net) option" where
  "on_handle_requests fuel env ms [] a st = Some (False, st)"
| "on_handle_requests fuel env ms (got # gots) a st =
     (if \<not> is_valid_conn (ft_id (obj_ft a st)) st then Some (True, snd (close_conn_ptr (Some a) st))
      else let (alive, st1) = check_alive a st
           in if \<not> alive then Some (True, snd (close_conn_ptr (Some a) st1))
              else do {
                (ret, st2) \<leftarrow> process_msg fuel env ms got a st1;
                if ret \<noteq> ERR_OK then Some (True, snd (close_conn_ptr (Some a) st2))
                else on_handle_requests fuel env ms gots a (e_yield env st2)
              })"

section \<open>Accepting connections\<close>

text \<open>What the kernel and the coroutine pool answer in one turn of an accepting loop: the descriptor and
  its family or an error number, the socket options, and whether a coroutine could be started.\<close>

record accept_turn =
  at_accept :: "int + int \<times> int"
  at_opts :: "bool \<times> bool \<times> bool"
  at_co :: bool

text \<open>\<^verbatim>\<open>create_conn\<close> and \<^verbatim>\<open>start_co\<close> with their failure paths, which the accepting loops share.\<close>

definition serve_fd :: "sys_env \<Rightarrow> accept_turn \<Rightarrow> int \<Rightarrow> codec_type \<Rightarrow> bool \<Rightarrow> net \<Rightarrow> net" where
  "serve_fd env turn fd codec is_system st =
     (let (co, st1) = create_conn (at_opts turn) fd codec False st
      in case co of
           None \<Rightarrow> close_fd fd st1
         | Some a \<Rightarrow>
             let st2 = (if is_system then set_obj a ((w_objs st1 a)\<lparr>c_is_system := True\<rparr>) st1 else st1)
             in if at_co turn then e_yield env st2 else snd (close_conn_ptr (Some a) st2))"

definition accept_nodes_turn :: "sys_env \<Rightarrow> accept_turn \<Rightarrow> net \<Rightarrow> net" where
  "accept_nodes_turn env turn st = (case at_accept turn of
       Inl _ \<Rightarrow> e_yield env st
     | Inr (fd, _) \<Rightarrow> serve_fd env turn fd PROTOBUF True st)"

text \<open>\<^verbatim>\<open>while (max--)\<close>: the turns that are left when the loop ends, or \<open>None\<close> while it runs.\<close>

fun accept_nodes_loop :: "nat \<Rightarrow> sys_env \<Rightarrow> accept_turn list \<Rightarrow> net \<Rightarrow> (accept_turn list option \<times> net)" where
  "accept_nodes_loop 0 env turns st = (Some turns, st)"
| "accept_nodes_loop (Suc n) env [] st = (None, st)"
| "accept_nodes_loop (Suc n) env (turn # turns) st = accept_nodes_loop n env turns (accept_nodes_turn env turn st)"

definition on_handle_accept_nodes_conn :: "sys_env \<Rightarrow> accept_turn list \<Rightarrow> net \<Rightarrow> (accept_turn list option \<times> net)" where
  "on_handle_accept_nodes_conn env turns st = accept_nodes_loop (nat MAX_ACCEPTS_PER_CALL) env turns st"

definition clients_full :: "net \<Rightarrow> bool" where
  "clients_full st \<longleftrightarrow> i32 (int (length (m_conns st))) > m_max_clients st"

text \<open>One turn of the gate: whether the loop goes on, and the state. The result of the transfer is logged.\<close>

definition accept_gate_turn :: "sys_env \<Rightarrow> accept_turn \<Rightarrow> net \<Rightarrow> (bool \<times> net) option" where
  "accept_gate_turn env turn st = (case at_accept turn of
       Inl _ \<Rightarrow> Some (True, e_yield env st)
     | Inr (fd, family) \<Rightarrow>
         if \<not> is_reuseport (m_config st) then do {
           (channel_fd, d) \<leftarrow> get_next_worker_data_fd (m_worker_data_mgr st);
           let st1 = st\<lparr>m_worker_data_mgr := d\<rparr>;
           if channel_fd \<le> 0 then Some (False, st1)
           else do {
             (_, st2) \<leftarrow> transfer_loop env (w_sendmsgs st1) channel_fd
               \<lparr>ch_fd = fd, ch_family = family, ch_codec = type_num (m_gate_codec st1), ch_is_system = 0\<rparr> st1;
             Some (True, close_fd fd st2)
           }
         }
         else if clients_full st then Some (True, e_yield env (close_fd fd st))
         else Some (True, serve_fd env turn fd (m_gate_codec st) False st))"

fun on_handle_accept_gate_conn :: "sys_env \<Rightarrow> accept_turn list \<Rightarrow> net \<Rightarrow> (bool \<times> net) option" where
  "on_handle_accept_gate_conn env [] st = Some (True, st)"
| "on_handle_accept_gate_conn env (turn # turns) st = do {
     (go_on, st1) \<leftarrow> accept_gate_turn env turn st;
     if go_on then on_handle_accept_gate_conn env turns st1 else Some (False, st1)
   }"

text \<open>\<^verbatim>\<open>static_cast<Codec::TYPE>\<close> of a number; one that is no constructor selects no codec.\<close>

definition num_type :: "int \<Rightarrow> codec_type" where
  "num_type n = (if n = 1 then PROTOBUF else if n = 2 then HTTP else if n = 3 then PRIVATE else if n = 4 then COUNT else UNKNOWN)"

text \<open>One turn of the worker's loop on its channel; the variable \<open>ch\<close> lives across turns. Any error but
  \<^verbatim>\<open>EAGAIN\<close> ends the process.\<close>

definition read_transfer_turn :: "sys_env \<Rightarrow> cmsg_t \<Rightarrow> int + recvmsg_t \<Rightarrow> accept_turn \<Rightarrow> channel_t \<times> net \<Rightarrow> (channel_t \<times> net) option" where
  "read_transfer_turn env junk got turn s =
     (let (ch0, st) = s; (err, ch) = read_channel junk got ch0
      in if err \<noteq> 0 then (if err = EAGAIN then Some (ch, e_yield env st) else None)
         else if clients_full st then Some (ch, e_yield env (close_fd (ch_fd ch) st))
         else Some (ch, serve_fd env turn (ch_fd ch) (num_type (ch_codec ch)) (ch_is_system ch \<noteq> 0) st))"

fun on_handle_read_transfer_fd :: "sys_env \<Rightarrow> cmsg_t \<Rightarrow> ((int + recvmsg_t) \<times> accept_turn) list \<Rightarrow> channel_t \<times> net \<Rightarrow> (channel_t \<times> net) option" where
  "on_handle_read_transfer_fd env junk [] s = Some s"
| "on_handle_read_transfer_fd env junk ((got, turn) # turns) s = do {
     s1 \<leftarrow> read_transfer_turn env junk got turn s;
     on_handle_read_transfer_fd env junk turns s1
   }"

section \<open>Payload reports\<close>

record node_data =
  nd_zk_path :: string
  nd_node_type :: string
  nd_node_host :: string
  nd_node_port :: u32
  nd_gate_host :: string
  nd_gate_port :: u32
  nd_worker_cnt :: u32

record payload_stats =
  ps_node :: node_data
  ps_manager :: payload
  ps_workers :: "payload list"

text \<open>The counters are summed up in variables of type \<^verbatim>\<open>int\<close>.\<close>

definition payload_total :: "(payload \<Rightarrow> u32) \<Rightarrow> worker_info list \<Rightarrow> int" where
  "payload_total f ws = foldl (\<lambda>acc w. i32 (acc + uint (f (w_payload w)))) 0 ws"

definition worker_pl :: "worker_info \<Rightarrow> payload" where
  "worker_pl w = (let pl = w_payload w in if worker_index pl = 0 then pl\<lparr>worker_index := word_of_int (w_index w)\<rparr> else pl)"

definition manager_pl :: "u64 \<Rightarrow> worker_info list \<Rightarrow> net \<Rightarrow> payload" where
  "manager_pl t ws st =
     \<lparr>worker_index = word_of_int (m_worker_index st), cmd_cnt = word_of_int (payload_total cmd_cnt ws),
      conn_cnt = word_of_int (payload_total conn_cnt ws + int (length (m_conns st))),
      read_cnt = word_of_int (payload_total read_cnt ws) + read_cnt (m_payload st),
      write_cnt = word_of_int (payload_total write_cnt ws) + write_cnt (m_payload st),
      read_bytes = word_of_int (payload_total read_bytes ws) + read_bytes (m_payload st),
      write_bytes = word_of_int (payload_total write_bytes ws) + write_bytes (m_payload st),
      create_time = unat t\<rparr>"

text \<open>\<open>to_json\<close> is \<^verbatim>\<open>proto_to_json\<close>. The second component is what the ZooKeeper client is given.\<close>

definition report_payload_to_zookeeper :: "(payload_stats \<Rightarrow> string option) \<Rightarrow> bool \<Rightarrow> net \<Rightarrow> (bool \<times> string option \<times> net) option" where
  "report_payload_to_zookeeper to_json has_zk st =
     (if \<not> is_manager st then Some (False, None, st)
      else do {
        port \<leftarrow> node_port st;
        gate_port \<leftarrow> cf_int ''gate_port'' (m_config st);
        ws \<leftarrow> those (map (\<lambda>e. deref_info (m_worker_data_mgr st) (snd e)) (m_workers (m_worker_data_mgr st)));
        let node = \<lparr>nd_zk_path = m_my_zk_node (m_node_table st), nd_node_type = node_type st, nd_node_host = node_host st,
          nd_node_port = word_of_int port, nd_gate_host = cf_str (m_config st) ''gate_host'', nd_gate_port = word_of_int gate_port,
          nd_worker_cnt = of_nat (length ws)\<rparr>;
        let (t, st1) = net_now False st;
        let st2 = st1\<lparr>m_payload := payload0\<rparr>;
        case to_json \<lparr>ps_node = node, ps_manager = manager_pl t ws st, ps_workers = map worker_pl ws\<rparr> of
          None \<Rightarrow> Some (False, None, st2)
        | Some json \<Rightarrow> Some (True, if has_zk then Some json else None, st2)
      })"

text \<open>The result of \<^verbatim>\<open>send_payload_to_manager\<close> is an error code; the function reads it as a \<^verbatim>\<open>bool\<close>.\<close>

definition report_payload_to_manager :: "sys_env \<Rightarrow> net \<Rightarrow> (bool \<times> net) option" where
  "report_payload_to_manager env st =
     (if \<not> is_worker st then Some (False, st)
      else let (t, st1) = net_now False st;
               pl = (m_payload st)\<lparr>worker_index := word_of_int (m_worker_index st), cmd_cnt := 0,
                      conn_cnt := of_nat (length (m_conns st) + length (m_node_conns st)), create_time := unat t\<rparr>
           in map_option (\<lambda>(ret, st2). (ret \<noteq> 0, st2\<lparr>m_payload := payload0\<rparr>))
                (send_payload_to_manager env pl (st1\<lparr>m_payload := pl\<rparr>)))"

section \<open>Set-up\<close>

text \<open>What the world answers while a process starts: the initialisation of the parts that are not modelled
  here, \<^verbatim>\<open>anet_tcp_server\<close> and \<^verbatim>\<open>anet_no_block\<close> of a listening socket, the socket options, the coroutine
  pool and the limit on open files.\<close>

record startup =
  su_zk :: bool
  su_modules :: bool
  su_mysql :: bool
  su_redis :: bool
  su_session :: bool
  su_server :: "string \<Rightarrow> int \<Rightarrow> bool \<Rightarrow> int option"
  su_opts :: "int \<Rightarrow> bool \<times> bool \<times> bool"
  su_co :: "nat \<Rightarrow> bool"
  su_getrl :: "int + nat"
  su_setrl :: "nat \<Rightarrow> int option"

definition load_public :: "startup \<Rightarrow> net \<Rightarrow> (bool \<times> net) option" where
  "load_public su st = do {
     (ok, st1) \<leftarrow> net_load_config st;
     if \<not> ok then Some (False, st1)
     else Some (su_session su, st1\<lparr>m_node_table := new_nodes DEFAULT_NODE_CNT FNV1A_64\<rparr>)
   }"

definition load_worker_data_mgr :: "net \<Rightarrow> bool \<times> net" where
  "load_worker_data_mgr st = (True, st\<lparr>m_worker_data_mgr := new_worker_data\<rparr>)"

definition listen_to_port :: "startup \<Rightarrow> string \<Rightarrow> int \<Rightarrow> bool \<Rightarrow> net \<Rightarrow> int \<times> net" where
  "listen_to_port su host port reuse st = (case su_server su host port reuse of
       None \<Rightarrow> (- 1, st)
     | Some fd \<Rightarrow> if \<not> fst (su_opts su fd) then (- 1, close_fd fd st) else (fd, st))"

text \<open>A listening socket becomes a connection and gets its coroutine; \<open>k\<close> counts the coroutines started.\<close>

definition listen_conn :: "sys_env \<Rightarrow> startup \<Rightarrow> nat \<Rightarrow> int \<Rightarrow> codec_type \<Rightarrow> net \<Rightarrow> bool \<times> net" where
  "listen_conn env su k fd codec st =
     (let (co, st1) = create_conn (su_opts su fd) fd codec False st
      in case co of
           None \<Rightarrow> (False, close_fd fd st1)
         | Some a \<Rightarrow> if su_co su k then (True, e_yield env st1) else (False, snd (close_conn_ptr (Some a) st1)))"

definition listen_gate :: "sys_env \<Rightarrow> startup \<Rightarrow> nat \<Rightarrow> bool \<Rightarrow> net \<Rightarrow> (bool \<times> net) option" where
  "listen_gate env su k reuse st =
     (let host = cf_str (m_config st) ''gate_host''
      in if host = [] then Some (True, st)
         else do {
           port \<leftarrow> cf_int ''gate_port'' (m_config st);
           let (fd, st1) = listen_to_port su host port reuse st;
           if fd = - 1 then Some (False, st1)
           else Some (listen_conn env su k fd (m_gate_codec st1) (st1\<lparr>m_gate_fd := fd\<rparr>))
         })"

definition listen_node :: "sys_env \<Rightarrow> startup \<Rightarrow> net \<Rightarrow> (bool \<times> net) option" where
  "listen_node env su st =
     (let host = cf_str (m_config st) ''node_host''
      in if host = [] then Some (True, st)
         else do {
           port \<leftarrow> cf_int ''node_port'' (m_config st);
           let (fd, st1) = listen_to_port su host port False st;
           if fd = - 1 then Some (False, st1)
           else Some (listen_conn env su 0 fd PROTOBUF (st1\<lparr>m_node_fd := fd\<rparr>))
         })"

definition create_m :: "sys_env \<Rightarrow> startup \<Rightarrow> sys_config option \<Rightarrow> net \<Rightarrow> (bool \<times> net) option" where
  "create_m env su cfo st = (case cfo of
       None \<Rightarrow> Some (False, st)
     | Some cf \<Rightarrow> do {
         (ok, st1) \<leftarrow> load_public su (st\<lparr>m_config := cf\<rparr>);
         if \<not> ok then Some (False, st1)
         else let st2 = snd (load_worker_data_mgr st1)
              in if is_open_zookeeper cf \<and> \<not> su_zk su then Some (False, st2)
                 else do {
                   (ok3, st3) \<leftarrow> listen_node env su st2;
                   if \<not> ok3 then Some (False, st3)
                   else if is_reuseport cf then Some (True, st3)
                   else listen_gate env su 1 False st3
                 }
       })"

text \<open>The two ends of a worker's channel in the manager; the descriptors get their identities.\<close>

definition init_manager_channel :: "sys_env \<Rightarrow> startup \<Rightarrow> fd_t \<Rightarrow> fd_t \<Rightarrow> net \<Rightarrow> bool \<times> fd_t \<times> fd_t \<times> net" where
  "init_manager_channel env su fctrl fdata st =
     (if \<not> is_manager st then (False, fctrl, fdata, st)
      else case create_conn (su_opts su (ft_fd fctrl)) (ft_fd fctrl) PROTOBUF True st of
          (None, st1) \<Rightarrow> (False, fctrl, fdata, close_fd (ft_fd fctrl) st1)
        | (Some ac, st1) \<Rightarrow>
            (case create_conn (su_opts su (ft_fd fdata)) (ft_fd fdata) PROTOBUF True st1 of
               (None, st2) \<Rightarrow> (False, fctrl, fdata, snd (close_conn_ptr (Some ac) (close_fd (ft_fd fdata) st2)))
             | (Some ad, st2) \<Rightarrow>
                 let fc = obj_ft ac st2; fd = obj_ft ad st2;
                     st3 = st2\<lparr>m_manager_fctrl := fc, m_manager_fdata := fd\<rparr>
                 in if su_co su 0 then (True, fc, fd, e_yield env st3)
                    else (False, fc, fd, snd (close_conn_ptr (Some ad) (snd (close_conn_ptr (Some ac) st3))))))"

text \<open>The worker's ends of its channel, and their two coroutines.\<close>

definition worker_channel :: "sys_env \<Rightarrow> startup \<Rightarrow> int \<Rightarrow> int \<Rightarrow> net \<Rightarrow> bool \<times> net" where
  "worker_channel env su ctrl_fd data_fd st =
     (case create_conn (su_opts su ctrl_fd) ctrl_fd PROTOBUF True st of
        (None, st1) \<Rightarrow> (False, st1)
      | (Some ac, st1) \<Rightarrow>
          (case create_conn (su_opts su data_fd) data_fd PROTOBUF True st1 of
             (None, st2) \<Rightarrow> (False, st2)
           | (Some ad, st2) \<Rightarrow>
               let st3 = st2\<lparr>m_manager_fctrl := obj_ft ac st2, m_manager_fdata := obj_ft ad st2\<rparr>
               in if \<not> su_co su 0 then (False, snd (close_conn_ptr (Some ad) st3))
                  else let st4 = e_yield env st3
                       in if \<not> su_co su 1 then (False, snd (close_conn_ptr (Some ac) st4)) else (True, e_yield env st4)))"

definition create_w :: "sys_env \<Rightarrow> startup \<Rightarrow> sys_config option \<Rightarrow> int \<Rightarrow> int \<Rightarrow> int \<Rightarrow> net \<Rightarrow> (bool \<times> net) option" where
  "create_w env su cfo ctrl_fd data_fd index st = (case cfo of
       None \<Rightarrow> Some (False, st)
     | Some cf \<Rightarrow> do {
         (ok, st1) \<leftarrow> load_public su (st\<lparr>m_config := cf, m_worker_index := index\<rparr>);
         if \<not> (ok \<and> su_modules su \<and> su_mysql su \<and> su_redis su) then Some (False, st1)
         else do {
           (ok2, st2) \<leftarrow> ensure_files_limit (su_getrl su) (su_setrl su) st1;
           if \<not> ok2 then Some (False, st2)
           else let (ok3, st3) = worker_channel env su ctrl_fd data_fd st2
                in if \<not> ok3 then Some (False, st3)
                   else if is_reuseport cf then listen_gate env su 2 True st3
                   else Some (True, st3)
         }
       })"

declare dispatch_loop.simps [simp del] on_handle_requests.simps [simp del]

section \<open>Messages reach the handlers\<close>

lemma fetch_data_keeps: "fetch_data p m c = Some (s, m', c') \<Longrightarrow> c_is_system c' = c_is_system c \<and> c_ft c' = c_ft c"
  by (auto simp: fetch_data_def decode_proto_def split: if_splits option.splits)

lemma conn_read_fd_keeps: "conn_read_fd h got t c = Some (s, c') \<Longrightarrow> c_is_system c' = c_is_system c \<and> c_ft c' = c_ft c"
  by (auto simp: conn_read_fd_def Let_def split: if_splits bind_splits)

lemma decode_proto_keeps: "decode_proto p m c = Some (s, m', c') \<Longrightarrow> c_is_system c' = c_is_system c \<and> c_ft c' = c_ft c"
  by (auto simp: decode_proto_def split: if_splits option.splits)

lemma conn_read_keeps: "conn_read p h got t m c = Some (s, m', c') \<Longrightarrow> c_is_system c' = c_is_system c \<and> c_ft c' = c_ft c"
  by (auto simp: conn_read_def split: if_splits bind_splits
      dest!: fetch_data_keeps conn_read_fd_keeps decode_proto_keeps)

text \<open>A record of what the handlers of a worker were given: \<open>seen\<close> reads it off the state, every handler
  succeeds and adds the message it was given, and nothing but a handler changes it.\<close>

definition recorder :: "modules \<Rightarrow> nat \<Rightarrow> (msg \<Rightarrow> 'x) \<Rightarrow> (net \<Rightarrow> 'x list) \<Rightarrow> bool" where
  "recorder ms a obs seen \<longleftrightarrow>
     (\<forall>m st. is_worker st \<longrightarrow> (\<exists>st'. handle_request ms m st = Some (ERR_OK, st') \<and> w_objs st' a = w_objs st a \<and> is_worker st' \<and>
        seen st' = seen st @ [obs m])) \<and>
     (\<forall>st c pl. seen (set_obj a c st) = seen st \<and> seen (st\<lparr>m_payload := pl\<rparr>) = seen st \<and> seen (snd (net_now False st)) = seen st)"

lemma dispatch_one:
  assumes rec: "recorder ms a obs seen" and w: "\<not> c_is_system (w_objs st a)" "is_worker st" and f: "0 < fuel"
  shows "\<exists>st1. w_objs st1 a = w_objs st a \<and> is_worker st1 \<and> seen st1 = seen st @ [obs m] \<and>
    dispatch_loop fuel env ms a OK m ret st = do {
      (status', m', c) \<leftarrow> fetch_data (e_pb env) (clear_msg m) (w_objs st a);
      dispatch_loop (fuel - 1) env ms a status' m' ERR_OK (set_obj a c st1)
    }"
proof -
  obtain st1 where "handle_request ms m st = Some (ERR_OK, st1)" "w_objs st1 a = w_objs st a" "is_worker st1" "seen st1 = seen st @ [obs m]"
    using rec w(2) unfolding recorder_def by blast
  moreover have "ERR_OK \<noteq> ERR_UNKOWN_CMD" by (simp add: err_defs)
  ultimately show ?thesis using w f by (intro exI [of _ st1], cases fuel) (auto simp: dispatch_loop.simps)
qed

lemma dispatch_frames:
  assumes p: "proto_wire (e_pb env)" and rec: "recorder ms a obs seen"
    and last: "pre @ post = frame (e_pb env) mx" "post \<noteq> []" "sendable (e_pb env) mx"
  shows "conn_fetch_ok n (w_objs st a) \<Longrightarrow> \<not> c_is_system (w_objs st a) \<Longrightarrow> is_worker st \<Longrightarrow>
    in_bytes (w_objs st a) = concat (map (frame (e_pb env)) fs) @ pre \<Longrightarrow> list_all (sendable (e_pb env)) fs \<Longrightarrow>
    length fs + 1 < fuel \<Longrightarrow>
    \<exists>ms' st'. dispatch_loop fuel env ms a OK m ret st = Some (PAUSE, ERR_OK, st') \<and> seen st' = seen st @ obs m # map obs ms' \<and>
      list_all2 same_content ms' fs \<and> in_bytes (w_objs st' a) = pre \<and> conn_room n (w_objs st' a)"
proof (induction fs arbitrary: st m ret fuel)
  note fr = proto_wire.conn_is_framing [OF p, of n]
  have s: "seen (set_obj a c st) = seen st" for c st using rec by (simp add: recorder_def)
  {
    case Nil
    then obtain st1 where st1: "w_objs st1 a = w_objs st a" "seen st1 = seen st @ [obs m]"
      "dispatch_loop fuel env ms a OK m ret st = do {
          (status', m', c) \<leftarrow> fetch_data (e_pb env) (clear_msg m) (w_objs st a);
          dispatch_loop (fuel - 1) env ms a status' m' ERR_OK (set_obj a c st1)
        }" using dispatch_one [OF rec Nil(2,3), of fuel m env ret] by auto
    from Nil last framing.dec_partial [OF fr Nil(1) last(3), of post "clear_msg m"] obtain m' where
      "fetch_data (e_pb env) (clear_msg m) (w_objs st a) = Some (PAUSE, m', w_objs st a)" by (auto simp: fetch_step_def)
    moreover obtain k where "fuel - 1 = Suc k" using Nil(6) by (cases "fuel - 1") auto
    ultimately have "dispatch_loop fuel env ms a OK m ret st = Some (PAUSE, ERR_OK, set_obj a (w_objs st a) st1)"
      by (simp add: st1(3) dispatch_loop.simps)
    then show ?case using st1(2) Nil s [of "w_objs st a" st1]
      by (intro exI [of _ "[]"] exI [of _ "set_obj a (w_objs st a) st1"]) (simp add: set_obj_def conn_fetch_ok_def)
  next
    case (Cons f fs)
    then obtain st1 where st1: "w_objs st1 a = w_objs st a" "is_worker st1" "seen st1 = seen st @ [obs m]"
      "dispatch_loop fuel env ms a OK m ret st = do {
          (status', m', c) \<leftarrow> fetch_data (e_pb env) (clear_msg m) (w_objs st a);
          dispatch_loop (fuel - 1) env ms a status' m' ERR_OK (set_obj a c st1)
        }" using dispatch_one [OF rec Cons.prems(2,3), of fuel m env ret] by auto
    from Cons.prems framing.dec_frame [OF fr Cons.prems(1), of f _ "clear_msg m"] obtain c' m' where
      c': "fetch_data (e_pb env) (clear_msg m) (w_objs st a) = Some (OK, m', c')" "same_content m' f" "conn_fetch_ok n c'"
        "in_bytes c' = concat (map (frame (e_pb env)) fs) @ pre" by (auto simp: fetch_step_def)
    define st2 where "st2 = set_obj a c' st1"
    have st2: "w_objs st2 a = c'" "is_worker st2" "seen st2 = seen st @ [obs m]"
      using st1(2,3) s [of c' st1] by (simp_all add: st2_def set_obj_def is_worker_def)
    have "\<not> c_is_system c'" "length fs + 1 < fuel - 1" using fetch_data_keeps [OF c'(1)] Cons.prems(2,6) by simp_all
    with Cons.IH [of st2 "fuel - 1" m' ERR_OK] Cons.prems(5) c' st2 obtain ms' st' where
      "dispatch_loop (fuel - 1) env ms a OK m' ERR_OK st2 = Some (PAUSE, ERR_OK, st')"
      "seen st' = seen st2 @ obs m' # map obs ms'" "list_all2 same_content ms' fs" "in_bytes (w_objs st' a) = pre" "conn_room n (w_objs st' a)"
      by auto
    then show ?case using st1(4) st2(3) c'(1,2)
      by (intro exI [of _ "m' # ms'"] exI [of _ st']) (simp add: st2_def)
  }
qed

lemma process_delivers:
  assumes p: "proto_wire (e_pb env)" and mem: "\<forall>k. \<not> fst (e_heap env) k" and rec: "recorder ms a obs seen"
    and st: "is_worker st" "\<not> c_is_system (w_objs st a)" "conn_room (length bs + n) (w_objs st a)"
    and cut: "in_bytes (w_objs st a) @ rest = frame (e_pb env) my" "rest \<noteq> []" "sendable (e_pb env) my"
    and bs: "bs \<noteq> []" "length bs \<le> extrabuf_size"
    and new: "in_bytes (w_objs st a) @ bs = concat (map (frame (e_pb env)) fs) @ pre" "pre @ post = frame (e_pb env) mx" "post \<noteq> []"
      "sendable (e_pb env) mx" "list_all (sendable (e_pb env)) fs"
    and fuel: "length fs + 1 < fuel"
  shows "\<exists>ms' st'. process_tcp_msg fuel env ms (Inr bs) a st = Some (ERR_OK, st') \<and> seen st' = seen st @ map obs ms' \<and>
    list_all2 same_content ms' fs \<and> in_bytes (w_objs st' a) = pre \<and> conn_room n (w_objs st' a)"
proof -
  obtain t sn where now: "net_now False st = (t, sn)" by force
  define m0 where "m0 = new_msg (c_ft (w_objs st a))"
  obtain m1 c1 where c1: "conn_fetch_ok n c1" "in_bytes c1 = in_bytes (w_objs st a) @ bs"
    and r: "conn_read (e_pb env) (e_heap env) (Inr bs) t m0 (w_objs st a) = map_option (\<lambda>(st, c', m'). (st, m', c')) (fetch_step (e_pb env) c1 m1)"
    using conn_read_drained [OF p st(3) mem cut bs] by blast
  have s: "seen (set_obj a c s) = seen s" "seen (s\<lparr>m_payload := pl\<rparr>) = seen s" "seen sn = seen st" for c s pl
    using rec now by (auto simp: recorder_def dest!: spec [of _ st])
  have w: "is_worker sn" using st(1) now by (auto simp: is_worker_def net_now_def Let_def)
  define st2 where "st2 q c = (let s1 = set_obj a c (if c_read_cnt c \<noteq> c_read_cnt (w_objs st a) then sn else st)
     in if q \<noteq> ERR then s1\<lparr>m_payload := count_read (w_objs st a) c (m_payload s1)\<rparr> else s1)" for q c
  have st2: "w_objs (st2 q c) a = c" "is_worker (st2 q c)" "seen (st2 q c) = seen st" for q c
    using w st(1) s by (auto simp: st2_def Let_def set_obj_def is_worker_def)
  have run: "process_tcp_msg fuel env ms (Inr bs) a st = do {
      (q, c, m) \<leftarrow> fetch_step (e_pb env) c1 m1;
      (q', ret, st3) \<leftarrow> dispatch_loop fuel env ms a q m ERR_OK (st2 q c);
      Some (if q' = ERR \<or> q' = CLOSED then ERR_PACKET_DECODE_FAILED else ret, st3)
    }" using r by (cases "fetch_step (e_pb env) c1 m1") (auto simp: process_tcp_msg_def now m0_def st2_def Let_def)
  note fr = proto_wire.conn_is_framing [OF p, of n]
  show ?thesis
  proof (cases fs)
    case Nil
    with new c1(2) framing.dec_partial [OF fr c1(1) new(4), of post m1] obtain m' where
      "fetch_step (e_pb env) c1 m1 = Some (PAUSE, c1, m')" by auto
    moreover obtain k where "fuel = Suc k" using fuel by (cases fuel) auto
    ultimately have "process_tcp_msg fuel env ms (Inr bs) a st = Some (ERR_OK, st2 PAUSE c1)"
      using run by (simp add: dispatch_loop.simps)
    then show ?thesis using st2 c1 new(1) Nil by (intro exI [of _ "[]"] exI) (auto simp: conn_fetch_ok_def)
  next
    case (Cons f fs')
    with new c1(2) framing.dec_frame [OF fr c1(1), of f _ m1] obtain c2 m2 where
      c2: "fetch_step (e_pb env) c1 m1 = Some (OK, c2, m2)" "same_content m2 f" "conn_fetch_ok n c2" "in_bytes c2 = concat (map (frame (e_pb env)) fs') @ pre"
      by auto
    have "\<not> c_is_system c2"
      using conn_read_keeps [of "e_pb env" "e_heap env" "Inr bs" t m0 "w_objs st a" OK m2 c2] r c2(1) st(2) by simp
    with dispatch_frames [OF p rec new(2-4), of n "st2 OK c2" fs' fuel m2 ERR_OK] c2 st2 new(5) fuel Cons
    obtain ms' st' where "dispatch_loop fuel env ms a OK m2 ERR_OK (st2 OK c2) = Some (PAUSE, ERR_OK, st')"
      "seen st' = seen st @ obs m2 # map obs ms'" "list_all2 same_content ms' fs'" "in_bytes (w_objs st' a) = pre" "conn_room n (w_objs st' a)"
      by auto
    then show ?thesis using c2(1,2) Cons by (intro exI [of _ "m2 # ms'"] exI [of _ st']) (simp add: run)
  qed
qed


text \<open>A module that notes the command of every request in a list of the state.\<close>

definition noting :: module where
  "noting = \<lparr>mo_name = ''m'', mo_so_path = [], mo_so_handle = 0,
     mo_handle_request = (\<lambda>m st. Some (ERR_OK, st\<lparr>w_opened := w_opened st @ [uint (cmd (m_msg_head m))]\<rparr>))\<rparr>"

lemma noting_records: "recorder [(''m'', noting)] a (\<lambda>m. uint (cmd (m_msg_head m))) w_opened"
proof -
  have "ERR_OK \<noteq> ERR_UNKOWN_CMD" by (simp add: err_defs)
  then show ?thesis by (auto simp: recorder_def handle_request_def noting_def is_worker_def set_obj_def net_now_def Let_def)
qed


section \<open>The end of a connection\<close>

lemma close_ptr_gone: "um_find (m_conns (snd (close_conn_ptr (Some a) st))) (ft_id (obj_ft a (snd (close_conn_ptr (Some a) st)))) = None"
proof (cases "um_find (m_conns st) (ft_id (obj_ft a st))")
  case None
  then show ?thesis by (simp add: close_conn_ptr_def close_conn_def obj_ft_def)
next
  case (Some b)
  then show ?thesis
    using close_conn_skel(1,7) [OF Some] by (simp add: close_conn_ptr_def obj_ft_def um_find_erase)
qed



text \<open>
  C30. An idle client is disconnected: when the clock of the network says that more than the keep-alive time
  has passed since the connection was last active, the next turn ends its coroutine without reading,
  unregisters the connection, closes its descriptor once and keeps the tables consistent.
\<close>

theorem idle_connection_closed:
  assumes "net_inv st" "um_find (m_conns st) (ft_id (obj_ft a st)) = Some a" "\<not> is_invalid (w_objs st a)"
    and "\<not> c_is_system (w_objs st a)" "fst (net_now False st) - c_active_time (w_objs st a) > m_keep_alive st"
  shows "\<exists>st'. on_handle_requests fuel env ms (got # gots) a st = Some (True, st') \<and> net_inv st' \<and>
    um_find (m_conns st') (ft_id (obj_ft a st)) = None \<and> um_find (m_fd_conns st') (ft_fd (obj_ft a st)) = None \<and>
    w_closed st' = ft_fd (obj_ft a st) # w_closed st \<and> in_bytes (w_objs st' a) = in_bytes (w_objs st a)"
proof -
  note hit = net_invD(3) [OF assms(1,2), unfolded obj_ft_def]
  define st1 where "st1 = snd (net_now False (snd (net_now False st)))"
  have st1: "skel st1 = skel st" "w_objs st1 = w_objs st" by (simp_all add: st1_def)
  then have s: "m_conns st1 = m_conns st" "m_fd_conns st1 = m_fd_conns st" "w_closed st1 = w_closed st" by (simp_all add: skel_def)
  have "is_valid_conn (ft_id (obj_ft a st)) st"
    using assms(2,3) hit by (simp add: is_valid_conn_def obj_ft_def)
  moreover have "check_alive a st = (False, st1)"
    using assms(4,5) by (auto simp: check_alive_def st1_def split_beta Let_def) (simp add: net_now_def Let_def)
  ultimately have "on_handle_requests fuel env ms (got # gots) a st = Some (True, snd (close_conn (ft_id (obj_ft a st)) st1))"
    by (simp add: on_handle_requests.simps close_conn_ptr_def obj_ft_def st1(2))
  moreover have "net_inv (snd (close_conn (ft_id (obj_ft a st)) st1))"
    by (rule close_conn_inv [OF net_inv_skel [OF st1(1) [symmetric] assms(1)]])
  moreover have f: "um_find (m_conns st1) (ft_id (obj_ft a st)) = Some a" using assms(2) s by simp
  moreover have "in_bytes (w_objs (snd (close_conn (ft_id (obj_ft a st)) st1)) a) = in_bytes (w_objs st a)"
    using f st1(2) by (simp add: close_conn_def Let_def set_obj_def close_fd_def in_bytes_def)
  moreover have "um_find (m_conns (snd (close_conn (ft_id (obj_ft a st)) st1))) (ft_id (obj_ft a st)) = None"
    by (simp add: close_conn_skel(1) [OF f] um_find_erase)
  moreover have h: "um_find (m_fd_conns st1) (ft_fd (c_ft (w_objs st1 a))) = Some (ft_id (c_ft (w_objs st1 a)))"
    using hit s st1(2) by simp
  moreover have "um_find (m_fd_conns (snd (close_conn (ft_id (obj_ft a st)) st1))) (ft_fd (obj_ft a st)) = None"
    using close_conn_skel(2) [OF f] h st1(2) by (simp add: um_find_erase obj_ft_def)
  moreover have "w_closed (snd (close_conn (ft_id (obj_ft a st)) st1)) = ft_fd (obj_ft a st) # w_closed st"
    using close_conn_skel(3) [OF f] h s st1(2) by (simp add: obj_ft_def)
  ultimately show ?thesis by blast
qed

theorem idle_connection_closed_witness:
  "\<exists>st'. on_handle_requests 1 test_sys [] [Inl EAGAIN] 0 (one_conn\<lparr>m_now_time := 20000\<rparr>) = Some (True, st') \<and> net_inv st' \<and>
    um_find (m_conns st') 1 = None \<and> um_find (m_fd_conns st') 5 = None \<and> w_closed st' = 5 # w_closed one_conn \<and>
    in_bytes (w_objs st' 0) = []"
proof -
  have m: "m_keep_alive one_conn = 15000" "m_time_index one_conn = 3"
    by (simp_all add: one_conn_def test_net_defs Let_def IO_TIMEOUT_VAL_def i32_def)
  have "net_inv one_conn"
    unfolding one_conn_def
    by (rule net_inv_skel [OF sends_skel [symmetric]], rule create_conn_inv [OF net_inv_new]) (simp_all add: new_net_def um_find_def)
  then have "net_inv (one_conn\<lparr>m_now_time := 20000\<rparr>)" by (rule net_inv_skel [rotated]) (simp add: skel_def)
  note idle = idle_connection_closed [OF this, of 0 1 test_sys "[]" "Inl EAGAIN" "[]"]
  have ft: "obj_ft 0 (one_conn\<lparr>m_now_time := 20000\<rparr>) = \<lparr>ft_fd = 5, ft_id = 1\<rparr>"
    by (simp add: one_conn_facts obj_ft_def new_connection_def)
  have "fst (net_now False (one_conn\<lparr>m_now_time := 20000\<rparr>)) = 20000" by (simp add: net_now_def m i32_def)
  then have "fst (net_now False (one_conn\<lparr>m_now_time := 20000\<rparr>)) - c_active_time (w_objs (one_conn\<lparr>m_now_time := 20000\<rparr>) 0)
      > m_keep_alive (one_conn\<lparr>m_now_time := 20000\<rparr>)" by (simp add: one_conn_facts(1) new_connection_def m)
  moreover have "in_bytes (w_objs (one_conn\<lparr>m_now_time := 20000\<rparr>) 0) = []" "w_closed (one_conn\<lparr>m_now_time := 20000\<rparr>) = w_closed one_conn"
    "\<not> is_invalid (w_objs (one_conn\<lparr>m_now_time := 20000\<rparr>) 0)" "\<not> c_is_system (w_objs (one_conn\<lparr>m_now_time := 20000\<rparr>) 0)"
    "um_find (m_conns (one_conn\<lparr>m_now_time := 20000\<rparr>)) 1 = Some 0"
    by (simp_all add: one_conn_facts new_connection_def in_bytes_def is_invalid_def um_find_def)
  ultimately show ?thesis using idle unfolding ft fd_t.simps by metis
qed

section \<open>Accepting\<close>

lemma accept_nodes_loop_ends: "n \<le> length turns \<Longrightarrow> fst (accept_nodes_loop n env turns st) = Some (drop n turns)"
proof (induction n arbitrary: turns st)
  case (Suc n)
  then obtain turn turns' where "turns = turn # turns'" by (cases turns) auto
  with Suc show ?case by simp
qed simp



section \<open>Reports\<close>

lemma word_i32: "word_of_int (i32 x) = (word_of_int x :: u32)"
proof -
  have "word_of_int (y mod 4294967296) = (word_of_int y :: u32)" for y :: int
    by (rule word_of_int_eq_iff [THEN iffD2]) (simp add: take_bit_eq_mod)
  then show ?thesis by (simp add: i32_def)
qed

lemma payload_total_word: "word_of_int (payload_total f ws) = (\<Sum>w\<leftarrow>ws. f (w_payload w))"
proof -
  have "word_of_int (foldl (\<lambda>acc w. i32 (acc + uint (f (w_payload w)))) x ws) = word_of_int x + (\<Sum>w\<leftarrow>ws. f (w_payload w))" for x
    by (induction ws arbitrary: x) (simp_all add: word_i32 algebra_simps)
  from this [of 0] show ?thesis by (simp add: payload_total_def)
qed

text \<open>
  The totals the manager reports are the sums of its own counters and of what the workers reported,
  exact modulo \<open>2\<^sup>32\<close>, although they are added up in signed variables.
\<close>

theorem payload_totals_exact:
  "cmd_cnt (manager_pl t ws st) = (\<Sum>w\<leftarrow>ws. cmd_cnt (w_payload w)) \<and>
   conn_cnt (manager_pl t ws st) = (\<Sum>w\<leftarrow>ws. conn_cnt (w_payload w)) + of_nat (length (m_conns st)) \<and>
   read_cnt (manager_pl t ws st) = (\<Sum>w\<leftarrow>ws. read_cnt (w_payload w)) + read_cnt (m_payload st) \<and>
   read_bytes (manager_pl t ws st) = (\<Sum>w\<leftarrow>ws. read_bytes (w_payload w)) + read_bytes (m_payload st) \<and>
   write_cnt (manager_pl t ws st) = (\<Sum>w\<leftarrow>ws. write_cnt (w_payload w)) + write_cnt (m_payload st) \<and>
   write_bytes (manager_pl t ws st) = (\<Sum>w\<leftarrow>ws. write_bytes (w_payload w)) + write_bytes (m_payload st)"
  by (simp add: manager_pl_def payload_total_word)

section \<open>A client from the gate to its worker\<close>

text \<open>What a successful \<^verbatim>\<open>create_conn\<close> leaves.\<close>

lemma create_conn_spec:
  assumes "opts = (True, True, True)"
  obtains c st1 where "create_conn opts fd codec False st = (Some (w_next st), st1)" "w_objs st1 (w_next st) = c"
    "c_ft c = \<lparr>ft_fd = fd, ft_id = unat (m_seq st + 1)\<rparr>" "c_state c = ST_CONNECTED" "\<not> c_is_system c"
    "c_codec c = (if codec = PROTOBUF \<or> codec = HTTP then Some codec else None)"
    "m_conns st1 = um_put (unat (m_seq st + 1)) (w_next st) (m_conns st)"
    "m_fd_conns st1 = um_put fd (unat (m_seq st + 1)) (m_fd_conns st)"
proof -
  define r where "r = create_conn opts fd codec False st"
  have "fst r = Some (w_next st)" "c_ft (w_objs (snd r) (w_next st)) = \<lparr>ft_fd = fd, ft_id = unat (m_seq st + 1)\<rparr>"
    "c_state (w_objs (snd r) (w_next st)) = ST_CONNECTED" "\<not> c_is_system (w_objs (snd r) (w_next st))"
    "c_codec (w_objs (snd r) (w_next st)) = (if codec = PROTOBUF \<or> codec = HTTP then Some codec else None)"
    "m_conns (snd r) = um_put (unat (m_seq st + 1)) (w_next st) (m_conns st)"
    "m_fd_conns (snd r) = um_put fd (unat (m_seq st + 1)) (m_fd_conns st)"
    unfolding r_def create_conn_def assms
    by (cases codec; simp add: create_conn_fd_def new_seq_def net_now_def Let_def split_beta set_obj_def conn_init_def new_connection_def)+
  then show ?thesis by (intro that [of "snd r" "w_objs (snd r) (w_next st)"]) (auto simp: r_def prod_eq_iff)
qed

lemma num_type_num: "num_type (type_num t) = t"
  by (cases t) (simp_all add: num_type_def type_num_def)



end
