(* ===== verification/Session.thy ===== *)
theory Session
  imports Timers
begin

text \<open>
  Sessions with a timeout (\<^verbatim>\<open>src/src/core/session.h\<close>, \<^verbatim>\<open>session.cpp\<close>). The manager owns a timer queue;
  its record extends the queue's record, so that the callback of a session's timer can reach the table
  of sessions. What \<^verbatim>\<open>Session::on_timeout\<close>, a virtual function, does is an argument. Keys are the
  session ids as C strings, because the table is addressed through \<^verbatim>\<open>const char* id()\<close>.
\<close>

section \<open>Data\<close>

text \<open>A session: its id and which object it is.\<close>

record session =
  m_sessid :: string
  sess_obj :: nat

record tm_session =
  ts_timer_id :: int
  ts_session :: session

record session_mgr = "(session, unit) timers" +
  m_sessions :: "(string, tm_session) umap"

definition SESSION_TIMEOUT_VAL :: nat where
  "SESSION_TIMEOUT_VAL = 5 * 1000"

definition new_session_mgr :: session_mgr where
  "new_session_mgr = timers.extend new_timers \<lparr>m_sessions = []\<rparr>"

section \<open>Operations\<close>

definition get_session :: "string \<Rightarrow> session_mgr \<Rightarrow> session option" where
  "get_session k st = map_option ts_session (um_find (m_sessions st) k)"

definition del_session :: "string \<Rightarrow> session_mgr \<Rightarrow> bool \<times> session_mgr" where
  "del_session k st =
     (case um_find (m_sessions st) k of
        None \<Rightarrow> (False, st)
      | Some ts \<Rightarrow> let st1 = snd (del_timer (ts_timer_id ts) st)
                   in (True, st1\<lparr>m_sessions := um_erase k (m_sessions st1)\<rparr>))"

text \<open>The closure that \<^verbatim>\<open>SessionMgr::add_timer\<close> registers.\<close>

definition session_cb :: "(session \<Rightarrow> session_mgr \<Rightarrow> session_mgr) \<Rightarrow> session \<Rightarrow> int \<Rightarrow> bool \<Rightarrow> unit \<Rightarrow> session_mgr \<Rightarrow> session_mgr" where
  "session_cb on_timeout s timer_id is_repeat privdata st =
     (let st1 = on_timeout s st
      in if \<not> is_repeat then snd (del_session (c_str (m_sessid s)) st1) else st1)"

definition add_session :: "nat \<Rightarrow> session option \<Rightarrow> nat \<Rightarrow> nat \<Rightarrow> session_mgr \<Rightarrow> bool \<times> session_mgr" where
  "add_session t so after repeat st =
     (case so of
        None \<Rightarrow> (False, st)
      | Some s \<Rightarrow>
          if after = 0 then (False, st)
          else case um_find (m_sessions st) (c_str (m_sessid s)) of
                 Some _ \<Rightarrow> (False, st)
               | None \<Rightarrow>
                   let (i, st1) = add_timer t (Some s) after repeat () st
                   in (True, st1\<lparr>m_sessions := um_put (c_str (m_sessid s)) \<lparr>ts_timer_id = i, ts_session = s\<rparr> (m_sessions st1)\<rparr>))"

text \<open>\<open>is_T\<close> is the dynamic cast, \<open>mk\<close> the constructor of the template argument.\<close>

definition get_alloc_session :: "(session \<Rightarrow> bool) \<Rightarrow> (string \<Rightarrow> session) \<Rightarrow> nat \<Rightarrow> string \<Rightarrow> nat \<Rightarrow> nat \<Rightarrow> session_mgr
    \<Rightarrow> session option \<times> session_mgr" where
  "get_alloc_session is_T mk t k after repeat st =
     (case Option.bind (get_session k st) (\<lambda>s. if is_T s then Some s else None) of
        Some s \<Rightarrow> (Some s, st)
      | None \<Rightarrow> let s = mk k; (done, st1) = add_session t (Some s) after repeat st
                in if \<not> done then (None, st1) else (Some s, st1))"

section \<open>Invariant\<close>

text \<open>Every session has a queued timer that calls it back, and every queued timer belongs to a session.\<close>

definition sess_ok :: "session_mgr \<Rightarrow> bool" where
  "sess_ok st \<longleftrightarrow> timers_ok st \<and> linked st \<and> um_ok (m_sessions st) \<and>
     (\<forall>k ts. um_find (m_sessions st) k = Some ts \<longrightarrow> k = c_str (m_sessid (ts_session ts)) \<and>
        (\<exists>due t. om_find (m_timers st) (due, ts_timer_id ts) = Some t \<and> tm_callback t = Some (ts_session ts))) \<and>
     (\<forall>g t. om_find (m_timers st) g = Some t \<longrightarrow> (\<exists>s. tm_callback t = Some s \<and>
        um_find (m_sessions st) (c_str (m_sessid s)) = Some \<lparr>ts_timer_id = snd g, ts_session = s\<rparr>))"

text \<open>The sessions whose one-shot timer is due.\<close>

definition expired :: "nat \<Rightarrow> session_mgr \<Rightarrow> string \<Rightarrow> bool" where
  "expired now st k \<longleftrightarrow> (\<exists>g t s. om_find (m_timers st) g = Some t \<and> fst g < now \<and> tm_repeat_time t = 0 \<and>
     tm_callback t = Some s \<and> c_str (m_sessid s) = k)"

section \<open>Lemmas\<close>

lemma sess_okD:
  assumes "sess_ok st"
  shows "timers_ok st" "linked st" "um_ok (m_sessions st)"
    "um_find (m_sessions st) k = Some ts \<Longrightarrow> k = c_str (m_sessid (ts_session ts)) \<and>
        (\<exists>due t. om_find (m_timers st) (due, ts_timer_id ts) = Some t \<and> tm_callback t = Some (ts_session ts))"
    "om_find (m_timers st) g = Some t \<Longrightarrow> \<exists>s. tm_callback t = Some s \<and>
        um_find (m_sessions st) (c_str (m_sessid s)) = Some \<lparr>ts_timer_id = snd g, ts_session = s\<rparr>"
  using assms unfolding sess_ok_def by blast+

lemma sess_okI:
  assumes "timers_ok st" "linked st" "um_ok (m_sessions st)"
    "\<And>k ts. um_find (m_sessions st) k = Some ts \<Longrightarrow> k = c_str (m_sessid (ts_session ts)) \<and>
        (\<exists>due t. om_find (m_timers st) (due, ts_timer_id ts) = Some t \<and> tm_callback t = Some (ts_session ts))"
    "\<And>g t. om_find (m_timers st) g = Some t \<Longrightarrow> \<exists>s. tm_callback t = Some s \<and>
        um_find (m_sessions st) (c_str (m_sessid s)) = Some \<lparr>ts_timer_id = snd g, ts_session = s\<rparr>"
  shows "sess_ok st"
  using assms unfolding sess_ok_def by blast

lemma m_sessions_timers [simp]:
  "timers_ok (st\<lparr>m_sessions := x\<rparr>) = timers_ok st" "linked (st\<lparr>m_sessions := x\<rparr>) = linked st"
  "m_timers (st\<lparr>m_sessions := x\<rparr>) = m_timers st"
  by (simp_all add: timers_ok_def linked_def)

lemma timers_keep_sessions [simp]:
  "m_sessions (snd (add_timer t fn after repeat privdata st)) = m_sessions st"
  "m_sessions (snd (del_timer i st)) = m_sessions st"
  by (simp_all add: add_timer_def Let_def del_timer_def split: option.split)

lemma fst_add_timer: "fst (add_timer t fn after repeat privdata st) = m_last_timer_id st + 1"
  by (simp add: add_timer_def Let_def)

lemma sess_ok_new [simp, ok_intros]: "sess_ok new_session_mgr"
  by (rule sess_okI) (simp_all add: new_session_mgr_def timers.defs new_timers_def timers_ok_def linked_def
      om_ok_def um_ok_def om_find_def um_find_def)

text \<open>Both directions of the correspondence determine each other.\<close>

lemma session_timer_unique:
  assumes "sess_ok st" "om_find (m_timers st) g = Some t" "tm_callback t = Some s"
  shows "um_find (m_sessions st) (c_str (m_sessid s)) = Some \<lparr>ts_timer_id = snd g, ts_session = s\<rparr>"
  using sess_okD(5) [OF assms(1,2)] assms(3) by auto

lemma add_session_ok:
  assumes ok: "sess_ok st" and a: "0 < after" and new: "um_find (m_sessions st) (c_str (m_sessid s)) = None"
  shows "sess_ok (snd (add_session t (Some s) after repeat st))"
proof -
  note T = sess_okD(1) [OF ok]
  define k where "k = c_str (m_sessid s)"
  define i where "i = m_last_timer_id st + 1"
  define st' where "st' = snd (add_session t (Some s) after repeat st)"
  define timer :: "(session, unit) timer" where
    "timer = \<lparr>tm_id = i, tm_after_time = after, tm_repeat_time = repeat, tm_privdata = (), tm_callback = Some s\<rparr>"
  have st': "st' = (snd (add_timer t (Some s) after repeat () st))\<lparr>m_sessions := um_put k \<lparr>ts_timer_id = i, ts_session = s\<rparr> (m_sessions st)\<rparr>"
    using a new by (simp add: st'_def add_session_def split_beta fst_add_timer k_def i_def)
  have ft: "om_find (m_timers st') g = (if g = ((t + after) mod U64, i) then Some timer else om_find (m_timers st) g)" for g
    by (simp add: st' add_timer_find [OF T] timer_def i_def)
  have fs: "um_find (m_sessions st') k' = (if k' = k then Some \<lparr>ts_timer_id = i, ts_session = s\<rparr> else um_find (m_sessions st) k')" for k'
    by (simp add: st' um.find_put [OF sess_okD(3) [OF ok]])
  have "sess_ok st'"
  proof (rule sess_okI)
    show "timers_ok st'" "linked st'" "um_ok (m_sessions st')"
      using add_timer_ok [OF T] linked_add [OF T sess_okD(2) [OF ok]] um.ok_put [OF sess_okD(3) [OF ok]]
      by (simp_all add: st')
  next
    fix k' ts
    assume k': "um_find (m_sessions st') k' = Some ts"
    show "k' = c_str (m_sessid (ts_session ts)) \<and>
        (\<exists>due t. om_find (m_timers st') (due, ts_timer_id ts) = Some t \<and> tm_callback t = Some (ts_session ts))"
    proof (cases "k' = k")
      case True
      then have "ts = \<lparr>ts_timer_id = i, ts_session = s\<rparr>" using k' by (simp add: fs)
      then show ?thesis using True by (auto simp: ft timer_def k_def)
    next
      case False
      with k' sess_okD(4) [OF ok, of k' ts] obtain due x where
        x: "k' = c_str (m_sessid (ts_session ts))" "om_find (m_timers st) (due, ts_timer_id ts) = Some x"
          "tm_callback x = Some (ts_session ts)" by (auto simp: fs)
      then have "ts_timer_id ts \<noteq> i" using queued_id [OF T, of "(due, ts_timer_id ts)"] by (simp add: i_def)
      then show ?thesis using x by (auto simp: ft)
    qed
  next
    fix g x
    assume g: "om_find (m_timers st') g = Some x"
    show "\<exists>s. tm_callback x = Some s \<and>
        um_find (m_sessions st') (c_str (m_sessid s)) = Some \<lparr>ts_timer_id = snd g, ts_session = s\<rparr>"
    proof (cases "g = ((t + after) mod U64, i)")
      case True
      then show ?thesis using g by (intro exI [of _ s]) (auto simp: ft fs timer_def k_def)
    next
      case False
      then show ?thesis using g sess_okD(5) [OF ok, of g x] new by (auto simp: ft fs k_def)
    qed
  qed
  then show ?thesis by (simp add: st'_def)
qed

text \<open>
  Removing a session, also while its timer is out of the queue (\<open>g\<close> is the position it had): the
  session and the timer go together, nothing else changes.
\<close>

lemma del_session_spec:
  assumes T: "timers_ok st" "linked st" and U: "um_ok (m_sessions st)"
    and k: "um_find (m_sessions st) k = Some ts"
  shows "um_find (m_sessions (snd (del_session k st))) k' = (if k' = k then None else um_find (m_sessions st) k')"
    "timers_ok (snd (del_session k st))" "linked (snd (del_session k st))" "um_ok (m_sessions (snd (del_session k st)))"
    "m_timers (snd (del_session k st)) = m_timers (snd (del_timer (ts_timer_id ts) st))"
    "m_last_timer_id (snd (del_session k st)) = m_last_timer_id st"
  using k del_timer_ok [OF T(1)] linked_del [OF T] um.ok_erase [OF U] um.find_erase [OF U]
  by (auto simp: del_session_def Let_def del_timer_def split: option.split)

lemma del_session_ok:
  assumes ok: "sess_ok st" and k: "um_find (m_sessions st) k = Some ts"
  shows "sess_ok (snd (del_session k st))"
proof (rule sess_okI)
  note T = sess_okD(1-3) [OF ok]
  note d = del_session_spec [OF T k]
  obtain due t where t: "om_find (m_timers st) (due, ts_timer_id ts) = Some t" "tm_callback t = Some (ts_session ts)"
    and kk: "k = c_str (m_sessid (ts_session ts))" using sess_okD(4) [OF ok k] by blast
  have l: "um_find (m_ids st) (ts_timer_id ts) = Some (due, ts_timer_id ts)" using linkedD [OF T(2)] t(1) by force
  have ft: "om_find (m_timers (snd (del_session k st))) g = (if g = (due, ts_timer_id ts) then None else om_find (m_timers st) g)" for g
    unfolding d(5) del_timer_find [OF T(1)] by (simp add: l eq_commute [of g])
  show "timers_ok (snd (del_session k st))" "linked (snd (del_session k st))" "um_ok (m_sessions (snd (del_session k st)))"
    by (rule d(2-4))+
  fix k' ts'
  assume "um_find (m_sessions (snd (del_session k st))) k' = Some ts'"
  then have k': "k' \<noteq> k" "um_find (m_sessions st) k' = Some ts'" by (simp_all add: d(1) split: if_splits)
  obtain due' t' where t': "om_find (m_timers st) (due', ts_timer_id ts') = Some t'" "tm_callback t' = Some (ts_session ts')"
    "k' = c_str (m_sessid (ts_session ts'))" using sess_okD(4) [OF ok k'(2)] by blast
  moreover have "(due', ts_timer_id ts') \<noteq> (due, ts_timer_id ts)" using t t' k'(1) kk by auto
  ultimately show "k' = c_str (m_sessid (ts_session ts')) \<and>
      (\<exists>due t. om_find (m_timers (snd (del_session k st))) (due, ts_timer_id ts') = Some t \<and> tm_callback t = Some (ts_session ts'))"
    by (metis ft)
next
  note T = sess_okD(1-3) [OF ok]
  note d = del_session_spec [OF T k]
  fix g t
  assume g: "om_find (m_timers (snd (del_session k st))) g = Some t"
  then have g': "om_find (m_timers st) g = Some t" "um_find (m_ids st) (ts_timer_id ts) \<noteq> Some g"
    unfolding d(5) del_timer_find [OF T(1)] by (simp_all split: if_splits)
  obtain s where s: "tm_callback t = Some s"
    "um_find (m_sessions st) (c_str (m_sessid s)) = Some \<lparr>ts_timer_id = snd g, ts_session = s\<rparr>"
    using sess_okD(5) [OF ok g'(1)] by blast
  have "c_str (m_sessid s) \<noteq> k"
  proof
    assume "c_str (m_sessid s) = k"
    then have "ts_timer_id ts = snd g" using s(2) k by simp
    then show False using g'(2) linkedD [OF T(2), of g] g'(1) by simp
  qed
  then show "\<exists>s. tm_callback t = Some s \<and>
      um_find (m_sessions (snd (del_session k st))) (c_str (m_sessid s)) = Some \<lparr>ts_timer_id = snd g, ts_session = s\<rparr>"
    using s by (simp add: d(1))
qed

lemma erase_unused_id_ok:
  assumes ok: "sess_ok st" and i: "\<And>g. om_find (m_timers st) g \<noteq> None \<Longrightarrow> snd g \<noteq> i"
  shows "sess_ok (st\<lparr>m_ids := um_erase i (m_ids st)\<rparr>)"
proof (rule sess_okI)
  have "linked (st\<lparr>m_ids := um_erase i (m_ids st)\<rparr>)"
    using i linkedD [OF sess_okD(2) [OF ok]] um.find_erase [OF timers_okD(2) [OF sess_okD(1) [OF ok]]]
    by (intro linkedI) simp
  then show "linked (st\<lparr>m_ids := um_erase i (m_ids st)\<rparr>)" .
qed (use sess_okD [OF ok] erase_timer_ok(3) [OF sess_okD(1) [OF ok]] in simp_all)

text \<open>A timer of a session that does nothing else on its timeout.\<close>

lemma fire_one_shot:
  fixes t :: nat
  assumes ok: "sess_ok st" and g: "om_find (m_timers st) g = Some timer" and s: "tm_callback timer = Some s"
    and r: "tm_repeat_time timer = 0"
    and i: "\<forall>g'. om_find (m_timers st) g' \<noteq> None \<longrightarrow> snd g' \<noteq> i32 (int (fst g))"
  defines "st' \<equiv> fire_timer (session_cb (\<lambda>_ x. x)) t g timer st"
  shows "sess_ok st'" "om_find (m_timers st') g' = (if g' = g then None else om_find (m_timers st) g')"
    "um_find (m_sessions st') k = (if k = c_str (m_sessid s) then None else um_find (m_sessions st) k)"
proof -
  note T = sess_okD(1-3) [OF ok]
  define c where "c = c_str (m_sessid s)"
  have k: "um_find (m_sessions st) c = Some \<lparr>ts_timer_id = snd g, ts_session = s\<rparr>"
    using session_timer_unique [OF ok g s] by (simp add: c_def)
  have l: "um_find (m_ids st) (snd g) = Some g" using linkedD [OF T(2)] g by simp
  have e: "st' = (snd (del_session c st))\<lparr>m_ids := um_erase (i32 (int (fst g))) (m_ids (snd (del_session c st)))\<rparr>"
    using r s k l by (simp add: st'_def fire_timer_def session_cb_def del_session_def del_timer_def Let_def
        om_erase_def c_def [symmetric])
  note d = del_session_spec [OF T k]
  have ft: "om_find (m_timers (snd (del_session c st))) g' = (if g' = g then None else om_find (m_timers st) g')" for g'
    unfolding d(5) del_timer_find [OF T(1)] by (simp add: l eq_commute [of g])
  show "sess_ok st'"
    unfolding e
  proof (rule erase_unused_id_ok [OF del_session_ok [OF ok k]])
    fix x
    assume "om_find (m_timers (snd (del_session c st))) x \<noteq> None"
    then show "snd x \<noteq> i32 (int (fst g))" using i unfolding ft by (metis (full_types))
  qed
  show "om_find (m_timers st') g' = (if g' = g then None else om_find (m_timers st) g')" by (simp add: e ft)
  show "um_find (m_sessions st') k = (if k = c_str (m_sessid s) then None else um_find (m_sessions st) k)"
    unfolding c_def [symmetric] by (simp add: e d(1))
qed

lemma fire_repeating:
  assumes ok: "sess_ok st" and g: "om_find (m_timers st) g = Some timer" and s: "tm_callback timer = Some s"
    and r: "tm_repeat_time timer \<noteq> 0" "t + tm_repeat_time timer < U64"
  defines "st' \<equiv> fire_timer (session_cb (\<lambda>_ x. x)) t g timer st"
  shows "sess_ok st'" "m_sessions st' = m_sessions st"
    "om_find (m_timers st') g' = (if g' = (t + tm_repeat_time timer, snd g) then Some timer
       else if g' = g then None else om_find (m_timers st) g')"
proof -
  note T = sess_okD(1-3) [OF ok]
  define ng where "ng = (t + tm_repeat_time timer, snd g)"
  have e: "st' = st\<lparr>m_timers := om_put ng timer (om_erase g (m_timers st)), m_ids := um_put (snd g) ng (m_ids st)\<rparr>"
    using r s by (simp add: st'_def fire_timer_def session_cb_def Let_def ng_def)
  have ft: "om_find (m_timers st') x = (if x = ng then Some timer else if x = g then None else om_find (m_timers st) x)" for x
    using om.find_put [OF om.ok_erase [OF timers_okD(1) [OF T(1)]]] om.find_erase [OF timers_okD(1) [OF T(1)]] by (simp add: e)
  have own: "x = g" if "om_find (m_timers st) x \<noteq> None" "snd x = snd g" for x
    using timers_okD(5) [OF T(1), of x g] that g by simp
  have "timers_ok ((st\<lparr>m_timers := om_erase g (m_timers st)\<rparr>)\<lparr>m_last_timer_id := m_last_timer_id st,
      m_timers := om_put ng timer (m_timers (st\<lparr>m_timers := om_erase g (m_timers st)\<rparr>)),
      m_ids := um_put (snd g) ng (m_ids (st\<lparr>m_timers := om_erase g (m_timers st)\<rparr>))\<rparr>)"
    unfolding ng_def
  proof (rule put_timer_ok [OF erase_timer_ok(2) [OF T(1)]])
    show "tm_id timer = snd g" "snd g \<le> m_last_timer_id st" using timers_okD(4) [OF T(1) g] by simp_all
    fix x
    assume "om_find (m_timers (st\<lparr>m_timers := om_erase g (m_timers st)\<rparr>)) x \<noteq> None"
    then show "snd x \<noteq> snd g"
      using om.find_erase [OF timers_okD(1) [OF T(1)]] own [of x] by (auto split: if_splits)
  qed simp
  then have t_ok: "timers_ok st'" by (simp add: e)
  show ss: "m_sessions st' = m_sessions st" by (simp add: e)
  show "om_find (m_timers st') g' = (if g' = (t + tm_repeat_time timer, snd g) then Some timer
       else if g' = g then None else om_find (m_timers st) g')" by (simp add: ft ng_def)
  show "sess_ok st'"
  proof (rule sess_okI [OF t_ok])
    show "linked st'"
    proof (rule linkedI)
      fix x
      assume x: "om_find (m_timers st') x \<noteq> None"
      have "um_find (m_ids st') j = (if j = snd g then Some ng else um_find (m_ids st) j)" for j
        using um.find_put [OF timers_okD(2) [OF T(1)]] by (simp add: e)
      then show "um_find (m_ids st') (snd x) = Some x"
        using x own [of x] linkedD [OF T(2), of x] by (auto simp: ft ng_def split: if_splits)
    qed
    show "um_ok (m_sessions st')" using T(3) ss by simp
  next
    fix k ts
    assume "um_find (m_sessions st') k = Some ts"
    then obtain due x where x: "k = c_str (m_sessid (ts_session ts))" "om_find (m_timers st) (due, ts_timer_id ts) = Some x"
      "tm_callback x = Some (ts_session ts)" using sess_okD(4) [OF ok, of k ts] ss by auto
    show "k = c_str (m_sessid (ts_session ts)) \<and>
        (\<exists>due t. om_find (m_timers st') (due, ts_timer_id ts) = Some t \<and> tm_callback t = Some (ts_session ts))"
    proof (cases "ts_timer_id ts = snd g")
      case True
      then have "x = timer" using own [of "(due, ts_timer_id ts)"] x(2) g by simp
      then show ?thesis using x True by (auto simp: ft ng_def)
    next
      case False
      then have "(due, ts_timer_id ts) \<noteq> ng" "(due, ts_timer_id ts) \<noteq> g" by (auto simp: ng_def)
      then show ?thesis using x by (metis ft)
    qed
  next
    fix y x
    assume "om_find (m_timers st') y = Some x"
    then show "\<exists>s. tm_callback x = Some s \<and>
        um_find (m_sessions st') (c_str (m_sessid s)) = Some \<lparr>ts_timer_id = snd y, ts_session = s\<rparr>"
      using sess_okD(5) [OF ok, of y x] sess_okD(5) [OF ok g] unfolding ft ss by (auto simp: ng_def split: if_splits)
  qed
qed

lemma expired_step:
  assumes "\<And>g' t'. fst g' < now \<Longrightarrow> om_find (m_timers st1) g' = Some t' \<longleftrightarrow> g' \<noteq> g \<and> om_find (m_timers st) g' = Some t'"
    and "om_find (m_timers st) g = Some timer" "tm_callback timer = Some s" "fst g < now"
  shows "expired now st k \<longleftrightarrow> expired now st1 k \<or> tm_repeat_time timer = 0 \<and> k = c_str (m_sessid s)"
proof
  assume "expired now st k"
  then obtain g' t' s' where x: "om_find (m_timers st) g' = Some t'" "fst g' < now" "tm_repeat_time t' = 0"
    "tm_callback t' = Some s'" "c_str (m_sessid s') = k" unfolding expired_def by blast
  then show "expired now st1 k \<or> tm_repeat_time timer = 0 \<and> k = c_str (m_sessid s)"
  proof (cases "g' = g")
    case True
    then show ?thesis using x assms(2,3) by auto
  next
    case False
    then have "om_find (m_timers st1) g' = Some t'" using assms(1) x(1,2) by simp
    then show ?thesis using x unfolding expired_def by blast
  qed
next
  assume "expired now st1 k \<or> tm_repeat_time timer = 0 \<and> k = c_str (m_sessid s)"
  then show "expired now st k"
    unfolding expired_def using assms by blast
qed

text \<open>One round for a session's timer, one-shot or repeating.\<close>

lemma fire_session:
  fixes t :: nat
  assumes ok: "sess_ok st" and g: "om_find (m_timers st) g = Some timer" "fst g < now" and s: "tm_callback timer = Some s"
    and t: "now \<le> t" "t + tm_repeat_time timer < U64"
    and free: "\<forall>g'. om_find (m_timers st) g' \<noteq> None \<longrightarrow> snd g' \<noteq> i32 (int (fst g))"
  defines "st1 \<equiv> fire_timer (session_cb (\<lambda>_ x. x)) t g timer st"
  shows "sess_ok st1"
    "fst g' < now \<Longrightarrow> om_find (m_timers st1) g' = Some t' \<longleftrightarrow> g' \<noteq> g \<and> om_find (m_timers st) g' = Some t'"
    "om_find (m_timers st1) g' \<noteq> None \<Longrightarrow> \<exists>g''. om_find (m_timers st) g'' \<noteq> None \<and> snd g'' = snd g'"
    "get_session k st1 = (if tm_repeat_time timer = 0 \<and> k = c_str (m_sessid s) then None else get_session k st)"
proof -
  note one = fire_one_shot [OF ok g(1) s _ free, where t = t, folded st1_def]
  note rep = fire_repeating [OF ok g(1) s _ t(2), folded st1_def]
  show "sess_ok st1" using one(1) rep(1) by blast
  show "om_find (m_timers st1) g' = Some t' \<longleftrightarrow> g' \<noteq> g \<and> om_find (m_timers st) g' = Some t'" if "fst g' < now"
  proof (cases "tm_repeat_time timer = 0")
    case True
    then show ?thesis using one(2) by simp
  next
    case False
    have "g' \<noteq> (t + tm_repeat_time timer, snd g)" using that t(1) by auto
    then show ?thesis using rep(3) [OF False] by simp
  qed
  show "\<exists>g''. om_find (m_timers st) g'' \<noteq> None \<and> snd g'' = snd g'" if "om_find (m_timers st1) g' \<noteq> None"
    using that one(2) rep(3) g
    by (cases "tm_repeat_time timer = 0") (metis, metis snd_conv option.distinct(1))
  show "get_session k st1 = (if tm_repeat_time timer = 0 \<and> k = c_str (m_sessid s) then None else get_session k st)"
    using one(3) rep(2) by (cases "tm_repeat_time timer = 0") (simp_all add: get_session_def)
qed

lemma expiry_loop:
  assumes "sess_ok st" "\<And>k. now \<le> clk k"
    "\<And>g t k. fst g < now \<Longrightarrow> om_find (m_timers st) g = Some t \<Longrightarrow> clk k + tm_repeat_time t < U64"
    "\<And>g g'. fst g < now \<Longrightarrow> om_find (m_timers st) g \<noteq> None \<Longrightarrow> om_find (m_timers st) g' \<noteq> None \<Longrightarrow>
       snd g' \<noteq> i32 (int (fst g))"
  shows "\<exists>fired st'. timers_loop (session_cb (\<lambda>_ x. x)) now clk n st = Some (fired, st') \<and> sess_ok st' \<and>
    (\<forall>k. get_session k st' = (if expired now st k then None else get_session k st))"
  using assms
proof (induction "card (due_timers now st)" arbitrary: st n rule: less_induct)
  case less
  note ok = less.prems(1)
  note O = timers_okD(1) [OF sess_okD(1) [OF ok]]
  show ?case
  proof (cases "\<exists>g timer. om_begin (m_timers st) = Some (g, timer) \<and> fst g < now")
    case False
    then have "\<not> expired now st k" for k using begin_not_due [OF O False] by (auto simp: expired_def)
    moreover have "timers_loop (session_cb (\<lambda>_ x. x)) now clk n st = Some ([], st)"
      by (rule timers_loop_stop) (use False in \<open>cases "om_begin (m_timers st)"; force\<close>)
    ultimately show ?thesis using ok by simp
  next
    case True
    then obtain g timer where b: "om_begin (m_timers st) = Some (g, timer)" "fst g < now" by blast
    have g: "om_find (m_timers st) g = Some timer" using om_begin_least [OF O b(1)] by simp
    obtain s where s: "tm_callback timer = Some s" using sess_okD(5) [OF ok g] by blast
    define st1 where "st1 = fire_timer (session_cb (\<lambda>_ x. x)) (clk n) g timer st"
    have free: "\<forall>g'. om_find (m_timers st) g' \<noteq> None \<longrightarrow> snd g' \<noteq> i32 (int (fst g))"
      using less.prems(4) [OF b(2)] g by blast
    note f = fire_session [OF ok g b(2) s less.prems(2) [of n] less.prems(3) [OF b(2) g, of n] free, folded st1_def]
    have "due_timers now st1 \<subseteq> due_timers now st" using f(2) by (auto simp: due_timers_def)
    moreover have "g \<in> due_timers now st" "g \<notin> due_timers now st1" using f(2) [OF b(2)] g b(2) by (simp_all add: due_timers_def)
    ultimately have "due_timers now st1 \<subset> due_timers now st" by blast
    then have c: "card (due_timers now st1) < card (due_timers now st)" by (rule psubset_card_mono [OF due_timers_finite])
    have "\<exists>fired st'. timers_loop (session_cb (\<lambda>_ x. x)) now clk (Suc n) st1 = Some (fired, st') \<and> sess_ok st' \<and>
      (\<forall>k. get_session k st' = (if expired now st1 k then None else get_session k st1))"
    proof (rule less.hyps [OF c f(1) less.prems(2)])
      show "clk j + tm_repeat_time t < U64" if "fst g' < now" "om_find (m_timers st1) g' = Some t" for g' t j
        using f(2) [OF that(1)] that(2) less.prems(3) [OF that(1)] by blast
      show "snd g'' \<noteq> i32 (int (fst g'))"
        if "fst g' < now" "om_find (m_timers st1) g' \<noteq> None" "om_find (m_timers st1) g'' \<noteq> None" for g' g''
        using that f(3) [OF that(3)] f(2) [OF that(1)] less.prems(4) [OF that(1)] by (metis not_None_eq)
    qed
    then show ?thesis
      using expired_step [OF f(2) g s b(2)] f(4) by (auto simp: timers_loop_fire [OF b] st1_def [symmetric])
  qed
qed

section \<open>Properties\<close>

text \<open>
  \<^verbatim>\<open>add_session\<close> on every branch: it refuses a null session, a zero timeout and a duplicate id
  without changing anything; otherwise the session is found under its id from then on, no other look-up
  changes, and sessions and queued timers still correspond one to one.
\<close>

theorem add_session_correct:
  assumes ok: "sess_ok st"
  shows "case add_session t so after repeat st of (done, st') \<Rightarrow>
    (done \<longleftrightarrow> (\<exists>s. so = Some s \<and> after \<noteq> 0 \<and> get_session (c_str (m_sessid s)) st = None)) \<and>
    (if done then sess_ok st' \<and> (\<forall>k. get_session k st' = (if k = c_str (m_sessid (the so)) then so else get_session k st))
     else st' = st)"
proof (cases "\<exists>s. so = Some s \<and> after \<noteq> 0 \<and> um_find (m_sessions st) (c_str (m_sessid s)) = None")
  case True
  then obtain s where s: "so = Some s" "after \<noteq> 0" "um_find (m_sessions st) (c_str (m_sessid s)) = None" by blast
  then have "fst (add_session t so after repeat st)" by (simp add: add_session_def split_beta)
  then show ?thesis
    using s add_session_ok [OF ok _ s(3), of after t repeat] um.find_put [OF sess_okD(3) [OF ok]]
    by (simp add: split_beta) (simp add: add_session_def get_session_def split_beta fst_add_timer)
next
  case False
  then have "add_session t so after repeat st = (False, st)"
    by (auto simp: add_session_def split: option.split)
  then show ?thesis using False by (auto simp: get_session_def)
qed

definition demo_session :: session where
  "demo_session = \<lparr>m_sessid = ''u1'', sess_obj = 1\<rparr>"

theorem add_session_correct_witness:
  "case add_session 100 (Some demo_session) 5 0 new_session_mgr of (done, st') \<Rightarrow>
    (done \<longleftrightarrow> (\<exists>s. Some demo_session = Some s \<and> (5::nat) \<noteq> 0 \<and> get_session (c_str (m_sessid s)) new_session_mgr = None)) \<and>
    (if done then sess_ok st' \<and> (\<forall>k. get_session k st' =
       (if k = c_str (m_sessid (the (Some demo_session))) then Some demo_session else get_session k new_session_mgr))
     else st' = new_session_mgr)"
  by (rule add_session_correct) (rule sess_ok_new)

text \<open>
  \<^verbatim>\<open>del_session\<close> answers whether the session existed; the session and exactly its timer are gone,
  every other session is still found, and sessions and timers still correspond.
\<close>

theorem del_session_correct:
  assumes ok: "sess_ok st"
  shows "case del_session k st of (done, st') \<Rightarrow>
    (done \<longleftrightarrow> get_session k st \<noteq> None) \<and> sess_ok st' \<and>
    (\<forall>k'. get_session k' st' = (if k' = k then None else get_session k' st)) \<and>
    (\<forall>g t. om_find (m_timers st') g = Some t \<longleftrightarrow>
       om_find (m_timers st) g = Some t \<and> map_option (\<lambda>s. c_str (m_sessid s)) (tm_callback t) \<noteq> Some k)"
proof (cases "um_find (m_sessions st) k")
  case None
  have "map_option (\<lambda>s. c_str (m_sessid s)) (tm_callback t) \<noteq> Some k" if "om_find (m_timers st) g = Some t" for g t
    using sess_okD(5) [OF ok that] None by auto
  then show ?thesis using None ok by (auto simp: del_session_def get_session_def)
next
  case (Some ts)
  note T = sess_okD(1-3) [OF ok]
  note d = del_session_spec [OF T Some]
  have own: "map_option (\<lambda>s. c_str (m_sessid s)) (tm_callback t) = Some k \<longleftrightarrow> um_find (m_ids st) (ts_timer_id ts) = Some g"
    if g: "om_find (m_timers st) g = Some t" for g t
  proof -
    obtain s where s: "tm_callback t = Some s" "um_find (m_sessions st) (c_str (m_sessid s)) = Some \<lparr>ts_timer_id = snd g, ts_session = s\<rparr>"
      using sess_okD(5) [OF ok g] by blast
    have l: "um_find (m_ids st) (snd g) = Some g" using linkedD [OF T(2)] g by simp
    show ?thesis
    proof
      assume "map_option (\<lambda>s. c_str (m_sessid s)) (tm_callback t) = Some k"
      then have "ts_timer_id ts = snd g" using s Some by simp
      then show "um_find (m_ids st) (ts_timer_id ts) = Some g" using l by simp
    next
      assume "um_find (m_ids st) (ts_timer_id ts) = Some g"
      then have "snd g = ts_timer_id ts" using timers_okD(6) [OF T(1)] by blast
      then show "map_option (\<lambda>s. c_str (m_sessid s)) (tm_callback t) = Some k"
        using sess_okD(4) [OF ok Some] timers_okD(5) [OF T(1)] g by (metis not_None_eq option.inject option.map(2) snd_conv)
    qed
  qed
  have ft: "om_find (m_timers (snd (del_session k st))) g = Some t \<longleftrightarrow>
      om_find (m_timers st) g = Some t \<and> map_option (\<lambda>s. c_str (m_sessid s)) (tm_callback t) \<noteq> Some k" for g t
    using own [of g t] unfolding d(5) del_timer_find [OF T(1)] by auto
  have "fst (del_session k st)" using Some by (simp add: del_session_def Let_def)
  then show ?thesis
    using Some del_session_ok [OF ok Some] by (simp add: split_beta get_session_def d(1) ft)
qed

theorem del_session_correct_witness:
  "case del_session ''u1'' (snd (add_session 100 (Some demo_session) 5 0 new_session_mgr)) of (done, st') \<Rightarrow>
    (done \<longleftrightarrow> get_session ''u1'' (snd (add_session 100 (Some demo_session) 5 0 new_session_mgr)) \<noteq> None) \<and> sess_ok st' \<and>
    (\<forall>k'. get_session k' st' = (if k' = ''u1'' then None else get_session k' (snd (add_session 100 (Some demo_session) 5 0 new_session_mgr)))) \<and>
    (\<forall>g t. om_find (m_timers st') g = Some t \<longleftrightarrow>
       om_find (m_timers (snd (add_session 100 (Some demo_session) 5 0 new_session_mgr))) g = Some t \<and>
       map_option (\<lambda>s. c_str (m_sessid s)) (tm_callback t) \<noteq> Some ''u1'')"
  by (rule del_session_correct, rule add_session_ok [OF sess_ok_new])
    (simp_all add: new_session_mgr_def timers.defs new_timers_def um_find_def)

text \<open>
  C28. Expiry: one call of the timer queue, when \<^verbatim>\<open>on_timeout\<close> does nothing to the manager, returns
  and removes exactly the sessions whose one-shot timer is due; sessions with a repeating timer and
  sessions that are not due stay, and sessions and timers still correspond. The condition on \<^verbatim>\<open>i32\<close>
  excludes that a due time, cut to 32 bits, equals the id of a queued timer, which the look-up under
  \<^verbatim>\<open>gid.first\<close> would unregister.
\<close>

theorem session_expiry:
  assumes "sess_ok st" "\<And>k. now \<le> clk k"
    "\<And>g t k. fst g < now \<Longrightarrow> om_find (m_timers st) g = Some t \<Longrightarrow> clk k + tm_repeat_time t < U64"
    "\<And>g g'. fst g < now \<Longrightarrow> om_find (m_timers st) g \<noteq> None \<Longrightarrow> om_find (m_timers st) g' \<noteq> None \<Longrightarrow>
       snd g' \<noteq> i32 (int (fst g))"
  shows "\<exists>fired st'. on_repeat_timer (session_cb (\<lambda>_ x. x)) now clk st = Some (fired, st') \<and> sess_ok st' \<and>
    (\<forall>k. get_session k st' = (if expired now st k then None else get_session k st))"
  unfolding on_repeat_timer_def by (rule expiry_loop [OF assms])

theorem session_expiry_witness:
  "\<exists>fired st'. on_repeat_timer (session_cb (\<lambda>_ x. x)) 200 (\<lambda>_. 200)
      (snd (add_session 100 (Some demo_session) 5 0 new_session_mgr)) = Some (fired, st') \<and> sess_ok st' \<and>
    (\<forall>k. get_session k st' = (if expired 200 (snd (add_session 100 (Some demo_session) 5 0 new_session_mgr)) k then None
       else get_session k (snd (add_session 100 (Some demo_session) 5 0 new_session_mgr))))"
proof (rule session_expiry)
  have new: "um_find (m_sessions new_session_mgr) (c_str (m_sessid demo_session)) = None"
    by (simp add: new_session_mgr_def timers.defs new_timers_def um_find_def)
  show "sess_ok (snd (add_session 100 (Some demo_session) 5 0 new_session_mgr))"
    by (rule add_session_ok [OF sess_ok_new _ new]) simp
  have f: "om_find (m_timers (snd (add_session 100 (Some demo_session) 5 0 new_session_mgr))) g =
      (if g = (105, 1) then Some \<lparr>tm_id = 1, tm_after_time = 5, tm_repeat_time = 0, tm_privdata = (), tm_callback = Some demo_session\<rparr> else None)" for g
    by (simp add: add_session_def new add_timer_def Let_def new_session_mgr_def timers.defs new_timers_def
        um_find_def om_find_def U64_def)
  show "200 + tm_repeat_time t < U64"
    if "om_find (m_timers (snd (add_session 100 (Some demo_session) 5 0 new_session_mgr))) g = Some t" for g t
    using that by (auto simp: f U64_def split: if_splits)
  show "snd g' \<noteq> i32 (int (fst g))"
    if "om_find (m_timers (snd (add_session 100 (Some demo_session) 5 0 new_session_mgr))) g \<noteq> None"
      "om_find (m_timers (snd (add_session 100 (Some demo_session) 5 0 new_session_mgr))) g' \<noteq> None" for g g'
    using that by (auto simp: f split: if_splits)
qed simp

end
