(* ===== verification/Coroutines.thy ===== *)
theory Coroutines
  imports Timers
begin

text \<open>
  The pool of coroutines (\<^verbatim>\<open>src/src/core/coroutines.h\<close>, \<^verbatim>\<open>coroutines.cpp\<close>). A coroutine is a number,
  standing for the pointer \<^verbatim>\<open>co_create\<close> hands out; \<open>live\<close> are the coroutines that libco has created
  and not released, so that releasing twice or touching a released one is visible. Resuming a
  coroutine runs arbitrary code, whose calls back into the pool are later operations of a run.
\<close>

section \<open>Data\<close>

record 'f coroutines =
  m_is_exit :: bool
  m_max_co_cnt :: int
  m_work_coroutines :: "nat list"
  m_free_coroutines :: "nat list"
  co_pfn :: "nat \<Rightarrow> 'f option"
  live :: "nat list"

definition MAX_CO_CNT :: int where
  "MAX_CO_CNT = 100000"

definition FREE_CO_MAX_CNT_ONCE :: nat where
  "FREE_CO_MAX_CNT_ONCE = 1000"

definition new_coroutines :: "'f coroutines" where
  "new_coroutines = \<lparr>m_is_exit = False, m_max_co_cnt = MAX_CO_CNT, m_work_coroutines = [],
     m_free_coroutines = [], co_pfn = (\<lambda>_. None), live = []\<rparr>"

section \<open>Operations\<close>

definition co_release :: "nat \<Rightarrow> 'f coroutines \<Rightarrow> 'f coroutines" where
  "co_release co st = st\<lparr>live := removeAll co (live st)\<rparr>"

definition co_clear :: "'f coroutines \<Rightarrow> 'f coroutines" where
  "co_clear st = (let st1 = fold co_release (m_free_coroutines st @ m_work_coroutines st) st
     in st1\<lparr>m_free_coroutines := [], m_work_coroutines := []\<rparr>)"

definition exit_libco :: "'f coroutines \<Rightarrow> 'f coroutines" where
  "exit_libco st = st\<lparr>m_is_exit := True\<rparr>"

text \<open>What the function given to the event loop answers; the loop ends on a negative value.\<close>

definition run_callback :: "'f coroutines \<Rightarrow> int" where
  "run_callback st = (if m_is_exit st then - 1 else 0)"

definition set_max_co_cnt :: "int \<Rightarrow> 'f coroutines \<Rightarrow> 'f coroutines" where
  "set_max_co_cnt cnt st = st\<lparr>m_max_co_cnt := cnt\<rparr>"

text \<open>\<open>fresh\<close> is the coroutine that \<^verbatim>\<open>co_create\<close> makes if it is called. The result is the coroutine to resume.\<close>

definition start_co :: "nat \<Rightarrow> 'f option \<Rightarrow> 'f coroutines \<Rightarrow> nat option \<times> 'f coroutines" where
  "start_co fresh fn st =
     (case fn of
        None \<Rightarrow> (None, st)
      | Some f \<Rightarrow>
          if int (length (m_work_coroutines st)) > m_max_co_cnt st then (None, st)
          else case m_free_coroutines st of
                 [] \<Rightarrow> (Some fresh, st\<lparr>live := fresh # live st, co_pfn := (co_pfn st)(fresh := Some f),
                                      m_work_coroutines := List.insert fresh (m_work_coroutines st)\<rparr>)
               | co # rest \<Rightarrow> (Some co, st\<lparr>m_free_coroutines := rest, co_pfn := (co_pfn st)(co := Some f)\<rparr>))"

definition add_free_co :: "nat option \<Rightarrow> 'f coroutines \<Rightarrow> bool \<times> 'f coroutines" where
  "add_free_co c st =
     (case c of
        None \<Rightarrow> (False, st)
      | Some co \<Rightarrow>
          if co \<notin> set (m_work_coroutines st) then (False, st)
          else (True, st\<lparr>co_pfn := (co_pfn st)(co := None), m_work_coroutines := removeAll co (m_work_coroutines st),
                         m_free_coroutines := m_free_coroutines st @ [co]\<rparr>))"

text \<open>The release loop, at most \<open>n\<close> rounds.\<close>

fun release_free :: "nat \<Rightarrow> 'f coroutines \<Rightarrow> 'f coroutines" where
  "release_free 0 st = st"
| "release_free (Suc n) st =
     (case m_free_coroutines st of
        [] \<Rightarrow> st
      | co # rest \<Rightarrow> release_free n (co_release co (st\<lparr>m_free_coroutines := rest\<rparr>)))"

definition co_on_repeat_timer :: "int \<Rightarrow> int \<Rightarrow> 'f coroutines \<Rightarrow> 'f coroutines" where
  "co_on_repeat_timer hz cronloops st =
     (if run_with_period 1000 hz cronloops then release_free FREE_CO_MAX_CNT_ONCE st else st)"

section \<open>The pool as a system\<close>

datatype 'f co_op = StartCo nat "'f option" | AddFreeCo "nat option" | CoTimer int int | CoClear | ExitLibco

fun co_step :: "'f coroutines \<Rightarrow> 'f co_op \<Rightarrow> 'f coroutines" where
  "co_step st (StartCo fresh fn) = snd (start_co fresh fn st)"
| "co_step st (AddFreeCo c) = snd (add_free_co c st)"
| "co_step st (CoTimer hz n) = co_on_repeat_timer hz n st"
| "co_step st CoClear = co_clear st"
| "co_step st ExitLibco = exit_libco st"

text \<open>\<^verbatim>\<open>co_create\<close> returns memory that is not in use.\<close>

fun co_enabled :: "'f coroutines \<Rightarrow> 'f co_op \<Rightarrow> bool" where
  "co_enabled st (StartCo fresh fn) \<longleftrightarrow> fresh \<notin> set (live st)"
| "co_enabled st _ \<longleftrightarrow> True"

text \<open>Working and free coroutines are live, no coroutine is listed twice, and the limit holds with one to spare.\<close>

definition co_ok :: "'f coroutines \<Rightarrow> bool" where
  "co_ok st \<longleftrightarrow> distinct (m_work_coroutines st @ m_free_coroutines st) \<and> distinct (live st) \<and>
     set (m_work_coroutines st) \<union> set (m_free_coroutines st) \<subseteq> set (live st) \<and>
     int (length (m_work_coroutines st)) \<le> max 0 (m_max_co_cnt st + 1)"

section \<open>Lemmas\<close>

lemma filter_removeAll: "filter (\<lambda>x. x \<notin> set cs) (removeAll c xs) = filter (\<lambda>x. x \<notin> set (c # cs)) xs"
  by (induction xs) auto

lemma fold_release: "fold co_release cs st = st\<lparr>live := filter (\<lambda>c. c \<notin> set cs) (live st)\<rparr>"
proof (induction cs arbitrary: st)
  case (Cons c cs)
  then show ?case by (simp add: co_release_def filter_removeAll del: set_simps)
qed simp

lemma release_free_eq:
  "release_free n st = fold co_release (take n (m_free_coroutines st)) st\<lparr>m_free_coroutines := drop n (m_free_coroutines st)\<rparr>"
proof (induction n arbitrary: st)
  case 0
  then show ?case by simp
next
  case (Suc n)
  show ?case
  proof (cases "m_free_coroutines st")
    case Nil
    then show ?thesis by simp
  next
    case (Cons co rest)
    then show ?thesis
      by (simp add: Suc fold_release del: set_simps) (simp add: co_release_def filter_removeAll del: set_simps)
  qed
qed

lemma release_ok:
  assumes "co_ok st" "distinct (m_work_coroutines st @ cs @ rest)" "m_free_coroutines st = cs @ rest"
  shows "co_ok (fold co_release cs st\<lparr>m_free_coroutines := rest\<rparr>)"
  using assms by (auto simp: co_ok_def fold_release)

interpretation cs: invariant_system "\<lambda>st. st = new_coroutines" co_step co_enabled co_ok
proof unfold_locales
  show "co_ok s" if "s = new_coroutines" for s :: "'a coroutines"
    using that by (simp add: co_ok_def new_coroutines_def MAX_CO_CNT_def)
next
  fix s :: "'a coroutines" and x
  assume ok: "co_ok s" and e: "co_enabled s x"
  show "co_ok (co_step s x)"
  proof (cases x)
    case (StartCo fresh fn)
    then show ?thesis using ok e by (auto simp: start_co_def co_ok_def List.insert_def split: option.split list.split)
  next
    case (AddFreeCo c)
    then show ?thesis using ok
      by (auto simp: add_free_co_def co_ok_def distinct_removeAll split: option.split
          intro: order_trans [OF of_nat_mono [OF length_removeAll_less_eq]])
  next
    case (CoTimer hz n)
    have "co_ok (release_free k s)" for k
      using release_ok [OF ok, of "take k (m_free_coroutines s)" "drop k (m_free_coroutines s)"] ok
      by (simp add: release_free_eq co_ok_def)
    then show ?thesis using CoTimer ok by (simp add: co_on_repeat_timer_def)
  next
    case CoClear
    then show ?thesis using ok by (auto simp: co_clear_def co_ok_def fold_release Let_def)
  next
    case ExitLibco
    then show ?thesis using ok by (simp add: exit_libco_def co_ok_def)
  qed
qed

section \<open>Properties\<close>

text \<open>
  C29. Over any sequence of calls the pool never lists a released coroutine and never lists one twice
  or both as working and as free, so that no coroutine is released twice or resumed after its release;
  the number of working coroutines stays below the limit plus two.
\<close>

theorem coroutine_pool_safe:
  assumes "enabled_run co_step co_enabled new_coroutines ops" "st = foldl co_step new_coroutines ops"
  shows "distinct (m_work_coroutines st @ m_free_coroutines st) \<and>
    set (m_work_coroutines st) \<union> set (m_free_coroutines st) \<subseteq> set (live st) \<and>
    int (length (m_work_coroutines st)) \<le> max 0 (m_max_co_cnt st + 1)"
  using cs.run_ok [OF refl assms(1)] unfolding assms(2) by (simp add: co_ok_def)

theorem coroutine_pool_safe_witness:
  "let ops = [StartCo 1 (Some ()), AddFreeCo (Some 1), CoTimer 10 10]; st = foldl co_step new_coroutines ops
   in distinct (m_work_coroutines st @ m_free_coroutines st) \<and>
    set (m_work_coroutines st) \<union> set (m_free_coroutines st) \<subseteq> set (live st) \<and>
    int (length (m_work_coroutines st)) \<le> max 0 (m_max_co_cnt st + 1)"
  unfolding Let_def by (rule coroutine_pool_safe [OF _ refl]) (simp add: new_coroutines_def)

text \<open>
  C40. A coroutine taken from the free list is lost: it is resumed but not entered among the working
  ones, so that \<^verbatim>\<open>add_free_co\<close> refuses it when it is done, and no later call of the pool, whatever the
  sequence, lists or releases it again.
\<close>

theorem reused_coroutine_is_lost:
  assumes ok: "co_ok st" and free: "m_free_coroutines st = co # rest"
    and limit: "int (length (m_work_coroutines st)) \<le> m_max_co_cnt st"
    and st1: "st1 = snd (start_co fresh (Some f) st)"
    and run: "enabled_run co_step co_enabled st1 ops"
  shows "fst (start_co fresh (Some f) st) = Some co \<and> \<not> fst (add_free_co (Some co) st1) \<and>
    (let st2 = foldl co_step st1 ops
     in co \<notin> set (m_work_coroutines st2) \<union> set (m_free_coroutines st2) \<and> co \<in> set (live st2))"
proof -
  define P where "P st \<longleftrightarrow> co \<notin> set (m_work_coroutines st) \<union> set (m_free_coroutines st) \<and> co \<in> set (live st)"
    for st :: "'a coroutines"
  have s1: "st1 = st\<lparr>m_free_coroutines := rest, co_pfn := (co_pfn st)(co := Some f)\<rparr>" "fst (start_co fresh (Some f) st) = Some co"
    using free limit by (simp_all add: st1 start_co_def)
  have start: "P st1" using ok free by (auto simp: P_def s1 co_ok_def)
  have "P (co_step s x)" if "P s" "co_enabled s x" for s x
    using that by (cases x) (auto simp: P_def start_co_def add_free_co_def co_on_repeat_timer_def release_free_eq
        fold_release co_clear_def exit_libco_def Let_def dest: in_set_takeD in_set_dropD split: option.split list.split)
  then have "P (foldl co_step st1 ops)"
    using start run by (induction ops arbitrary: st1) auto
  then show ?thesis using s1 start by (simp add: P_def add_free_co_def)
qed

theorem reused_coroutine_is_lost_witness:
  "\<exists>st co rest. m_free_coroutines st = co # rest \<and>
    (let st1 = snd (start_co 2 (Some ()) st)
     in fst (start_co 2 (Some ()) st) = Some co \<and> \<not> fst (add_free_co (Some co) st1) \<and>
       (let st2 = foldl co_step st1 [CoTimer 10 10]
        in co \<notin> set (m_work_coroutines st2) \<union> set (m_free_coroutines st2) \<and> co \<in> set (live st2)))"
proof -
  define st :: "unit coroutines" where "st = new_coroutines\<lparr>m_free_coroutines := [1], live := [1]\<rparr>"
  have "co_ok st" by (simp add: st_def co_ok_def new_coroutines_def MAX_CO_CNT_def)
  from reused_coroutine_is_lost [OF this _ _ refl, of 1 "[]" 2 "()" "[CoTimer 10 10]"]
  have "fst (start_co 2 (Some ()) st) = Some 1 \<and> \<not> fst (add_free_co (Some 1) (snd (start_co 2 (Some ()) st))) \<and>
    (let st2 = foldl co_step (snd (start_co 2 (Some ()) st)) [CoTimer 10 10]
     in 1 \<notin> set (m_work_coroutines st2) \<union> set (m_free_coroutines st2) \<and> 1 \<in> set (live st2))"
    by (simp add: st_def new_coroutines_def MAX_CO_CNT_def)
  moreover have "m_free_coroutines st = 1 # []" by (simp add: st_def)
  ultimately show ?thesis unfolding Let_def by blast
qed

end
