(* ===== verification/TaskQueue.thy ===== *)
theory TaskQueue
  imports Prelude Server "HOL-Library.Multiset"
begin

text \<open>
  The queue between a user's coroutine and the coroutine that serves it, which the Redis, MySQL and node
  connection pools share (\<^verbatim>\<open>std::queue\<close> \<open>tasks\<close> of their \<^verbatim>\<open>co_data_t\<close>). The user pushes a task and yields; the server
  stores a result in it and resumes the user, who runs at once until it yields again and may push more
  tasks meanwhile: \<open>wake\<close> says which. \<open>q_in\<close> and \<open>q_out\<close> record what was pushed and what was answered.
\<close>

record ('t, 'r) task_queue =
  q_tasks :: "'t list"
  q_in :: "'t list"
  q_out :: "('t \<times> 'r) list"

definition empty_queue :: "('t, 'r) task_queue" where
  "empty_queue = \<lparr>q_tasks = [], q_in = [], q_out = []\<rparr>"

definition push_task :: "'t \<Rightarrow> ('t, 'r) task_queue \<Rightarrow> ('t, 'r) task_queue" where
  "push_task t q = q\<lparr>q_tasks := q_tasks q @ [t], q_in := q_in q @ [t]\<rparr>"

text \<open>\<^verbatim>\<open>co_resume(task->co)\<close> with the result stored in the task.\<close>

definition answer :: "('t \<Rightarrow> 'r \<Rightarrow> 't list) \<Rightarrow> 't \<Rightarrow> 'r \<Rightarrow> ('t, 'r) task_queue \<Rightarrow> ('t, 'r) task_queue" where
  "answer wake t r q = fold push_task (wake t r) (q\<lparr>q_out := q_out q @ [(t, r)]\<rparr>)"

text \<open>\<^verbatim>\<open>while (!cd->tasks.empty())\<close>: pop, store the error, resume. \<open>None\<close> is a loop that never ends.\<close>

partial_function (option) clear_queue :: "('t \<Rightarrow> 'r \<Rightarrow> 't list) \<Rightarrow> 'r \<Rightarrow> ('t, 'r) task_queue \<Rightarrow> ('t, 'r) task_queue option" where
  "clear_queue wake r q = (case q_tasks q of
       [] \<Rightarrow> Some q
     | t # ts \<Rightarrow> clear_queue wake r (answer wake t r (q\<lparr>q_tasks := ts\<rparr>)))"

text \<open>Nothing is lost and nothing is answered twice.\<close>

definition conserved :: "('t, 'r) task_queue \<Rightarrow> bool" where
  "conserved q \<longleftrightarrow> mset (q_in q) = mset (q_tasks q) + mset (map fst (q_out q))"

lemma conserved_empty: "conserved empty_queue"
  by (simp add: conserved_def empty_queue_def)

lemma conserved_push: "conserved q \<Longrightarrow> conserved (push_task t q)"
  by (simp add: conserved_def push_task_def)

lemma push_all:
  "q_tasks (fold push_task ts q) = q_tasks q @ ts" "q_in (fold push_task ts q) = q_in q @ ts" "q_out (fold push_task ts q) = q_out q"
  by (induction ts arbitrary: q) (simp_all add: push_task_def)

lemma answer_fields:
  "q_tasks (answer wake t r q) = q_tasks q @ wake t r" "q_in (answer wake t r q) = q_in q @ wake t r" "q_out (answer wake t r q) = q_out q @ [(t, r)]"
  by (simp_all add: answer_def push_all)

text \<open>The tasks a server holds in its hands while it works on them.\<close>

definition holds :: "'t list \<Rightarrow> ('t, 'r) task_queue \<Rightarrow> bool" where
  "holds ts q \<longleftrightarrow> mset (q_in q) = mset (q_tasks q) + mset (map fst (q_out q)) + mset ts"

lemma holds_none: "holds [] q = conserved q"
  by (simp add: holds_def conserved_def)

lemma holds_pop: "holds ts q \<Longrightarrow> q_tasks q = t # us \<Longrightarrow> holds (t # ts) (q\<lparr>q_tasks := us\<rparr>)"
  by (simp add: holds_def)

lemma holds_answer: "holds (t # ts) q \<Longrightarrow> holds ts (answer wake t r q)"
  by (simp add: holds_def answer_fields)

lemma holds_snoc: "holds (ts @ [t]) q = holds (t # ts) q"
  by (simp add: holds_def)

lemma clear_queue_result: "clear_queue wake r q = Some q' \<Longrightarrow> q_tasks q' = [] \<and> (conserved q \<longrightarrow> conserved q')"
proof (rule clear_queue.raw_induct [where P = "\<lambda>_ _ q q'. q_tasks q' = [] \<and> (conserved q \<longrightarrow> conserved q')"])
  fix f wake r and q q' :: "('a, 'b) task_queue"
  assume IH: "\<And>wake r q q'. f wake r q = Some q' \<Longrightarrow> q_tasks q' = [] \<and> (conserved q \<longrightarrow> conserved q')"
    and q': "(case q_tasks q of [] \<Rightarrow> Some q | t # ts \<Rightarrow> f wake r (answer wake t r (q\<lparr>q_tasks := ts\<rparr>))) = Some q'"
  show "q_tasks q' = [] \<and> (conserved q \<longrightarrow> conserved q')"
  proof (cases "q_tasks q")
    case Nil
    then show ?thesis using q' by simp
  next
    case (Cons t ts)
    then have "f wake r (answer wake t r (q\<lparr>q_tasks := ts\<rparr>)) = Some q'" using q' by simp
    from IH [OF this] show ?thesis
      using holds_answer [OF holds_pop [of "[]" q t ts]] Cons by (auto simp: holds_none)
  qed
qed

text \<open>Users that do not come back at once are all answered, in order.\<close>

lemma clear_queue_quiet:
  assumes "\<forall>t r. wake t r = []"
  shows "clear_queue wake r q = Some (q\<lparr>q_tasks := [], q_out := q_out q @ map (\<lambda>t. (t, r)) (q_tasks q)\<rparr>)"
proof (induction "q_tasks q" arbitrary: q)
  case Nil
  then show ?case by (subst clear_queue.simps) simp
next
  case (Cons t ts)
  define q1 where "q1 = answer wake t r (q\<lparr>q_tasks := ts\<rparr>)"
  have q1: "q_tasks q1 = ts" "q_in q1 = q_in q" "q_out q1 = q_out q @ [(t, r)]" using assms by (simp_all add: q1_def answer_fields)
  have "q1 = q\<lparr>q_tasks := ts, q_out := q_out q @ [(t, r)]\<rparr>" using assms by (simp add: q1_def answer_def)
  then show ?case using Cons(1) [of q1] Cons(2) [symmetric] q1
    by (subst clear_queue.simps) (simp add: q1_def [symmetric])
qed

text \<open>A user who retries at once keeps the loop, and with it the process, running forever.\<close>

lemma clear_queue_spins:
  assumes "\<forall>t. wake t r \<noteq> []" "q_tasks q \<noteq> []"
  shows "clear_queue wake r q = None"
proof -
  have "(\<forall>t. wake t r \<noteq> []) \<longrightarrow> q_tasks q \<noteq> [] \<longrightarrow> False" if "clear_queue wake r q = Some q'" for q'
    using that
  proof (rule clear_queue.raw_induct [where P = "\<lambda>wake r q _. (\<forall>t. wake t r \<noteq> []) \<longrightarrow> q_tasks q \<noteq> [] \<longrightarrow> False", rotated])
    fix f and wake :: "'a \<Rightarrow> 'b \<Rightarrow> 'a list" and r and q q' :: "('a, 'b) task_queue"
    assume IH: "\<And>wake r q q'. f wake r q = Some q' \<Longrightarrow> (\<forall>t. wake t r \<noteq> []) \<longrightarrow> q_tasks q \<noteq> [] \<longrightarrow> False"
      and q': "(case q_tasks q of [] \<Rightarrow> Some q | t # ts \<Rightarrow> f wake r (answer wake t r (q\<lparr>q_tasks := ts\<rparr>))) = Some q'"
    show "(\<forall>t. wake t r \<noteq> []) \<longrightarrow> q_tasks q \<noteq> [] \<longrightarrow> False"
    proof (cases "q_tasks q")
      case (Cons t ts)
      then have "f wake r (answer wake t r (q\<lparr>q_tasks := ts\<rparr>)) = Some q'" using q' by simp
      from IH [OF this] show ?thesis by (auto simp: answer_fields)
    qed simp
  qed
  then show ?thesis using assms by (cases "clear_queue wake r q") auto
qed

end
