(* ===== verification/RedisMgr.thy ===== *)
theory RedisMgr
  imports TaskQueue Util
begin

text \<open>
  The Redis connection pool (\<^verbatim>\<open>src/src/core/redis/redis_mgr.h\<close>, \<^verbatim>\<open>redis_mgr.cpp\<close>): a table of nodes, for each node
  an array of connections that are filled one after the other and then used in turn, and for each
  connection a coroutine that sends what its queue holds in pipelines. The calls of the hiredis library
  are arguments (\<open>rds_io\<close>), as is what other coroutines do during \<^verbatim>\<open>co_sleep\<close>. A connection is named by its
  node and its position in the array.
\<close>

section \<open>Data\<close>

definition RDS_MAX_CONN_CNT :: int where
  "RDS_MAX_CONN_CNT = 10"

definition PIPELINE_CMD_CNT :: nat where
  "PIPELINE_CMD_CNT = 100"

definition TASKS_QUEUE_LIMIT :: nat where
  "TASKS_QUEUE_LIMIT = 100000"

record redis_info =
  ri_port :: int
  ri_host :: string
  ri_node :: string
  ri_max_conn_cnt :: int

text \<open>Replies of the type \<^verbatim>\<open>REDIS_REPLY_ERROR\<close>, and others.\<close>

datatype redis_reply = RError string | RReply string

record rds_task =
  rt_cmd :: string
  rt_co :: nat

text \<open>The fields \<^verbatim>\<open>ret\<close> and \<^verbatim>\<open>reply\<close> of a task when its coroutine is resumed.\<close>

type_synonym rds_answer = "int \<times> redis_reply option"

type_synonym rds_queue = "(rds_task, rds_answer) task_queue"

type_synonym rds_wake = "rds_task \<Rightarrow> rds_answer \<Rightarrow> rds_task list"

record rds_co =
  rc_c :: bool
  rc_ri :: redis_info
  rc_q :: rds_queue

record rds_array =
  ra_cur_idx :: int
  ra_ri :: redis_info
  ra_coroutines :: "rds_co list"

record rds =
  m_rds_infos :: "(string, redis_info) umap"
  m_rds_coroutines :: "(string, rds_array) umap"

text \<open>What hiredis answers in one turn: \<^verbatim>\<open>redisConnect\<close>, the calls of \<^verbatim>\<open>redisAppendCommand\<close>, those of
  \<^verbatim>\<open>redisGetReply\<close> (return value, \<^verbatim>\<open>c->err\<close>, reply), and \<^verbatim>\<open>c->err\<close> at the end.\<close>

record rds_io =
  io_connect :: bool
  io_append :: "nat \<Rightarrow> bool"
  io_reply :: "nat \<Rightarrow> int \<times> int \<times> redis_reply option"
  io_err :: int

section \<open>The pool\<close>

definition rds_co_at :: "string \<Rightarrow> nat \<Rightarrow> rds \<Rightarrow> rds_co option" where
  "rds_co_at node i st = (case um_find (m_rds_coroutines st) node of
       None \<Rightarrow> None
     | Some ad \<Rightarrow> if i < length (ra_coroutines ad) then Some (ra_coroutines ad ! i) else None)"

definition rds_set_co :: "string \<Rightarrow> nat \<Rightarrow> rds_co \<Rightarrow> rds \<Rightarrow> rds" where
  "rds_set_co node i cd st = (case um_find (m_rds_coroutines st) node of
       None \<Rightarrow> st
     | Some ad \<Rightarrow> st\<lparr>m_rds_coroutines := um_put node (ad\<lparr>ra_coroutines := (ra_coroutines ad)[i := cd]\<rparr>) (m_rds_coroutines st)\<rparr>)"

text \<open>A new coroutine finds its queue empty and waits.\<close>

definition rds_get_co_data :: "string \<Rightarrow> rds \<Rightarrow> nat option \<times> rds" where
  "rds_get_co_data node st = (case um_find (m_rds_infos st) node of
       None \<Rightarrow> (None, st)
     | Some ri \<Rightarrow>
         let cd = \<lparr>rc_c = False, rc_ri = ri, rc_q = empty_queue\<rparr>;
             put = (\<lambda>ad. st\<lparr>m_rds_coroutines := um_put node ad (m_rds_coroutines st)\<rparr>)
         in case um_find (m_rds_coroutines st) node of
              None \<Rightarrow> (Some 0, put \<lparr>ra_cur_idx = 0, ra_ri = ri, ra_coroutines = [cd]\<rparr>)
            | Some ad \<Rightarrow>
                let n = length (ra_coroutines ad)
                in if i32 (int n) \<ge> ri_max_conn_cnt (ra_ri ad)
                   then let i = sz (ra_cur_idx ad) mod n; j = i32 (ra_cur_idx ad + 1)
                        in (Some i, put (ad\<lparr>ra_cur_idx := (if j = i32 (int n) then 0 else j)\<rparr>))
                   else (Some n, put (ad\<lparr>ra_coroutines := ra_coroutines ad @ [cd]\<rparr>)))"

definition over_limit :: "string \<Rightarrow> nat \<Rightarrow> rds \<Rightarrow> bool" where
  "over_limit node i st = (case rds_co_at node i st of
       None \<Rightarrow> False | Some cd \<Rightarrow> length (q_tasks (rc_q cd)) > TASKS_QUEUE_LIMIT)"

text \<open>The loop that looks for a connection with a short queue and sleeps in between.\<close>

fun pick_co :: "nat \<Rightarrow> (rds \<Rightarrow> rds) \<Rightarrow> string \<Rightarrow> nat option \<Rightarrow> rds \<Rightarrow> nat option \<times> rds" where
  "pick_co 0 sleep node i st = (i, st)"
| "pick_co (Suc k) sleep node i st = (case rds_get_co_data node st of
       (None, st1) \<Rightarrow> (None, st1)
     | (Some j, st1) \<Rightarrow> if over_limit node j st1 then pick_co k sleep node (Some j) (sleep st1) else (Some j, st1))"

text \<open>Either the error code that is returned at once, or \<open>None\<close>: the task is in a queue and the user waits.\<close>

definition rds_send_task :: "(rds \<Rightarrow> rds) \<Rightarrow> string \<Rightarrow> string \<Rightarrow> nat \<Rightarrow> rds \<Rightarrow> int option \<times> rds" where
  "rds_send_task sleep node cmd co st = (case pick_co 3 sleep node None st of
       (None, st1) \<Rightarrow> (Some ERR_REDIS_NO_CONNCTION, st1)
     | (Some i, st1) \<Rightarrow>
         if over_limit node i st1 then (Some ERR_REDIS_TASKS_OVER_LIMIT, st1)
         else case rds_co_at node i st1 of
             None \<Rightarrow> (None, st1)
           | Some cd \<Rightarrow> (None, rds_set_co node i (cd\<lparr>rc_q := push_task \<lparr>rt_cmd = cmd, rt_co = co\<rparr> (rc_q cd)\<rparr>) st1))"

definition exec_cmd :: "(rds \<Rightarrow> rds) \<Rightarrow> string \<Rightarrow> string \<Rightarrow> nat \<Rightarrow> rds \<Rightarrow> int option \<times> rds" where
  "exec_cmd sleep node cmd co st =
     (if node = [] \<or> cmd = [] then (Some ERR_INVALID_PARAMS, st) else rds_send_task sleep node cmd co st)"

section \<open>A connection's coroutine\<close>

definition rds_clear_co_tasks :: "rds_wake \<Rightarrow> rds_queue \<Rightarrow> rds_queue option" where
  "rds_clear_co_tasks wake q = clear_queue wake (ERR_REDIS_TASKS_CLEAR, None) q"

text \<open>Up to \<open>n\<close> commands are appended to the pipeline; \<open>k\<close> counts the calls. The result is the batch.\<close>

fun rds_append :: "nat \<Rightarrow> rds_wake \<Rightarrow> (nat \<Rightarrow> bool) \<Rightarrow> nat \<Rightarrow> rds_queue \<Rightarrow> rds_task list \<times> rds_queue" where
  "rds_append 0 wake app k q = ([], q)"
| "rds_append (Suc n) wake app k q = (case q_tasks q of
       [] \<Rightarrow> ([], q)
     | t # ts \<Rightarrow>
         let q1 = q\<lparr>q_tasks := ts\<rparr>
         in if app k then let (batch, q2) = rds_append n wake app (Suc k) q1 in (t # batch, q2)
            else rds_append n wake app (Suc k) (answer wake t (ERR_REDIS_APPEND_CMD_FAILED, None) q1))"

definition is_error_reply :: "redis_reply option \<Rightarrow> bool" where
  "is_error_reply r = (case r of Some (RError _) \<Rightarrow> True | _ \<Rightarrow> False)"

text \<open>The flag \<^verbatim>\<open>is_reply_ok\<close> is set before the loop and never again.\<close>

fun rds_replies :: "(nat \<Rightarrow> int \<times> int \<times> redis_reply option) \<Rightarrow> nat \<Rightarrow> bool \<Rightarrow> rds_task list \<Rightarrow> rds_answer list" where
  "rds_replies rep k is_reply_ok [] = []"
| "rds_replies rep k is_reply_ok (t # ts) =
     (let (ret, err, r) = rep k; ok = (is_reply_ok \<and> ret = 0 \<and> err = 0 \<and> \<not> is_error_reply r)
      in (if ok then (ERR_OK, r) else (ERR_REDIS_GET_REPLY_FAILED, None)) # rds_replies rep (Suc k) ok ts)"

definition answer_all :: "rds_wake \<Rightarrow> (rds_task \<times> rds_answer) list \<Rightarrow> rds_queue \<Rightarrow> rds_queue" where
  "answer_all wake xs q = fold (\<lambda>(t, r). answer wake t r) xs q"

definition handle_redis_cmd :: "rds_wake \<Rightarrow> rds_io \<Rightarrow> rds_queue \<Rightarrow> rds_queue" where
  "handle_redis_cmd wake io q =
     (let (batch, q1) = rds_append PIPELINE_CMD_CNT wake (io_append io) 0 q
      in answer_all wake (zip batch (rds_replies (io_reply io) 0 True batch)) q1)"

definition rds_connect :: "rds_io \<Rightarrow> string \<Rightarrow> int \<Rightarrow> bool" where
  "rds_connect io host port \<longleftrightarrow> host \<noteq> [] \<and> port \<noteq> 0 \<and> io_connect io"

text \<open>One turn of \<^verbatim>\<open>on_handle_task\<close>; \<open>None\<close> when clearing the queue never ends.\<close>

definition rds_on_handle_task :: "rds_wake \<Rightarrow> rds_io \<Rightarrow> rds_co \<Rightarrow> rds_co option" where
  "rds_on_handle_task wake io cd =
     (if q_tasks (rc_q cd) = [] then Some cd
      else if \<not> rc_c cd \<and> \<not> rds_connect io (ri_host (rc_ri cd)) (ri_port (rc_ri cd))
      then map_option (\<lambda>q. cd\<lparr>rc_q := q\<rparr>) (rds_clear_co_tasks wake (rc_q cd))
      else Some (cd\<lparr>rc_c := (io_err io = 0), rc_q := handle_redis_cmd wake io (rc_q cd)\<rparr>))"

section \<open>Set-up\<close>

text \<open>The keys of the configuration object in order, and the fields of each entry; \<open>None\<close> when \<^verbatim>\<open>std::stoi\<close>
  throws.\<close>

fun rds_init_nodes :: "(string \<times> (string \<Rightarrow> string)) list \<Rightarrow> rds \<Rightarrow> (bool \<times> rds) option" where
  "rds_init_nodes [] st = Some (True, st)"
| "rds_init_nodes ((node, obj) # nodes) st = do {
     port \<leftarrow> str_to_int (obj ''port'');
     cnt \<leftarrow> str_to_int (obj ''max_conn_cnt'');
     if cnt = 0 then Some (False, st)
     else if obj ''host'' = [] \<or> port = 0 then Some (False, st)
     else rds_init_nodes nodes (st\<lparr>m_rds_infos := um_put node
       \<lparr>ri_port = port, ri_host = obj ''host'', ri_node = node, ri_max_conn_cnt = min cnt RDS_MAX_CONN_CNT\<rparr> (m_rds_infos st)\<rparr>)
   }"

definition rds_init :: "(string \<times> (string \<Rightarrow> string)) list option \<Rightarrow> rds \<Rightarrow> (bool \<times> rds) option" where
  "rds_init config st = (case config of
       None \<Rightarrow> Some (False, st)
     | Some nodes \<Rightarrow> if nodes = [] then Some (False, st) else rds_init_nodes nodes st)"

definition rds_destroy :: "rds \<Rightarrow> rds" where
  "rds_destroy st = st\<lparr>m_rds_coroutines := []\<rparr>"

section \<open>Every task is answered once\<close>

lemma rds_append_holds: "rds_append n wake app k q = (batch, q') \<Longrightarrow> holds hs q \<Longrightarrow> holds (batch @ hs) q'"
proof (induction n arbitrary: k q batch hs)
  case (Suc n)
  show ?case
  proof (cases "q_tasks q")
    case (Cons t ts)
    note h = holds_pop [OF Suc.prems(2) Cons]
    show ?thesis
    proof (cases "app k")
      case True
      then obtain b where b: "rds_append n wake app (Suc k) (q\<lparr>q_tasks := ts\<rparr>) = (b, q')" "batch = t # b"
        using Suc.prems(1) Cons by (auto simp: Let_def split: prod.splits)
      from Suc.IH [OF b(1) h] show ?thesis by (simp add: b(2) holds_def)
    next
      case False
      then show ?thesis using Suc.prems(1) Cons Suc.IH [OF _ holds_answer [OF h]] by (simp add: Let_def)
    qed
  qed (use Suc in simp)
qed simp

lemma answer_all_holds: "holds (map fst xs @ hs) q \<Longrightarrow> holds hs (answer_all wake xs q)"
  by (induction xs arbitrary: q) (auto simp: answer_all_def holds_answer)

lemma rds_replies_length: "length (rds_replies rep k ok ts) = length ts"
  by (induction ts arbitrary: k ok) (simp_all add: Let_def split_beta)

lemma handle_redis_conserved: "conserved q \<Longrightarrow> conserved (handle_redis_cmd wake io q)"
proof -
  assume "conserved q"
  obtain b q1 where b: "rds_append PIPELINE_CMD_CNT wake (io_append io) 0 q = (b, q1)" by force
  have "holds (b @ []) q1" by (rule rds_append_holds [OF b]) (simp add: holds_none \<open>conserved q\<close>)
  then show ?thesis
    by (simp add: handle_redis_cmd_def b answer_all_holds rds_replies_length flip: holds_none)
qed

lemma rds_turn_conserved:
  assumes "rds_on_handle_task wake io cd = Some cd'" "conserved (rc_q cd)"
  shows "conserved (rc_q cd')"
  using assms handle_redis_conserved [of "rc_q cd"] clear_queue_result [of wake "(ERR_REDIS_TASKS_CLEAR, None)" "rc_q cd"]
  by (auto simp: rds_on_handle_task_def rds_clear_co_tasks_def split: if_splits)

definition array_ok :: "rds_array \<Rightarrow> bool" where
  "array_ok ad \<longleftrightarrow> 0 < length (ra_coroutines ad) \<and> int (length (ra_coroutines ad)) \<le> max 1 (ri_max_conn_cnt (ra_ri ad)) \<and>
     ri_max_conn_cnt (ra_ri ad) \<le> RDS_MAX_CONN_CNT \<and> 0 \<le> ra_cur_idx ad \<and> ra_cur_idx ad < int (length (ra_coroutines ad)) \<and>
     (\<forall>cd \<in> set (ra_coroutines ad). conserved (rc_q cd))"

definition rds_ok :: "rds \<Rightarrow> bool" where
  "rds_ok st \<longleftrightarrow> (\<forall>node ri. um_find (m_rds_infos st) node = Some ri \<longrightarrow> ri_max_conn_cnt ri \<le> RDS_MAX_CONN_CNT) \<and>
     (\<forall>node ad. um_find (m_rds_coroutines st) node = Some ad \<longrightarrow> array_ok ad)"

lemma rds_ok_put: "rds_ok st \<Longrightarrow> array_ok ad \<Longrightarrow> rds_ok (st\<lparr>m_rds_coroutines := um_put node ad (m_rds_coroutines st)\<rparr>)"
  by (auto simp: rds_ok_def um_find_put)

lemma rds_get_co_data_ok:
  assumes "rds_ok st" "rds_get_co_data node st = (io, st')"
  shows "rds_ok st' \<and> (case io of None \<Rightarrow> st' = st | Some i \<Rightarrow> \<exists>cd. rds_co_at node i st' = Some cd)"
proof (cases "um_find (m_rds_infos st) node")
  case None
  then show ?thesis using assms by (simp add: rds_get_co_data_def)
next
  case (Some ri)
  define cd where "cd = \<lparr>rc_c = False, rc_ri = ri, rc_q = empty_queue\<rparr>"
  have cd: "conserved (rc_q cd)" "ri_max_conn_cnt ri \<le> RDS_MAX_CONN_CNT"
    using assms(1) Some by (auto simp: cd_def conserved_empty rds_ok_def)
  show ?thesis
  proof (cases "um_find (m_rds_coroutines st) node")
    case None
    define ad where "ad = \<lparr>ra_cur_idx = 0, ra_ri = ri, ra_coroutines = [cd]\<rparr>"
    have "array_ok ad" using cd by (simp add: array_ok_def ad_def)
    then show ?thesis
      using assms Some None rds_ok_put [OF assms(1), of ad node]
      by (auto simp: rds_get_co_data_def cd_def [symmetric] ad_def [symmetric] rds_co_at_def um_find_put) (simp add: ad_def)
  next
    case (Some ad)
    then have ad: "array_ok ad" using assms(1) by (simp add: rds_ok_def)
    then have n: "length (ra_coroutines ad) \<le> 10" "i32 (int (length (ra_coroutines ad))) = int (length (ra_coroutines ad))"
      "i32 (ra_cur_idx ad + 1) = ra_cur_idx ad + 1" by (auto simp: array_ok_def RDS_MAX_CONN_CNT_def)
    define ad' where "ad' = (if int (length (ra_coroutines ad)) \<ge> ri_max_conn_cnt (ra_ri ad)
        then ad\<lparr>ra_cur_idx := (if ra_cur_idx ad + 1 = int (length (ra_coroutines ad)) then 0 else ra_cur_idx ad + 1)\<rparr>
        else ad\<lparr>ra_coroutines := ra_coroutines ad @ [cd]\<rparr>)"
    have "array_ok ad'" using ad cd by (auto simp: array_ok_def ad'_def)
    moreover have "st' = st\<lparr>m_rds_coroutines := um_put node ad' (m_rds_coroutines st)\<rparr>"
      using assms(2) \<open>um_find (m_rds_infos st) node = Some ri\<close> Some n by (auto simp: rds_get_co_data_def cd_def [symmetric] ad'_def Let_def)
    moreover have "\<exists>i. io = Some i \<and> i < length (ra_coroutines ad')"
      using assms(2) \<open>um_find (m_rds_infos st) node = Some ri\<close> Some n ad
      by (auto simp: rds_get_co_data_def cd_def [symmetric] ad'_def Let_def array_ok_def)
    ultimately show ?thesis using rds_ok_put [OF assms(1), of ad' node] by (auto simp: rds_co_at_def um_find_put)
  qed
qed

lemma rds_set_co_ok:
  assumes "rds_ok st" "rds_co_at node i st = Some cd0" "conserved (rc_q cd)"
  shows "rds_ok (rds_set_co node i cd st)"
proof -
  from assms(2) obtain ad where ad: "um_find (m_rds_coroutines st) node = Some ad" "i < length (ra_coroutines ad)"
    by (auto simp: rds_co_at_def split: option.splits if_splits)
  then have "array_ok ad" using assms(1) by (simp add: rds_ok_def)
  then have "array_ok (ad\<lparr>ra_coroutines := (ra_coroutines ad)[i := cd]\<rparr>)"
    using assms(3) set_update_subset_insert [of "ra_coroutines ad" i cd] by (auto simp: array_ok_def)
  with rds_ok_put [OF assms(1)] ad(1) show ?thesis by (simp add: rds_set_co_def)
qed

lemma rds_co_at_conserved: "rds_ok st \<Longrightarrow> rds_co_at node i st = Some cd \<Longrightarrow> conserved (rc_q cd)"
  by (auto simp: rds_co_at_def rds_ok_def array_ok_def split: option.splits if_splits)

lemma pick_co_ok:
  assumes "\<forall>s. rds_ok s \<longrightarrow> rds_ok (sleep s)"
  shows "rds_ok st \<Longrightarrow> rds_ok (snd (pick_co k sleep node i st))"
proof (induction k arbitrary: i st)
  case (Suc k)
  obtain io st1 where g: "rds_get_co_data node st = (io, st1)" by force
  from rds_get_co_data_ok [OF Suc.prems g] have "rds_ok st1" by simp
  with Suc.IH assms g show ?case by (simp split: option.splits)
qed simp

lemma exec_cmd_ok:
  assumes "\<forall>s. rds_ok s \<longrightarrow> rds_ok (sleep s)" "rds_ok st"
  shows "rds_ok (snd (exec_cmd sleep node cmd co st))"
proof -
  obtain io st1 where p: "pick_co 3 sleep node None st = (io, st1)" by force
  then have ok: "rds_ok st1" using pick_co_ok [OF assms, of 3 node None] by simp
  have "rds_ok (rds_set_co node i (cd\<lparr>rc_q := push_task t (rc_q cd)\<rparr>) st1)" if "rds_co_at node i st1 = Some cd" for i cd t
    by (rule rds_set_co_ok [OF ok that]) (simp add: conserved_push rds_co_at_conserved [OF ok that])
  with ok assms(2) show ?thesis
    by (simp add: exec_cmd_def rds_send_task_def p split: option.splits)
qed

text \<open>Histories: a user's call, and a turn of a connection's coroutine that ends.\<close>

datatype rds_op =
    RExec "rds \<Rightarrow> rds" string string nat
  | RTurn rds_wake rds_io string nat

definition rds_step :: "rds \<Rightarrow> rds_op \<Rightarrow> rds" where
  "rds_step st x = (case x of
       RExec sleep node cmd co \<Rightarrow> snd (exec_cmd sleep node cmd co st)
     | RTurn wake io node i \<Rightarrow> (case rds_co_at node i st of
           None \<Rightarrow> st
         | Some cd \<Rightarrow> (case rds_on_handle_task wake io cd of None \<Rightarrow> st | Some cd' \<Rightarrow> rds_set_co node i cd' st)))"

definition rds_enabled :: "rds \<Rightarrow> rds_op \<Rightarrow> bool" where
  "rds_enabled st x = (case x of RExec sleep _ _ _ \<Rightarrow> \<forall>s. rds_ok s \<longrightarrow> rds_ok (sleep s) | _ \<Rightarrow> True)"

definition rds_start :: "rds \<Rightarrow> bool" where
  "rds_start st \<longleftrightarrow> (\<exists>config. rds_init config \<lparr>m_rds_infos = [], m_rds_coroutines = []\<rparr> = Some (True, st))"

lemma rds_init_nodes_ok: "rds_ok st \<Longrightarrow> rds_init_nodes nodes st = Some (r, st') \<Longrightarrow> rds_ok st'"
proof (induction nodes st arbitrary: r rule: rds_init_nodes.induct)
  case (2 node obj nodes st)
  from 2(3) obtain port cnt where p: "str_to_int (obj ''port'') = Some port" "str_to_int (obj ''max_conn_cnt'') = Some cnt"
    by (auto split: bind_splits)
  show ?case
  proof (cases "cnt = 0 \<or> obj ''host'' = [] \<or> port = 0")
    case True
    then show ?thesis using 2(2,3) p by (auto split: if_splits)
  next
    case False
    have "rds_ok (st\<lparr>m_rds_infos := um_put node \<lparr>ri_port = port, ri_host = obj ''host'', ri_node = node, ri_max_conn_cnt = min cnt RDS_MAX_CONN_CNT\<rparr> (m_rds_infos st)\<rparr>)"
      using 2(2) by (simp add: rds_ok_def um_find_put)
    with 2(1) [OF p] 2(3) p False show ?thesis by simp
  qed
qed simp

interpretation rd: invariant_system rds_start rds_step rds_enabled rds_ok
proof unfold_locales
  show "rds_ok st" if "rds_start st" for st
    using that rds_init_nodes_ok [of "\<lparr>m_rds_infos = [], m_rds_coroutines = []\<rparr>" _ True st]
    by (auto simp: rds_start_def rds_init_def rds_ok_def um.find_nothing split: option.splits if_splits)
  show "rds_ok (rds_step st x)" if ok: "rds_ok st" and en: "rds_enabled st x" for st x
  proof (cases x)
    case (RExec sleep node cmd co)
    then show ?thesis using exec_cmd_ok ok en by (simp add: rds_step_def rds_enabled_def)
  next
    case (RTurn wake io node i)
    have "rds_ok (rds_set_co node i cd' st)" if "rds_co_at node i st = Some cd" "rds_on_handle_task wake io cd = Some cd'" for cd cd'
      by (rule rds_set_co_ok [OF ok that(1) rds_turn_conserved [OF that(2) rds_co_at_conserved [OF ok that(1)]]])
    with RTurn ok show ?thesis by (auto simp: rds_step_def split: option.splits)
  qed
qed

section \<open>A server that answers\<close>

definition no_wake :: rds_wake where
  "no_wake t r = []"

definition io_good :: "rds_io \<Rightarrow> bool" where
  "io_good io \<longleftrightarrow> io_connect io \<and> io_err io = 0 \<and> (\<forall>k. io_append io k \<and> fst (io_reply io k) = 0 \<and> fst (snd (io_reply io k)) = 0 \<and>
     \<not> is_error_reply (snd (snd (io_reply io k))))"

fun rds_turns :: "rds_wake \<Rightarrow> rds_io list \<Rightarrow> rds_co \<Rightarrow> rds_co option" where
  "rds_turns wake [] cd = Some cd"
| "rds_turns wake (io # ios) cd = do { cd1 \<leftarrow> rds_on_handle_task wake io cd; rds_turns wake ios cd1 }"

text \<open>The reply to the \<open>i\<close>-th task: pipelines hold a hundred commands.\<close>

definition reply_of :: "rds_io list \<Rightarrow> nat \<Rightarrow> rds_answer" where
  "reply_of ios i = (ERR_OK, snd (snd (io_reply (ios ! (i div PIPELINE_CMD_CNT)) (i mod PIPELINE_CMD_CNT))))"

lemma rds_append_all: "\<forall>k. app k \<Longrightarrow> rds_append n wake app k q = (take n (q_tasks q), q\<lparr>q_tasks := drop n (q_tasks q)\<rparr>)"
proof (induction n arbitrary: k q)
  case (Suc n)
  then show ?case by (cases "q_tasks q") simp_all
qed simp

lemma answer_all_quiet: "answer_all no_wake xs q = q\<lparr>q_out := q_out q @ xs\<rparr>"
  by (induction xs arbitrary: q) (auto simp: answer_all_def answer_def no_wake_def)

lemma rds_replies_nth:
  assumes "i < length ts"
  shows "rds_replies rep k ok ts ! i =
    (if ok \<and> (\<forall>j \<le> i. fst (rep (k + j)) = 0 \<and> fst (snd (rep (k + j))) = 0 \<and> \<not> is_error_reply (snd (snd (rep (k + j)))))
     then (ERR_OK, snd (snd (rep (k + i)))) else (ERR_REDIS_GET_REPLY_FAILED, None))"
  using assms
proof (induction ts arbitrary: i k ok)
  case (Cons t ts)
  show ?case
  proof (cases i)
    case 0
    then show ?thesis by (simp add: Let_def split_beta)
  next
    case (Suc i')
    have "(\<forall>j \<le> i. P j) = (P 0 \<and> (\<forall>j \<le> i'. P (Suc j)))" for P
      unfolding Suc using le_Suc_eq by (metis less_Suc_eq_0_disj less_Suc_eq_le)
    then show ?thesis using Cons.IH [of i' "Suc k"] Cons.prems Suc by (auto simp: Let_def split_beta)
  qed
qed simp

lemma zip_upt_split:
  "zip ts (map f [0..<length ts]) = zip (take m ts) (map f [0..<length (take m ts)]) @ zip (drop m ts) (map (\<lambda>i. f (m + i)) [0..<length (drop m ts)])"
proof (rule nth_equalityI)
  fix i assume "i < length (zip ts (map f [0..<length ts]))"
  then show "zip ts (map f [0..<length ts]) ! i =
      (zip (take m ts) (map f [0..<length (take m ts)]) @ zip (drop m ts) (map (\<lambda>i. f (m + i)) [0..<length (drop m ts)])) ! i"
    by (auto simp: nth_append)
qed simp

lemma good_turn:
  assumes "io_good io" "ri_host (rc_ri cd) \<noteq> []" "ri_port (rc_ri cd) \<noteq> 0"
  shows "\<exists>cd'. rds_on_handle_task no_wake io cd = Some cd' \<and> rc_ri cd' = rc_ri cd \<and> q_tasks (rc_q cd') = drop PIPELINE_CMD_CNT (q_tasks (rc_q cd)) \<and>
    q_out (rc_q cd') = q_out (rc_q cd) @ zip (take PIPELINE_CMD_CNT (q_tasks (rc_q cd)))
      (map (reply_of (io # ios)) [0..<length (take PIPELINE_CMD_CNT (q_tasks (rc_q cd)))])"
proof (cases "q_tasks (rc_q cd) = []")
  case True
  then show ?thesis by (simp add: rds_on_handle_task_def)
next
  case False
  define ts where "ts = take PIPELINE_CMD_CNT (q_tasks (rc_q cd))"
  have "rds_replies (io_reply io) 0 True ts = map (reply_of (io # ios)) [0..<length ts]"
  proof (rule nth_equalityI)
    show "length (rds_replies (io_reply io) 0 True ts) = length (map (reply_of (io # ios)) [0..<length ts])" by (simp add: rds_replies_length)
    fix i assume "i < length (rds_replies (io_reply io) 0 True ts)"
    then show "rds_replies (io_reply io) 0 True ts ! i = map (reply_of (io # ios)) [0..<length ts] ! i"
      using assms(1) by (auto simp: rds_replies_length rds_replies_nth io_good_def reply_of_def ts_def)
  qed
  moreover have "rds_append PIPELINE_CMD_CNT no_wake (io_append io) 0 (rc_q cd) = (ts, (rc_q cd)\<lparr>q_tasks := drop PIPELINE_CMD_CNT (q_tasks (rc_q cd))\<rparr>)"
    unfolding ts_def by (rule rds_append_all) (use assms(1) in \<open>simp add: io_good_def\<close>)
  ultimately show ?thesis
    using assms False by (simp add: rds_on_handle_task_def rds_connect_def io_good_def handle_redis_cmd_def answer_all_quiet ts_def)
qed

lemma reply_of_shift: "reply_of (io # ios) (PIPELINE_CMD_CNT + i) = reply_of ios i"
proof -
  have "(100 + i) div 100 = Suc (i div 100)" by (subst div_add_self1) simp_all
  then show ?thesis by (simp add: reply_of_def PIPELINE_CMD_CNT_def)
qed

lemma redis_turns_answer:
  assumes "list_all io_good ios" "ri_host (rc_ri cd) \<noteq> []" "ri_port (rc_ri cd) \<noteq> 0"
    and "length (q_tasks (rc_q cd)) \<le> PIPELINE_CMD_CNT * length ios"
  shows "\<exists>cd'. rds_turns no_wake ios cd = Some cd' \<and> q_tasks (rc_q cd') = [] \<and>
    q_out (rc_q cd') = q_out (rc_q cd) @ zip (q_tasks (rc_q cd)) (map (reply_of ios) [0..<length (q_tasks (rc_q cd))])"
  using assms
proof (induction ios arbitrary: cd)
  case (Cons io ios)
  obtain cd1 where cd1: "rds_on_handle_task no_wake io cd = Some cd1" "rc_ri cd1 = rc_ri cd" "q_tasks (rc_q cd1) = drop PIPELINE_CMD_CNT (q_tasks (rc_q cd))"
    "q_out (rc_q cd1) = q_out (rc_q cd) @ zip (take PIPELINE_CMD_CNT (q_tasks (rc_q cd)))
      (map (reply_of (io # ios)) [0..<length (take PIPELINE_CMD_CNT (q_tasks (rc_q cd)))])"
    using good_turn [of io cd ios] Cons.prems by auto
  have "\<exists>cd'. rds_turns no_wake ios cd1 = Some cd' \<and> q_tasks (rc_q cd') = [] \<and>
      q_out (rc_q cd') = q_out (rc_q cd1) @ zip (q_tasks (rc_q cd1)) (map (reply_of ios) [0..<length (q_tasks (rc_q cd1))])"
    using Cons.prems cd1 by (intro Cons.IH) auto
  then show ?case
    using cd1 zip_upt_split [of "q_tasks (rc_q cd)" "reply_of (io # ios)" PIPELINE_CMD_CNT] by (auto simp: reply_of_shift)
qed simp

section \<open>Properties\<close>

text \<open>
  C21. After any history of calls and turns, whatever Redis and the users did: on every connection each task
  that was accepted is either still waiting or was answered exactly once, a node never has more
  connections than configured, and the next call finds a connection of the array, never one beyond it.
\<close>

theorem redis_tasks_conserved:
  assumes "rds_start s" "enabled_run rds_step rds_enabled s xs" "st = foldl rds_step s xs"
  shows "(\<forall>node i cd. rds_co_at node i st = Some cd \<longrightarrow>
      mset (q_in (rc_q cd)) = mset (q_tasks (rc_q cd)) + mset (map fst (q_out (rc_q cd)))) \<and>
    (\<forall>node ad. um_find (m_rds_coroutines st) node = Some ad \<longrightarrow>
      int (length (ra_coroutines ad)) \<le> max 1 (ri_max_conn_cnt (ra_ri ad)) \<and> length (ra_coroutines ad) \<le> 10) \<and>
    (\<forall>node i st'. rds_get_co_data node st = (Some i, st') \<longrightarrow> rds_co_at node i st' \<noteq> None)"
proof -
  have ok: "rds_ok st" unfolding assms(3) by (rule rd.run_ok [OF assms(1,2)])
  have "int (length (ra_coroutines ad)) \<le> max 1 (ri_max_conn_cnt (ra_ri ad)) \<and> length (ra_coroutines ad) \<le> 10"
    if "um_find (m_rds_coroutines st) node = Some ad" for node ad
  proof -
    have "array_ok ad" using ok that by (simp add: rds_ok_def)
    then show ?thesis by (auto simp: array_ok_def RDS_MAX_CONN_CNT_def)
  qed
  moreover have "rds_co_at node i st' \<noteq> None" if "rds_get_co_data node st = (Some i, st')" for node i st'
    using rds_get_co_data_ok [OF ok that] by auto
  ultimately show ?thesis using rds_co_at_conserved [OF ok] by (auto simp: conserved_def)
qed

definition rds_conf :: "(string \<times> (string \<Rightarrow> string)) list" where
  "rds_conf = [(''a'', \<lambda>k. if k = ''host'' then ''h'' else ''1'')]"

definition rds_info1 :: redis_info where
  "rds_info1 = \<lparr>ri_port = 1, ri_host = ''h'', ri_node = ''a'', ri_max_conn_cnt = 1\<rparr>"

definition good_io :: rds_io where
  "good_io = \<lparr>io_connect = True, io_append = (\<lambda>_. True), io_reply = (\<lambda>k. (0, 0, Some (RReply (replicate k CHR ''x'')))), io_err = 0\<rparr>"

lemma str_to_int_one: "str_to_int ''1'' = Some 1"
  using str_to_int_dec [of 1] by (simp add: dec_def dec_nat.simps digit_def char_of_def bit_0)

lemma rds_conf_init: "rds_init (Some rds_conf) \<lparr>m_rds_infos = [], m_rds_coroutines = []\<rparr> = Some (True, \<lparr>m_rds_infos = [(''a'', rds_info1)], m_rds_coroutines = []\<rparr>)"
  by (simp add: rds_init_def rds_conf_def str_to_int_one um_put_def RDS_MAX_CONN_CNT_def rds_info1_def)

theorem redis_tasks_conserved_witness:
  "\<exists>cd. rds_co_at ''a'' 0 (foldl rds_step \<lparr>m_rds_infos = [(''a'', rds_info1)], m_rds_coroutines = []\<rparr> [RExec id ''a'' ''get x'' 7]) = Some cd \<and>
     q_tasks (rc_q cd) = [\<lparr>rt_cmd = ''get x'', rt_co = 7\<rparr>] \<and>
     mset (q_in (rc_q cd)) = mset (q_tasks (rc_q cd)) + mset (map fst (q_out (rc_q cd)))"
proof -
  define s where "s = \<lparr>m_rds_infos = [(''a'', rds_info1)], m_rds_coroutines = []\<rparr>"
  have st: "rds_start s" unfolding rds_start_def s_def using rds_conf_init by blast
  have en: "enabled_run rds_step rds_enabled s [RExec id ''a'' ''get x'' 7]" by (simp add: rds_enabled_def)
  note c = redis_tasks_conserved [OF st en refl, THEN conjunct1]
  have "\<exists>cd. rds_co_at ''a'' 0 (foldl rds_step s [RExec id ''a'' ''get x'' 7]) = Some cd \<and> q_tasks (rc_q cd) = [\<lparr>rt_cmd = ''get x'', rt_co = 7\<rparr>]"
    by (simp add: s_def rds_step_def exec_cmd_def rds_send_task_def numeral_3_eq_3 rds_get_co_data_def um_find_def um_put_def over_limit_def
        rds_co_at_def rds_set_co_def push_task_def empty_queue_def)
  with c show ?thesis unfolding s_def by blast
qed

text \<open>
  C23. A Redis that answers serves every waiting task in the order of the calls: after one turn per hundred
  tasks the queue is empty, and the \<open>i\<close>-th task was answered with success and with the \<open>i\<close>-th reply.
\<close>

theorem redis_answers_all:
  assumes "list_all io_good ios" "ri_host (rc_ri cd) \<noteq> []" "ri_port (rc_ri cd) \<noteq> 0"
    and "length (q_tasks (rc_q cd)) \<le> PIPELINE_CMD_CNT * length ios"
  shows "\<exists>cd'. rds_turns no_wake ios cd = Some cd' \<and> q_tasks (rc_q cd') = [] \<and>
    q_out (rc_q cd') = q_out (rc_q cd) @ zip (q_tasks (rc_q cd)) (map (reply_of ios) [0..<length (q_tasks (rc_q cd))])"
  using assms by (rule redis_turns_answer)

definition busy_co :: "nat \<Rightarrow> rds_co" where
  "busy_co n = \<lparr>rc_c = False, rc_ri = rds_info1, rc_q = fold push_task (map (\<lambda>i. \<lparr>rt_cmd = ''get x'', rt_co = i\<rparr>) [0..<n]) empty_queue\<rparr>"

theorem redis_answers_all_witness:
  "\<exists>cd'. rds_turns no_wake [good_io, good_io] (busy_co 150) = Some cd' \<and> q_tasks (rc_q cd') = [] \<and> length (q_out (rc_q cd')) = 150"
proof -
  have q: "length (q_tasks (rc_q (busy_co n))) = n" "q_out (rc_q (busy_co n)) = []" "rc_ri (busy_co n) = rds_info1" for n
    by (simp_all add: busy_co_def push_all empty_queue_def)
  have "list_all io_good [good_io, good_io]" "ri_host rds_info1 \<noteq> []" "ri_port rds_info1 \<noteq> 0" "150 \<le> PIPELINE_CMD_CNT * length [good_io, good_io]"
    by (simp_all add: io_good_def good_io_def is_error_reply_def rds_info1_def PIPELINE_CMD_CNT_def)
  then obtain cd' where cd': "rds_turns no_wake [good_io, good_io] (busy_co 150) = Some cd'" "q_tasks (rc_q cd') = []"
      "q_out (rc_q cd') = q_out (rc_q (busy_co 150)) @ zip (q_tasks (rc_q (busy_co 150)))
        (map (reply_of [good_io, good_io]) [0..<length (q_tasks (rc_q (busy_co 150)))])"
    using redis_answers_all [of "[good_io, good_io]" "busy_co 150"] unfolding q by blast
  then have "length (q_out (rc_q cd')) = 150" by (simp only: length_append length_zip length_map length_upt q list.size)
  with cd' show ?thesis by blast
qed

text \<open>
  One error reply fails the rest of its pipeline: if Redis answers the \<open>j\<close>-th command of a batch with an
  error, that task and every later one of the batch are told that their reply failed, although Redis
  executed them and answered them. The flag is never set back.
\<close>

theorem reply_error_poisons_batch:
  assumes "\<forall>k. io_append io k" "length (q_tasks q) \<le> PIPELINE_CMD_CNT" "is_error_reply (snd (snd (io_reply io j)))"
    and "j \<le> i" "i < length (q_tasks q)"
  shows "q_out (handle_redis_cmd no_wake io q) ! (length (q_out q) + i) = (q_tasks q ! i, (ERR_REDIS_GET_REPLY_FAILED, None))"
proof -
  have "rds_append PIPELINE_CMD_CNT no_wake (io_append io) 0 q = (q_tasks q, q\<lparr>q_tasks := []\<rparr>)"
    using rds_append_all [OF assms(1), of PIPELINE_CMD_CNT no_wake 0 q] assms(2) by simp
  moreover have "rds_replies (io_reply io) 0 True (q_tasks q) ! i = (ERR_REDIS_GET_REPLY_FAILED, None)"
    using assms(3,4) by (auto simp: rds_replies_nth [OF assms(5)])
  ultimately show ?thesis
    using assms(5) by (simp add: handle_redis_cmd_def answer_all_quiet nth_append rds_replies_length)
qed

theorem reply_error_poisons_batch_witness:
  "q_out (handle_redis_cmd no_wake (good_io\<lparr>io_reply := (\<lambda>k. (0, 0, Some (if k = 0 then RError ''ERR'' else RReply ''1'')))\<rparr>) (rc_q (busy_co 2))) ! 1
   = (\<lparr>rt_cmd = ''get x'', rt_co = 1\<rparr>, (ERR_REDIS_GET_REPLY_FAILED, None))"
  using reply_error_poisons_batch [of "good_io\<lparr>io_reply := (\<lambda>k. (0, 0, Some (if k = 0 then RError ''ERR'' else RReply ''1'')))\<rparr>" "rc_q (busy_co 2)" 0 1]
  by (simp add: good_io_def busy_co_def push_task_def empty_queue_def PIPELINE_CMD_CNT_def is_error_reply_def numeral_2_eq_2)

text \<open>
  When Redis cannot be reached and the users retry at once, the process hangs: clearing the queue
  resumes each user, who pushes the next task before the loop looks at the queue again, so the turn never
  ends and no other coroutine runs.
\<close>

theorem retry_hangs_process:
  assumes "\<not> rc_c cd" "\<not> io_connect io" "q_tasks (rc_q cd) \<noteq> []" "\<forall>t r. wake t r \<noteq> []"
  shows "rds_on_handle_task wake io cd = None"
  using assms by (simp add: rds_on_handle_task_def rds_connect_def rds_clear_co_tasks_def clear_queue_spins)

theorem retry_hangs_process_witness:
  "rds_on_handle_task (\<lambda>t _. [t]) (good_io\<lparr>io_connect := False\<rparr>) (busy_co 1) = None"
  by (rule retry_hangs_process) (simp_all add: busy_co_def push_task_def empty_queue_def good_io_def)

end
