(* ===== verification/MysqlMgr.thy ===== *)
theory MysqlMgr
  imports TaskQueue Codec Timers Util
begin

text \<open>
  The MySQL pool (\<^verbatim>\<open>src/src/core/mysql/mysql_mgr.cpp\<close>) and its connections (\<^verbatim>\<open>mysql_conn.cpp\<close>,
  \<^verbatim>\<open>mysql_result.cpp\<close>). Each node has a coroutine that distributes tasks and up to \<^verbatim>\<open>max_conn_cnt\<close> handlers, each
  a coroutine with a queue and a connection, in a list of busy and a list of free handlers. Handlers are
  shared objects and live under their number in \<open>md_cos\<close>. A query gives the processor to other
  coroutines, so a handler's turn is two steps, one before and one after the query. The client library of
  MySQL is an argument (\<open>mysql_api\<close>); \<open>None\<close> is undefined behaviour.
\<close>

section \<open>Connections\<close>

record db_info =
  db_port :: int
  db_max_conn_cnt :: int
  db_host :: string
  db_name :: string
  db_password :: string
  db_charset :: string
  db_user :: string
  db_node :: string

text \<open>The pointer \<^verbatim>\<open>m_conn\<close>: null, a handle that was initialised only, or one that is connected.\<close>

datatype mysql_handle = MY_NULL | MY_INIT | MY_CONNECTED

type_synonym map_row = "(string, string) umap"

text \<open>\<^verbatim>\<open>mysql_init\<close>, \<^verbatim>\<open>mysql_real_connect\<close> (host, user, password, database, port), \<^verbatim>\<open>mysql_real_query\<close> with
  \<^verbatim>\<open>mysql_errno\<close>, and \<^verbatim>\<open>mysql_store_result\<close>: the names of the fields and the rows.\<close>

record mysql_api =
  my_init :: bool
  my_real_connect :: "string \<Rightarrow> string \<Rightarrow> string \<Rightarrow> string \<Rightarrow> int \<Rightarrow> bool"
  my_real_query :: "mysql_handle \<Rightarrow> string \<Rightarrow> int"
  my_store_result :: "string \<Rightarrow> (string list \<times> string option list list) option"

definition mysql_connect :: "mysql_api \<Rightarrow> db_info option \<Rightarrow> mysql_handle \<Rightarrow> bool \<times> mysql_handle" where
  "mysql_connect api dbi h = (case dbi of
       None \<Rightarrow> (False, h)
     | Some d \<Rightarrow>
         if \<not> my_init api then (False, MY_NULL)
         else if \<not> my_real_connect api (db_host d) (db_user d) (db_password d) ''mysql'' (db_port d) then (False, MY_INIT)
         else (True, MY_CONNECTED))"

definition sql_exec :: "mysql_api \<Rightarrow> string \<Rightarrow> mysql_handle \<Rightarrow> int option" where
  "sql_exec api sql h = (if sql = [] then Some ERR_INVALID_PARAMS else if h = MY_NULL then None else Some (my_real_query api h sql))"

definition conn_sql_write :: "mysql_api \<Rightarrow> string \<Rightarrow> mysql_handle \<Rightarrow> int option" where
  "conn_sql_write api sql h =
     (if sql = [] then Some ERR_INVALID_PARAMS
      else map_option (\<lambda>ret. if ret \<noteq> ERR_OK then ERR_DB_EXEC_FAILED else ERR_OK) (sql_exec api sql h))"

text \<open>The first word of the statement.\<close>

definition check_query_sql :: "string \<Rightarrow> bool" where
  "check_query_sql sql =
     (let oper = takeWhile (\<lambda>c. \<not> is_space c) (dropWhile is_space sql)
      in list_ex (strcasecmp_eq oper) [''select'', ''show'', ''explain'', ''desc''])"

text \<open>\<^verbatim>\<open>emplace\<close> keeps the first of two columns of the same name.\<close>

definition emplace :: "string \<Rightarrow> string \<Rightarrow> map_row \<Rightarrow> map_row" where
  "emplace k v m = (if um_find m k = None then um_put k v m else m)"

definition fetch_result_rows :: "string list \<times> string option list list \<Rightarrow> map_row list \<Rightarrow> map_row list" where
  "fetch_result_rows res rows =
     rows @ map (\<lambda>row. fold (\<lambda>(f, v). emplace f (case v of None \<Rightarrow> [] | Some s \<Rightarrow> s)) (zip (fst res) row) []) (snd res)"

definition conn_sql_read :: "mysql_api \<Rightarrow> string \<Rightarrow> map_row list \<Rightarrow> mysql_handle \<Rightarrow> (int \<times> map_row list) option" where
  "conn_sql_read api sql rows h =
     (if sql = [] then Some (ERR_INVALID_PARAMS, rows)
      else if \<not> check_query_sql sql then Some (ERR_DB_INVALID_QUERY_SQL, rows)
      else do {
        ret \<leftarrow> sql_exec api sql h;
        if ret \<noteq> ERR_OK then Some (ERR_DB_QUERY_FAILED, rows)
        else Some (ERR_OK, case my_store_result api sql of None \<Rightarrow> rows | Some res \<Rightarrow> fetch_result_rows res rows)
      })"

section \<open>The pool\<close>

definition DEF_CONN_CNT :: int where
  "DEF_CONN_CNT = 5"

definition DB_MAX_CONN_CNT :: int where
  "DB_MAX_CONN_CNT = 100"

definition TASK_TIME_OUT :: int where
  "TASK_TIME_OUT = 10 * 1000"

definition CONN_TIME_OUT :: int where
  "CONN_TIME_OUT = 30 * 1000"

definition DIST_CONN_TASKS_ONCE :: nat where
  "DIST_CONN_TASKS_ONCE = 50"

record my_task =
  mt_user_co :: nat
  mt_is_read :: bool
  mt_sql :: string
  mt_active_time :: int

text \<open>The field \<^verbatim>\<open>ret\<close> of a task and the rows it was given.\<close>

type_synonym my_answer = "int \<times> map_row list"

type_synonym my_wake = "my_task \<Rightarrow> my_answer \<Rightarrow> my_task list"

text \<open>A handler; \<open>mc_cur\<close> is the task whose query runs, \<open>mc_end\<close> says that its coroutine has ended.\<close>

record my_co =
  mc_c :: "mysql_handle option"
  mc_tasks :: "my_task list"
  mc_active_time :: int
  mc_cur :: "my_task option"
  mc_end :: bool

text \<open>A node's distributor; \<open>md_in\<close> and \<open>md_out\<close> record what users sent and what they were answered.\<close>

record my_md =
  md_dbi :: db_info
  md_conn_cnt :: int
  md_tasks :: "my_task list"
  md_busy_conns :: "nat list"
  md_free_conns :: "nat list"
  md_cos :: "nat \<Rightarrow> my_co"
  md_next :: nat
  md_in :: "my_task list"
  md_out :: "(my_task \<times> my_answer) list"

definition new_co :: my_co where
  "new_co = \<lparr>mc_c = None, mc_tasks = [], mc_active_time = 0, mc_cur = None, mc_end = False\<rparr>"

definition new_md :: "db_info \<Rightarrow> my_md" where
  "new_md dbi = \<lparr>md_dbi = dbi, md_conn_cnt = 0, md_tasks = [], md_busy_conns = [], md_free_conns = [],
     md_cos = (\<lambda>_. new_co), md_next = 0, md_in = [], md_out = []\<rparr>"

definition md_set :: "nat \<Rightarrow> my_co \<Rightarrow> my_md \<Rightarrow> my_md" where
  "md_set a cd md = md\<lparr>md_cos := (md_cos md)(a := cd)\<rparr>"

definition md_push :: "my_task \<Rightarrow> my_md \<Rightarrow> my_md" where
  "md_push t md = md\<lparr>md_tasks := md_tasks md @ [t], md_in := md_in md @ [t]\<rparr>"

text \<open>A user is resumed with the answer; what it sends at once goes to the distributor.\<close>

definition md_answer :: "my_wake \<Rightarrow> my_task \<Rightarrow> my_answer \<Rightarrow> my_md \<Rightarrow> my_md" where
  "md_answer wake t r md = fold md_push (wake t r) (md\<lparr>md_out := md_out md @ [(t, r)]\<rparr>)"

definition add_to_free_list :: "nat \<Rightarrow> my_md \<Rightarrow> my_md" where
  "add_to_free_list a md =
     (let md1 = md\<lparr>md_busy_conns := remove1 a (md_busy_conns md)\<rparr>
      in if a \<in> set (md_free_conns md1) then md1 else md1\<lparr>md_free_conns := a # md_free_conns md1\<rparr>)"

text \<open>A new handler runs at once: its queue is empty, so it puts itself into the free list and waits, or
  ends when the manager is shutting down.\<close>

definition my_get_co_data :: "bool \<Rightarrow> my_md \<Rightarrow> (nat \<times> my_md) option" where
  "my_get_co_data is_exit md = (case md_free_conns md of
       a # free \<Rightarrow> Some (a, md\<lparr>md_free_conns := free, md_busy_conns := md_busy_conns md @ [a]\<rparr>)
     | [] \<Rightarrow>
         if md_conn_cnt md = db_max_conn_cnt (md_dbi md)
         then (case md_busy_conns md of [] \<Rightarrow> None | a # busy \<Rightarrow> Some (a, md\<lparr>md_busy_conns := busy @ [a]\<rparr>))
         else let a = md_next md;
                  md1 = (md_set a new_co md)\<lparr>md_next := Suc a, md_conn_cnt := md_conn_cnt md + 1, md_busy_conns := md_busy_conns md @ [a]\<rparr>
              in Some (a, if is_exit then md_set a (new_co\<lparr>mc_end := True\<rparr>) md1 else add_to_free_list a md1))"

text \<open>One turn of the distributor.\<close>

definition on_dist_task :: "bool \<Rightarrow> my_md \<Rightarrow> my_md option" where
  "on_dist_task is_exit md =
     (if md_tasks md = [] then Some md
      else do {
        (a, md1) \<leftarrow> my_get_co_data is_exit md;
        let cd = md_cos md1 a;
        Some ((md_set a (cd\<lparr>mc_tasks := mc_tasks cd @ take DIST_CONN_TASKS_ONCE (md_tasks md1)\<rparr>) md1)
          \<lparr>md_tasks := drop DIST_CONN_TASKS_ONCE (md_tasks md1)\<rparr>)
      })"

text \<open>The queue of a handler is emptied with an error. The users are resumed one by one.\<close>

fun my_clear_co_tasks :: "my_wake \<Rightarrow> my_answer \<Rightarrow> my_task list \<Rightarrow> my_md \<Rightarrow> my_md" where
  "my_clear_co_tasks wake r [] md = md"
| "my_clear_co_tasks wake r (t # ts) md = my_clear_co_tasks wake r ts (md_answer wake t r md)"

text \<open>A handler's turn up to the query: the number of tasks taken (0 or 1) and the state. \<open>now\<close> is the clock.\<close>

definition my_handle_begin :: "mysql_api \<Rightarrow> my_wake \<Rightarrow> bool \<Rightarrow> int \<Rightarrow> nat \<Rightarrow> my_md \<Rightarrow> nat \<times> my_md" where
  "my_handle_begin api wake is_exit now a md =
     (let cd = md_cos md a
      in case mc_tasks cd of
           [] \<Rightarrow> (0, if is_exit then md_set a (cd\<lparr>mc_end := True\<rparr>) md else add_to_free_list a md)
         | t # ts \<Rightarrow>
             if mc_c cd = None \<and> is_exit then (0, md_set a (cd\<lparr>mc_end := True\<rparr>) md)
             else
               let (ok, h) = (case mc_c cd of None \<Rightarrow> mysql_connect api (Some (md_dbi md)) MY_NULL | Some h \<Rightarrow> (True, h))
               in if \<not> ok
                  then (0, my_clear_co_tasks wake (ERR_DB_CONNECT_FAILED, []) (t # ts) (md_set a (cd\<lparr>mc_c := Some h, mc_tasks := []\<rparr>) md))
                  else let cd1 = cd\<lparr>mc_c := Some h, mc_tasks := ts, mc_active_time := now\<rparr>
                       in if now > mt_active_time t + TASK_TIME_OUT
                          then (1, md_answer wake t (ERR_DB_TASKS_TIME_OUT, []) (md_set a cd1 md))
                          else (1, md_set a (cd1\<lparr>mc_cur := Some t\<rparr>) md))"

text \<open>The query and what follows it. The connection object must still be there.\<close>

definition my_handle_end :: "mysql_api \<Rightarrow> my_wake \<Rightarrow> nat \<Rightarrow> my_md \<Rightarrow> my_md option" where
  "my_handle_end api wake a md =
     (let cd = md_cos md a
      in case mc_cur cd of
           None \<Rightarrow> Some md
         | Some t \<Rightarrow> do {
             h \<leftarrow> mc_c cd;
             r \<leftarrow> (if mt_is_read t then conn_sql_read api (mt_sql t) [] h else map_option (\<lambda>ret. (ret, [])) (conn_sql_write api (mt_sql t) h));
             Some (md_answer wake t r (md_set a (cd\<lparr>mc_cur := None\<rparr>) md))
           })"

text \<open>Idle connections of free handlers are closed.\<close>

definition recover_free :: "int \<Rightarrow> my_md \<Rightarrow> my_md" where
  "recover_free now md = fold (\<lambda>a md1. let cd = md_cos md1 a
       in if mc_c cd \<noteq> None \<and> now > mc_active_time cd + CONN_TIME_OUT then md_set a (cd\<lparr>mc_c := None\<rparr>) md1 else md1)
     (md_free_conns md) md"

section \<open>The manager\<close>

record my_mgr =
  m_is_exit :: bool
  m_is_notify_exit :: bool
  m_old_handle_cnt :: int
  m_cur_handle_cnt :: int
  m_slowlog_log_slower_than :: int
  m_dbs :: "(string, db_info) umap"
  m_my_coroutines :: "(string, my_md) umap"

definition get_co_mgr_data :: "string \<Rightarrow> my_mgr \<Rightarrow> my_md option \<times> my_mgr" where
  "get_co_mgr_data node st = (case um_find (m_my_coroutines st) node of
       Some md \<Rightarrow> (Some md, st)
     | None \<Rightarrow> (case um_find (m_dbs st) node of
           None \<Rightarrow> (None, st)
         | Some dbi \<Rightarrow> (Some (new_md dbi), st\<lparr>m_my_coroutines := um_put node (new_md dbi) (m_my_coroutines st)\<rparr>)))"

text \<open>An error code that is returned at once, or \<open>None\<close>: the task is queued and the user waits.\<close>

definition my_send_task :: "int \<Rightarrow> string \<Rightarrow> string \<Rightarrow> bool \<Rightarrow> nat \<Rightarrow> my_mgr \<Rightarrow> int option \<times> my_mgr" where
  "my_send_task now node sql is_read co st =
     (if m_is_exit st then (Some ERR_DB_MGR_EXIT, st)
      else case get_co_mgr_data node st of
          (None, st1) \<Rightarrow> (Some ERR_CAN_NOT_FIND_NODE, st1)
        | (Some md, st1) \<Rightarrow>
            (None, st1\<lparr>m_my_coroutines := um_put node
               (md_push \<lparr>mt_user_co = co, mt_is_read = is_read, mt_sql = sql, mt_active_time = now\<rparr> md) (m_my_coroutines st1)\<rparr>))"

definition sql_write :: "int \<Rightarrow> string \<Rightarrow> string \<Rightarrow> nat \<Rightarrow> my_mgr \<Rightarrow> int option \<times> my_mgr" where
  "sql_write now node sql co st =
     (if node = [] \<or> sql = [] then (Some ERR_INVALID_PARAMS, st) else my_send_task now node sql False co st)"

definition sql_read :: "int \<Rightarrow> string \<Rightarrow> string \<Rightarrow> nat \<Rightarrow> my_mgr \<Rightarrow> int option \<times> my_mgr" where
  "sql_read now node sql co st =
     (if node = [] \<or> sql = [] then (Some ERR_INVALID_PARAMS, st) else my_send_task now node sql True co st)"

definition waiting_cnt :: "my_mgr \<Rightarrow> nat" where
  "waiting_cnt st = sum_list (map (\<lambda>e. sum_list (map (\<lambda>a. length (mc_tasks (md_cos (snd e) a))) (md_busy_conns (snd e)))) (m_my_coroutines st))"

definition my_on_repeat_timer :: "int \<Rightarrow> int \<Rightarrow> int \<Rightarrow> my_mgr \<Rightarrow> my_mgr" where
  "my_on_repeat_timer hz cronloops now st =
     (if \<not> run_with_period 1000 hz cronloops then st
      else let st1 = (if waiting_cnt st > 0 \<or> m_old_handle_cnt st \<noteq> m_cur_handle_cnt st then st\<lparr>m_old_handle_cnt := m_cur_handle_cnt st\<rparr> else st)
           in st1\<lparr>m_my_coroutines := map (\<lambda>(node, md). (node, recover_free now md)) (m_my_coroutines st1)\<rparr>)"

definition my_notify_exit :: "my_mgr \<Rightarrow> my_mgr" where
  "my_notify_exit st = (if m_is_exit st \<and> \<not> m_is_notify_exit st then st\<lparr>m_is_notify_exit := True\<rparr> else st)"

definition my_exit :: "my_mgr \<Rightarrow> my_mgr" where
  "my_exit st = my_notify_exit (st\<lparr>m_is_exit := True\<rparr>)"

text \<open>
  The release at the end: a handler's connection is closed, and coroutines that have ended are released. \<open>ended\<close>
  tells which distributors have ended; the result lists the distributors and the handlers that were released.
\<close>

definition release_co_data :: "my_co \<Rightarrow> bool \<times> my_co" where
  "release_co_data cd = (mc_end cd, cd\<lparr>mc_c := None\<rparr>)"

definition release_co_mgr_data :: "(string \<Rightarrow> bool) \<Rightarrow> string \<Rightarrow> my_md \<Rightarrow> bool" where
  "release_co_mgr_data ended node md = ended node"

definition destroy_md :: "(string \<Rightarrow> bool) \<Rightarrow> string \<times> my_md \<Rightarrow> string list \<times> (string \<times> nat) list \<times> my_md" where
  "destroy_md ended e = (let (node, md) = e; as = md_busy_conns md @ md_free_conns md
     in (if release_co_mgr_data ended node md then [node] else [],
         map (Pair node) (filter (\<lambda>a. fst (release_co_data (md_cos md a))) as),
         md\<lparr>md_cos := (\<lambda>a. if a \<in> set as then snd (release_co_data (md_cos md a)) else md_cos md a)\<rparr>))"

definition my_destroy :: "(string \<Rightarrow> bool) \<Rightarrow> my_mgr \<Rightarrow> string list \<times> (string \<times> nat) list \<times> my_mgr" where
  "my_destroy ended st = (let rs = map (\<lambda>e. (fst e, destroy_md ended e)) (m_my_coroutines st)
     in (concat (map (\<lambda>r. fst (snd r)) rs), concat (map (\<lambda>r. fst (snd (snd r))) rs),
         st\<lparr>m_my_coroutines := map (\<lambda>r. (fst r, snd (snd (snd r)))) rs\<rparr>))"

text \<open>The fields of the entries of \<^verbatim>\<open>nodes\<close> in order; \<open>None\<close> when \<^verbatim>\<open>std::stoi\<close> throws. \<^verbatim>\<open>insert\<close> keeps an
  entry that is there.\<close>

fun my_init_nodes :: "(string \<times> (string \<Rightarrow> string)) list \<Rightarrow> my_mgr \<Rightarrow> (bool \<times> my_mgr) option" where
  "my_init_nodes [] st = Some (True, st)"
| "my_init_nodes ((node, obj) # nodes) st = do {
     port \<leftarrow> str_to_int (obj ''port'');
     cnt \<leftarrow> str_to_int (obj ''max_conn_cnt'');
     let dbi = \<lparr>db_port = port, db_max_conn_cnt = (if cnt = 0 then DEF_CONN_CNT else min cnt DB_MAX_CONN_CNT), db_host = obj ''host'',
       db_name = (if obj ''name'' = [] then ''mysql'' else obj ''name''), db_password = obj ''password'', db_charset = obj ''charset'',
       db_user = obj ''user'', db_node = node\<rparr>;
     if db_host dbi = [] \<or> port = 0 \<or> db_password dbi = [] \<or> db_charset dbi = [] \<or> db_user dbi = [] then Some (False, st)
     else my_init_nodes nodes (st\<lparr>m_dbs := (if um_find (m_dbs st) node = None then um_put node dbi (m_dbs st) else m_dbs st)\<rparr>)
   }"

definition my_mgr_init :: "((string \<times> (string \<Rightarrow> string)) list \<times> string) option \<Rightarrow> my_mgr \<Rightarrow> (bool \<times> my_mgr) option" where
  "my_mgr_init config st = (case config of
       None \<Rightarrow> Some (False, st)
     | Some (nodes, slow) \<Rightarrow>
         if nodes = [] then Some (False, st)
         else do {
           (ok, st1) \<leftarrow> my_init_nodes nodes st;
           if \<not> ok then Some (False, st1)
           else do { ms \<leftarrow> str_to_int slow; Some (True, st1\<lparr>m_slowlog_log_slower_than := ms\<rparr>) }
         })"

section \<open>Invariant\<close>

definition co_tasks :: "my_co \<Rightarrow> my_task list" where
  "co_tasks cd = (case mc_cur cd of None \<Rightarrow> [] | Some t \<Rightarrow> [t]) @ mc_tasks cd"

definition held :: "my_md \<Rightarrow> my_task multiset" where
  "held md = (\<Sum>a<md_next md. mset (co_tasks (md_cos md a)))"

text \<open>Everything that was sent is waiting, with a handler, answered, or (\<open>ts\<close>) in the hands of the current step.\<close>

definition my_holds :: "my_task list \<Rightarrow> my_md \<Rightarrow> bool" where
  "my_holds ts md \<longleftrightarrow> mset (md_in md) = mset (md_tasks md) + held md + mset (map fst (md_out md)) + mset ts"

text \<open>Every handler is in exactly one of the two lists, and they are counted.\<close>

definition pool_ok :: "my_md \<Rightarrow> bool" where
  "pool_ok md \<longleftrightarrow> distinct (md_busy_conns md @ md_free_conns md) \<and> set (md_busy_conns md @ md_free_conns md) = {..<md_next md} \<and>
     md_conn_cnt md = int (md_next md) \<and> 0 < db_max_conn_cnt (md_dbi md) \<and> md_conn_cnt md \<le> db_max_conn_cnt (md_dbi md)"

definition md_ok :: "my_md \<Rightarrow> bool" where
  "md_ok md \<longleftrightarrow> pool_ok md \<and> my_holds [] md"

definition pool where
  "pool md = (md_busy_conns md, md_free_conns md, md_next md, md_conn_cnt md, md_dbi md)"

lemma pool_ok_cong: "pool md = pool md' \<Longrightarrow> pool_ok md = pool_ok md'"
  by (simp add: pool_def pool_ok_def)

lemma held_set:
  assumes "a < md_next md"
  shows "held (md_set a cd md) + mset (co_tasks (md_cos md a)) = held md + mset (co_tasks cd)"
proof -
  have "(\<Sum>i\<in>{..<md_next md} - {a}. mset (co_tasks (((md_cos md)(a := cd)) i))) = (\<Sum>i\<in>{..<md_next md} - {a}. mset (co_tasks (md_cos md i)))"
    by (rule sum.cong) auto
  with assms show ?thesis
    by (simp add: held_def md_set_def sum.remove [of "{..<md_next md}" a])
qed

lemma my_holds_set:
  assumes "my_holds ts md" "a < md_next md" "mset ts + mset (co_tasks (md_cos md a)) = mset ts' + mset (co_tasks cd)"
  shows "my_holds ts' (md_set a cd md)"
proof -
  have "mset (md_in md) + mset (co_tasks (md_cos md a)) =
      mset (md_tasks md) + (held (md_set a cd md) + mset (co_tasks (md_cos md a))) + mset (map fst (md_out md)) + mset ts'"
    using assms(1,3) unfolding held_set [OF assms(2)] my_holds_def by (simp add: ac_simps)
  then show ?thesis by (simp add: my_holds_def md_set_def)
qed

lemma md_push_all: "md_tasks (fold md_push ts md) = md_tasks md @ ts" "md_in (fold md_push ts md) = md_in md @ ts"
  "md_out (fold md_push ts md) = md_out md" "md_cos (fold md_push ts md) = md_cos md" "pool (fold md_push ts md) = pool md"
  by (induction ts arbitrary: md) (simp_all add: md_push_def pool_def)

lemma md_answer_fields [simp]: "md_tasks (md_answer wake t r md) = md_tasks md @ wake t r" "md_in (md_answer wake t r md) = md_in md @ wake t r"
  "md_out (md_answer wake t r md) = md_out md @ [(t, r)]" "md_cos (md_answer wake t r md) = md_cos md" "pool (md_answer wake t r md) = pool md"
  by (simp_all add: md_answer_def md_push_all) (simp add: pool_def)

lemma my_holds_answer: "my_holds (t # ts) md \<Longrightarrow> my_holds ts (md_answer wake t r md)"
proof -
  have "md_next (md_answer wake t r md) = md_next md" using md_answer_fields(5) by (simp add: pool_def)
  then show "my_holds (t # ts) md \<Longrightarrow> my_holds ts (md_answer wake t r md)" by (simp add: my_holds_def held_def ac_simps)
qed

lemma my_clear_spec: "my_holds ts md \<Longrightarrow> my_holds [] (my_clear_co_tasks wake r ts md)" "pool (my_clear_co_tasks wake r ts md) = pool md"
  "md_cos (my_clear_co_tasks wake r ts md) = md_cos md"
  by (induction ts arbitrary: md) (simp_all add: my_holds_answer)

lemma md_set_pool [simp]: "pool (md_set a cd md) = pool md" "md_cos (md_set a cd md) a = cd"
  by (simp_all add: md_set_def pool_def)

lemma free_list_ok:
  assumes "pool_ok md" "a < md_next md"
  shows "pool_ok (add_to_free_list a md)" "held (add_to_free_list a md) = held md"
    "md_in (add_to_free_list a md) = md_in md" "md_tasks (add_to_free_list a md) = md_tasks md" "md_out (add_to_free_list a md) = md_out md"
    "md_cos (add_to_free_list a md) = md_cos md" "md_next (add_to_free_list a md) = md_next md"
  using assms by (auto simp: add_to_free_list_def pool_ok_def held_def Let_def)

lemma free_list_holds: "pool_ok md \<Longrightarrow> a < md_next md \<Longrightarrow> my_holds ts md \<Longrightarrow> my_holds ts (add_to_free_list a md)"
  by (simp add: my_holds_def free_list_ok)

lemma new_handler_ok:
  assumes "pool_ok md" "md_conn_cnt md \<noteq> db_max_conn_cnt (md_dbi md)" "co_tasks cd = []"
  defines "md1 \<equiv> (md_set (md_next md) cd md)\<lparr>md_next := Suc (md_next md), md_conn_cnt := md_conn_cnt md + 1,
    md_busy_conns := md_busy_conns md @ [md_next md]\<rparr>"
  shows "pool_ok md1" "held md1 = held md"
proof -
  have "(\<Sum>i<md_next md. mset (co_tasks (((md_cos md)(md_next md := cd)) i))) = held md"
    unfolding held_def by (rule sum.cong) auto
  then show "held md1 = held md" using assms(3) by (simp add: md1_def held_def md_set_def)
  show "pool_ok md1" using assms(1,2) by (auto simp: md1_def pool_ok_def md_set_def lessThan_Suc)
qed

lemma pool_mem: "pool_ok md \<Longrightarrow> a \<in> set (md_busy_conns md @ md_free_conns md) \<longleftrightarrow> a < md_next md"
  unfolding pool_ok_def by (metis lessThan_iff)

text \<open>Only the order and the sides of the lists change.\<close>

lemma pool_ok_perm:
  assumes "pool_ok md" "mset (busy @ free) = mset (md_busy_conns md @ md_free_conns md)"
    and "pool md' = (busy, free, md_next md, md_conn_cnt md, md_dbi md)"
  shows "pool_ok md'"
  using assms mset_eq_setD [OF assms(2)] mset_eq_imp_distinct_iff [OF assms(2)] unfolding pool_ok_def pool_def by simp

lemma my_get_co_ok:
  assumes ok: "pool_ok md"
  shows "\<exists>a md'. my_get_co_data e md = Some (a, md') \<and> pool_ok md' \<and> a < md_next md' \<and> held md' = held md \<and>
    md_in md' = md_in md \<and> md_tasks md' = md_tasks md \<and> md_out md' = md_out md"
proof (cases "md_free_conns md")
  case (Cons a free)
  have "pool_ok (md\<lparr>md_free_conns := free, md_busy_conns := md_busy_conns md @ [a]\<rparr>)"
    by (rule pool_ok_perm [OF ok, of "md_busy_conns md @ [a]" free]) (simp_all add: Cons pool_def)
  moreover have "a < md_next md" using pool_mem [OF ok, of a] Cons by simp
  ultimately show ?thesis using Cons
    by (intro exI [of _ a] exI [of _ "md\<lparr>md_free_conns := free, md_busy_conns := md_busy_conns md @ [a]\<rparr>"]) (simp add: my_get_co_data_def held_def)
next
  case Nil
  show ?thesis
  proof (cases "md_conn_cnt md = db_max_conn_cnt (md_dbi md)")
    case True
    then have "0 < md_next md" using ok unfolding pool_ok_def by linarith
    then have "md_busy_conns md \<noteq> []" using pool_mem [OF ok, of 0] Nil by auto
    then obtain a busy where "md_busy_conns md = a # busy" by (cases "md_busy_conns md") auto
    moreover from this have "pool_ok (md\<lparr>md_busy_conns := busy @ [a]\<rparr>)"
      by (intro pool_ok_perm [OF ok, of "busy @ [a]" "[]"]) (simp_all add: Nil pool_def)
    ultimately show ?thesis using pool_mem [OF ok, of a] Nil True
      by (intro exI [of _ a] exI [of _ "md\<lparr>md_busy_conns := busy @ [a]\<rparr>"]) (simp add: my_get_co_data_def held_def)
  next
    case False
    define mk where "mk cd = (md_set (md_next md) cd md)\<lparr>md_next := Suc (md_next md), md_conn_cnt := md_conn_cnt md + 1,
      md_busy_conns := md_busy_conns md @ [md_next md]\<rparr>" for cd
    have mk: "pool_ok (mk cd)" "held (mk cd) = held md" "md_next (mk cd) = Suc (md_next md)" "md_in (mk cd) = md_in md"
      "md_tasks (mk cd) = md_tasks md" "md_out (mk cd) = md_out md" if "co_tasks cd = []" for cd
      using new_handler_ok [OF ok False that] by (simp_all add: mk_def md_set_def)
    have "co_tasks new_co = []" "co_tasks (new_co\<lparr>mc_end := True\<rparr>) = []" by (simp_all add: co_tasks_def new_co_def)
    note n = mk [OF this(1)] and x = mk [OF this(2)]
    have "my_get_co_data e md = Some (md_next md, if e then mk (new_co\<lparr>mc_end := True\<rparr>) else add_to_free_list (md_next md) (mk new_co))"
      using Nil False by (simp add: my_get_co_data_def mk_def Let_def md_set_def)
    then show ?thesis using n x free_list_ok [OF n(1), of "md_next md"] by (cases e) auto
  qed
qed

lemma on_dist_ok:
  assumes "md_ok md"
  shows "\<exists>md'. on_dist_task e md = Some md' \<and> md_ok md'"
proof (cases "md_tasks md = []")
  case True
  then show ?thesis using assms by (simp add: on_dist_task_def)
next
  case False
  obtain a md1 where g: "my_get_co_data e md = Some (a, md1)" "pool_ok md1" "a < md_next md1" "held md1 = held md"
    "md_in md1 = md_in md" "md_tasks md1 = md_tasks md" "md_out md1 = md_out md"
    using my_get_co_ok [of md e] assms by (auto simp: md_ok_def)
  define ts us where "ts = take DIST_CONN_TASKS_ONCE (md_tasks md1)" and "us = drop DIST_CONN_TASKS_ONCE (md_tasks md1)"
  have "ts @ us = md_tasks md1" by (simp add: ts_def us_def)
  then have split: "mset (md_tasks md1) = mset us + mset ts" using mset_append [of ts us] by simp
  define cd where "cd = md_cos md1 a"
  have "my_holds ts (md1\<lparr>md_tasks := us\<rparr>)" using assms g(4-7) split by (simp add: md_ok_def my_holds_def held_def ac_simps)
  from my_holds_set [OF this, of a "[]" "cd\<lparr>mc_tasks := mc_tasks cd @ ts\<rparr>"] g(3)
  have "my_holds [] (md_set a (cd\<lparr>mc_tasks := mc_tasks cd @ ts\<rparr>) (md1\<lparr>md_tasks := us\<rparr>))" by (simp add: co_tasks_def cd_def)
  moreover have "pool_ok (md_set a (cd\<lparr>mc_tasks := mc_tasks cd @ ts\<rparr>) (md1\<lparr>md_tasks := us\<rparr>))"
    by (rule pool_ok_cong [THEN iffD2, OF _ g(2)]) (simp add: pool_def md_set_def)
  moreover have "(md_set a x md1)\<lparr>md_tasks := us\<rparr> = md_set a x (md1\<lparr>md_tasks := us\<rparr>)" for x by (cases md1) (simp add: md_set_def)
  ultimately show ?thesis
    using False g(1) by (simp add: on_dist_task_def Let_def cd_def ts_def us_def md_ok_def)
qed

lemma my_begin_ok:
  assumes ok: "md_ok md" and a: "a < md_next md" "mc_cur (md_cos md a) = None"
  shows "md_ok (snd (my_handle_begin api wake e now a md))"
proof -
  define cd where "cd = md_cos md a"
  have P: "pool_ok md" and H: "my_holds [] md" using ok by (simp_all add: md_ok_def)
  have set_ok: "pool_ok (md_set a x md)" for x by (rule pool_ok_cong [THEN iffD2, OF _ P]) simp
  have keep: "my_holds [] (md_set a (cd\<lparr>mc_end := True\<rparr>) md)"
    by (rule my_holds_set [OF H a(1)]) (simp add: co_tasks_def cd_def)
  show ?thesis
  proof (cases "mc_tasks cd")
    case Nil
    then show ?thesis
      using keep set_ok free_list_ok(1) [OF P a(1)] free_list_holds [OF P a(1) H] by (simp add: my_handle_begin_def cd_def [symmetric] Let_def md_ok_def)
  next
    case (Cons t ts)
    have clear: "my_holds (t # ts) (md_set a (cd\<lparr>mc_c := h, mc_tasks := []\<rparr>) md)" for h
      by (rule my_holds_set [OF H a(1)]) (use a(2) Cons in \<open>simp add: co_tasks_def cd_def\<close>)
    have take1: "my_holds [t] (md_set a (cd\<lparr>mc_c := h, mc_tasks := ts, mc_active_time := now\<rparr>) md)" for h
      by (rule my_holds_set [OF H a(1)]) (use a(2) Cons in \<open>simp add: co_tasks_def cd_def\<close>)
    have run1: "my_holds [] (md_set a (cd\<lparr>mc_c := h, mc_tasks := ts, mc_active_time := now, mc_cur := Some t\<rparr>) md)" for h
      by (rule my_holds_set [OF H a(1)]) (use a(2) Cons in \<open>simp add: co_tasks_def cd_def\<close>)
    have pc: "pool_ok (my_clear_co_tasks wake r us (md_set a x md))" "pool_ok (md_answer wake t r (md_set a x md))" for r us x
      using pool_ok_cong [THEN iffD2, OF _ set_ok] my_clear_spec(2) by (metis md_answer_fields(5))+
    obtain ok1 h where h: "(case mc_c cd of None \<Rightarrow> mysql_connect api (Some (md_dbi md)) MY_NULL | Some h \<Rightarrow> (True, h)) = (ok1, h)" by force
    show ?thesis
      using keep set_ok pc my_clear_spec(1) [OF clear] my_holds_answer [OF take1] run1 h Cons
      by (auto simp: my_handle_begin_def cd_def [symmetric] Let_def md_ok_def simp del: my_clear_co_tasks.simps)
  qed
qed

lemma my_end_ok:
  assumes ok: "md_ok md" and a: "a < md_next md" and r: "my_handle_end api wake a md = Some md'"
  shows "md_ok md'"
proof (cases "mc_cur (md_cos md a)")
  case None
  then show ?thesis using r ok by (simp add: my_handle_end_def Let_def)
next
  case (Some t)
  have "my_holds [t] (md_set a ((md_cos md a)\<lparr>mc_cur := None\<rparr>) md)"
    using ok by (intro my_holds_set [OF _ a, of "[]"]) (simp_all add: md_ok_def co_tasks_def Some)
  from my_holds_answer [OF this] have "my_holds [] (md_answer wake t x (md_set a ((md_cos md a)\<lparr>mc_cur := None\<rparr>) md))" for x by simp
  moreover have "pool_ok (md_answer wake t x (md_set a ((md_cos md a)\<lparr>mc_cur := None\<rparr>) md))" for x
    by (rule pool_ok_cong [THEN iffD2, of _ md]) (use ok in \<open>simp_all add: md_ok_def\<close>)
  ultimately show ?thesis using r Some by (auto simp: my_handle_end_def Let_def md_ok_def split: bind_splits)
qed

lemma recover_ok:
  assumes "md_ok md"
  shows "md_ok (recover_free now md)"
proof -
  define f where "f = (\<lambda>a md1. let cd = md_cos md1 a
       in if mc_c cd \<noteq> None \<and> now > mc_active_time cd + CONN_TIME_OUT then md_set a (cd\<lparr>mc_c := None\<rparr>) md1 else md1)"
  have "md_ok (f a md1) \<and> pool (f a md1) = pool md1" if "md_ok md1" "a < md_next md1" for a md1
  proof -
    have "my_holds [] (md_set a ((md_cos md1 a)\<lparr>mc_c := None\<rparr>) md1)"
      by (rule my_holds_set [OF _ that(2), of "[]"]) (use that(1) in \<open>simp_all add: md_ok_def co_tasks_def\<close>)
    moreover have "pool_ok (md_set a ((md_cos md1 a)\<lparr>mc_c := None\<rparr>) md1)"
      by (rule pool_ok_cong [THEN iffD2, of _ md1]) (use that(1) in \<open>simp_all add: md_ok_def\<close>)
    ultimately show ?thesis using that(1) by (simp add: f_def Let_def md_ok_def)
  qed
  then have "md_ok (fold f as md1)" if "md_ok md1" "\<forall>a \<in> set as. a < md_next md1" for as md1
    using that by (induction as arbitrary: md1) (auto simp: pool_def)
  moreover have "\<forall>a \<in> set (md_free_conns md). a < md_next md"
    using pool_mem [of md] assms by (auto simp: md_ok_def)
  ultimately show ?thesis using assms by (simp add: recover_free_def f_def)
qed

lemma md_push_ok: "md_ok md \<Longrightarrow> md_ok (md_push t md)"
  by (simp add: md_ok_def pool_ok_def my_holds_def held_def md_push_def)

text \<open>Histories of a node: users, the distributor, the two halves of a handler's turn, and the timer. A step
  whose behaviour is undefined is left out. A handler starts a turn when its last query is done.\<close>

datatype my_op =
    MSend my_task
  | MDist bool
  | MBegin mysql_api my_wake bool int nat
  | MEnd mysql_api my_wake nat
  | MTimer int

definition md_step :: "my_md \<Rightarrow> my_op \<Rightarrow> my_md" where
  "md_step md x = (case x of
       MSend t \<Rightarrow> md_push t md
     | MDist e \<Rightarrow> (case on_dist_task e md of None \<Rightarrow> md | Some md' \<Rightarrow> md')
     | MBegin api wake e now a \<Rightarrow> snd (my_handle_begin api wake e now a md)
     | MEnd api wake a \<Rightarrow> (case my_handle_end api wake a md of None \<Rightarrow> md | Some md' \<Rightarrow> md')
     | MTimer now \<Rightarrow> recover_free now md)"

definition md_enabled :: "my_md \<Rightarrow> my_op \<Rightarrow> bool" where
  "md_enabled md x = (case x of
       MBegin _ _ _ _ a \<Rightarrow> a < md_next md \<and> mc_cur (md_cos md a) = None
     | MEnd _ _ a \<Rightarrow> a < md_next md
     | _ \<Rightarrow> True)"

interpretation mi: invariant_system "\<lambda>md. \<exists>dbi. 0 < db_max_conn_cnt dbi \<and> md = new_md dbi" md_step md_enabled md_ok
proof unfold_locales
  show "md_ok md" if "\<exists>dbi. 0 < db_max_conn_cnt dbi \<and> md = new_md dbi" for md
    using that by (auto simp: md_ok_def pool_ok_def my_holds_def held_def new_md_def)
  show "md_ok (md_step md x)" if "md_ok md" "md_enabled md x" for md x
  proof -
    have "md_ok md'" if "on_dist_task e md = Some md'" for e md' using on_dist_ok [OF \<open>md_ok md\<close>, of e] that by auto
    with that show ?thesis
      using my_begin_ok [of md] my_end_ok [of md] recover_ok [of md] md_push_ok [of md]
      by (cases x) (auto simp: md_step_def md_enabled_def split: option.splits)
  qed
qed

section \<open>Properties\<close>

text \<open>
  C22. After any interleaving of users, the distributor, handlers and the timer, of any databases and with any
  answers: every task that was sent is waiting, with one handler, or was answered exactly once; every
  handler is in exactly one of the lists and there are never more than configured; and the distributor
  always finds a handler.
\<close>

theorem mysql_tasks_conserved:
  assumes "0 < db_max_conn_cnt dbi" "enabled_run md_step md_enabled (new_md dbi) xs" "md = foldl md_step (new_md dbi) xs"
  shows "mset (md_in md) = mset (md_tasks md) + (\<Sum>a<md_next md. mset (co_tasks (md_cos md a))) + mset (map fst (md_out md)) \<and>
    distinct (md_busy_conns md @ md_free_conns md) \<and> set (md_busy_conns md @ md_free_conns md) = {..<md_next md} \<and>
    int (md_next md) \<le> db_max_conn_cnt (md_dbi md) \<and> (\<exists>md'. on_dist_task e md = Some md')"
proof -
  have ok: "md_ok md" unfolding assms(3) by (rule mi.run_ok [OF _ assms(2)]) (use assms(1) in blast)
  with on_dist_ok [OF ok, of e] show ?thesis by (auto simp: md_ok_def my_holds_def pool_ok_def held_def)
qed

definition test_dbi :: db_info where
  "test_dbi = \<lparr>db_port = 3306, db_max_conn_cnt = 2, db_host = ''h'', db_name = ''app'', db_password = ''p'', db_charset = ''utf8'', db_user = ''u'', db_node = ''n''\<rparr>"

definition test_task :: my_task where
  "test_task = \<lparr>mt_user_co = 1, mt_is_read = False, mt_sql = ''delete'', mt_active_time = 1000\<rparr>"

text \<open>A database that answers; a handle that is not connected cannot be queried.\<close>

definition test_api :: mysql_api where
  "test_api = \<lparr>my_init = True, my_real_connect = (\<lambda>_ _ _ _ _. True), my_real_query = (\<lambda>h _. if h = MY_CONNECTED then 0 else 2006), my_store_result = (\<lambda>_. None)\<rparr>"

theorem mysql_tasks_conserved_witness:
  "\<exists>md. foldl md_step (new_md test_dbi) [MSend test_task, MDist False, MBegin test_api (\<lambda>_ _. []) False 1500 0, MEnd test_api (\<lambda>_ _. []) 0] = md \<and>
     mset (md_in md) = mset (md_tasks md) + (\<Sum>a<md_next md. mset (co_tasks (md_cos md a))) + mset (map fst (md_out md)) \<and>
     md_out md = [(test_task, (ERR_OK, []))]"
proof -
  define xs where "xs = [MSend test_task, MDist False, MBegin test_api (\<lambda>_ _. []) False 1500 0, MEnd test_api (\<lambda>_ _. []) 0]"
  note d = md_step_def md_enabled_def on_dist_task_def my_get_co_data_def new_md_def md_push_def add_to_free_list_def md_set_def new_co_def test_dbi_def
    my_handle_begin_def my_handle_end_def mysql_connect_def test_api_def test_task_def DIST_CONN_TASKS_ONCE_def TASK_TIME_OUT_def md_answer_def conn_sql_write_def sql_exec_def ERR_OK_def
  have en: "enabled_run md_step md_enabled (new_md test_dbi) xs" unfolding xs_def by (simp add: d Let_def)
  have "md_out (foldl md_step (new_md test_dbi) xs) = [(test_task, (ERR_OK, []))]" unfolding xs_def by (simp add: d Let_def)
  moreover have "0 < db_max_conn_cnt test_dbi" by (simp add: test_dbi_def)
  note mysql_tasks_conserved [OF this en refl, THEN conjunct1]
  ultimately show ?thesis unfolding xs_def by blast
qed

text \<open>
  C37. A new handler's connection can be closed under its first query. The handler puts itself into the free
  list while it is created, the distributor gives it tasks there without moving it, and the timer closes
  connections of free handlers that were not active for thirty seconds: a query that takes longer loses
  its connection object while it runs, which is undefined behaviour.
\<close>

theorem connection_closed_in_use:
  assumes "md_free_conns md = []" "md_conn_cnt md \<noteq> db_max_conn_cnt (md_dbi md)" "md_next md \<notin> set (md_busy_conns md)"
    and "md_tasks md = t # ts" "mysql_connect api (Some (md_dbi md)) MY_NULL = (True, h)"
    and "now \<le> mt_active_time t + TASK_TIME_OUT" "now + CONN_TIME_OUT < later" "a = md_next md"
  shows "\<exists>md1 md2. on_dist_task False md = Some md1 \<and> md2 = snd (my_handle_begin api wake False now a md1) \<and>
    mc_cur (md_cos md2 a) = Some t \<and> mc_c (md_cos md2 a) = Some h \<and> a \<in> set (md_free_conns md2) \<and>
    my_handle_end api wake a (recover_free later md2) = None"
proof -
  define us where "us = take 49 ts"
  have u: "take DIST_CONN_TASKS_ONCE (t # ts) = t # us" by (simp add: DIST_CONN_TASKS_ONCE_def us_def take_Cons')
  obtain md1 where md1: "on_dist_task False md = Some md1" "md_free_conns md1 = [a]" "md_cos md1 a = new_co\<lparr>mc_tasks := t # us\<rparr>" "md_dbi md1 = md_dbi md"
    using assms(1-4,8) u
    by (simp add: on_dist_task_def my_get_co_data_def add_to_free_list_def md_set_def Let_def new_co_def remove1_append)
  define cd where "cd = new_co\<lparr>mc_c := Some h, mc_tasks := us, mc_active_time := now, mc_cur := Some t\<rparr>"
  have md2: "snd (my_handle_begin api wake False now a md1) = md_set a cd md1"
    using assms(5,6) md1(3,4) by (simp add: my_handle_begin_def cd_def new_co_def Let_def)
  have "md_cos (recover_free later (md_set a cd md1)) a = cd\<lparr>mc_c := None\<rparr>"
    using md1(2) assms(7) by (simp add: recover_free_def md_set_def cd_def Let_def)
  then have "my_handle_end api wake a (recover_free later (md_set a cd md1)) = None"
    by (simp add: my_handle_end_def cd_def Let_def)
  then show ?thesis using md1(1,2) md2 by (intro exI [of _ md1] exI [of _ "md_set a cd md1"]) (simp add: md_set_def cd_def)
qed

theorem connection_closed_in_use_witness:
  "\<exists>md1 md2. on_dist_task False (md_push test_task (new_md test_dbi)) = Some md1 \<and>
    md2 = snd (my_handle_begin test_api (\<lambda>_ _. []) False 1500 0 md1) \<and> mc_cur (md_cos md2 0) = Some test_task \<and>
    mc_c (md_cos md2 0) = Some MY_CONNECTED \<and> 0 \<in> set (md_free_conns md2) \<and> my_handle_end test_api (\<lambda>_ _. []) 0 (recover_free 31501 md2) = None"
  by (rule connection_closed_in_use [where ts = "[]"])
    (simp_all add: md_push_def new_md_def test_dbi_def test_api_def mysql_connect_def test_task_def TASK_TIME_OUT_def CONN_TIME_OUT_def)

text \<open>
  A handler never recovers from a connection attempt that failed, as long as tasks keep coming: the
  connection object stays, so the next turn does not connect again, and a task is answered with an error
  although the database could be reached by then.
\<close>

theorem failed_connect_is_kept:
  assumes "mc_tasks (md_cos md a) \<noteq> []" "mc_c (md_cos md a) = None" "mysql_connect api (Some (md_dbi md)) MY_NULL = (False, MY_INIT)"
    and "md1 = snd (my_handle_begin api wake False now a md)"
    and "md_cos md2 a = (md_cos md1 a)\<lparr>mc_tasks := [t]\<rparr>" "\<not> mt_is_read t" "mt_sql t \<noteq> []" "now' \<le> mt_active_time t + TASK_TIME_OUT"
    and "my_real_query api' MY_INIT (mt_sql t) \<noteq> 0"
  shows "\<exists>md3. my_handle_end api' wake a (snd (my_handle_begin api' wake False now' a md2)) = Some md3 \<and>
    last (md_out md3) = (t, (ERR_DB_EXEC_FAILED, []))"
proof -
  obtain u us where u: "mc_tasks (md_cos md a) = u # us" using assms(1) by (cases "mc_tasks (md_cos md a)") auto
  have "md_cos md1 a = (md_cos md a)\<lparr>mc_c := Some MY_INIT, mc_tasks := []\<rparr>"
    using u assms(2-4) by (simp add: my_handle_begin_def Let_def my_clear_spec(3) del: my_clear_co_tasks.simps)
  then have c: "mc_c (md_cos md2 a) = Some MY_INIT" "mc_tasks (md_cos md2 a) = [t]" using assms(5) by simp_all
  define cd where "cd = (md_cos md2 a)\<lparr>mc_c := Some MY_INIT, mc_tasks := [], mc_active_time := now', mc_cur := Some t\<rparr>"
  have "snd (my_handle_begin api' wake False now' a md2) = md_set a cd md2"
    using c assms(8) by (simp add: my_handle_begin_def Let_def cd_def)
  moreover have "my_handle_end api' wake a (md_set a cd md2) = Some (md_answer wake t (ERR_DB_EXEC_FAILED, []) (md_set a (cd\<lparr>mc_cur := None\<rparr>) (md_set a cd md2)))"
    using assms(6,7,9) by (simp add: my_handle_end_def cd_def Let_def conn_sql_write_def sql_exec_def ERR_OK_def)
  ultimately show ?thesis by simp
qed

theorem failed_connect_is_kept_witness:
  "\<exists>md2 md3. my_handle_end test_api (\<lambda>_ _. []) 0 (snd (my_handle_begin test_api (\<lambda>_ _. []) False 1500 0 md2)) = Some md3 \<and>
    last (md_out md3) = (test_task, (ERR_DB_EXEC_FAILED, []))"
proof -
  define md where "md = md_set 0 (new_co\<lparr>mc_tasks := [test_task]\<rparr>) (new_md test_dbi)"
  define md1 where "md1 = snd (my_handle_begin (test_api\<lparr>my_real_connect := (\<lambda>_ _ _ _ _. False)\<rparr>) (\<lambda>_ _. []) False 1200 0 md)"
  have "\<exists>md3. my_handle_end test_api (\<lambda>_ _. []) 0 (snd (my_handle_begin test_api (\<lambda>_ _. []) False 1500 0 (md_set 0 ((md_cos md1 0)\<lparr>mc_tasks := [test_task]\<rparr>) md1))) = Some md3 \<and>
    last (md_out md3) = (test_task, (ERR_DB_EXEC_FAILED, []))"
    by (rule failed_connect_is_kept [OF _ _ _ md1_def])
      (simp_all add: md_def md_set_def new_co_def mysql_connect_def test_api_def test_task_def TASK_TIME_OUT_def)
  then show ?thesis by blast
qed

end
