(* ===== verification/NodeConn.thy ===== *)
theory NodeConn
  imports SysCmd TaskQueue
begin

text \<open>
  Connections to the workers of other nodes (\<^verbatim>\<open>src/src/core/node_connection.h\<close>, \<^verbatim>\<open>node_connection.cpp\<close>): a
  user's request is routed by consistent hashing to a worker of a node, where up to ten connections with a
  coroutine each wait for tasks; a coroutine connects, shakes hands through the system commands, sends
  one request at a time and reads its answer. The state is that of the network. What \<^verbatim>\<open>readv\<close> answers in
  the calls of \<^verbatim>\<open>conn_read\<close> is a list; \<open>None\<close> is undefined behaviour, or a call that waits when the
  list ends.
\<close>

section \<open>Data\<close>

definition NODE_MAX_CONN_CNT :: nat where
  "NODE_MAX_CONN_CNT = 10"

definition HEART_BEAT_TIME :: u64 where
  "HEART_BEAT_TIME = 2000"

definition MAX_RECV_DATA_TIME :: u64 where
  "MAX_RECV_DATA_TIME = 3000"

record nc_task =
  nt_co :: nat
  nt_node_type :: string
  nt_obj :: string
  nt_req :: msg

text \<open>The result of a task and the answer the peer gave.\<close>

type_synonym nc_answer = "int \<times> msg"

type_synonym nc_wake = "nc_task \<Rightarrow> nc_answer \<Rightarrow> nc_task list"

text \<open>A connection's coroutine; \<open>nc_ret\<close> is its local variable \<^verbatim>\<open>ret\<close>, which has no initial value.\<close>

record nc_co =
  nc_node_type :: string
  nc_host :: string
  nc_port :: int
  nc_worker_index :: int
  nc_c :: "nat option"
  nc_ret :: "int option"
  nc_q :: "(nc_task, nc_answer) task_queue"

type_synonym nc_table = "(string, nc_co list) umap"

section \<open>Requests of users\<close>

text \<open>The node id and the position of the coroutine that gets the task.\<close>

definition nc_get_co_data :: "string \<Rightarrow> string \<Rightarrow> nodes \<Rightarrow> nc_table \<Rightarrow> (string \<times> nat) option \<times> nc_table" where
  "nc_get_co_data ntype obj ns tbl = (case get_node_in_hash ntype obj ns of
       None \<Rightarrow> (None, tbl)
     | Some node \<Rightarrow>
         let node_id = format_nodes_id (n_host node) (n_port node) (n_worker_index node);
             cds = (case um_find tbl node_id of None \<Rightarrow> [] | Some cds \<Rightarrow> cds);
             cd = \<lparr>nc_node_type = ntype, nc_host = n_host node, nc_port = n_port node, nc_worker_index = n_worker_index node,
                   nc_c = None, nc_ret = None, nc_q = empty_queue\<rparr>
         in if um_find tbl node_id \<noteq> None \<and> length cds \<ge> NODE_MAX_CONN_CNT
            then (Some (node_id, unat (hash_fnv1_64 (str_bytes obj)) mod length cds), tbl)
            else (Some (node_id, length cds), um_put node_id (cds @ [cd]) tbl))"

text \<open>An error code that is returned at once, or \<open>None\<close>: the user waits for its task.\<close>

definition relay_to_node :: "string \<Rightarrow> string \<Rightarrow> msg \<Rightarrow> nat \<Rightarrow> net \<Rightarrow> nc_table \<Rightarrow> int option \<times> nc_table" where
  "relay_to_node ntype obj req co st tbl =
     (if \<not> is_worker st then (Some ERR_INVALID_PROCESS_TYPE, tbl)
      else case nc_get_co_data ntype obj (m_node_table st) tbl of
          (None, tbl1) \<Rightarrow> (Some ERR_CAN_NOT_FIND_CONN, tbl1)
        | (Some (node_id, i), tbl1) \<Rightarrow> (None,
            case um_find tbl1 node_id of
              None \<Rightarrow> tbl1
            | Some cds \<Rightarrow> um_put node_id (cds[i := (cds ! i)\<lparr>nc_q :=
                push_task \<lparr>nt_co = co, nt_node_type = ntype, nt_obj = obj, nt_req = req\<rparr> (nc_q (cds ! i))\<rparr>]) tbl1))"

section \<open>Reading\<close>

text \<open>\<^verbatim>\<open>c->conn_read(msg)\<close>; the clock is read exactly when bytes arrived.\<close>

definition net_conn_read :: "sys_env \<Rightarrow> int + bytes \<Rightarrow> nat \<Rightarrow> msg \<Rightarrow> net \<Rightarrow> (status \<times> msg \<times> net) option" where
  "net_conn_read env got a m st =
     (let c = w_objs st a; (t, st_now) = net_now False st
      in map_option (\<lambda>(status, m1, c1). (status, m1, set_obj a c1 (if c_read_cnt c1 \<noteq> c_read_cnt c then st_now else st)))
           (conn_read (e_pb env) (e_heap env) got t m c))"

fun recv_data :: "sys_env \<Rightarrow> (int + bytes) list \<Rightarrow> nat \<Rightarrow> msg \<Rightarrow> net \<Rightarrow> (int \<times> msg \<times> net) option" where
  "recv_data env [] a m st = None"
| "recv_data env (got # gots) a m st = do {
     (status, m1, st1) \<leftarrow> net_conn_read env got a m st;
     if status = OK then Some (ERR_OK, m1, st1)
     else if status = PAUSE then
       let (t, st2) = net_now False st1
       in if t - c_active_time (w_objs st2 a) > MAX_RECV_DATA_TIME then Some (ERR_READ_DATA_TIMEOUT, m1, st2)
          else recv_data env gots a m1 (e_yield env st2)
     else if status = CLOSED then Some (ERR_CONN_CLOSED, m1, st1)
     else Some (ERR_READ_DATA_FAILED, m1, st1)
   }"

definition nc_clear_msg :: "msg \<Rightarrow> msg" where
  "nc_clear_msg m = m\<lparr>m_msg_head := head0, m_msg_body := body0\<rparr>"

text \<open>System messages are handled as long as they arrive.\<close>

fun sys_message_loop :: "sys_env \<Rightarrow> (int + bytes) list \<Rightarrow> nat \<Rightarrow> msg \<Rightarrow> net \<Rightarrow> (int \<times> net) option" where
  "sys_message_loop env [] a req st = None"
| "sys_message_loop env (got # gots) a req st = do {
     (status, req1, st1) \<leftarrow> net_conn_read env got a req st;
     if status \<noteq> OK then Some (if status = ERR \<or> status = CLOSED then ERR_READ_DATA_FAILED else ERR_OK, st1)
     else do {
       (ret, st2) \<leftarrow> handle_msg env (Some req1) st1;
       if ret \<noteq> ERR_OK then Some (ret, st2) else sys_message_loop env gots a (nc_clear_msg req1) st2
     }
   }"

definition handle_sys_message :: "sys_env \<Rightarrow> (int + bytes) list \<Rightarrow> nat \<Rightarrow> net \<Rightarrow> (int \<times> net) option" where
  "handle_sys_message env gots a st = sys_message_loop env gots a (new_msg (obj_ft a st)) st"

section \<open>Connecting\<close>

text \<open>What the system answers: the descriptor of \<^verbatim>\<open>socket\<close> after \<^verbatim>\<open>getaddrinfo\<close>, the socket options, the
  calls of \<^verbatim>\<open>anet_check_connect_done\<close> (\<open>None\<close> an error, else whether it is completed), and the bytes read
  in each round of the handshake.\<close>

record nc_io =
  nio_socket :: "int option"
  nio_opts :: "bool \<times> bool \<times> bool"
  nio_done :: "nat \<Rightarrow> bool option"
  nio_hello :: "(int + bytes) list list"
  nio_reply :: "(int + bytes) list"

text \<open>Up to three looks at the connection attempt, from the \<open>k\<close>-th on.\<close>

fun check_done :: "nat \<Rightarrow> sys_env \<Rightarrow> (nat \<Rightarrow> bool option) \<Rightarrow> nat \<Rightarrow> net \<Rightarrow> bool \<times> net" where
  "check_done 0 env dn k st = (False, st)"
| "check_done (Suc n) env dn k st = (case dn k of
       None \<Rightarrow> (False, st)
     | Some completed \<Rightarrow> if completed then (True, st) else check_done n env dn (Suc k) (e_yield env st))"

definition auto_connect :: "sys_env \<Rightarrow> nc_io \<Rightarrow> string \<Rightarrow> int \<Rightarrow> int \<Rightarrow> net \<Rightarrow> nat option \<times> net" where
  "auto_connect env io host port windex st = (case nio_socket io of
       None \<Rightarrow> (None, st)
     | Some fd \<Rightarrow>
         let (a, st1) = create_conn_fd fd st
         in if nio_opts io \<noteq> (True, True, True) then (None, snd (close_conn_ptr (Some a) st1))
            else
              let (t1, st2) = net_now False st1;
                  c1 = snd (conn_init PROTOBUF t1 (w_objs st2 a));
                  (t2, st3) = net_now False st2;
                  c2 = c1\<lparr>c_active_time := t2, c_is_system := True, c_state := ST_TRY_CONNECT, c_node_id := format_nodes_id host port windex\<rparr>;
                  (ok, st4) = check_done 3 env (nio_done io) 0 (set_obj a c2 st3)
              in if ok then (Some a, st4) else (None, snd (close_conn_ptr (Some a) st4)))"

text \<open>The rounds of the handshake: at its end the connection is connected or not.\<close>

fun hello_loop :: "sys_env \<Rightarrow> (int + bytes) list list \<Rightarrow> nat \<Rightarrow> net \<Rightarrow> net option" where
  "hello_loop env [] a st = None"
| "hello_loop env (gots # rounds) a st = do {
     (ret, st1) \<leftarrow> handle_sys_message env gots a st;
     if ret \<noteq> ERR_OK then Some st1
     else if c_state (w_objs st1 a) = ST_CONNECTED then Some st1
     else let (t, st2) = net_now False st1
          in if t - c_active_time (w_objs st2 a) > 2000 then Some st2 else hello_loop env rounds a (e_yield env st2)
   }"

definition node_connect :: "sys_env \<Rightarrow> nc_io \<Rightarrow> string \<Rightarrow> int \<Rightarrow> int \<Rightarrow> net \<Rightarrow> (nat option \<times> net) option" where
  "node_connect env io host port windex st = (case auto_connect env io host port windex st of
       (None, st1) \<Rightarrow> Some (None, st1)
     | (Some a, st1) \<Rightarrow>
         if c_state (w_objs st1 a) \<noteq> ST_TRY_CONNECT then Some (Some a, st1)
         else do {
           (ret, st2) \<leftarrow> send_connect_req_to_worker env a st1;
           if ret \<noteq> ERR_OK then Some (None, snd (close_conn_ptr (Some a) st2))
           else do {
             st3 \<leftarrow> hello_loop env (nio_hello io) a st2;
             if c_state (w_objs st3 a) \<noteq> ST_CONNECTED then Some (None, snd (close_conn_ptr (Some a) st3)) else Some (Some a, st3)
           }
         })"

section \<open>The coroutine of a connection\<close>

definition nc_clear_co_tasks :: "nc_wake \<Rightarrow> nc_co \<Rightarrow> nc_co option" where
  "nc_clear_co_tasks wake cd =
     map_option (\<lambda>q. cd\<lparr>nc_q := q\<rparr>) (clear_queue wake (ERR_NODE_CONNECT_FAILED, new_msg no_fd) (nc_q cd))"

text \<open>The end of a turn: a failure closes the connection and fails the tasks that wait. Reading \<^verbatim>\<open>ret\<close>
  before it has a value is undefined.\<close>

definition nc_check_ret :: "nc_wake \<Rightarrow> nat \<Rightarrow> nc_co \<times> net \<Rightarrow> (nc_co \<times> net) option" where
  "nc_check_ret wake a s = do {
     ret \<leftarrow> nc_ret (fst s);
     if ret = ERR_OK then Some s
     else do {
       cd \<leftarrow> nc_clear_co_tasks wake ((fst s)\<lparr>nc_c := None\<rparr>);
       Some (cd, snd (close_conn_ptr (Some a) (snd s)))
     }
   }"

definition nc_heart_beat :: "sys_env \<Rightarrow> nc_wake \<Rightarrow> nc_io \<Rightarrow> nat \<Rightarrow> nc_co \<Rightarrow> net \<Rightarrow> (nc_co \<times> net) option" where
  "nc_heart_beat env wake io a cd st =
     (let (t, st1) = net_now False st
      in if t - c_active_time (w_objs st1 a) > HEART_BEAT_TIME then do {
           (ret, st2) \<leftarrow> send_heart_beat env a st1;
           if ret \<noteq> ERR_OK then nc_check_ret wake a (cd\<lparr>nc_ret := Some ret\<rparr>, st2)
           else do {
             (ret2, _, st3) \<leftarrow> recv_data env (nio_reply io) a (new_msg no_fd) st2;
             if ret2 = ERR_OK then Some (cd\<lparr>nc_ret := Some ret2\<rparr>, st3) else nc_check_ret wake a (cd\<lparr>nc_ret := Some ret2\<rparr>, st3)
           }
         } else nc_check_ret wake a (cd, st1))"

definition nc_run_task :: "sys_env \<Rightarrow> nc_wake \<Rightarrow> nc_io \<Rightarrow> nat \<Rightarrow> nc_task \<Rightarrow> nc_co \<Rightarrow> net \<Rightarrow> (nc_co \<times> net) option" where
  "nc_run_task env wake io a t cd st = do {
     (ret, st1) \<leftarrow> send_to env (Some a) (nt_req t) st;
     (ret2, ack, st2) \<leftarrow> (if ret = ERR_OK then recv_data env (nio_reply io) a (new_msg no_fd) st1 else Some (ret, new_msg no_fd, st1));
     nc_check_ret wake a (cd\<lparr>nc_ret := Some ret2, nc_q := answer wake t (ret2, ack) (nc_q cd)\<rparr>, st2)
   }"

text \<open>One turn, after the wait for a task.\<close>

definition nc_on_handle_task :: "sys_env \<Rightarrow> nc_wake \<Rightarrow> nc_io \<Rightarrow> nc_co \<Rightarrow> net \<Rightarrow> (nc_co \<times> net) option" where
  "nc_on_handle_task env wake io cd st = do {
     (co, st1) \<leftarrow> (case nc_c cd of
         Some a \<Rightarrow> Some (Some a, st)
       | None \<Rightarrow> node_connect env io (nc_host cd) (nc_port cd) (nc_worker_index cd) st);
     case co of
       None \<Rightarrow> map_option (\<lambda>cd1. (cd1, st1)) (nc_clear_co_tasks wake cd)
     | Some a \<Rightarrow>
         let cd1 = cd\<lparr>nc_c := Some a\<rparr>
         in (case q_tasks (nc_q cd1) of
               [] \<Rightarrow> nc_heart_beat env wake io a cd1 st1
             | t # ts \<Rightarrow> nc_run_task env wake io a t (cd1\<lparr>nc_q := (nc_q cd1)\<lparr>q_tasks := ts\<rparr>\<rparr>) st1)
   }"

text \<open>The tasks that wait are failed and the connections closed.\<close>

fun nc_destroy_list :: "nc_wake \<Rightarrow> nc_co list \<Rightarrow> net \<Rightarrow> net option" where
  "nc_destroy_list wake [] st = Some st"
| "nc_destroy_list wake (cd # cds) st = do {
     cd1 \<leftarrow> nc_clear_co_tasks wake cd;
     nc_destroy_list wake cds (case nc_c cd1 of None \<Rightarrow> st | Some a \<Rightarrow> snd (close_conn_ptr (Some a) st))
   }"

definition nc_destroy :: "nc_wake \<Rightarrow> nc_table \<Rightarrow> net \<Rightarrow> net option" where
  "nc_destroy wake tbl st = nc_destroy_list wake (concat (map snd tbl)) st"

section \<open>Properties\<close>

text \<open>A connection with nothing buffered reads a segment that starts with a complete message.\<close>

lemma read_first:
  assumes p: "proto_wire (e_pb env)" and mem: "\<forall>k. \<not> fst (e_heap env) k" and m: "sendable (e_pb env) mx"
    and c: "conn_room (length bs) (w_objs st a)" "in_bytes (w_objs st a) = []"
    and bs: "bs = frame (e_pb env) mx @ rest" "length bs \<le> extrabuf_size"
  shows "\<exists>m' st' c'. net_conn_read env (Inr bs) a m0 st = Some (OK, m', st') \<and> same_content m' mx \<and> w_objs st' a = c' \<and>
    conn_fetch_ok 0 c' \<and> in_bytes c' = rest \<and> m_net_type st' = m_net_type st"
proof -
  have ne: "frame (e_pb env) mx \<noteq> []" by (rule frame_nonempty [OF p m])
  obtain t sn where now: "net_now False st = (t, sn)" by force
  have "conn_room (length bs + 0) (w_objs st a)" "in_bytes (w_objs st a) @ frame (e_pb env) mx = frame (e_pb env) mx" "bs \<noteq> []"
    using c ne bs(1) by simp_all
  from conn_read_drained [OF p this(1) mem this(2) ne m this(3) bs(2), of t m0] obtain m1 c1 where
    c1: "conn_fetch_ok 0 c1" "in_bytes c1 = bs"
      "conn_read (e_pb env) (e_heap env) (Inr bs) t m0 (w_objs st a) = map_option (\<lambda>(st, c', m'). (st, m', c')) (fetch_step (e_pb env) c1 m1)"
    using c(2) by auto
  from framing.dec_frame [OF proto_wire.conn_is_framing [OF p] c1(1) m, of rest m1] c1(2) bs(1) obtain c2 m2 where
    "fetch_step (e_pb env) c1 m1 = Some (OK, c2, m2)" "same_content m2 mx" "conn_fetch_ok 0 c2" "in_bytes c2 = rest" by auto
  moreover have "m_net_type sn = m_net_type st" using now by (auto simp: net_now_def Let_def)
  ultimately show ?thesis using c1(3) by (simp add: net_conn_read_def now set_obj_def Let_def)
qed

text \<open>
  C15. A relayed request gets its answer: when a connection to the peer stands, the coroutine sends the request
  of the task at the head of its queue, reads the next message on that connection and resumes exactly the
  user of that task, with success and with the message the peer sent; the connection stays open and
  the other tasks stay queued.
\<close>

theorem relay_round_trip:
  assumes env: "proto_wire (e_pb env)" "\<forall>k. \<not> fst (e_heap env) k" "leaves_alone env a" "\<forall>s. rest_of (e_yield env s) = rest_of s"
    and task: "nc_c cd = Some a" "q_tasks (nc_q cd) = t # ts" "sendable (e_pb env) (nt_req t)"
    and conn: "registered a st" "buf_room (length (frame (e_pb env) (nt_req t))) (check_new (c_send_buf (w_objs st a)))"
      "only_again (w_sends st)" "length (out_bytes (w_objs st a)) + length (frame (e_pb env) (nt_req t)) \<le> total_room (w_sends st)"
    and reply: "conn_room (length (frame (e_pb env) ack)) (w_objs st a)" "in_bytes (w_objs st a) = []" "sendable (e_pb env) ack"
      "length (frame (e_pb env) ack) \<le> extrabuf_size" "nio_reply io = Inr (frame (e_pb env) ack) # gots"
  shows "\<exists>m' cd' st'. nc_on_handle_task env wake io cd st = Some (cd', st') \<and> same_content m' ack \<and> nc_c cd' = Some a \<and>
    q_out (nc_q cd') = q_out (nc_q cd) @ [(t, (ERR_OK, m'))] \<and> q_tasks (nc_q cd') = ts @ wake t (ERR_OK, m') \<and>
    wire_of a st' = wire_of a st @ out_bytes (w_objs st a) @ frame (e_pb env) (nt_req t)"
proof -
  have live: "\<not> is_invalid (w_objs st a)" "c_codec (w_objs st a) = Some PROTOBUF" using reply(1) by (simp_all add: conn_room_def)
  obtain st1 where st1: "send_to env (Some a) (nt_req t) st = Some (ERR_OK, st1)"
    "wire_of a st1 = wire_of a st @ out_bytes (w_objs st a) @ frame (e_pb env) (nt_req t)"
    using send_to_spec [OF env(1,3,2) conn(1) live task(3) conn(2-4)] by blast
  from send_to_rest [OF env(4) st1(1)] have "c_recv_buf (w_objs st1 a) = c_recv_buf (w_objs st a)"
      "c_codec (w_objs st1 a) = c_codec (w_objs st a)" "c_state (w_objs st1 a) = c_state (w_objs st a)"
    by (auto simp: rest_of_def recv_side_def fun_eq_iff)
  then have "conn_room (length (frame (e_pb env) ack)) (w_objs st1 a)" "in_bytes (w_objs st1 a) = []"
    using reply(1,2) by (simp_all add: conn_room_def is_invalid_def in_bytes_def)
  from read_first [OF env(1,2) reply(3) this, of "[]" "new_msg no_fd"] reply(4) obtain m' st' where
    r: "net_conn_read env (Inr (frame (e_pb env) ack)) a (new_msg no_fd) st1 = Some (OK, m', st')" "same_content m' ack" by auto
  then have "wire_of a st' = wire_of a st1"
    by (auto simp: net_conn_read_def Let_def split_beta set_obj_def wire_of_def net_now_def)
  with r st1 show ?thesis
    using task(1,2) reply(5) by (simp add: nc_on_handle_task_def nc_run_task_def nc_check_ret_def answer_fields)
qed

definition relay_co :: nc_co where
  "relay_co = \<lparr>nc_node_type = ''logic'', nc_host = ''h'', nc_port = 1, nc_worker_index = 1, nc_c = Some 0, nc_ret = None,
     nc_q = push_task \<lparr>nt_co = 3, nt_node_type = ''logic'', nt_obj = ''u'', nt_req = ping\<rparr> empty_queue\<rparr>"

definition relay_io :: nc_io where
  "relay_io = \<lparr>nio_socket = Some 8, nio_opts = (True, True, True), nio_done = (\<lambda>k. Some (k = 1)), nio_hello = [], nio_reply = [Inr (frame proto3 ping)]\<rparr>"

theorem relay_round_trip_witness:
  "\<exists>m' cd' st'. nc_on_handle_task test_sys (\<lambda>_ _. []) relay_io relay_co one_conn = Some (cd', st') \<and> same_content m' ping \<and>
     q_out (nc_q cd') = [(\<lparr>nt_co = 3, nt_node_type = ''logic'', nt_obj = ''u'', nt_req = ping\<rparr>, (ERR_OK, m'))] \<and>
     wire_of 0 st' = wire_of 0 one_conn @ frame proto3 ping"
proof -
  have "\<exists>m' cd' st'. nc_on_handle_task test_sys (\<lambda>_ _. []) relay_io relay_co one_conn = Some (cd', st') \<and> same_content m' ping \<and> nc_c cd' = Some 0 \<and>
    q_out (nc_q cd') = q_out (nc_q relay_co) @ [(\<lparr>nt_co = 3, nt_node_type = ''logic'', nt_obj = ''u'', nt_req = ping\<rparr>, (ERR_OK, m'))] \<and>
    q_tasks (nc_q cd') = [] @ [] \<and>
    wire_of 0 st' = wire_of 0 one_conn @ out_bytes (w_objs one_conn 0) @ frame (e_pb test_sys) (nt_req \<lparr>nt_co = 3, nt_node_type = ''logic'', nt_obj = ''u'', nt_req = ping\<rparr>)"
    by (rule relay_round_trip [where gots = "[]"])
      (simp_all add: test_sys_facts relay_co_def relay_io_def push_task_def empty_queue_def one_conn_facts pw.proto_wire_axioms registered_def um_find_def
        new_connection_def is_invalid_def ping_sendable ping_frame_length check_new_def buf_room_new INT_MAX_def only_again_def out_bytes_def
        conn_room_def in_bytes_def extrabuf_size_def)
  then show ?thesis
    by (auto simp: test_sys_facts one_conn_facts new_connection_def out_bytes_def relay_co_def push_task_def empty_queue_def)
qed

text \<open>
  C38. When two system messages arrive in one segment during the handshake, the second is lost:
  \<^verbatim>\<open>handle_sys_message\<close> calls \<^verbatim>\<open>conn_read\<close> for each message, and \<^verbatim>\<open>conn_read\<close> overwrites a message that was already in
  the buffer. The first is handled, the function reports success, the buffer is empty and the second has
  reached no handler.
\<close>

theorem second_system_message_lost:
  assumes "proto_wire (e_pb env)" "\<forall>k. \<not> fst (e_heap env) k" "sendable (e_pb env) m1" "sendable (e_pb env) m2"
    and "bs = frame (e_pb env) m1 @ frame (e_pb env) m2" "length bs \<le> extrabuf_size"
    and "conn_room (length bs) (w_objs st a)" "in_bytes (w_objs st a) = []"
    and "\<forall>m s. same_content m m1 \<and> m_net_type s = m_net_type st \<longrightarrow>
      (\<exists>s'. handle_msg env (Some m) s = Some (ERR_OK, s') \<and> w_objs s' a = w_objs s a)"
  shows "\<exists>m1' s s' c'. same_content m1' m1 \<and> handle_msg env (Some m1') s = Some (ERR_OK, s') \<and>
    handle_sys_message env [Inr bs, got] a st = Some (ERR_OK, set_obj a c' s') \<and> in_bytes c' = []"
proof -
  obtain m1' s c1 where r: "net_conn_read env (Inr bs) a (new_msg (obj_ft a st)) st = Some (OK, m1', s)" "same_content m1' m1" "w_objs s a = c1"
    "conn_fetch_ok 0 c1" "in_bytes c1 = frame (e_pb env) m2" "m_net_type s = m_net_type st"
    using read_first [OF assms(1-3,7,8,5,6)] by blast
  obtain s' where h: "handle_msg env (Some m1') s = Some (ERR_OK, s')" "w_objs s' a = c1" using assms(9) r(2,3,6) by blast
  note fr = proto_wire.conn_is_framing [OF assms(1), of 0]
  have ne: "frame (e_pb env) m2 \<noteq> []" by (rule frame_nonempty [OF assms(1,4)])
  obtain c2 m2' where c2: "fetch_step (e_pb env) c1 (nc_clear_msg m1') = Some (OK, c2, m2')" "conn_fetch_ok 0 c2" "in_bytes c2 = []"
    using framing.dec_frame [OF fr r(4) assms(4), of "[]" "nc_clear_msg m1'"] r(5) by auto
  obtain m3 where "fetch_step (e_pb env) c2 m2' = Some (PAUSE, c2, m3)"
    using framing.dec_partial [OF fr c2(2) assms(4), of "frame (e_pb env) m2" m2'] c2(3) ne by auto
  then have d: "decode_proto (e_pb env) m2' c2 = Some (PAUSE, m3, c2)" "fetch_data (e_pb env) (nc_clear_msg m1') c1 = Some (OK, m2', c2)"
    using c2(1,2) conn_room_state [of 0 c2] by (auto simp: fetch_step_def fetch_data_def conn_fetch_ok_def)
  have "conn_read (e_pb env) (e_heap env) got t (nc_clear_msg m1') c1 = Some (PAUSE, m3, c2)" for t
    using d r(4) by (simp add: conn_read_def conn_fetch_ok_def)
  moreover have "c_read_cnt c2 = c_read_cnt c1" using d(2) by (auto simp: fetch_data_def decode_proto_def split: if_splits option.splits)
  ultimately have "net_conn_read env got a (nc_clear_msg m1') s' = Some (PAUSE, m3, set_obj a c2 s')"
    by (simp add: net_conn_read_def h(2) split_beta)
  then have "handle_sys_message env [Inr bs, got] a st = Some (ERR_OK, set_obj a c2 s')"
    using r(1) h(1) by (simp add: handle_sys_message_def)
  then show ?thesis using r(2) h(1) c2(3) by blast
qed

definition pong :: msg where
  "pong = ping\<lparr>m_msg_head := \<lparr>cmd = 32, seq = 7, len = 4\<rparr>\<rparr>"

lemma pong_facts: "sendable proto3 pong" "length (frame proto3 pong) \<le> 24" "uint (cmd (m_msg_head pong)) = 32"
proof -
  show s: "sendable proto3 pong" using ping_body by (simp add: sendable_def INT_MAX_def pong_def)
  show "length (frame proto3 pong) \<le> 24"
    using sendable_head_length [OF pw.proto_wire_axioms s] ping_body by (simp add: frame_def pong_def)
qed (simp add: pong_def)

theorem second_system_message_lost_witness:
  "\<exists>m1' s s' c'. same_content m1' pong \<and> handle_msg test_sys (Some m1') s = Some (ERR_OK, s') \<and>
    handle_sys_message test_sys [Inr (frame proto3 pong @ frame proto3 pong), Inl EAGAIN] 0 one_conn = Some (ERR_OK, set_obj 0 c' s') \<and> in_bytes c' = []"
proof -
  have w: "m_net_type one_conn = NET_WORKER" by (simp add: one_conn_def test_net_defs Let_def)
  have "handle_msg test_sys (Some m) s = Some (ERR_OK, s)" if "same_content m pong" "m_net_type s = NET_WORKER" for m s
    using that pong_facts(3)
    by (simp add: same_content_def handle_msg_def is_manager_def handle_worker_msg_def on_rsp_heart_beat_def cmd_defs)
  then have "\<forall>m s. same_content m pong \<and> m_net_type s = m_net_type one_conn \<longrightarrow>
      (\<exists>s'. handle_msg test_sys (Some m) s = Some (ERR_OK, s') \<and> w_objs s' 0 = w_objs s 0)" using w by simp
  from second_system_message_lost [OF _ _ _ _ refl _ _ _ this, of pong "Inl EAGAIN"] show ?thesis
    using pong_facts by (simp add: test_sys_facts pw.proto_wire_axioms one_conn_facts new_connection_def conn_room_def is_invalid_def check_new_def
        buf_room_new INT_MAX_def in_bytes_def extrabuf_size_def)
qed

text \<open>
  The coroutine of a connection reads a variable that has no value: when the first attempt to connect
  fails and a later one succeeds while no task waits and the connection was just active, nothing has
  assigned \<^verbatim>\<open>ret\<close> before it is tested.
\<close>

theorem node_conn_reads_uninitialised:
  assumes "nc_c cd = None" "nc_ret cd = None" "\<forall>t r. wake t r = []"
    and "node_connect env io1 (nc_host cd) (nc_port cd) (nc_worker_index cd) st = Some (None, st1)"
    and "node_connect env io2 (nc_host cd) (nc_port cd) (nc_worker_index cd) st2 = Some (Some a, st3)"
    and "fst (net_now False st3) - c_active_time (w_objs st3 a) \<le> HEART_BEAT_TIME"
  shows "\<exists>cd1. nc_on_handle_task env wake io1 cd st = Some (cd1, st1) \<and> nc_on_handle_task env wake io2 cd1 st2 = None"
proof -
  define cd1 where "cd1 = cd\<lparr>nc_q := (nc_q cd)\<lparr>q_tasks := [], q_out := q_out (nc_q cd) @ map (\<lambda>t. (t, (ERR_NODE_CONNECT_FAILED, new_msg no_fd))) (q_tasks (nc_q cd))\<rparr>\<rparr>"
  have "nc_on_handle_task env wake io1 cd st = Some (cd1, st1)"
    using assms(1,4) by (simp add: nc_on_handle_task_def nc_clear_co_tasks_def clear_queue_quiet [OF assms(3)] cd1_def)
  moreover have "nc_heart_beat env wake io2 a (cd1\<lparr>nc_c := Some a\<rparr>) st3 = None"
    using assms(2) leD [OF assms(6)] by (simp add: nc_heart_beat_def split_beta nc_check_ret_def cd1_def)
  then have "nc_on_handle_task env wake io2 cd1 st2 = None"
    using assms(1,5) by (simp add: nc_on_handle_task_def cd1_def)
  ultimately show ?thesis by blast
qed

text \<open>While the coroutine waits for its socket, another one completes the handshake.\<close>

definition helpful_env :: sys_env where
  "helpful_env = test_sys\<lparr>e_yield := (\<lambda>s. s\<lparr>w_objs := (\<lambda>b. (w_objs s b)\<lparr>c_state := ST_CONNECTED\<rparr>)\<rparr>)\<rparr>"

theorem node_conn_reads_uninitialised_witness:
  "\<exists>cd1 st1. nc_on_handle_task helpful_env (\<lambda>_ _. []) (relay_io\<lparr>nio_socket := None\<rparr>) (relay_co\<lparr>nc_c := None\<rparr>) one_conn = Some (cd1, st1) \<and>
     nc_on_handle_task helpful_env (\<lambda>_ _. []) relay_io cd1 st1 = None"
proof -
  define cd where "cd = relay_co\<lparr>nc_c := None\<rparr>"
  have n1: "node_connect helpful_env (relay_io\<lparr>nio_socket := None\<rparr>) (nc_host cd) (nc_port cd) (nc_worker_index cd) one_conn = Some (None, one_conn)"
    by (simp add: node_connect_def auto_connect_def)
  define st3 where "st3 = snd (auto_connect helpful_env relay_io (nc_host cd) (nc_port cd) (nc_worker_index cd) one_conn)"
  have m: "m_now_time one_conn = 1000" "m_time_index one_conn = 3" "w_next one_conn = 1"
    by (simp_all add: one_conn_def test_net_defs Let_def i32_def)
  have a: "auto_connect helpful_env relay_io (nc_host cd) (nc_port cd) (nc_worker_index cd) one_conn = (Some 1, st3)"
    "c_state (w_objs st3 1) = ST_CONNECTED" "c_active_time (w_objs st3 1) = 1000" "m_now_time st3 = 1000" "m_time_index st3 = 6"
    by (simp_all add: st3_def auto_connect_def relay_io_def helpful_env_def create_conn_fd_def new_seq_def net_now_def m Let_def i32_def set_obj_def
        numeral_3_eq_3)
  then have n2: "node_connect helpful_env relay_io (nc_host cd) (nc_port cd) (nc_worker_index cd) one_conn = Some (Some 1, st3)"
    by (simp add: node_connect_def)
  have "fst (net_now False st3) - c_active_time (w_objs st3 1) \<le> HEART_BEAT_TIME"
    using a by (simp add: net_now_def i32_def HEART_BEAT_TIME_def)
  from node_conn_reads_uninitialised [OF _ _ _ n1 n2 this, of "\<lambda>_ _. []"] show ?thesis
    unfolding cd_def by (auto simp: relay_co_def)
qed

end
