(* ===== verification/Json.thy ===== *)
theory Json
  imports Util "HOL-Library.Word"
begin

text \<open>
  The JSON library under \<^verbatim>\<open>src/src/core/util/json/cJSON.{h,c}\<close>: items, the recursive descent
  parser, the printer with the buffers it allocates, and the operations on the children of an item.

  A text is a C string, the list of its characters without the terminating zero; a pointer into it
  is the suffix from there on, so that the empty list points to the terminator. Reading behind the
  terminator, writing behind the end of an allocated buffer and reading a variable that was never
  assigned are the outcome \<open>Undef\<close>. \<open>al n\<close> tells whether \<^verbatim>\<open>malloc(n)\<close> succeeds. Floating-point
  conversions are the record \<open>fp\<close>.
\<close>

unbundle bit_operations_syntax

section \<open>Items\<close>

definition cJSON_False :: nat where "cJSON_False = 0"
definition cJSON_True :: nat where "cJSON_True = 1"
definition cJSON_NULL :: nat where "cJSON_NULL = 2"
definition cJSON_Int :: nat where "cJSON_Int = 3"
definition cJSON_Double :: nat where "cJSON_Double = 4"
definition cJSON_String :: nat where "cJSON_String = 5"
definition cJSON_Array :: nat where "cJSON_Array = 6"
definition cJSON_Object :: nat where "cJSON_Object = 7"

lemmas cjson_types =
  cJSON_False_def cJSON_True_def cJSON_NULL_def cJSON_Int_def cJSON_Double_def cJSON_String_def
  cJSON_Array_def cJSON_Object_def

text \<open>
  \<^verbatim>\<open>struct cJSON\<close>. The chain of children behind \<^verbatim>\<open>child\<close>, linked by \<^verbatim>\<open>next\<close> and \<^verbatim>\<open>prev\<close>, is a list;
  \<open>j_addr\<close> is the address of the struct, which distinguishes items with equal contents.
\<close>

datatype 'd cJSON =
  Item (j_addr: nat) (j_type: nat) (j_str: "string option") (j_int: u64) (j_dbl: 'd) (j_sign: int)
       (j_name: "string option") (j_child: "'d cJSON list")

text \<open>
  The arithmetic on \<^verbatim>\<open>double\<close> and \<^verbatim>\<open>long double\<close>: the zero, the conversion of an integer, the value of
  the sign, digits, scale and exponent of a number with its conversion to \<^verbatim>\<open>uint64\<close>, the text
  that \<^verbatim>\<open>sprintf\<close> makes of a value in \<^verbatim>\<open>print_double\<close>, and the one that \<^verbatim>\<open>JsonStruct2Str\<close> makes of it.
\<close>

record 'd fp =
  fp_zero :: 'd
  fp_of_u64 :: "u64 \<Rightarrow> 'd"
  fp_scaled :: "int \<Rightarrow> string \<Rightarrow> int \<Rightarrow> 'd \<times> u64"
  fp_print :: "'d \<Rightarrow> string"
  fp_to_u64 :: "'d \<Rightarrow> u64"
  fp_str :: "'d \<Rightarrow> string"

text \<open>Outcome of a call: undefined behaviour, the null pointer with the error position \<^verbatim>\<open>ep\<close>, a value.\<close>

datatype 'a outcome = Undef | Fail "string option" | Ok 'a

fun obind :: "'a outcome \<Rightarrow> ('a \<Rightarrow> 'b outcome) \<Rightarrow> 'b outcome" where
  "obind Undef f = Undef"
| "obind (Fail e) f = Fail e"
| "obind (Ok a) f = f a"

lemma obind_cong [fundef_cong]:
  "x = y \<Longrightarrow> (\<And>a. y = Ok a \<Longrightarrow> f a = g a) \<Longrightarrow> obind x f = obind y g"
  by (cases y) auto

definition item_size :: nat where
  "item_size = 72"

definition alloc :: "(nat \<Rightarrow> bool) \<Rightarrow> nat \<Rightarrow> unit outcome" where
  "alloc al n = (if al n then Ok () else Fail None)"

text \<open>Lengths are summed up in an \<^verbatim>\<open>int\<close>; a sum that it cannot hold is undefined.\<close>

definition alloc_int :: "(nat \<Rightarrow> bool) \<Rightarrow> nat \<Rightarrow> unit outcome" where
  "alloc_int al n = (if int n > INT_MAX then Undef else alloc al n)"

text \<open>\<^verbatim>\<open>cJSON_New_Item\<close>: an item of zeros.\<close>

definition blank :: "'d fp \<Rightarrow> 'd cJSON" where
  "blank fp = Item 0 cJSON_False None 0 (fp_zero fp) 0 None []"

definition cJSON_New_Item :: "(nat \<Rightarrow> bool) \<Rightarrow> 'd fp \<Rightarrow> 'd cJSON outcome" where
  "cJSON_New_Item al fp = obind (alloc al item_size) (\<lambda>_. Ok (blank fp))"

fun set_type :: "nat \<Rightarrow> 'd cJSON \<Rightarrow> 'd cJSON" where
  "set_type ty (Item a _ s i d sg n ch) = Item a ty s i d sg n ch"

fun set_name :: "string option \<Rightarrow> 'd cJSON \<Rightarrow> 'd cJSON" where
  "set_name n (Item a ty s i d sg _ ch) = Item a ty s i d sg n ch"

fun set_child :: "'d cJSON list \<Rightarrow> 'd cJSON \<Rightarrow> 'd cJSON" where
  "set_child ch (Item a ty s i d sg n _) = Item a ty s i d sg n ch"

fun set_str :: "string option \<Rightarrow> 'd cJSON \<Rightarrow> 'd cJSON" where
  "set_str s (Item a ty _ i d sg n ch) = Item a ty s i d sg n ch"

fun set_num :: "u64 \<Rightarrow> 'd \<Rightarrow> int \<Rightarrow> 'd cJSON \<Rightarrow> 'd cJSON" where
  "set_num i d sg (Item a ty s _ _ _ n ch) = Item a ty s i d sg n ch"

section \<open>Comparing names\<close>

fun strcasecmp_loop :: "string \<Rightarrow> string \<Rightarrow> int" where
  "strcasecmp_loop [] [] = 0"
| "strcasecmp_loop [] (c # _) = - int (of_char (tolower c))"
| "strcasecmp_loop (c # _) [] = int (of_char (tolower c))"
| "strcasecmp_loop (c # s) (d # t) =
     (if tolower c = tolower d then strcasecmp_loop s t
      else int (of_char (tolower c)) - int (of_char (tolower d)))"

fun cJSON_strcasecmp :: "string option \<Rightarrow> string option \<Rightarrow> int" where
  "cJSON_strcasecmp None s2 = (if s2 = None then 0 else 1)"
| "cJSON_strcasecmp (Some s1) None = 1"
| "cJSON_strcasecmp (Some s1) (Some s2) = strcasecmp_loop s1 s2"

section \<open>Numbers\<close>

definition at_char :: "char \<Rightarrow> string \<Rightarrow> bool" where
  "at_char c s = (s \<noteq> [] \<and> hd s = c)"

text \<open>The sign and the digits before the point: a leading zero is skipped, a second one ends the number.\<close>

definition num_sign :: "string \<Rightarrow> int \<times> string" where
  "num_sign s = (if at_char (CHR ''-'') s then (- 1, tl s) else (1, s))"

definition num_int :: "string \<Rightarrow> string \<times> string" where
  "num_int s =
     (let s1 = (if at_char (CHR ''0'') s then tl s else s)
      in if s1 \<noteq> [] \<and> is_digit (hd s1) \<and> hd s1 \<noteq> CHR ''0''
         then (takeWhile is_digit s1, dropWhile is_digit s1) else ([], s1))"

definition num_frac :: "string \<Rightarrow> string \<times> string" where
  "num_frac s =
     (if at_char (CHR ''.'') s \<and> tl s \<noteq> [] \<and> is_digit (hd (tl s))
      then (takeWhile is_digit (tl s), dropWhile is_digit (tl s)) else ([], s))"

text \<open>The exponent: its sign, its digits and the rest.\<close>

definition num_exp :: "string \<Rightarrow> int \<times> string \<times> string" where
  "num_exp s =
     (if at_char (CHR ''e'') s \<or> at_char (CHR ''E'') s
      then let r = tl s;
               sg = (if at_char (CHR ''-'') r then - 1 else 1);
               r1 = (if at_char (CHR ''+'') r \<or> at_char (CHR ''-'') r then tl r else r)
           in (sg, takeWhile is_digit r1, dropWhile is_digit r1)
      else (1, [], s))"

text \<open>
  \<^verbatim>\<open>long double\<close> has a mantissa of 64 bits: the digits of a number below \<open>2\<^sup>6\<^sup>4\<close> are summed up exactly,
  and the conversion of a larger one to \<^verbatim>\<open>uint64\<close> is undefined.
\<close>

definition parse_number :: "'d fp \<Rightarrow> 'd cJSON \<Rightarrow> string \<Rightarrow> ('d cJSON \<times> string) outcome" where
  "parse_number fp item num =
     (let (sg, s1) = num_sign num;
          (ip, s2) = num_int s1;
          (fr, s3) = num_frac s2;
          (esg, ed, rest) = num_exp s3;
          subscale = int (num_of ed)
      in if subscale > INT_MAX then Undef
         else if fr = [] \<and> subscale = 0
         then if num_of ip < 2 ^ 64
              then let v = of_int sg * of_nat (num_of ip)
                   in Ok (set_type cJSON_Int (set_num v (fp_of_u64 fp v) sg item), rest)
              else Undef
         else let (d, v) = fp_scaled fp sg (ip @ fr) (esg * subscale - int (length fr))
              in Ok (set_type cJSON_Double (set_num v d sg item), rest))"

section \<open>Strings\<close>

definition quote :: char where "quote = CHR 0x22"
definition backslash :: char where "backslash = CHR 0x5C"

text \<open>The first pass over a string literal: the number of characters, an escaped one counted once.\<close>

fun str_len :: "string \<Rightarrow> nat option" where
  "str_len [] = Some 0"
| "str_len (c # s) =
     (if c = quote then Some 0
      else if c = backslash
      then case s of [] \<Rightarrow> None | _ # s' \<Rightarrow> map_option Suc (str_len s')
      else map_option Suc (str_len s))"

definition hex_val :: "char \<Rightarrow> nat option" where
  "hex_val c =
     (let n = of_char c
      in if 48 \<le> n \<and> n \<le> 57 then Some (n - 48)
         else if 65 \<le> n \<and> n \<le> 70 then Some (n - 55)
         else if 97 \<le> n \<and> n \<le> 102 then Some (n - 87) else None)"

definition is_hex :: "char \<Rightarrow> bool" where
  "is_hex c = (hex_val c \<noteq> None)"

definition hex_num :: "string \<Rightarrow> nat" where
  "hex_num ds = foldl (\<lambda>n c. 16 * n + the (hex_val c)) 0 ds"

text \<open>
  \<^verbatim>\<open>sscanf(s, "%4x", &u)\<close> skips blanks and takes a sign, a prefix \<^verbatim>\<open>0x\<close> and digits, four characters
  in all; \<open>None\<close> when nothing matches, in which case the variable keeps its value.
\<close>

definition scan_x4 :: "string \<Rightarrow> u32 option" where
  "scan_x4 s =
     (let s1 = dropWhile is_space s;
          neg = at_char (CHR ''-'') s1;
          sg = (neg \<or> at_char (CHR ''+'') s1);
          s2 = (if sg then tl s1 else s1);
          w = (if sg then 3 else 4);
          zx = (take 2 s2 = ''0x'' \<or> take 2 s2 = ''0X'');
          ds = (if zx then takeWhile is_hex (take (w - 2) (drop 2 s2)) else takeWhile is_hex (take w s2));
          v = of_nat (hex_num ds)
      in if ds = [] \<and> \<not> zx then None else Some (if neg then - v else v))"

text \<open>\<^verbatim>\<open>firstByteMark\<close> and the transcoding to UTF-8; \<^verbatim>\<open>uc\<close> is shifted on the way.\<close>

definition utf8_len :: "u32 \<Rightarrow> nat" where
  "utf8_len uc = (if uc < 0x80 then 1 else if uc < 0x800 then 2 else if uc < 0x10000 then 3 else 4)"

definition firstByteMark :: "nat \<Rightarrow> u32" where
  "firstByteMark n = [0x00, 0x00, 0xC0, 0xE0, 0xF0, 0xF8, 0xFC] ! n"

definition byte_char :: "u32 \<Rightarrow> char" where
  "byte_char w = char_of (unat (w AND 0xFF))"

definition cont_byte :: "u32 \<Rightarrow> char" where
  "cont_byte uc = byte_char ((uc OR 0x80) AND 0xBF)"

fun utf8_rest :: "nat \<Rightarrow> u32 \<Rightarrow> string \<Rightarrow> u32 \<times> string" where
  "utf8_rest 0 uc acc = (uc, acc)"
| "utf8_rest (Suc n) uc acc = utf8_rest n (drop_bit 6 uc) (cont_byte uc # acc)"

definition utf8 :: "u32 \<Rightarrow> u32 \<times> string" where
  "utf8 uc =
     (let n = utf8_len uc;
          (uc', cs) = utf8_rest (n - 1) uc []
      in (uc', byte_char (uc' OR firstByteMark n) # cs))"

definition is_low :: "u32 \<Rightarrow> bool" where
  "is_low uc = (0xDC00 \<le> uc \<and> uc \<le> 0xDFFF)"

definition is_high :: "u32 \<Rightarrow> bool" where
  "is_high uc = (0xD800 \<le> uc \<and> uc \<le> 0xDBFF)"

definition join_pair :: "u32 \<Rightarrow> u32 \<Rightarrow> u32" where
  "join_pair uc uc2 = 0x10000 OR push_bit 10 (uc AND 0x3FF) OR (uc2 AND 0x3FF)"

text \<open>
  The case \<^verbatim>\<open>'u'\<close> of the second pass, from the character behind \<^verbatim>\<open>u\<close> on: what is written, the new
  values of \<^verbatim>\<open>uc\<close> and \<^verbatim>\<open>uc2\<close>, and where the pass goes on.
\<close>

definition keep :: "u32 option \<Rightarrow> u32 option \<Rightarrow> u32 option" where
  "keep new old = (if new = None then old else new)"

definition str_unicode ::
  "u32 option \<Rightarrow> u32 option \<Rightarrow> string \<Rightarrow> (string \<times> u32 option \<times> u32 option \<times> string) option" where
  "str_unicode uc uc2 s =
     (case keep (scan_x4 s) uc of
        None \<Rightarrow> None
      | Some v \<Rightarrow>
          if length s < 4 then None
          else let r = drop 4 s
               in if is_low v \<or> v = 0 then Some ([], Some v, uc2, r)
                  else if is_high v
                  then if at_char backslash r \<and> at_char (CHR ''u'') (tl r)
                       then let s2 = drop 2 r
                            in case keep (scan_x4 s2) uc2 of
                                 None \<Rightarrow> None
                               | Some v2 \<Rightarrow>
                                   if length s2 < 4 then None
                                   else if \<not> is_low v2 then Some ([], Some v, Some v2, drop 4 s2)
                                   else let (uc', cs) = utf8 (join_pair v v2)
                                        in Some (cs, Some uc', Some v2, drop 4 s2)
                       else Some ([], Some v, uc2, r)
                  else let (uc', cs) = utf8 v in Some (cs, Some uc', uc2, r))"

definition unescape :: "char \<Rightarrow> char" where
  "unescape c =
     (if c = CHR ''b'' then CHR 0x08 else if c = CHR ''f'' then CHR 0x0C else if c = CHR ''n'' then CHR 0x0A
      else if c = CHR ''r'' then CHR 0x0D else if c = CHR ''t'' then CHR 0x09 else c)"

lemma str_unicode_shorter: "str_unicode uc uc2 s = Some (cs, v, v2, r) \<Longrightarrow> length r < length s"
  by (auto simp: str_unicode_def Let_def split: option.splits if_splits prod.splits)

text \<open>The second pass writes to a buffer of \<open>cap\<close> characters; \<open>out\<close> is what it has written.\<close>

function str_copy ::
  "nat \<Rightarrow> string \<Rightarrow> u32 option \<Rightarrow> u32 option \<Rightarrow> string \<Rightarrow> (string \<times> string) option" where
  "str_copy cap out uc uc2 s =
     (if s = [] \<or> hd s = quote
      then if length out < cap then Some (out, if s = [] then s else tl s) else None
      else if hd s \<noteq> backslash
      then if length out < cap then str_copy cap (out @ [hd s]) uc uc2 (tl s) else None
      else if tl s = [] then None
      else if hd (tl s) = CHR ''u''
      then case str_unicode uc uc2 (tl (tl s)) of
             None \<Rightarrow> None
           | Some (cs, uc', uc2', r) \<Rightarrow>
               if length out + length cs \<le> cap then str_copy cap (out @ cs) uc' uc2' r else None
      else if length out < cap then str_copy cap (out @ [unescape (hd (tl s))]) uc uc2 (tl (tl s)) else None)"
  by pat_completeness auto

termination
proof (relation "measure (\<lambda>(_, _, _, _, s). length s)")
  fix cap :: nat and out uc uc2 and s cs r :: string and x y z uc' uc2'
  assume s: "\<not> (s = [] \<or> hd s = quote)" "tl s \<noteq> []"
    and u: "str_unicode uc uc2 (tl (tl s)) = Some x" "(cs, y) = x" "(uc', z) = y" "(uc2', r) = z"
  from u have "length r < length (tl (tl s))" using str_unicode_shorter by blast
  then show "((cap, out @ cs, uc', uc2', r), cap, out, uc, uc2, s) \<in> measure (\<lambda>(_, _, _, _, s). length s)"
    by simp
qed auto

declare str_copy.simps [simp del]

definition parse_string ::
  "(nat \<Rightarrow> bool) \<Rightarrow> 'd cJSON \<Rightarrow> string \<Rightarrow> ('d cJSON \<times> string) outcome" where
  "parse_string al item str =
     (if \<not> at_char quote str then Fail (Some str)
      else case str_len (tl str) of
             None \<Rightarrow> Undef
           | Some n \<Rightarrow>
               obind (alloc_int al (n + 1)) (\<lambda>_.
                 case str_copy (n + 1) [] None None (tl str) of
                   None \<Rightarrow> Undef
                 | Some (out, rest) \<Rightarrow> Ok (set_type cJSON_String (set_str (Some out) item), rest)))"

section \<open>Parser\<close>

definition skip :: "string \<Rightarrow> string" where
  "skip s = dropWhile (\<lambda>c. (of_char c :: nat) \<le> 32) s"

text \<open>
  \<^verbatim>\<open>parse_value\<close>, \<^verbatim>\<open>parse_array\<close> and \<^verbatim>\<open>parse_object\<close>. The loops over the elements and over the members
  take the first one like the later ones. A member is parsed into the item that got the name.
\<close>

function parse_value ::
    "(nat \<Rightarrow> bool) \<Rightarrow> 'd fp \<Rightarrow> 'd cJSON \<Rightarrow> string \<Rightarrow> ('d cJSON \<times> string) outcome"
  and parse_array ::
    "(nat \<Rightarrow> bool) \<Rightarrow> 'd fp \<Rightarrow> 'd cJSON \<Rightarrow> string \<Rightarrow> ('d cJSON \<times> string) outcome"
  and array_items ::
    "(nat \<Rightarrow> bool) \<Rightarrow> 'd fp \<Rightarrow> string \<Rightarrow> ('d cJSON list \<times> string) outcome"
  and parse_object ::
    "(nat \<Rightarrow> bool) \<Rightarrow> 'd fp \<Rightarrow> 'd cJSON \<Rightarrow> string \<Rightarrow> ('d cJSON \<times> string) outcome"
  and object_items ::
    "(nat \<Rightarrow> bool) \<Rightarrow> 'd fp \<Rightarrow> string \<Rightarrow> ('d cJSON list \<times> string) outcome"
where
  "parse_value al fp item s =
     (if take 4 s = ''null'' then Ok (set_type cJSON_NULL item, drop 4 s)
      else if take 5 s = ''false'' then Ok (set_type cJSON_False item, drop 5 s)
      else if take 4 s = ''true''
      then Ok (set_type cJSON_True (set_num 1 (j_dbl item) (j_sign item) item), drop 4 s)
      else if at_char quote s then parse_string al item s
      else if at_char (CHR ''-'') s \<or> s \<noteq> [] \<and> is_digit (hd s) then parse_number fp item s
      else if at_char (CHR ''['') s then parse_array al fp item s
      else if at_char (CHR ''{'') s then parse_object al fp item s
      else Fail (Some s))"
| "parse_array al fp item s =
     (if \<not> at_char (CHR ''['') s then Fail (Some s)
      else let item1 = set_type cJSON_Array item; s1 = skip (tl s)
           in if at_char (CHR '']'') s1 then Ok (item1, tl s1)
              else obind (array_items al fp s1) (\<lambda>(ch, r).
                if at_char (CHR '']'') r then Ok (set_child ch item1, tl r) else Fail (Some r)))"
| "array_items al fp s =
     obind (cJSON_New_Item al fp) (\<lambda>child.
     obind (parse_value al fp child (skip s)) (\<lambda>(it, r0).
       let r = skip r0
       in if at_char (CHR '','') r
          then obind (array_items al fp (tl r)) (\<lambda>(its, r'). Ok (it # its, r'))
          else Ok ([it], r)))"
| "parse_object al fp item s =
     (if \<not> at_char (CHR ''{'') s then Fail (Some s)
      else let item1 = set_type cJSON_Object item; s1 = skip (tl s)
           in if at_char (CHR ''}'') s1 then Ok (item1, tl s1)
              else obind (object_items al fp s1) (\<lambda>(ch, r).
                if at_char (CHR ''}'') r then Ok (set_child ch item1, tl r) else Fail (Some r)))"
| "object_items al fp s =
     obind (cJSON_New_Item al fp) (\<lambda>child.
     obind (parse_string al child (skip s)) (\<lambda>(nm, r0).
       let r1 = skip r0; child1 = set_str None (set_name (j_str nm) nm)
       in if \<not> at_char (CHR '':'') r1 then Fail (Some r1)
          else obind (parse_value al fp child1 (skip (tl r1))) (\<lambda>(it, r2).
            let r = skip r2
            in if at_char (CHR '','') r
               then obind (object_items al fp (tl r)) (\<lambda>(its, r'). Ok (it # its, r'))
               else Ok ([it], r))))"
  by pat_completeness auto

lemma quote_backslash [simp]: "quote \<noteq> backslash" "backslash \<noteq> quote" "CHR ''u'' \<noteq> quote" "CHR ''u'' \<noteq> backslash"
  by (simp_all add: quote_def backslash_def)

lemma str_copy_simps [simp]:
  "str_copy cap out uc uc2 [] = (if length out < cap then Some (out, []) else None)"
  "str_copy cap out uc uc2 (quote # s) = (if length out < cap then Some (out, s) else None)"
  "str_copy cap out uc uc2 [backslash] = None"
  "str_copy cap out uc uc2 (backslash # CHR ''u'' # s) =
     (case str_unicode uc uc2 s of
        None \<Rightarrow> None
      | Some (cs, uc', uc2', r) \<Rightarrow>
          if length out + length cs \<le> cap then str_copy cap (out @ cs) uc' uc2' r else None)"
  by (subst str_copy.simps, simp)+

lemma str_copy_plain [simp]:
  "c \<noteq> quote \<Longrightarrow> c \<noteq> backslash \<Longrightarrow>
   str_copy cap out uc uc2 (c # s) = (if length out < cap then str_copy cap (out @ [c]) uc uc2 s else None)"
  by (subst str_copy.simps) simp

lemma str_copy_escape [simp]:
  "e \<noteq> CHR ''u'' \<Longrightarrow>
   str_copy cap out uc uc2 (backslash # e # s) =
     (if length out < cap then str_copy cap (out @ [unescape e]) uc uc2 s else None)"
  by (subst str_copy.simps) simp

lemma length_skip: "length (skip s) \<le> length s"
  by (simp add: skip_def length_dropWhile_le)

lemma at_char_length: "at_char c s \<Longrightarrow> 0 < length s"
  by (simp add: at_char_def)

lemma str_copy_shorter: "str_copy cap out uc uc2 s = Some (x, r) \<Longrightarrow> length r \<le> length s"
proof (induction cap out uc uc2 s arbitrary: x r rule: str_copy.induct)
  case (1 cap out uc uc2 s)
  note IH = "1.IH" and eq = "1.prems"
  consider "s = []" | s' where "s = quote # s'" | c s' where "s = c # s'" "c \<noteq> quote" "c \<noteq> backslash"
    | "s = [backslash]" | s' where "s = backslash # CHR ''u'' # s'"
    | e s' where "s = backslash # e # s'" "e \<noteq> CHR ''u''"
    by (metis list.exhaust)
  then show ?case
  proof cases
    case (3 c s')
    with eq IH(1) show ?thesis by (auto split: if_splits dest!: le_SucI)
  next
    case (5 s')
    with eq obtain cs v v2 r' where u: "str_unicode uc uc2 s' = Some (cs, v, v2, r')"
      and cap: "length out + length cs \<le> cap" and rec: "str_copy cap (out @ cs) v v2 r' = Some (x, r)"
      by (auto split: option.splits if_splits)
    have "length r \<le> length r'" using IH(2) [of "(cs, v, v2, r')" cs "(v, v2, r')" v "(v2, r')" v2 r'] 5 u cap rec
      by simp
    with str_unicode_shorter [OF u] 5 show ?thesis by simp
  next
    case (6 e s')
    with eq IH(3) show ?thesis by (auto split: if_splits dest!: le_SucI)
  qed (use eq in \<open>auto split: if_splits\<close>)
qed

lemma parse_string_shorter: "parse_string al it s = Ok (x, r) \<Longrightarrow> length r < length s"
  by (cases s) (auto simp: parse_string_def alloc_int_def alloc_def at_char_def less_Suc_eq_le
      split: if_splits option.splits intro: str_copy_shorter)

lemma num_parts_shorter:
  "length (snd (num_sign s)) \<le> length s" "length (snd (num_int s)) \<le> length s"
  "length (snd (num_frac s)) \<le> length s" "length (snd (snd (num_exp s))) \<le> length s"
  by (auto simp: num_sign_def num_int_def num_frac_def num_exp_def Let_def
      intro: le_trans [OF length_dropWhile_le])

lemma parse_number_shorter:
  assumes "at_char (CHR ''-'') s \<or> s \<noteq> [] \<and> is_digit (hd s)" "parse_number fp it s = Ok (x, r)"
  shows "length r < length s"
proof -
  obtain sg s1 where 1: "num_sign s = (sg, s1)" by fastforce
  obtain ip s2 where 2: "num_int s1 = (ip, s2)" by fastforce
  obtain fr s3 where 3: "num_frac s2 = (fr, s3)" by fastforce
  obtain esg ed s4 where 4: "num_exp s3 = (esg, ed, s4)" by (metis prod_cases3)
  have "r = s4" using assms(2) by (auto simp: parse_number_def 1 2 3 4 Let_def split: if_splits prod.splits)
  moreover have "length s4 \<le> length s2"
    using num_parts_shorter(3) [of s2] num_parts_shorter(4) [of s3] by (simp add: 3 4)
  moreover have "length s2 < length s"
  proof (cases "at_char (CHR ''-'') s")
    case True
    then have "length s1 < length s" using 1 by (auto simp: num_sign_def at_char_def)
    then show ?thesis using num_parts_shorter(2) [of s1] by (simp add: 2)
  next
    case False
    then have "s1 = s" "s \<noteq> []" "is_digit (hd s)" using 1 assms(1) by (auto simp: num_sign_def)
    then show ?thesis using 2
      by (cases s) (auto simp: num_int_def at_char_def less_Suc_eq_le Let_def length_dropWhile_le split: if_splits)
  qed
  ultimately show ?thesis by simp
qed

lemma length_tl_at: "at_char c s \<Longrightarrow> length (tl s) < length s"
  by (cases s) (auto simp: at_char_def)

lemma new_item_cases: "cJSON_New_Item al fp = (if al item_size then Ok (blank fp) else Fail None)"
  by (simp add: cJSON_New_Item_def alloc_def)

lemma obind_eq_Ok: "obind x f = Ok y \<longleftrightarrow> (\<exists>a. x = Ok a \<and> f a = Ok y)"
  by (cases x) auto

lemmas shorter_rules = length_skip length_tl_at parse_string_shorter parse_number_shorter

lemma parse_shorter:
  fixes al :: "nat \<Rightarrow> bool" and fp :: "'d fp"
  shows
  "parse_value_parse_array_array_items_parse_object_object_items_dom (Inl (Inl (al, fp, item, s))) \<Longrightarrow>
     parse_value al fp item s = Ok (x, r) \<Longrightarrow> length r < length s"
  "parse_value_parse_array_array_items_parse_object_object_items_dom (Inl (Inr (al, fp, item1, s1))) \<Longrightarrow>
     parse_array al fp item1 s1 = Ok (x1, r1) \<Longrightarrow> length r1 < length s1"
  "parse_value_parse_array_array_items_parse_object_object_items_dom (Inr (Inl (al, fp, s2))) \<Longrightarrow>
     array_items al fp s2 = Ok (x2, r2) \<Longrightarrow> length r2 < length s2"
  "parse_value_parse_array_array_items_parse_object_object_items_dom (Inr (Inr (Inl (al, fp, item3, s3)))) \<Longrightarrow>
     parse_object al fp item3 s3 = Ok (x3, r3) \<Longrightarrow> length r3 < length s3"
  "parse_value_parse_array_array_items_parse_object_object_items_dom (Inr (Inr (Inr (al, fp, s4)))) \<Longrightarrow>
     object_items al fp s4 = Ok (x4, r4) \<Longrightarrow> length r4 < length s4"
proof (induction al fp item s and al fp item1 s1 and al fp s2 and al fp item3 s3 and al fp s4
    arbitrary: x r and x1 r1 and x2 r2 and x3 r3 and x4 r4
    rule: parse_value_parse_array_array_items_parse_object_object_items.pinduct)
  case (1 al fp item s)
  then show ?case
    by (cases "s = []") (auto simp: parse_value.psimps split: if_splits
        dest: parse_string_shorter parse_number_shorter [rotated])
next
  case (2 al fp item s)
  have l: "length (skip (tl s)) < length s" if "at_char (CHR ''['') s"
    using length_skip [of "tl s"] length_tl_at [OF that] by simp
  from 2 l show ?case
    by (fastforce simp: parse_array.psimps obind_eq_Ok Let_def split: if_splits dest: length_tl_at)
next
  case (3 al fp s)
  then obtain it r0 where v: "parse_value al fp (blank fp) (skip s) = Ok (it, r0)" and al: "al item_size"
    and e: "x2 = [it] \<and> r2 = skip r0 \<or>
      (\<exists>its. at_char (CHR '','') (skip r0) \<and> array_items al fp (tl (skip r0)) = Ok (its, r2))"
    by (auto simp: array_items.psimps obind_eq_Ok new_item_cases Let_def split: if_splits)
  have "length r0 < length (skip s)" using "3.IH"(1) v al by (simp add: new_item_cases)
  then have "length (skip r0) < length s" using length_skip [of s] length_skip [of r0] by simp
  moreover have "length r2 < length (tl (skip r0))"
    if "at_char (CHR '','') (skip r0)" "array_items al fp (tl (skip r0)) = Ok (its, r2)" for its
    using "3.IH"(2) [of "blank fp" "(it, r0)" it r0 "skip r0"] v al that by (simp add: new_item_cases)
  ultimately show ?case using e length_tl_at by fastforce
next
  case (4 al fp item s)
  have l: "length (skip (tl s)) < length s" if "at_char (CHR ''{'') s"
    using length_skip [of "tl s"] length_tl_at [OF that] by simp
  from 4 l show ?case
    by (fastforce simp: parse_object.psimps obind_eq_Ok Let_def split: if_splits dest: length_tl_at)
next
  case (5 al fp s)
  then obtain nm r0 it r1 where n: "parse_string al (blank fp) (skip s) = Ok (nm, r0)" and al: "al item_size"
    and c: "at_char (CHR '':'') (skip r0)"
    and v: "parse_value al fp (set_str None (set_name (j_str nm) nm)) (skip (tl (skip r0))) = Ok (it, r1)"
    and e: "x4 = [it] \<and> r4 = skip r1 \<or>
      (\<exists>its. at_char (CHR '','') (skip r1) \<and> object_items al fp (tl (skip r1)) = Ok (its, r4))"
    by (auto simp: object_items.psimps obind_eq_Ok new_item_cases Let_def split: if_splits)
  have "length r1 < length (skip (tl (skip r0)))" using "5.IH"(1) n al c v by (simp add: new_item_cases)
  then have "length (skip r1) < length s"
    using length_skip [of s] length_skip [of r0] length_skip [of r1] length_skip [of "tl (skip r0)"]
      length_tl_at [OF c] parse_string_shorter [OF n] by simp
  moreover have "length r4 < length (tl (skip r1))"
    if "at_char (CHR '','') (skip r1)" "object_items al fp (tl (skip r1)) = Ok (its, r4)" for its
    using "5.IH"(2) [of "blank fp" "(nm, r0)" nm r0 "skip r0" _ "(it, r1)" it r1 "skip r1"] n al c v that
    by (simp add: new_item_cases)
  ultimately show ?case using e length_tl_at by fastforce
qed

termination parse_value
proof (relation "measures [\<lambda>x. case x of Inl (Inl (_, _, _, s)) \<Rightarrow> length s | Inl (Inr (_, _, _, s)) \<Rightarrow> length s
    | Inr (Inl (_, _, s)) \<Rightarrow> length s | Inr (Inr (Inl (_, _, _, s))) \<Rightarrow> length s
    | Inr (Inr (Inr (_, _, s))) \<Rightarrow> length s,
    \<lambda>x. case x of Inl (Inl _) \<Rightarrow> 1 | Inl (Inr _) \<Rightarrow> 0 | Inr (Inl _) \<Rightarrow> 2 | Inr (Inr (Inl _)) \<Rightarrow> 0
    | Inr (Inr (Inr _)) \<Rightarrow> (2 :: nat)]", goal_cases)
  case (4 al fp item s x xa)
  then show ?case using length_skip [of "tl s"] length_tl_at by fastforce
next
  case (5 al fp s a)
  then show ?case using length_skip [of s] by simp linarith
next
  case (6 al fp s a aa x y xa)
  then have "length y < length (skip s)" by (auto dest: parse_shorter(1))
  with 6 show ?case using length_skip [of s] length_skip [of y] length_tl_at [of _ "skip y"] by fastforce
next
  case (7 al fp item s x xa)
  then show ?case using length_skip [of "tl s"] length_tl_at by fastforce
next
  case (8 al fp s a aa x y xa xb)
  then have "length y < length (skip s)" by (auto dest: parse_string_shorter)
  moreover have "length (tl xa) < length xa" using 8 length_tl_at by auto
  ultimately show ?case using 8 length_skip [of s] length_skip [of y] length_skip [of "tl xa"] by simp
next
  case (9 al fp s a aa x y xa xb ab xc ya xd)
  then have "length y < length (skip s)" "length ya < length (skip (tl xa))"
    by (auto dest: parse_string_shorter parse_shorter(1))
  moreover have "length (tl xa) < length xa" "length (tl xd) < length xd" using 9 length_tl_at by auto
  ultimately show ?case
    using 9 length_skip [of s] length_skip [of y] length_skip [of "tl xa"] length_skip [of ya] by simp
qed auto

declare parse_value.simps [simp del] parse_array.simps [simp del] array_items.simps [simp del]
  parse_object.simps [simp del] object_items.simps [simp del]

definition cJSON_Parse :: "(nat \<Rightarrow> bool) \<Rightarrow> 'd fp \<Rightarrow> string \<Rightarrow> 'd cJSON outcome" where
  "cJSON_Parse al fp value =
     obind (cJSON_New_Item al fp) (\<lambda>c.
     obind (parse_value al fp c (skip (c_str value))) (\<lambda>(it, _). Ok it))"

section \<open>Printer\<close>

text \<open>\<open>fits\<close> is a text written to a buffer of \<open>n\<close> characters, with its terminator.\<close>

definition fits :: "nat \<Rightarrow> string \<Rightarrow> string outcome" where
  "fits n s = (if length s < n then Ok s else Undef)"

definition cJSON_strdup :: "(nat \<Rightarrow> bool) \<Rightarrow> string \<Rightarrow> string outcome" where
  "cJSON_strdup al s = obind (alloc al (length s + 1)) (\<lambda>_. fits (length s + 1) s)"

definition print_double :: "(nat \<Rightarrow> bool) \<Rightarrow> 'd fp \<Rightarrow> 'd cJSON \<Rightarrow> string outcome" where
  "print_double al fp it = obind (alloc al 64) (\<lambda>_. fits 64 (fp_print fp (j_dbl it)))"

text \<open>In the comparison with \<^verbatim>\<open>INT_MIN\<close> that constant is converted to \<^verbatim>\<open>uint64\<close>.\<close>

definition print_int :: "(nat \<Rightarrow> bool) \<Rightarrow> 'd cJSON \<Rightarrow> string outcome" where
  "print_int al it =
     obind (alloc al 22) (\<lambda>_. fits 22
       (if j_sign it = - 1
        then if j_int it \<le> 2147483647 \<and> j_int it \<ge> - 2147483648
             then dec_nat (unat (j_int it)) else dec (sint (j_int it))
        else dec_nat (unat (j_int it))))"

text \<open>The two passes over the characters of a string: the length that is allocated, what is written.\<close>

definition short_escapes :: "(char \<times> char) list" where
  "short_escapes = [(backslash, backslash), (quote, quote), (CHR 0x08, CHR ''b''), (CHR 0x0C, CHR ''f''),
     (CHR 0x0A, CHR ''n''), (CHR 0x0D, CHR ''r''), (CHR 0x09, CHR ''t'')]"

definition escaped_len :: "char \<Rightarrow> nat" where
  "escaped_len c =
     (if c \<in> {quote, backslash, CHR 0x08, CHR 0x0C, CHR 0x0A, CHR 0x0D, CHR 0x09} then 2
      else if (of_char c :: nat) < 32 then 6 else 1)"

definition hex_digit :: "nat \<Rightarrow> char" where
  "hex_digit n = (if n < 10 then char_of (48 + n) else char_of (87 + n))"

definition hex4 :: "nat \<Rightarrow> string" where
  "hex4 n = [hex_digit (n div 4096 mod 16), hex_digit (n div 256 mod 16), hex_digit (n div 16 mod 16), hex_digit (n mod 16)]"

definition escaped :: "char \<Rightarrow> string" where
  "escaped c =
     (if (of_char c :: nat) > 31 \<and> c \<noteq> quote \<and> c \<noteq> backslash then [c]
      else backslash # (case map_of short_escapes c of
                          Some e \<Rightarrow> [e]
                        | None \<Rightarrow> CHR ''u'' # hex4 (of_char c)))"

definition quoted :: "string \<Rightarrow> string" where
  "quoted s = quote # concat (map escaped s) @ [quote]"

definition print_string_ptr :: "(nat \<Rightarrow> bool) \<Rightarrow> string option \<Rightarrow> string outcome" where
  "print_string_ptr al str =
     (case str of
        None \<Rightarrow> cJSON_strdup al ''''
      | Some s \<Rightarrow>
          let n = sum_list (map escaped_len s) + 3
          in obind (alloc_int al n) (\<lambda>_. fits n (quoted s)))"

definition print_string :: "(nat \<Rightarrow> bool) \<Rightarrow> 'd cJSON \<Rightarrow> string outcome" where
  "print_string al it = print_string_ptr al (j_str it)"

text \<open>The text of an array from the texts of its elements.\<close>

fun join_entries :: "bool \<Rightarrow> string list \<Rightarrow> string" where
  "join_entries fmt [] = ''''"
| "join_entries fmt [e] = e"
| "join_entries fmt (e # es) = e @ '','' @ (if fmt then '' '' else '''') @ join_entries fmt es"

definition array_text :: "bool \<Rightarrow> string list \<Rightarrow> string" where
  "array_text fmt es = ''['' @ join_entries fmt es @ '']''"

definition tabs :: "nat \<Rightarrow> string" where
  "tabs n = replicate n (CHR 0x09)"

definition nl :: "bool \<Rightarrow> string" where
  "nl fmt = (if fmt then [CHR 0x0A] else [])"

definition member_text :: "nat \<Rightarrow> bool \<Rightarrow> string \<times> string \<Rightarrow> string" where
  "member_text depth fmt e =
     (if fmt then tabs depth else []) @ fst e @ '':'' @ (if fmt then tabs 1 else []) @ snd e"

fun join_members :: "nat \<Rightarrow> bool \<Rightarrow> (string \<times> string) list \<Rightarrow> string" where
  "join_members depth fmt [] = ''''"
| "join_members depth fmt [e] = member_text depth fmt e @ nl fmt"
| "join_members depth fmt (e # es) = member_text depth fmt e @ '','' @ nl fmt @ join_members depth fmt es"

definition object_text :: "nat \<Rightarrow> bool \<Rightarrow> (string \<times> string) list \<Rightarrow> string" where
  "object_text depth fmt es =
     ''{'' @ nl fmt @ join_members depth fmt es @ (if fmt then tabs (depth - 1) else []) @ ''}''"

text \<open>The lengths of the output buffers.\<close>

definition array_buf :: "bool \<Rightarrow> string list \<Rightarrow> nat" where
  "array_buf fmt es = 5 + sum_list (map (\<lambda>e. length e + 2 + (if fmt then 1 else 0)) es)"

definition object_buf :: "nat \<Rightarrow> bool \<Rightarrow> (string \<times> string) list \<Rightarrow> nat" where
  "object_buf depth fmt es =
     7 + (if fmt then depth else 0) +
     sum_list (map (\<lambda>(n, e). length e + length n + 2 + (if fmt then 2 + depth else 0)) es)"

text \<open>\<^verbatim>\<open>print_array\<close> and \<^verbatim>\<open>print_object\<close>, given the texts of the children; \<open>depth\<close> is that of the members.\<close>

definition print_array ::
  "(nat \<Rightarrow> bool) \<Rightarrow> bool \<Rightarrow> nat \<Rightarrow> string list outcome \<Rightarrow> string outcome" where
  "print_array al fmt numentries entries =
     obind (alloc al (numentries * 8)) (\<lambda>_.
     obind entries (\<lambda>es.
     obind (alloc_int al (array_buf fmt es)) (\<lambda>_. fits (array_buf fmt es) (array_text fmt es))))"

definition print_object ::
  "(nat \<Rightarrow> bool) \<Rightarrow> nat \<Rightarrow> bool \<Rightarrow> nat \<Rightarrow> (string \<times> string) list outcome \<Rightarrow> string outcome" where
  "print_object al depth fmt numentries members =
     obind (alloc al (numentries * 8)) (\<lambda>_.
     obind members (\<lambda>es.
     obind (alloc_int al (object_buf depth fmt es)) (\<lambda>_.
       fits (object_buf depth fmt es) (object_text depth fmt es))))"

text \<open>\<open>both\<close>: the members of an object are all printed before a failure is looked at.\<close>

fun both :: "'a outcome \<Rightarrow> 'b outcome \<Rightarrow> ('a \<times> 'b) outcome" where
  "both (Ok a) (Ok b) = Ok (a, b)"
| "both Undef y = Undef"
| "both x Undef = Undef"
| "both (Fail e) y = Fail None"
| "both x (Fail e) = Fail None"

fun print_value ::
    "(nat \<Rightarrow> bool) \<Rightarrow> 'd fp \<Rightarrow> nat \<Rightarrow> bool \<Rightarrow> 'd cJSON \<Rightarrow> string outcome"
  and print_entries ::
    "(nat \<Rightarrow> bool) \<Rightarrow> 'd fp \<Rightarrow> nat \<Rightarrow> bool \<Rightarrow> 'd cJSON list \<Rightarrow> string list outcome"
  and print_members ::
    "(nat \<Rightarrow> bool) \<Rightarrow> 'd fp \<Rightarrow> nat \<Rightarrow> bool \<Rightarrow> 'd cJSON list \<Rightarrow> (string \<times> string) list outcome"
where
  "print_value al fp depth fmt (Item a ty s i d sg n ch) =
     (let it = Item a ty s i d sg n ch; t = ty mod 256
      in if t = cJSON_NULL then cJSON_strdup al ''null''
         else if t = cJSON_False then cJSON_strdup al ''false''
         else if t = cJSON_True then cJSON_strdup al ''true''
         else if t = cJSON_Int then print_int al it
         else if t = cJSON_Double then print_double al fp it
         else if t = cJSON_String then print_string al it
         else if t = cJSON_Array
         then print_array al fmt (length ch) (print_entries al fp (depth + 1) fmt ch)
         else if t = cJSON_Object
         then print_object al (depth + 1) fmt (length ch) (print_members al fp (depth + 1) fmt ch)
         else Fail None)"
| "print_entries al fp depth fmt [] = Ok []"
| "print_entries al fp depth fmt (c # cs) =
     obind (print_value al fp depth fmt c) (\<lambda>e.
     obind (print_entries al fp depth fmt cs) (\<lambda>es. Ok (e # es)))"
| "print_members al fp depth fmt [] = Ok []"
| "print_members al fp depth fmt (c # cs) =
     obind (both (both (print_string_ptr al (j_name c)) (print_value al fp depth fmt c))
       (print_members al fp depth fmt cs)) (\<lambda>((n, e), es). Ok ((n, e) # es))"

definition cJSON_Print :: "(nat \<Rightarrow> bool) \<Rightarrow> 'd fp \<Rightarrow> 'd cJSON \<Rightarrow> string outcome" where
  "cJSON_Print al fp it = print_value al fp 0 True it"

definition cJSON_PrintUnformatted :: "(nat \<Rightarrow> bool) \<Rightarrow> 'd fp \<Rightarrow> 'd cJSON \<Rightarrow> string outcome" where
  "cJSON_PrintUnformatted al fp it = print_value al fp 0 False it"

section \<open>Children\<close>

definition cJSON_GetArraySize :: "'d cJSON \<Rightarrow> int" where
  "cJSON_GetArraySize it = i32 (int (length (j_child it)))"

definition nth_child :: "int \<Rightarrow> 'a list \<Rightarrow> 'a option" where
  "nth_child which ch = (if nat which < length ch then Some (ch ! nat which) else None)"

definition cJSON_GetArrayItem :: "'d cJSON \<Rightarrow> int \<Rightarrow> 'd cJSON option" where
  "cJSON_GetArrayItem it which = nth_child which (j_child it)"

text \<open>The position of the first child whose name is equal up to the case of letters.\<close>

fun find_name :: "string \<Rightarrow> 'd cJSON list \<Rightarrow> nat option" where
  "find_name s [] = None"
| "find_name s (c # cs) =
     (if cJSON_strcasecmp (j_name c) (Some s) = 0 then Some 0 else map_option Suc (find_name s cs))"

definition cJSON_GetObjectItem :: "'d cJSON \<Rightarrow> string \<Rightarrow> 'd cJSON option" where
  "cJSON_GetObjectItem it s = map_option (\<lambda>i. j_child it ! i) (find_name s (j_child it))"

definition cJSON_AddItemToArray :: "'d cJSON \<Rightarrow> 'd cJSON \<Rightarrow> 'd cJSON" where
  "cJSON_AddItemToArray it new = set_child (j_child it @ [new]) it"

definition cJSON_AddItemToArrayHead :: "'d cJSON \<Rightarrow> 'd cJSON \<Rightarrow> 'd cJSON" where
  "cJSON_AddItemToArrayHead it new = set_child (new # j_child it) it"

text \<open>\<^verbatim>\<open>cJSON_strdup\<close> may fail; the item is then added without a name.\<close>

definition dup_name :: "(nat \<Rightarrow> bool) \<Rightarrow> string \<Rightarrow> string option" where
  "dup_name al s = (case cJSON_strdup al s of Ok t \<Rightarrow> Some t | _ \<Rightarrow> None)"

definition cJSON_AddItemToObject :: "(nat \<Rightarrow> bool) \<Rightarrow> 'd cJSON \<Rightarrow> string \<Rightarrow> 'd cJSON \<Rightarrow> 'd cJSON" where
  "cJSON_AddItemToObject al it s new = cJSON_AddItemToArray it (set_name (dup_name al s) new)"

definition cJSON_DetachItemFromArray :: "'d cJSON \<Rightarrow> int \<Rightarrow> 'd cJSON option \<times> 'd cJSON" where
  "cJSON_DetachItemFromArray it which =
     (let i = nat which
      in case nth_child which (j_child it) of
           None \<Rightarrow> (None, it)
         | Some c \<Rightarrow> (Some c, set_child (take i (j_child it) @ drop (Suc i) (j_child it)) it))"

definition cJSON_DeleteItemFromArray :: "'d cJSON \<Rightarrow> int \<Rightarrow> 'd cJSON" where
  "cJSON_DeleteItemFromArray it which = snd (cJSON_DetachItemFromArray it which)"

definition cJSON_DetachItemFromObject :: "'d cJSON \<Rightarrow> string \<Rightarrow> 'd cJSON option \<times> 'd cJSON" where
  "cJSON_DetachItemFromObject it s =
     (case find_name s (j_child it) of None \<Rightarrow> (None, it) | Some i \<Rightarrow> cJSON_DetachItemFromArray it (int i))"

definition cJSON_DeleteItemFromObject :: "'d cJSON \<Rightarrow> string \<Rightarrow> 'd cJSON" where
  "cJSON_DeleteItemFromObject it s = snd (cJSON_DetachItemFromObject it s)"

text \<open>An item that replaces nothing is not linked in, and nobody frees it.\<close>

definition cJSON_ReplaceItemInArray :: "'d cJSON \<Rightarrow> int \<Rightarrow> 'd cJSON \<Rightarrow> 'd cJSON" where
  "cJSON_ReplaceItemInArray it which new =
     (if nat which < length (j_child it) then set_child ((j_child it)[nat which := new]) it else it)"

definition cJSON_ReplaceItemInObject :: "(nat \<Rightarrow> bool) \<Rightarrow> 'd cJSON \<Rightarrow> string \<Rightarrow> 'd cJSON \<Rightarrow> 'd cJSON" where
  "cJSON_ReplaceItemInObject al it s new =
     (case find_name s (j_child it) of
        None \<Rightarrow> it
      | Some i \<Rightarrow> cJSON_ReplaceItemInArray it (int i) (set_name (dup_name al s) new))"

section \<open>New items\<close>

definition cJSON_CreateNull :: "(nat \<Rightarrow> bool) \<Rightarrow> 'd fp \<Rightarrow> 'd cJSON outcome" where
  "cJSON_CreateNull al fp = obind (cJSON_New_Item al fp) (\<lambda>it. Ok (set_type cJSON_NULL it))"

definition cJSON_CreateTrue :: "(nat \<Rightarrow> bool) \<Rightarrow> 'd fp \<Rightarrow> 'd cJSON outcome" where
  "cJSON_CreateTrue al fp = obind (cJSON_New_Item al fp) (\<lambda>it. Ok (set_type cJSON_True it))"

definition cJSON_CreateFalse :: "(nat \<Rightarrow> bool) \<Rightarrow> 'd fp \<Rightarrow> 'd cJSON outcome" where
  "cJSON_CreateFalse al fp = obind (cJSON_New_Item al fp) (\<lambda>it. Ok (set_type cJSON_False it))"

definition cJSON_CreateBool :: "(nat \<Rightarrow> bool) \<Rightarrow> 'd fp \<Rightarrow> bool \<Rightarrow> 'd cJSON outcome" where
  "cJSON_CreateBool al fp b =
     obind (cJSON_New_Item al fp) (\<lambda>it. Ok (set_type (if b then cJSON_True else cJSON_False) it))"

definition cJSON_CreateDouble :: "(nat \<Rightarrow> bool) \<Rightarrow> 'd fp \<Rightarrow> 'd \<Rightarrow> int \<Rightarrow> 'd cJSON outcome" where
  "cJSON_CreateDouble al fp num sg =
     obind (cJSON_New_Item al fp) (\<lambda>it. Ok (set_type cJSON_Double (set_num (fp_to_u64 fp num) num sg it)))"

definition cJSON_CreateInt :: "(nat \<Rightarrow> bool) \<Rightarrow> 'd fp \<Rightarrow> u64 \<Rightarrow> int \<Rightarrow> 'd cJSON outcome" where
  "cJSON_CreateInt al fp num sg =
     obind (cJSON_New_Item al fp) (\<lambda>it. Ok (set_type cJSON_Int (set_num num (fp_of_u64 fp num) sg it)))"

definition cJSON_CreateString :: "(nat \<Rightarrow> bool) \<Rightarrow> 'd fp \<Rightarrow> string \<Rightarrow> 'd cJSON outcome" where
  "cJSON_CreateString al fp s =
     obind (cJSON_New_Item al fp) (\<lambda>it. Ok (set_type cJSON_String (set_str (dup_name al s) it)))"

definition cJSON_CreateArray :: "(nat \<Rightarrow> bool) \<Rightarrow> 'd fp \<Rightarrow> 'd cJSON outcome" where
  "cJSON_CreateArray al fp = obind (cJSON_New_Item al fp) (\<lambda>it. Ok (set_type cJSON_Array it))"

definition cJSON_CreateObject :: "(nat \<Rightarrow> bool) \<Rightarrow> 'd fp \<Rightarrow> 'd cJSON outcome" where
  "cJSON_CreateObject al fp = obind (cJSON_New_Item al fp) (\<lambda>it. Ok (set_type cJSON_Object it))"

section \<open>The printer writes the rendering of an item\<close>

text \<open>What the text of an item is, without buffers.\<close>

definition name_text :: "string option \<Rightarrow> string" where
  "name_text s = (case s of None \<Rightarrow> '''' | Some x \<Rightarrow> quoted x)"

fun render :: "'d fp \<Rightarrow> nat \<Rightarrow> bool \<Rightarrow> 'd cJSON \<Rightarrow> string" where
  "render fp depth fmt (Item a ty s i d sg n ch) =
     (let t = ty mod 256
      in if t = cJSON_NULL then ''null'' else if t = cJSON_False then ''false''
         else if t = cJSON_True then ''true''
         else if t = cJSON_Int then (if sg = - 1 then dec (sint i) else dec_nat (unat i))
         else if t = cJSON_Double then fp_print fp d
         else if t = cJSON_String then name_text s
         else if t = cJSON_Array then array_text fmt (map (render fp (depth + 1) fmt) ch)
         else object_text (depth + 1) fmt
           (map (\<lambda>c. (name_text (j_name c), render fp (depth + 1) fmt c)) ch))"

declare render.simps [simp del]

fun doubles_short :: "'d fp \<Rightarrow> 'd cJSON \<Rightarrow> bool" where
  "doubles_short fp (Item a ty s i d sg n ch) =
     ((ty mod 256 = cJSON_Double \<longrightarrow> length (fp_print fp d) < 64) \<and>
      (ty mod 256 \<ge> cJSON_Array \<longrightarrow> (\<forall>c \<in> set ch. doubles_short fp c)))"

fun known_types :: "'d cJSON \<Rightarrow> bool" where
  "known_types (Item a ty s i d sg n ch) =
     (ty mod 256 \<le> cJSON_Object \<and> (ty mod 256 \<ge> cJSON_Array \<longrightarrow> (\<forall>c \<in> set ch. known_types c)))"

definition printed :: "'a \<Rightarrow> 'a outcome \<Rightarrow> bool" where
  "printed s x = (x = Ok s \<or> x = Fail None)"

lemma length_escaped: "length (escaped c) = escaped_len c"
  by (auto simp: escaped_def escaped_len_def short_escapes_def hex4_def quote_def backslash_def)

lemma length_quoted: "length (quoted s) = sum_list (map escaped_len s) + 2"
  by (simp add: quoted_def length_concat length_escaped comp_def)

lemma dec_nat_length: "n < 10 ^ k \<Longrightarrow> 0 < k \<Longrightarrow> length (dec_nat n) \<le> k"
proof (induction n arbitrary: k rule: dec_nat.induct)
  case (1 n)
  show ?case
  proof (cases "n < 10")
    case True then show ?thesis using 1 by (simp add: dec_nat_small)
  next
    case False
    then obtain j where "k = Suc (Suc j)" using "1.prems"
      by (metis One_nat_def gr0_implies_Suc linorder_not_less nat_less_le power_0 power_one_right old.nat.exhaust)
    with 1 False show ?thesis by (simp add: dec_nat_big)
  qed
qed

lemma int_text_fits: "length (dec_nat (unat i)) < 22" "length (dec (sint i)) < 22" for i :: u64
proof -
  have "unat i < 2 ^ LENGTH(64)" by (rule unsigned_less)
  then have "unat i < 10 ^ 20" by simp
  then show "length (dec_nat (unat i)) < 22" using dec_nat_length [of "unat i" 20] by simp
  have "nat (- sint i) < 10 ^ 20" "nat (sint i) < 10 ^ 20"
    using sint_greater_eq [of i] sint_less [of i] by (auto simp: nat_less_iff)
  then show "length (dec (sint i)) < 22"
    using dec_nat_length [of "nat (- sint i)" 20] dec_nat_length [of "nat (sint i)" 20] by (simp add: dec_def)
qed

text \<open>Short enough that the length of its buffer is an \<^verbatim>\<open>int\<close>.\<close>

definition printable :: "string \<Rightarrow> bool" where
  "printable s = (2 * length s + 8 \<le> 2147483647)"

lemma printed_fits: "length s < n \<Longrightarrow> printed s (obind (alloc al m) (\<lambda>_. fits n s))"
  by (simp add: printed_def alloc_def fits_def)

lemma printed_fits_int:
  "length s < n \<Longrightarrow> int m \<le> INT_MAX \<Longrightarrow> printed s (obind (alloc_int al m) (\<lambda>_. fits n s))"
  by (simp add: printed_def alloc_int_def alloc_def fits_def)

lemma print_int_range: "j_int it \<le> 2147483647 \<and> j_int it \<ge> - 2147483648 \<longleftrightarrow> False"
proof -
  have "\<not> (w \<le> 2147483647 \<and> - 2147483648 \<le> w)" for w :: u64
    by (simp add: word_le_nat_alt)
  then show ?thesis by blast
qed

lemma printed_int:
  "printed (if j_sign it = - 1 then dec (sint (j_int it)) else dec_nat (unat (j_int it))) (print_int al it)"
  unfolding print_int_def print_int_range if_False by (rule printed_fits) (simp add: int_text_fits)

lemma printed_str: "printable (name_text s) \<Longrightarrow> printed (name_text s) (print_string_ptr al s)"
  by (cases s) (auto simp: print_string_ptr_def cJSON_strdup_def Let_def length_quoted printable_def
      name_text_def INT_MAX_def intro!: printed_fits printed_fits_int)

lemma length_join_entries:
  "length (join_entries fmt es) + (if es = [] then 0 else if fmt then 2 else 1) =
     sum_list (map length es) + (if fmt then 2 else 1) * length es"
  by (induction fmt es rule: join_entries.induct) auto

lemma array_buf_eq: "array_buf fmt es = 5 + sum_list (map length es) + (if fmt then 3 else 2) * length es"
  by (induction es) (auto simp: array_buf_def)

lemma length_array_text: "length (array_text fmt es) < array_buf fmt es"
  "array_buf fmt es \<le> 2 * length (array_text fmt es) + 4"
  using length_join_entries [of fmt es]
  by (cases es; auto simp: array_text_def array_buf_eq split: if_splits)+

lemma length_member_text:
  "length (member_text depth fmt e) = length (fst e) + length (snd e) + 1 + (if fmt then depth + 1 else 0)"
  by (simp add: member_text_def tabs_def)

lemma length_join_members:
  "length (join_members depth fmt es) + (if es = [] then 0 else 1) =
     sum_list (map (\<lambda>e. length (fst e) + length (snd e)) es) + (if fmt then depth + 4 else 2) * length es"
  by (induction depth fmt es rule: join_members.induct) (auto simp: length_member_text nl_def)

lemma object_buf_eq:
  "object_buf depth fmt es = 7 + (if fmt then depth else 0) +
     sum_list (map (\<lambda>e. length (fst e) + length (snd e)) es) + (if fmt then depth + 4 else 2) * length es"
  by (induction es) (auto simp: object_buf_def split_def)

lemma length_object_text: "length (object_text (Suc d) fmt es) < object_buf (Suc d) fmt es"
  "object_buf (Suc d) fmt es \<le> 2 * length (object_text (Suc d) fmt es) + 7"
  using length_join_members [of "Suc d" fmt es]
  by (cases es; auto simp: object_text_def object_buf_eq nl_def tabs_def split: if_splits)+

lemma printed_obind:
  "printed s x \<Longrightarrow> (x = Ok s \<Longrightarrow> printed t (f s)) \<Longrightarrow> printed t (obind x f)"
  by (auto simp: printed_def)

lemma printed_both: "printed s x \<Longrightarrow> printed t y \<Longrightarrow> printed (s, t) (both x y)"
  by (auto simp: printed_def)

lemma printed_array:
  "printed es x \<Longrightarrow> printable (array_text fmt es) \<Longrightarrow> printed (array_text fmt es) (print_array al fmt n x)"
  using length_array_text [where fmt = fmt and es = es]
  by (auto simp: print_array_def alloc_def printed_def printable_def alloc_int_def fits_def INT_MAX_def
      split: if_splits)

lemma printed_object:
  "printed es x \<Longrightarrow> printable (object_text (Suc d) fmt es) \<Longrightarrow>
   printed (object_text (Suc d) fmt es) (print_object al (Suc d) fmt n x)"
  using length_object_text [where fmt = fmt and es = es and d = d]
  by (auto simp: print_object_def alloc_def printed_def printable_def alloc_int_def fits_def INT_MAX_def
      split: if_splits)

lemma entry_shorter: "e \<in> set es \<Longrightarrow> length e \<le> length (array_text fmt es)"
  using length_join_entries [of fmt es] member_le_sum_list [of "length e" "map length es"]
  by (cases es) (auto simp: array_text_def)

lemma member_shorter:
  assumes "e \<in> set es"
  shows "length (fst e) + length (snd e) \<le> length (object_text depth fmt es)"
proof -
  let ?l = "\<lambda>e. length (fst e) + length (snd e)"
  have "?l e \<le> sum_list (map ?l es)" using assms member_le_sum_list [of "?l e" "map ?l es"] by auto
  then show ?thesis using length_join_members [of depth fmt es] assms
    by (cases es) (auto simp: object_text_def)
qed

lemma printable_shorter: "printable t \<Longrightarrow> length s \<le> length t \<Longrightarrow> printable s"
  by (simp add: printable_def)

lemma print_renders:
  "doubles_short fp it \<Longrightarrow> printable (render fp depth fmt it) \<Longrightarrow>
     printed (render fp depth fmt it) (print_value al fp depth fmt it)"
  "\<forall>c \<in> set cs. doubles_short fp c \<and> printable (render fp depth fmt c) \<Longrightarrow>
     printed (map (render fp depth fmt) cs) (print_entries al fp depth fmt cs)"
  "\<forall>c \<in> set cs. doubles_short fp c \<and> printable (render fp depth fmt c) \<and> printable (name_text (j_name c)) \<Longrightarrow>
     printed (map (\<lambda>c. (name_text (j_name c), render fp depth fmt c)) cs) (print_members al fp depth fmt cs)"
proof (induction al fp depth fmt it and al fp depth fmt cs and al fp depth fmt cs
    rule: print_value_print_entries_print_members.induct)
  case (1 al fp depth fmt a ty s i d sg n ch)
  let ?it = "Item a ty s i d sg n ch"
  consider "ty mod 256 = cJSON_Array" | "ty mod 256 = cJSON_Object" | "ty mod 256 < cJSON_Array"
    | "ty mod 256 > cJSON_Object" unfolding cjson_types by linarith
  then show ?case
  proof cases
    case t: 1
    have r: "render fp depth fmt ?it = array_text fmt (map (render fp (depth + 1) fmt) ch)"
      using t by (simp add: render.simps cjson_types)
    have "doubles_short fp c \<and> printable (render fp (depth + 1) fmt c)" if "c \<in> set ch" for c
      using "1.prems" that t entry_shorter [of "render fp (depth + 1) fmt c" "map (render fp (depth + 1) fmt) ch" fmt]
      by (auto simp: r cjson_types intro: printable_shorter)
    then have "printed (map (render fp (depth + 1) fmt) ch) (print_entries al fp (depth + 1) fmt ch)"
      using "1.IH"(1) [of ?it "ty mod 256"] t by (simp add: cjson_types)
    from printed_array [OF this] "1.prems" show ?thesis unfolding r using t by (simp add: cjson_types)
  next
    case t: 2
    let ?ms = "map (\<lambda>c. (name_text (j_name c), render fp (depth + 1) fmt c)) ch"
    have r: "render fp depth fmt ?it = object_text (Suc depth) fmt ?ms"
      using t by (simp add: render.simps cjson_types)
    have "doubles_short fp c \<and> printable (render fp (depth + 1) fmt c) \<and> printable (name_text (j_name c))"
      if "c \<in> set ch" for c
      using "1.prems" that t member_shorter [of "(name_text (j_name c), render fp (depth + 1) fmt c)" ?ms "Suc depth" fmt]
      by (auto simp: r cjson_types intro: printable_shorter)
    then have "printed ?ms (print_members al fp (depth + 1) fmt ch)"
      using "1.IH"(2) [of ?it "ty mod 256"] t by (simp add: cjson_types)
    from printed_object [of ?ms _ depth fmt al "length ch"] this "1.prems" show ?thesis
      unfolding r using t by (simp add: cjson_types)
  next
    case t: 3
    then consider "ty mod 256 = 0" | "ty mod 256 = 1" | "ty mod 256 = 2" | "ty mod 256 = 3"
      | "ty mod 256 = 4" | "ty mod 256 = 5" unfolding cjson_types by linarith
    then show ?thesis
      using "1.prems" printed_int [of ?it al] printed_str [of s al]
      by cases (auto simp: render.simps cjson_types cJSON_strdup_def print_double_def print_string_def
          intro: printed_fits split: if_splits)
  next
    case t: 4
    then show ?thesis by (simp add: cjson_types printed_def)
  qed
next
  case (3 al fp depth fmt c cs)
  then show ?case by (auto intro!: printed_obind simp: printed_def)
next
  case (5 al fp depth fmt c cs)
  then have "printed (name_text (j_name c)) (print_string_ptr al (j_name c))" by (intro printed_str) simp
  with 5 show ?case by (auto intro!: printed_obind printed_both simp: printed_def)
qed (simp_all add: printed_def)

definition failed :: "'a outcome \<Rightarrow> bool" where
  "failed x = (\<exists>e. x = Fail e)"

lemma failed_simps [simp]: "failed (Fail e)" "\<not> failed Undef" "\<not> failed (Ok a)"
  by (simp_all add: failed_def)

lemma failed_obind: "failed (obind x f) \<longleftrightarrow> failed x \<or> (\<exists>a. x = Ok a \<and> failed (f a))"
  by (cases x) auto

lemma failed_both: "failed (both x y) \<Longrightarrow> failed x \<or> failed y"
  by (cases x; cases y) auto

lemma not_failed_fits [simp]: "\<not> failed (fits n s)"
  by (simp add: fits_def)

abbreviation always :: "nat \<Rightarrow> bool" where
  "always \<equiv> \<lambda>_. True"

lemma alloc_always [simp]: "alloc always n = Ok ()"
  by (simp add: alloc_def)

lemma not_failed_alloc_int [simp]: "\<not> failed (obind (alloc_int always n) (\<lambda>_. fits m s))"
  by (simp add: alloc_int_def)

lemma not_failed_string: "\<not> failed (print_string_ptr always s)"
  by (cases s) (simp_all add: print_string_ptr_def cJSON_strdup_def Let_def)

lemma print_not_failed:
  "al = always \<Longrightarrow> known_types it \<Longrightarrow> \<not> failed (print_value al fp depth fmt it)"
  "al = always \<Longrightarrow> \<forall>c \<in> set cs. known_types c \<Longrightarrow> \<not> failed (print_entries al fp depth fmt cs)"
  "al = always \<Longrightarrow> \<forall>c \<in> set cs. known_types c \<Longrightarrow> \<not> failed (print_members al fp depth fmt cs)"
proof (induction al fp depth fmt it and al fp depth fmt cs and al fp depth fmt cs
    rule: print_value_print_entries_print_members.induct)
  case (1 al fp depth fmt a ty s i d sg n ch)
  have "ty mod 256 \<le> cJSON_Object" using "1.prems" by simp
  then consider "ty mod 256 = cJSON_Array" | "ty mod 256 = cJSON_Object" | "ty mod 256 < cJSON_Array"
    unfolding cjson_types by linarith
  then show ?case
  proof cases
    case 3
    then show ?thesis using "1.prems" not_failed_string [of s]
      by (auto simp: cjson_types Let_def cJSON_strdup_def print_int_def print_double_def print_string_def)
  qed (use 1 in \<open>auto simp: cjson_types print_array_def print_object_def failed_obind [of "print_entries _ _ _ _ _"]
      failed_obind [of "print_members _ _ _ _ _"]\<close>)
next
  case (5 al fp depth fmt c cs)
  then show ?case using not_failed_string [of "j_name c"] by (auto simp: failed_obind dest!: failed_both)
qed (auto simp: failed_obind)

lemma print_value_renders:
  "doubles_short fp it \<Longrightarrow> known_types it \<Longrightarrow> printable (render fp depth fmt it) \<Longrightarrow>
   print_value always fp depth fmt it = Ok (render fp depth fmt it)"
  using print_renders(1) [of fp it depth fmt always] print_not_failed(1) [OF refl, of it fp depth fmt]
  by (auto simp: printed_def)

section \<open>Reading back what was printed\<close>

definition no_nul :: "string \<Rightarrow> bool" where
  "no_nul s = (CHR 0x00 \<notin> set s)"

lemma is_hex_not:
  "is_hex c \<Longrightarrow> \<not> is_space c \<and> c \<noteq> CHR ''-'' \<and> c \<noteq> CHR ''+'' \<and> c \<noteq> CHR ''x'' \<and> c \<noteq> CHR ''X''"
  by (auto simp: is_hex_def hex_val_def is_space_def Let_def split: if_splits)

lemma scan_hex4:
  assumes "is_hex a" "is_hex b" "is_hex c" "is_hex d"
  shows "scan_x4 (a # b # c # d # t) = Some (of_nat (hex_num [a, b, c, d]))"
  using assms is_hex_not by (auto simp: scan_x4_def at_char_def Let_def)

lemma hex_val_digit: "n < 16 \<Longrightarrow> hex_val (hex_digit n) = Some n"
  by (auto simp: hex_val_def hex_digit_def Let_def)

lemma hex_digit_is_hex: "n < 16 \<Longrightarrow> is_hex (hex_digit n)"
  by (simp add: is_hex_def hex_val_digit)

lemma scan_hex4_nat: "n < 65536 \<Longrightarrow> scan_x4 (hex4 n @ t) = Some (of_nat n)"
proof -
  assume n: "n < 65536"
  have d: "n div 16 div 16 = n div 256" "n div 256 div 16 = n div 4096"
    by (simp_all add: div_mult2_eq [symmetric])
  have "n div 4096 mod 16 = n div 4096" using n by simp
  then have "16 * (16 * (16 * (n div 4096 mod 16) + n div 256 mod 16) + n div 16 mod 16) + n mod 16 = n"
    using mult_div_mod_eq [of 16 n] mult_div_mod_eq [of 16 "n div 16"] mult_div_mod_eq [of 16 "n div 256"]
    unfolding d by (simp only:)
  moreover have "hex_num (hex4 n) =
      16 * (16 * (16 * (n div 4096 mod 16) + n div 256 mod 16) + n div 16 mod 16) + n mod 16"
    by (simp add: hex_num_def hex4_def hex_val_digit)
  ultimately have "hex_num (hex4 n) = n" by (simp only:)
  then show ?thesis
    unfolding hex4_def append.simps by (subst scan_hex4) (simp_all add: hex_digit_is_hex)
qed

lemma unat_and_255: "unat (w AND 0xFF) = unat w mod 256" for w :: u32
proof -
  have "w AND 0xFF = take_bit 8 w" by (simp add: take_bit_eq_mask mask_eq_exp_minus_1)
  then have "unat (w AND 0xFF) = take_bit 8 (unat w)" by (simp only: unsigned_take_bit_eq)
  then show ?thesis by (simp only: take_bit_eq_mod) simp
qed

lemma utf8_ascii: "0 < n \<Longrightarrow> n < 128 \<Longrightarrow> utf8 (of_nat n) = (of_nat n, [char_of n])"
proof -
  assume n: "0 < n" "n < 128"
  have u: "unat (of_nat n :: u32) = n" using n by (simp add: unsigned_of_nat take_bit_nat_eq_self)
  have "(of_nat n :: u32) < 128" using n by (simp add: word_less_nat_alt u)
  then show ?thesis using n
    by (simp add: utf8_def utf8_len_def firstByteMark_def byte_char_def unat_and_255 u)
qed

lemma escaped_cases [consumes 1, case_names plain short code]:
  assumes "c \<noteq> CHR 0x00"
  obtains (plain) "escaped c = [c]" "c \<noteq> quote" "c \<noteq> backslash"
    | (short) e where "escaped c = [backslash, e]" "e \<noteq> CHR ''u''" "unescape e = c"
    | (code) "escaped c = backslash # CHR ''u'' # hex4 (of_char c)" "(of_char c :: nat) < 32" "0 < (of_char c :: nat)"
proof (cases "(of_char c :: nat) > 31 \<and> c \<noteq> quote \<and> c \<noteq> backslash")
  case True
  then show ?thesis using plain by (simp add: escaped_def)
next
  case False
  show ?thesis
  proof (cases "map_of short_escapes c")
    case None
    then have "c \<noteq> quote" "c \<noteq> backslash" by (auto simp: short_escapes_def split: if_splits)
    moreover have "(of_char c :: nat) \<noteq> 0"
    proof
      assume "(of_char c :: nat) = 0"
      then have "c = char_of (0 :: nat)" by (metis char_of_char)
      with assms show False by (simp add: char_of_def)
    qed
    ultimately show ?thesis using code None False by (simp add: escaped_def)
  next
    case (Some e)
    then have "e \<noteq> CHR ''u'' \<and> unescape e = c"
      by (auto simp: short_escapes_def unescape_def quote_def backslash_def split: if_splits)
    then show ?thesis using short Some False by (simp add: escaped_def)
  qed
qed

lemma str_len_escaped:
  assumes "c \<noteq> CHR 0x00" "str_len t = Some n"
  shows "\<exists>k. str_len (escaped c @ t) = Some (n + k) \<and> 1 \<le> k \<and> k \<le> length (escaped c)"
  using assms(1)
proof (cases rule: escaped_cases)
  case code
  have "hex_digit k \<noteq> quote \<and> hex_digit k \<noteq> backslash" if "k < 16" for k
    using hex_val_digit [OF that] by (auto simp: hex_val_def quote_def backslash_def Let_def)
  then show ?thesis using code assms(2) by (simp add: hex4_def)
qed (use assms(2) in simp_all)

lemma str_len_quoted:
  "no_nul s \<Longrightarrow> \<exists>n. str_len (concat (map escaped s) @ quote # r) = Some n \<and> length s \<le> n \<and>
     n \<le> length (concat (map escaped s))"
proof (induction s)
  case (Cons c s)
  then obtain n where n: "str_len (concat (map escaped s) @ quote # r) = Some n" "length s \<le> n"
    "n \<le> length (concat (map escaped s))" by (auto simp: no_nul_def)
  from str_len_escaped [OF _ n(1), of c] Cons.prems n show ?case by (auto simp: no_nul_def)
qed simp

lemma str_unicode_code:
  "0 < n \<Longrightarrow> n < 128 \<Longrightarrow> str_unicode uc uc2 (hex4 n @ t) = Some ([char_of n], Some (of_nat n), uc2, t)"
proof -
  assume n: "0 < n" "n < 128"
  have u: "unat (of_nat n :: u32) = n" using n by (simp add: unsigned_of_nat take_bit_nat_eq_self)
  have "\<not> is_low (of_nat n)" "\<not> is_high (of_nat n)" "(of_nat n :: u32) \<noteq> 0"
    using n by (auto simp: is_low_def is_high_def word_le_nat_alt u unat_eq_0 [symmetric] simp del: unat_eq_0)
  moreover have "scan_x4 (hex4 n @ t) = Some (of_nat n)" using n by (intro scan_hex4_nat) simp
  ultimately show ?thesis
    by (simp add: str_unicode_def keep_def utf8_ascii n) (simp add: hex4_def)
qed

lemma str_copy_quoted:
  "no_nul s \<Longrightarrow> length out + length s < cap \<Longrightarrow>
   str_copy cap out uc uc2 (concat (map escaped s) @ quote # r) = Some (out @ s, r)"
proof (induction s arbitrary: out uc)
  case (Cons c s)
  then have c: "c \<noteq> CHR 0x00" by (auto simp: no_nul_def)
  from Cons have IH: "str_copy cap (out @ [c]) v uc2 (concat (map escaped s) @ quote # r) = Some (out @ c # s, r)" for v
    using Cons.IH [of "out @ [c]" v] by (simp add: no_nul_def)
  from c show ?case
  proof (cases rule: escaped_cases)
    case code
    then have "str_unicode uc uc2 (hex4 (of_char c) @ t) = Some ([c], Some (of_nat (of_char c)), uc2, t)" for t
      by (simp add: str_unicode_code)
    then show ?thesis using code IH Cons.prems by simp
  qed (use IH Cons.prems in simp_all)
qed simp

lemma parse_string_quoted:
  assumes "no_nul s" "printable (quoted s)"
  shows "parse_string always it (quoted s @ r) = Ok (set_type cJSON_String (set_str (Some s) it), r)"
proof -
  obtain n where n: "str_len (concat (map escaped s) @ quote # r) = Some n" "length s \<le> n"
    "n \<le> length (concat (map escaped s))" using str_len_quoted [OF assms(1)] by blast
  have "int (n + 1) \<le> INT_MAX" using n(3) assms(2) by (simp add: printable_def quoted_def INT_MAX_def)
  then show ?thesis
    using n str_copy_quoted [OF assms(1), of "[]" "n + 1" None None r]
    by (simp add: parse_string_def quoted_def at_char_def alloc_int_def)
qed

text \<open>What may follow a number without being taken for a part of it.\<close>

definition num_end :: "string \<Rightarrow> bool" where
  "num_end r = (r = [] \<or> \<not> is_digit (hd r) \<and> hd r \<notin> {CHR ''.'', CHR ''e'', CHR ''E''})"

lemma num_end_parts: "num_end r \<Longrightarrow> num_frac r = ([], r)" "num_end r \<Longrightarrow> num_exp r = (1, [], r)"
  by (auto simp: num_end_def num_frac_def num_exp_def at_char_def)

lemma dec_nat_hd: "0 < n \<Longrightarrow> hd (dec_nat n) \<noteq> CHR ''0''"
proof (induction n rule: dec_nat.induct)
  case (1 n)
  show ?case
  proof (cases "n < 10")
    case True
    then have "of_char (digit n) = 48 + n" by (rule digit_is_digit)
    with True "1.prems" show ?thesis by (auto simp: dec_nat_small)
  next
    case False
    then show ?thesis using 1 dec_nat_nonempty [of "n div 10"] by (simp add: dec_nat_big)
  qed
qed

lemma digit_0: "digit 0 = CHR ''0''"
  by (rule of_char_eq_iff [where 'a = nat, THEN iffD1]) (simp add: digit_is_digit)

lemma num_int_dec: "num_end r \<Longrightarrow> \<exists>ip. num_int (dec_nat n @ r) = (ip, r) \<and> num_of ip = n"
proof (cases "n = 0")
  case True
  assume "num_end r"
  with True show ?thesis
    by (auto simp: num_int_def dec_nat_small at_char_def digit_0 num_of_def num_end_def Let_def)
next
  case False
  assume r: "num_end r"
  have d: "dec_nat n \<noteq> []" "hd (dec_nat n) \<noteq> CHR ''0''" "\<forall>c \<in> set (dec_nat n). is_digit c"
    using False dec_nat_nonempty dec_nat_hd dec_nat_digits [of n] by (auto simp: list_all_iff)
  have "takeWhile is_digit (dec_nat n @ r) = dec_nat n" "dropWhile is_digit (dec_nat n @ r) = r"
    using d(3) r by (auto simp: num_end_def takeWhile_append dropWhile_append takeWhile_eq_Nil_iff dropWhile_eq_self_iff)
  then show ?thesis using d False num_of_dec [of n] by (simp add: num_int_def at_char_def Let_def)
qed

lemma parse_number_nat:
  assumes "num_end r" "n < 2 ^ 64"
  shows "parse_number fp it (dec_nat n @ r) =
    Ok (set_type cJSON_Int (set_num (of_nat n) (fp_of_u64 fp (of_nat n)) 1 it), r)"
proof -
  have "\<not> at_char (CHR ''-'') (dec_nat n @ r)"
    using dec_nat_nonempty [of n] dec_nat_digits [of n] digit_not_special
    by (cases "dec_nat n") (auto simp: at_char_def list_all_iff)
  then have "num_sign (dec_nat n @ r) = (1, dec_nat n @ r)" by (simp add: num_sign_def)
  then show ?thesis using num_int_dec [OF assms(1), of n] assms(2)
    by (auto simp: parse_number_def num_end_parts [OF assms(1)] num_of_def [of "[]"] INT_MAX_def Let_def)
qed

lemma parse_number_neg:
  assumes "num_end r" "n < 2 ^ 64"
  shows "parse_number fp it (CHR ''-'' # dec_nat n @ r) =
    Ok (set_type cJSON_Int (set_num (- of_nat n) (fp_of_u64 fp (- of_nat n)) (- 1) it), r)"
  using num_int_dec [OF assms(1), of n] assms(2)
  by (auto simp: parse_number_def num_sign_def at_char_def num_end_parts [OF assms(1)] num_of_def [of "[]"]
      INT_MAX_def Let_def)

end
