(* ===== verification/JsonText.thy ===== *)
theory JsonText
  imports Json
begin

text \<open>
  The parser of \<open>Json\<close> reads back what its printer writes. \<open>norm\<close> is the item that the parser builds
  from the text of an item: the same value, in the form the parser gives it.
\<close>

definition c_string :: "string option \<Rightarrow> bool" where
  "c_string s = (case s of None \<Rightarrow> False | Some x \<Rightarrow> no_nul x)"

fun readable :: "'d cJSON \<Rightarrow> bool" where
  "readable (Item a ty s i d sg n ch) =
     (ty \<le> cJSON_Object \<and> ty \<noteq> cJSON_Double \<and> (ty = cJSON_String \<longrightarrow> c_string s) \<and>
      (ty = cJSON_Array \<longrightarrow> (\<forall>c \<in> set ch. readable c)) \<and>
      (ty = cJSON_Object \<longrightarrow> (\<forall>c \<in> set ch. readable c \<and> c_string (j_name c))))"

fun norm :: "'d fp \<Rightarrow> string option \<Rightarrow> 'd cJSON \<Rightarrow> 'd cJSON" where
  "norm fp nm (Item a ty s i d sg n ch) =
     (if ty = cJSON_True then Item 0 ty None 1 (fp_zero fp) 0 nm []
      else if ty = cJSON_Int
      then Item 0 ty None i (fp_of_u64 fp i) (if sg = - 1 \<and> sint i < 0 then - 1 else 1) nm []
      else if ty = cJSON_String then Item 0 ty s 0 (fp_zero fp) 0 nm []
      else if ty = cJSON_Array then Item 0 ty None 0 (fp_zero fp) 0 nm (map (norm fp None) ch)
      else if ty = cJSON_Object
      then Item 0 ty None 0 (fp_zero fp) 0 nm (map (\<lambda>c. norm fp (j_name c) c) ch)
      else Item 0 ty None 0 (fp_zero fp) 0 nm [])"

declare norm.simps [simp del]

text \<open>An item before its value is parsed: the name of a member was parsed as a string value.\<close>

definition fresh :: "'d fp \<Rightarrow> nat \<Rightarrow> string option \<Rightarrow> 'd cJSON" where
  "fresh fp ty nm = Item 0 ty None 0 (fp_zero fp) 0 nm []"

lemma blank_fresh: "blank fp = fresh fp cJSON_False None"
  by (simp add: blank_def fresh_def)

section \<open>Which parser reads a text\<close>

definition blanks :: "string \<Rightarrow> bool" where
  "blanks w = (\<forall>c \<in> set w. (of_char c :: nat) \<le> 32)"

lemma blanks_simps [simp]: "blanks []" "blanks (tabs n)" "blanks (nl fmt)"
  "blanks (c # w) \<longleftrightarrow> (of_char c :: nat) \<le> 32 \<and> blanks w" "blanks (v @ w) \<longleftrightarrow> blanks v \<and> blanks w"
  by (auto simp: blanks_def tabs_def nl_def)

lemma skip_blanks: "blanks w \<Longrightarrow> skip (w @ s) = skip s"
  by (induction w) (auto simp: skip_def)

lemma skip_char: "32 < (of_char c :: nat) \<Longrightarrow> skip (c # s) = c # s"
  by (simp add: skip_def)

lemma skip_idem [simp]: "skip (skip s) = skip s"
  by (simp add: skip_def)

lemma at_char_Cons [simp]: "at_char c (x # s) = (x = c)"
  by (simp add: at_char_def)

lemma array_items_skip: "blanks w \<Longrightarrow> array_items al fp (w @ s) = array_items al fp s"
  by (simp add: array_items.simps [of al fp "w @ s"] array_items.simps [of al fp s] skip_blanks)

lemma object_items_skip: "blanks w \<Longrightarrow> object_items al fp (w @ s) = object_items al fp s"
  by (simp add: object_items.simps [of al fp "w @ s"] object_items.simps [of al fp s] skip_blanks)

lemma pv_words:
  "parse_value al fp it (''null'' @ r) = Ok (set_type cJSON_NULL it, r)"
  "parse_value al fp it (''false'' @ r) = Ok (set_type cJSON_False it, r)"
  "parse_value al fp it (''true'' @ r) = Ok (set_type cJSON_True (set_num 1 (j_dbl it) (j_sign it) it), r)"
  by (simp_all add: parse_value.simps)

lemma pv_string: "parse_value al fp it (quoted s @ r) = parse_string al it (quoted s @ r)"
  by (simp add: parse_value.simps quoted_def quote_def at_char_def)

lemma pv_number:
  assumes "c = CHR ''-'' \<or> is_digit c"
  shows "parse_value al fp it (c # r) = parse_number fp it (c # r)"
proof -
  have "c \<noteq> CHR ''n''" "c \<noteq> CHR ''f''" "c \<noteq> CHR ''t''" "c \<noteq> quote"
    using assms by (auto simp: is_digit_def quote_def)
  then show ?thesis using assms by (simp add: parse_value.simps at_char_def)
qed

lemma pv_array: "parse_value al fp it (CHR ''['' # r) = parse_array al fp it (CHR ''['' # r)"
  by (simp add: parse_value.simps at_char_def quote_def is_digit_def)

lemma pv_object: "parse_value al fp it (CHR ''{'' # r) = parse_object al fp it (CHR ''{'' # r)"
  by (simp add: parse_value.simps at_char_def quote_def is_digit_def)

section \<open>Integers\<close>

lemma int_text:
  "render fp depth fmt (Item a cJSON_Int s i d sg n ch) = (if sg = - 1 then dec (sint i) else dec_nat (unat i))"
  by (simp add: render.simps cjson_types)

lemma pv_nat:
  assumes "num_end r" "k < 2 ^ 64"
  shows "parse_value al fp it (dec_nat k @ r) =
    Ok (set_type cJSON_Int (set_num (of_nat k) (fp_of_u64 fp (of_nat k)) 1 it), r)"
proof -
  obtain c cs where "dec_nat k = c # cs" "is_digit c"
    using dec_nat_nonempty [of k] dec_nat_digits [of k] by (cases "dec_nat k") (auto simp: list_all_iff)
  then show ?thesis using pv_number [of c al fp it "cs @ r"] parse_number_nat [OF assms, of fp it] by simp
qed

lemma pv_neg:
  assumes "num_end r" "k < 2 ^ 64"
  shows "parse_value al fp it (CHR ''-'' # dec_nat k @ r) =
    Ok (set_type cJSON_Int (set_num (- of_nat k) (fp_of_u64 fp (- of_nat k)) (- 1) it), r)"
  using pv_number [of "CHR ''-''" al fp it "dec_nat k @ r"] parse_number_neg [OF assms, of fp it] by simp

lemma pv_int:
  assumes "num_end r"
  shows "parse_value al fp (fresh fp ty nm) (render fp depth fmt (Item a cJSON_Int s i d sg n ch) @ r) =
    Ok (norm fp nm (Item a cJSON_Int s i d sg n ch), r)"
proof -
  have u: "unat i < 2 ^ 64" using unsigned_less [of i] by simp
  have b: "nat (- sint i) < 2 ^ 64" using sint_greater_eq [of i] by (auto simp: nat_less_iff)
  have w: "(of_nat (nat (- sint i)) :: u64) = - i" if "sint i < 0"
  proof -
    have "(of_nat (nat (- sint i)) :: u64) = of_int (- sint i)" using that by simp
    then show ?thesis by simp
  qed
  have p: "dec (sint i) = dec_nat (unat i)" if "\<not> sint i < 0"
  proof -
    have "uint i = uint (word_of_int (sint i) :: u64)" by simp
    also have "\<dots> = sint i mod 2 ^ 64" by (simp only: unsigned_of_int take_bit_eq_mod) simp
    also have "\<dots> = sint i" using that sint_less [of i] by simp
    finally have "nat (sint i) = unat i" by (metis nat_uint_eq)
    with that show ?thesis by (simp add: dec_def)
  qed
  have "render fp depth fmt (Item a cJSON_Int s i d sg n ch) =
      (if sg = - 1 \<and> sint i < 0 then CHR ''-'' # dec_nat (nat (- sint i)) else dec_nat (unat i))"
    using p by (auto simp: int_text dec_def)
  then show ?thesis
    using pv_nat [OF assms u, of al fp "fresh fp ty nm"]
      pv_neg [OF assms b, of al fp "fresh fp ty nm"] w
    by (auto simp: norm.simps fresh_def cjson_types)
qed

section \<open>Arrays and objects\<close>

text \<open>The item is read back whatever follows its text, when that cannot extend a number.\<close>

definition reads_back :: "'d fp \<Rightarrow> nat \<Rightarrow> bool \<Rightarrow> 'd cJSON \<Rightarrow> bool" where
  "reads_back fp depth fmt it \<longleftrightarrow>
     (\<forall>ty nm r. num_end r \<longrightarrow>
        parse_value always fp (fresh fp ty nm) (render fp depth fmt it @ r) = Ok (norm fp nm it, r))"

definition solid :: "string \<Rightarrow> bool" where
  "solid s = (s \<noteq> [] \<and> 32 < (of_char (hd s) :: nat) \<and> hd s \<notin> {CHR '']'', CHR ''}''})"

lemma solid_skip: "solid s \<Longrightarrow> skip (s @ r) = s @ r"
  by (cases s) (auto simp: solid_def skip_def)

lemma num_end_mark [simp]: "num_end (CHR '','' # r)" "num_end (CHR '']'' # r)" "num_end (CHR ''}'' # r)"
  by (simp_all add: num_end_def is_digit_def)

lemma num_end_blanks: "blanks w \<Longrightarrow> num_end r \<Longrightarrow> num_end (w @ r)"
  by (cases w) (auto simp: num_end_def is_digit_def)

lemma items_read:
  assumes "ch \<noteq> []" "\<forall>c \<in> set ch. reads_back fp depth fmt c \<and> solid (render fp depth fmt c)"
  shows "array_items always fp (join_entries fmt (map (render fp depth fmt) ch) @ CHR '']'' # r) =
    Ok (map (norm fp None) ch, CHR '']'' # r)"
  using assms
proof (induction ch)
  case (Cons c cs)
  have c: "parse_value always fp (blank fp) (render fp depth fmt c @ q) = Ok (norm fp None c, q)"
    if "num_end q" for q
  proof -
    have "reads_back fp depth fmt c" using Cons.prems by simp
    then show ?thesis using that unfolding reads_back_def by (simp add: blank_fresh)
  qed
  have sk: "skip (render fp depth fmt c @ q) = render fp depth fmt c @ q" for q
    using Cons.prems by (auto intro: solid_skip)
  show ?case
  proof (cases cs)
    case Nil
    then show ?thesis
      by (simp add: array_items.simps [of always] new_item_cases sk c skip_char at_char_def)
  next
    case (Cons c' cs')
    let ?rest = "join_entries fmt (map (render fp depth fmt) cs) @ CHR '']'' # r"
    have "array_items always fp ((if fmt then '' '' else '''') @ ?rest) = array_items always fp ?rest"
      by (intro array_items_skip) simp
    then show ?thesis using Cons Cons.IH Cons.prems
      by (simp add: array_items.simps [of always _ "render _ _ _ _ @ _"] new_item_cases sk c skip_char at_char_def)
  qed
qed simp

abbreviation member :: "'d fp \<Rightarrow> nat \<Rightarrow> bool \<Rightarrow> 'd cJSON \<Rightarrow> string \<times> string" where
  "member fp depth fmt c \<equiv> (name_text (j_name c), render fp depth fmt c)"

lemma member_read:
  assumes "reads_back fp depth fmt c" "solid (render fp depth fmt c)" "c_string (j_name c)"
    "printable (name_text (j_name c))" "num_end q"
  shows "object_items always fp (member_text depth fmt (member fp depth fmt c) @ q) =
    (if at_char (CHR '','') (skip q)
     then obind (object_items always fp (tl (skip q))) (\<lambda>(its, r'). Ok (norm fp (j_name c) c # its, r'))
     else Ok ([norm fp (j_name c) c], skip q))"
proof -
  obtain x where x: "j_name c = Some x" "no_nul x" using assms(3) by (cases "j_name c") (auto simp: c_string_def)
  let ?v = "render fp depth fmt c @ q" and ?gap = "if fmt then tabs 1 else []"
  have gap: "blanks ?gap" by simp
  have q: "skip (quoted x @ t) = quoted x @ t" for t by (simp add: quoted_def quote_def skip_def)
  have n: "parse_string always (blank fp) (quoted x @ t) = Ok (set_type cJSON_String (set_str (Some x) (blank fp)), t)" for t
    using parse_string_quoted [of x] x assms(4) by (simp add: name_text_def)
  let ?nm = "set_type cJSON_String (set_str (Some x) (blank fp))"
  have i: "set_str None (set_name (j_str ?nm) ?nm) = fresh fp cJSON_String (Some x)"
    by (simp add: blank_def fresh_def)
  have v: "parse_value always fp (fresh fp cJSON_String (Some x)) ?v = Ok (norm fp (Some x) c, q)"
    using assms(1,5) by (simp add: reads_back_def)
  have s: "skip (?gap @ ?v) = ?v" using skip_blanks [OF gap] solid_skip [OF assms(2)] by simp
  have "object_items always fp (quoted x @ CHR '':'' # ?gap @ ?v) =
    (if at_char (CHR '','') (skip q)
     then obind (object_items always fp (tl (skip q))) (\<lambda>(its, r'). Ok (norm fp (Some x) c # its, r'))
     else Ok ([norm fp (Some x) c], skip q))"
    by (subst object_items.simps) (simp add: new_item_cases q n i v s skip_char at_char_def Let_def del: append_assoc)
  then show ?thesis
    using object_items_skip [of "if fmt then tabs depth else []" always fp "quoted x @ CHR '':'' # ?gap @ ?v"] x(1)
    by (simp add: member_text_def name_text_def)
qed

lemma members_read:
  assumes "ch \<noteq> []" "blanks w"
    "\<forall>c \<in> set ch. reads_back fp depth fmt c \<and> solid (render fp depth fmt c) \<and> c_string (j_name c) \<and>
       printable (name_text (j_name c))"
  shows "object_items always fp (join_members depth fmt (map (member fp depth fmt) ch) @ w @ CHR ''}'' # r) =
    Ok (map (\<lambda>c. norm fp (j_name c) c) ch, CHR ''}'' # r)"
  using assms
proof (induction ch)
  case (Cons c cs)
  have c: "object_items always fp (member_text depth fmt (member fp depth fmt c) @ q) =
    (if at_char (CHR '','') (skip q)
     then obind (object_items always fp (tl (skip q))) (\<lambda>(its, r'). Ok (norm fp (j_name c) c # its, r'))
     else Ok ([norm fp (j_name c) c], skip q))" if "num_end q" for q
    using Cons.prems that by (intro member_read) auto
  show ?case
  proof (cases cs)
    case Nil
    let ?q = "nl fmt @ w @ CHR ''}'' # r"
    have "num_end ?q" using \<open>blanks w\<close> by (intro num_end_blanks) simp_all
    moreover have "skip ?q = CHR ''}'' # r" using \<open>blanks w\<close> by (simp add: skip_blanks skip_char)
    ultimately show ?thesis using Nil c [of ?q] by (simp add: at_char_def)
  next
    case (Cons c' cs')
    let ?rest = "join_members depth fmt (map (member fp depth fmt) cs) @ w @ CHR ''}'' # r"
    have "object_items always fp (nl fmt @ ?rest) = object_items always fp ?rest"
      by (intro object_items_skip) simp
    then show ?thesis using Cons Cons.IH Cons.prems c [of "CHR '','' # nl fmt @ ?rest"]
      by (simp add: skip_char at_char_def)
  qed
qed simp

lemma solid_render: "readable it \<Longrightarrow> solid (render fp depth fmt it)"
proof (cases it)
  case (Item a ty s i d sg n ch)
  assume r: "readable it"
  have dec: "solid (dec_nat k)" for k
    using dec_nat_nonempty [of k] dec_nat_digits [of k]
    by (cases "dec_nat k") (auto simp: solid_def list_all_iff is_digit_def)
  from r Item have "ty \<le> 7" "ty \<noteq> 4" by (simp_all add: cjson_types)
  then consider "ty = 0" | "ty = 1" | "ty = 2" | "ty = 3" | "ty = 5" | "ty = 6" | "ty = 7" by linarith
  then show ?thesis
  proof cases
    case 4
    have "solid (dec j)" for j using dec [of "nat j"] by (simp add: dec_def solid_def)
    then show ?thesis using 4 Item dec by (simp add: render.simps cjson_types)
  next
    case 5
    then show ?thesis using r Item
      by (cases s) (auto simp: render.simps cjson_types c_string_def name_text_def quoted_def solid_def quote_def)
  qed (simp_all add: Item render.simps cjson_types solid_def array_text_def object_text_def)
qed

lemma array_read:
  assumes "\<forall>c \<in> set ch. reads_back fp depth fmt c \<and> solid (render fp depth fmt c)"
  shows "parse_array always fp it (array_text fmt (map (render fp depth fmt) ch) @ r) =
    Ok (if ch = [] then set_type cJSON_Array it else set_child (map (norm fp None) ch) (set_type cJSON_Array it), r)"
proof (cases ch)
  case Nil
  then show ?thesis by (simp add: array_text_def parse_array.simps at_char_def skip_char)
next
  case (Cons c cs)
  let ?j = "join_entries fmt (map (render fp depth fmt) ch)"
  have "\<exists>x. ?j = render fp depth fmt c @ x" using Cons by (cases cs) auto
  moreover have "solid (render fp depth fmt c)" using assms Cons by simp
  ultimately have "solid ?j" by (auto simp: solid_def hd_append)
  then have "skip (?j @ CHR '']'' # r) = ?j @ CHR '']'' # r" "\<not> at_char (CHR '']'') (?j @ CHR '']'' # r)"
    by (auto intro: solid_skip simp: solid_def at_char_def)
  then show ?thesis using items_read [of ch fp depth fmt r] assms Cons
    by (simp add: array_text_def parse_array.simps [of _ _ _ "_ # _"])
qed

lemma object_read:
  assumes "\<forall>c \<in> set ch. reads_back fp depth fmt c \<and> solid (render fp depth fmt c) \<and> c_string (j_name c) \<and>
    printable (name_text (j_name c))"
  shows "parse_object always fp it (object_text depth fmt (map (member fp depth fmt) ch) @ r) =
    Ok (if ch = [] then set_type cJSON_Object it
        else set_child (map (\<lambda>c. norm fp (j_name c) c) ch) (set_type cJSON_Object it), r)"
proof (cases ch)
  case Nil
  have "skip (nl fmt @ (if fmt then tabs (depth - 1) else []) @ CHR ''}'' # r) = CHR ''}'' # r"
    by (simp add: skip_blanks skip_char)
  with Nil show ?thesis by (simp add: object_text_def parse_object.simps at_char_def)
next
  case (Cons c cs)
  let ?w = "if fmt then tabs (depth - 1) else []"
  let ?j = "join_members depth fmt (map (member fp depth fmt) ch) @ ?w @ CHR ''}'' # r"
  let ?t = "if fmt then tabs depth else []"
  obtain x where x: "j_name c = Some x" using assms Cons by (cases "j_name c") (auto simp: c_string_def)
  then have "\<exists>y. ?j = ?t @ quoted x @ y"
    using Cons by (cases cs) (auto simp: member_text_def name_text_def)
  then obtain y where y: "?j = ?t @ quoted x @ y" by blast
  have "skip (?t @ quoted x @ y) = quoted x @ y"
    by (simp add: skip_blanks) (simp add: quoted_def quote_def skip_char)
  then have sk: "skip (nl fmt @ ?j) = quoted x @ y" by (simp only: y skip_blanks blanks_simps)
  have "object_items always fp (quoted x @ y) = object_items always fp ?j"
    unfolding y by (rule object_items_skip [symmetric]) simp
  also have "\<dots> = Ok (map (\<lambda>c. norm fp (j_name c) c) ch, CHR ''}'' # r)"
    by (rule members_read) (use assms Cons in auto)
  finally have oi: "object_items always fp (quoted x @ y) = \<dots>" .
  have ne: "\<not> at_char (CHR ''}'') (quoted x @ y)" by (simp add: at_char_def quoted_def quote_def)
  have "parse_object always fp it (CHR ''{'' # nl fmt @ ?j) =
      Ok (set_child (map (\<lambda>c. norm fp (j_name c) c) ch) (set_type cJSON_Object it), r)"
    by (simp only: parse_object.simps list.sel sk) (simp add: oi ne Let_def)
  then show ?thesis using Cons by (simp add: object_text_def)
qed

lemma render_reads_back:
  "readable it \<Longrightarrow> printable (render fp depth fmt it) \<Longrightarrow> reads_back fp depth fmt it"
proof (induction fp depth fmt it rule: render.induct)
  case (1 fp depth fmt a ty s i d sg n ch)
  have "ty \<le> 7" "ty \<noteq> 4" using "1.prems"(1) by (simp_all add: cjson_types)
  then consider "ty = 0" | "ty = 1" | "ty = 2" | "ty = 3" | "ty = 5" | "ty = 6" | "ty = 7" by linarith
  then show ?case
  proof cases
    case 4
    then show ?thesis using pv_int [of _ always fp _ _ depth fmt a s i d sg n ch] by (simp add: reads_back_def cjson_types)
  next
    case 5
    then obtain x where x: "s = Some x" "no_nul x" using "1.prems"(1)
      by (cases s) (auto simp: c_string_def cjson_types)
    then have p: "printable (quoted x)" using "1.prems"(2) 5 by (simp add: render.simps cjson_types name_text_def)
    from 5 x show ?thesis
      by (simp add: reads_back_def render.simps norm.simps cjson_types name_text_def pv_string fresh_def
          parse_string_quoted [OF x(2) p])
  next
    case 6
    let ?t = "array_text fmt (map (render fp (depth + 1) fmt) ch)"
    have r: "render fp depth fmt (Item a ty s i d sg n ch) = ?t" using 6 by (simp add: render.simps cjson_types)
    have "reads_back fp (depth + 1) fmt c \<and> solid (render fp (depth + 1) fmt c)" if c: "c \<in> set ch" for c
    proof -
      have "readable c" using "1.prems"(1) 6 c by (simp add: cjson_types)
      moreover have "printable (render fp (depth + 1) fmt c)"
        using "1.prems"(2) c entry_shorter [of "render fp (depth + 1) fmt c" "map (render fp (depth + 1) fmt) ch" fmt]
        unfolding r by (auto intro: printable_shorter)
      ultimately show ?thesis using "1.IH"(1) [of "ty mod 256" c] 6 c solid_render by (simp add: cjson_types)
    qed
    then have "parse_array always fp it (?t @ q) =
        Ok (if ch = [] then set_type cJSON_Array it else set_child (map (norm fp None) ch) (set_type cJSON_Array it), q)"
      for it q by (intro array_read) simp
    then show ?thesis unfolding reads_back_def r using 6 pv_array [of always fp]
      by (auto simp: norm.simps cjson_types fresh_def array_text_def)
  next
    case 7
    let ?ms = "map (member fp (depth + 1) fmt) ch" and ?t = "object_text (depth + 1) fmt"
    have r: "render fp depth fmt (Item a ty s i d sg n ch) = ?t ?ms" using 7 by (simp add: render.simps cjson_types)
    have "reads_back fp (depth + 1) fmt c \<and> solid (render fp (depth + 1) fmt c) \<and> c_string (j_name c) \<and>
        printable (name_text (j_name c))" if c: "c \<in> set ch" for c
    proof -
      have "readable c" "c_string (j_name c)" using "1.prems"(1) 7 c by (auto simp: cjson_types)
      moreover have "printable (render fp (depth + 1) fmt c) \<and> printable (name_text (j_name c))"
        using "1.prems"(2) c member_shorter [of "member fp (depth + 1) fmt c" ?ms "depth + 1" fmt]
        unfolding r by (auto intro: printable_shorter)
      ultimately show ?thesis using "1.IH"(2) [of "ty mod 256" c] 7 c solid_render by (simp add: cjson_types)
    qed
    then have "parse_object always fp it (?t ?ms @ q) =
        Ok (if ch = [] then set_type cJSON_Object it
            else set_child (map (\<lambda>c. norm fp (j_name c) c) ch) (set_type cJSON_Object it), q)"
      for it q by (intro object_read) simp
    then show ?thesis unfolding reads_back_def r using 7 pv_object [of always fp]
      by (auto simp: norm.simps cjson_types fresh_def object_text_def)
  qed (simp_all add: reads_back_def render.simps norm.simps cjson_types fresh_def pv_words [simplified, unfolded cjson_types])
qed

section \<open>Printing and parsing\<close>

lemma no_nul_simps [simp]: "no_nul []" "no_nul (c # s) \<longleftrightarrow> c \<noteq> CHR 0x00 \<and> no_nul s" "no_nul (s @ t) \<longleftrightarrow> no_nul s \<and> no_nul t"
  "no_nul (tabs k)" "no_nul (nl fmt)"
  by (auto simp: no_nul_def tabs_def nl_def)

lemma no_nul_dec: "no_nul (dec i)" "no_nul (dec_nat k)"
  using dec_chars [of "CHR 0x00" i] dec_nat_digits [of k] by (auto simp: no_nul_def list_all_iff is_digit_def)

lemma no_nul_quoted: "no_nul s \<Longrightarrow> no_nul (quoted s)"
proof -
  have h: "hex_digit k \<noteq> CHR 0x00" if "k < 16" for k
    using hex_val_digit [OF that] by (auto simp: hex_val_def Let_def)
  have "no_nul (escaped c)" if c: "c \<noteq> CHR 0x00" for c
    using c
  proof (cases rule: escaped_cases)
    case (short e)
    then show ?thesis using c by (auto simp: backslash_def unescape_def)
  qed (use c in \<open>auto simp: backslash_def hex4_def h\<close>)
  moreover assume "no_nul s"
  ultimately show ?thesis by (induction s) (auto simp: quoted_def quote_def)
qed

lemma no_nul_entries: "\<forall>e \<in> set es. no_nul e \<Longrightarrow> no_nul (join_entries fmt es)"
  by (induction fmt es rule: join_entries.induct) auto

lemma no_nul_members:
  "\<forall>e \<in> set ms. no_nul (fst e) \<and> no_nul (snd e) \<Longrightarrow> no_nul (join_members depth fmt ms)"
  by (induction depth fmt ms rule: join_members.induct) (auto simp: member_text_def)

lemmas no_nul_join = no_nul_entries no_nul_members

lemma no_nul_render: "readable it \<Longrightarrow> no_nul (render fp depth fmt it)"
proof (induction fp depth fmt it rule: render.induct)
  case (1 fp depth fmt a ty s i d sg n ch)
  have "ty \<le> 7" "ty \<noteq> 4" using "1.prems" by (simp_all add: cjson_types)
  then consider "ty \<le> 3" | "ty = 5" | "ty = 6" | "ty = 7" by linarith
  then show ?case
  proof cases
    case 1
    then show ?thesis by (auto simp: render.simps cjson_types no_nul_dec Let_def)
  next
    case 2
    then show ?thesis using "1.prems"
      by (cases s) (auto simp: render.simps cjson_types c_string_def name_text_def no_nul_quoted)
  next
    case 3
    then show ?thesis using 1 by (auto simp: render.simps cjson_types array_text_def intro!: no_nul_join)
  next
    case 4
    have "no_nul (name_text (j_name c))" if "c \<in> set ch" for c
      using "1.prems" that 4 by (cases "j_name c") (auto simp: c_string_def name_text_def cjson_types no_nul_quoted)
    then show ?thesis using 1 4 by (auto simp: render.simps cjson_types object_text_def intro!: no_nul_join)
  qed
qed

lemma c_str_no_nul: "no_nul s \<Longrightarrow> c_str s = s"
  by (induction s) (auto simp: c_str_def)

lemma readable_printable: "readable it \<Longrightarrow> doubles_short fp it \<and> known_types it"
  by (induction it) (auto simp: cjson_types)

lemma print_parse:
  assumes "readable it" "printable (render fp depth fmt it)"
  shows "print_value always fp depth fmt it = Ok (render fp depth fmt it) \<and>
    cJSON_Parse always fp (render fp depth fmt it) = Ok (norm fp None it)"
proof -
  have "parse_value always fp (blank fp) (render fp depth fmt it @ []) = Ok (norm fp None it, [])"
    using render_reads_back [OF assms] unfolding reads_back_def blank_fresh
    by (simp add: num_end_def del: append_Nil2)
  moreover have "skip (render fp depth fmt it @ []) = render fp depth fmt it @ []"
    by (rule solid_skip) (rule solid_render [OF assms(1)])
  ultimately show ?thesis
    using print_value_renders [of fp it depth fmt] readable_printable [OF assms(1), of fp] assms
    by (simp add: cJSON_Parse_def new_item_cases c_str_no_nul [OF no_nul_render [OF assms(1)]])
qed

text \<open>Decimal numbers in the place of floating-point ones, for the examples.\<close>

definition decimals :: "(int \<times> int) fp" where
  "decimals = \<lparr>fp_zero = (0, 0), fp_of_u64 = (\<lambda>w. (uint w, 0)),
     fp_scaled = (\<lambda>sg ds e. ((sg * int (num_of ds), e), of_int (sg * int (num_of ds)))),
     fp_print = (\<lambda>(m, e). dec m), fp_to_u64 = (\<lambda>(m, e). of_int m), fp_str = (\<lambda>(m, e). dec m)\<rparr>"

definition test_item :: "(int \<times> int) cJSON" where
  "test_item = Item 0 cJSON_Object None 0 (0, 0) 0 None
     [Item 0 cJSON_Int None (- 5) (0, 0) (- 1) (Some ''n'') [],
      Item 0 cJSON_Array None 0 (0, 0) 0 (Some ''l'')
        [Item 0 cJSON_True None 0 (0, 0) 0 None [], Item 0 cJSON_String (Some ''a b'') 0 (0, 0) 0 None []]]"

lemma test_item_ok: "readable test_item"
  by (simp add: test_item_def cjson_types c_string_def)

lemma digit_5: "digit 5 = CHR ''5''"
  by (rule of_char_eq_iff [where 'a = nat, THEN iffD1]) (simp add: digit_is_digit)

lemma test_item_text:
  "render decimals 0 False test_item =
     ''{'' @ quoted ''n'' @ '':-5,'' @ quoted ''l'' @ '':[true,'' @ quoted ''a b'' @ '']}''"
  "render decimals 0 True test_item =
     ''{'' @ [CHR 0x0A, CHR 0x09] @ quoted ''n'' @ '':'' @ [CHR 0x09] @ ''-5,'' @ [CHR 0x0A, CHR 0x09] @
     quoted ''l'' @ '':'' @ [CHR 0x09] @ ''[true, '' @ quoted ''a b'' @ '']'' @ [CHR 0x0A] @ ''}''"
  by (simp_all add: test_item_def render.simps cjson_types object_text_def member_text_def nl_def tabs_def
      name_text_def array_text_def dec_def dec_nat_small digit_5)

lemma test_item_printable: "printable (render decimals 0 fmt test_item)"
  by (cases fmt) (simp_all add: test_item_text printable_def length_quoted escaped_len_def)

text \<open>
  C2. Parsing what \<^verbatim>\<open>cJSON_PrintUnformatted\<close> or \<^verbatim>\<open>cJSON_Print\<close> wrote gives the item back: for every item
  without floating-point numbers whose strings are C strings, both printers succeed, and the parser
  returns the normal form of the item, with all names, strings, integers and the order of the children.
\<close>

theorem json_round_trip:
  assumes "readable it" "printable (render fp 0 False it)" "printable (render fp 0 True it)"
  shows "\<exists>s t. cJSON_PrintUnformatted always fp it = Ok s \<and> cJSON_Parse always fp s = Ok (norm fp None it) \<and>
    cJSON_Print always fp it = Ok t \<and> cJSON_Parse always fp t = Ok (norm fp None it)"
  using print_parse [OF assms(1,2)] print_parse [OF assms(1,3)]
  unfolding cJSON_PrintUnformatted_def cJSON_Print_def by blast

theorem json_round_trip_witness:
  "\<exists>s t. cJSON_PrintUnformatted always decimals test_item = Ok s \<and>
    cJSON_Parse always decimals s = Ok (norm decimals None test_item) \<and>
    cJSON_Print always decimals test_item = Ok t \<and> cJSON_Parse always decimals t = Ok (norm decimals None test_item)"
  by (rule json_round_trip [OF test_item_ok test_item_printable test_item_printable])



section \<open>Well-typed results\<close>

fun typed :: "'d cJSON \<Rightarrow> bool" where
  "typed (Item a ty s i d sg n ch) =
     (ty \<le> cJSON_Object \<and> (ty = cJSON_String \<longleftrightarrow> s \<noteq> None) \<and> (ch \<noteq> [] \<longrightarrow> ty \<ge> cJSON_Array) \<and>
      (\<forall>c \<in> set ch. typed c \<and> (j_name c = None \<longleftrightarrow> ty = cJSON_Array)))"

definition plain :: "'d cJSON \<Rightarrow> bool" where
  "plain it = (j_str it = None \<and> j_child it = [])"

lemma plain_blank: "plain (blank fp)" "j_name (blank fp) = None"
  by (simp_all add: plain_def blank_def)

lemma j_simps [simp]:
  "j_name (set_type ty it) = j_name it" "j_name (set_num i d sg it) = j_name it" "j_name (set_str s it) = j_name it"
  "j_name (set_child ch it) = j_name it" "j_name (set_name n it) = n"
  "j_str (set_type ty it) = j_str it" "j_str (set_num i d sg it) = j_str it" "j_str (set_name n it) = j_str it"
  "j_str (set_child ch it) = j_str it" "j_str (set_str s it) = s"
  "j_child (set_type ty it) = j_child it" "j_child (set_num i d sg it) = j_child it" "j_child (set_str s it) = j_child it"
  "j_child (set_name n it) = j_child it" "j_child (set_child ch it) = ch"
  "j_type (set_type ty it) = ty" "j_type (set_child ch it) = j_type it" "j_type (set_num i d sg it) = j_type it"
  "j_type (set_str s it) = j_type it" "j_type (set_name n it) = j_type it"
  by (cases it; simp)+

lemma typed_iff:
  "typed it \<longleftrightarrow> j_type it \<le> cJSON_Object \<and> (j_type it = cJSON_String \<longleftrightarrow> j_str it \<noteq> None) \<and>
     (j_child it \<noteq> [] \<longrightarrow> j_type it \<ge> cJSON_Array) \<and>
     (\<forall>c \<in> set (j_child it). typed c \<and> (j_name c = None \<longleftrightarrow> j_type it = cJSON_Array))"
  by (cases it) simp

lemma parse_string_typed:
  "parse_string al it s = Ok (x, r) \<Longrightarrow> plain it \<Longrightarrow>
     typed x \<and> j_name x = j_name it \<and> j_str x \<noteq> None \<and> j_child x = []"
  by (auto simp: parse_string_def alloc_int_def alloc_def plain_def typed_iff [of "set_type _ _"] cjson_types split: if_splits option.splits)

lemma parse_number_typed:
  "parse_number fp it s = Ok (x, r) \<Longrightarrow> plain it \<Longrightarrow> typed x \<and> j_name x = j_name it"
  by (auto simp: parse_number_def plain_def typed_iff [of "set_type _ _"] cjson_types Let_def split: if_splits prod.splits)

lemma parse_typed:
  "parse_value al fp item s = Ok (x, r) \<Longrightarrow> plain item \<Longrightarrow> typed x \<and> j_name x = j_name item"
  "parse_array al fp item s = Ok (x, r) \<Longrightarrow> plain item \<Longrightarrow> typed x \<and> j_name x = j_name item"
  "array_items al fp s = Ok (xs, r) \<Longrightarrow> (\<forall>c \<in> set xs. typed c \<and> j_name c = None)"
  "parse_object al fp item s = Ok (x, r) \<Longrightarrow> plain item \<Longrightarrow> typed x \<and> j_name x = j_name item"
  "object_items al fp s = Ok (xs, r) \<Longrightarrow> (\<forall>c \<in> set xs. typed c \<and> j_name c \<noteq> None)"
proof (induction al fp item s and al fp item s and al fp s and al fp item s and al fp s
    arbitrary: x r and x r and xs r and x r and xs r
    rule: parse_value_parse_array_array_items_parse_object_object_items.induct)
  case (1 al fp item s)
  from "1.prems"(1) [unfolded parse_value.simps [of al fp item s]] "1.prems"(2) "1.IH" show ?case
    by (auto split: if_splits dest: parse_string_typed parse_number_typed simp: typed_iff [of "set_type _ _"] plain_def cjson_types)
next
  case (2 al fp item s)
  from "2.prems"(1) [unfolded parse_array.simps [of al fp item s]] "2.prems"(2) "2.IH" show ?case
    by (auto simp: obind_eq_Ok Let_def typed_iff [of "set_child _ _"] typed_iff [of "set_type _ _"] plain_def cjson_types
        split: if_splits)
next
  case (3 al fp s)
  from "3.prems" [unfolded array_items.simps [of al fp s]] obtain it r0 where v: "parse_value al fp (blank fp) (skip s) = Ok (it, r0)" and al: "al item_size"
    and e: "xs = [it] \<or> (\<exists>its r'. at_char (CHR '','') (skip r0) \<and>
      array_items al fp (tl (skip r0)) = Ok (its, r') \<and> xs = it # its)"
    by (auto simp: obind_eq_Ok new_item_cases Let_def split: if_splits)
  have "typed it \<and> j_name it = None" using "3.IH"(1) [of "blank fp"] v al plain_blank [of fp] by (simp add: new_item_cases)
  moreover have "\<forall>c \<in> set its. typed c \<and> j_name c = None"
    if "at_char (CHR '','') (skip r0)" "array_items al fp (tl (skip r0)) = Ok (its, r')" for its r'
    using "3.IH"(2) [of "blank fp" "(it, r0)" it r0 "skip r0"] v al that by (simp add: new_item_cases)
  ultimately show ?case using e by auto
next
  case (4 al fp item s)
  from "4.prems"(1) [unfolded parse_object.simps [of al fp item s]] "4.prems"(2) "4.IH" show ?case
    by (auto simp: obind_eq_Ok Let_def typed_iff [of "set_child _ _"] typed_iff [of "set_type _ _"] plain_def cjson_types
        split: if_splits)
next
  case (5 al fp s)
  from "5.prems" [unfolded object_items.simps [of al fp s]] obtain nm r0 it r1 where n: "parse_string al (blank fp) (skip s) = Ok (nm, r0)" and al: "al item_size"
    and c: "at_char (CHR '':'') (skip r0)"
    and v: "parse_value al fp (set_str None (set_name (j_str nm) nm)) (skip (tl (skip r0))) = Ok (it, r1)"
    and e: "xs = [it] \<or> (\<exists>its r'. at_char (CHR '','') (skip r1) \<and>
      object_items al fp (tl (skip r1)) = Ok (its, r') \<and> xs = it # its)"
    by (auto simp: obind_eq_Ok new_item_cases Let_def split: if_splits)
  have nm: "j_str nm \<noteq> None" "j_child nm = []" using parse_string_typed [OF n] plain_blank by auto
  have "typed it \<and> j_name it = j_str nm"
    using "5.IH"(1) [of "blank fp" "(nm, r0)" nm r0] n al c v nm by (simp add: new_item_cases plain_def)
  moreover have "\<forall>c \<in> set its. typed c \<and> j_name c \<noteq> None"
    if "at_char (CHR '','') (skip r1)" "object_items al fp (tl (skip r1)) = Ok (its, r')" for its r'
    using "5.IH"(2) [of "blank fp" "(nm, r0)" nm r0 "skip r0" _ "(it, r1)" it r1 "skip r1"] n al c v that
    by (simp add: new_item_cases)
  ultimately show ?case using e nm by auto
qed

text \<open>
  C31. What the parser returns is well typed: every item has one of the eight types, strings and only
  strings have a string value, only arrays and objects have children, the members of an object have
  names and the elements of an array have none.
\<close>

theorem json_parse_typed:
  assumes "cJSON_Parse al fp text = Ok it"
  shows "typed it \<and> j_name it = None"
  using assms parse_typed(1) [of al fp "blank fp"] plain_blank [of fp]
  by (auto simp: cJSON_Parse_def obind_eq_Ok new_item_cases split: if_splits)

theorem json_parse_typed_witness: "typed (norm decimals None test_item) \<and> j_name (norm decimals None test_item) = None"
  using json_parse_typed print_parse [OF test_item_ok test_item_printable] by blast

section \<open>Where the parser goes wrong\<close>

lemma str_copy_replicate:
  "c \<noteq> quote \<Longrightarrow> c \<noteq> backslash \<Longrightarrow> length out \<le> cap \<Longrightarrow>
   str_copy cap out uc uc2 (replicate n c @ r) =
     (if length out + n \<le> cap then str_copy cap (out @ replicate n c) uc uc2 r else None)"
proof (induction n arbitrary: out)
  case (Suc n)
  show ?case using Suc.IH [of "out @ [c]"] Suc.prems by (simp add: replicate_append_same)
qed simp

definition broken_text :: "nat \<Rightarrow> string" where
  "broken_text n = quote # backslash # ''u12'' @ quote # replicate n (CHR ''A'') @ [quote]"

lemma broken_escape:
  assumes "0 < n"
  shows "str_unicode uc uc2 (''12'' @ quote # replicate n (CHR ''A'') @ r) =
    Some ([char_of (18 :: nat)], Some 18, uc2, replicate (n - 1) (CHR ''A'') @ r)"
proof -
  obtain m where n: "n = Suc m" using assms by (cases n) auto
  have "scan_x4 (''12'' @ quote # replicate n (CHR ''A'') @ r) = Some 18"
    by (simp add: scan_x4_def at_char_def is_space_def is_hex_def hex_val_def quote_def hex_num_def n)
  moreover have "utf8 18 = (18, [char_of (18 :: nat)])" using utf8_ascii [of 18] by simp
  ultimately show ?thesis by (simp add: str_unicode_def keep_def is_low_def is_high_def n)
qed

lemma letters_plain: "CHR ''A'' \<noteq> quote" "CHR ''A'' \<noteq> backslash" "CHR ''1'' \<noteq> quote" "CHR ''1'' \<noteq> backslash"
  "CHR ''2'' \<noteq> quote" "CHR ''2'' \<noteq> backslash"
  by (simp_all add: quote_def backslash_def)

lemma broken_string:
  assumes "4 \<le> n"
  shows "parse_string always it (broken_text n) = Undef"
proof -
  have "str_copy (Suc (Suc (Suc (Suc 0)))) [char_of (18 :: nat)] (Some 18) None (replicate (n - 1) (CHR ''A'') @ [quote]) = None"
    using assms by (subst str_copy_replicate) (auto simp: letters_plain)
  then show ?thesis using assms broken_escape [of n None None "[quote]"]
    by (simp add: parse_string_def broken_text_def alloc_int_def INT_MAX_def letters_plain)
qed

text \<open>
  C34. A string that ends within the four digits of \<^verbatim>\<open>\u\<close> makes the parser write behind its buffer: the
  first pass stops at the quote and the second one jumps over it. For every \<open>n \<ge> 4\<close> the text
  \<^verbatim>\<open>"\u12"AAA...A"\<close> with \<open>n\<close> letters overruns a buffer of four characters.
\<close>

theorem json_unicode_overrun:
  assumes "4 \<le> n"
  shows "cJSON_Parse always fp (broken_text n) = Undef"
proof -
  have "c_str (broken_text n) = broken_text n"
    by (rule c_str_no_nul) (simp add: broken_text_def no_nul_def quote_def backslash_def)
  moreover have "skip (broken_text n) = broken_text n" by (simp add: broken_text_def skip_def quote_def)
  moreover have "parse_value always fp (blank fp) (broken_text n) = Undef"
    using broken_string [OF assms] by (simp add: parse_value.simps broken_text_def quote_def)
  ultimately show ?thesis by (simp add: cJSON_Parse_def new_item_cases)
qed

theorem json_unicode_overrun_witness: "cJSON_Parse always decimals (broken_text 4) = Undef"
  by (rule json_unicode_overrun) simp

lemma bit_mask10: "bit (w AND 0x3FF) k \<longleftrightarrow> bit w k \<and> k < 10" for w :: u32
proof -
  have "w AND 0x3FF = take_bit 10 w" by (simp add: take_bit_eq_mask mask_eq_exp_minus_1)
  then show ?thesis by (auto simp: bit_take_bit_iff)
qed

lemma bit_10000: "bit (0x10000 :: u32) k \<longleftrightarrow> k = 16"
proof -
  have "(0x10000 :: u32) = 2 ^ 16" by simp
  then show ?thesis by (simp only: bit_exp_iff) auto
qed

lemma bit16: "bit a 16 \<Longrightarrow> 0x10000 OR a = a" "\<not> bit a 16 \<Longrightarrow> 0x10000 AND a = 0" for a :: u32
  by (rule bit_eqI, simp only: bit_or_iff bit_and_iff bit_10000 bit_0_eq, auto)+

lemma join_pair_sum:
  "join_pair uc uc2 = 0x10000 + (push_bit 10 (uc AND 0x3FF) OR (uc2 AND 0x3FF)) \<longleftrightarrow> \<not> bit uc 6"
proof -
  let ?a = "push_bit 10 (uc AND 0x3FF) OR (uc2 AND 0x3FF)"

  have j: "join_pair uc uc2 = 0x10000 OR ?a" by (simp add: join_pair_def or.assoc)
  have b: "bit ?a 16 \<longleftrightarrow> bit uc 6" by (simp only: bit_or_iff bit_push_bit_iff bit_mask10) simp
  show ?thesis
  proof (cases "bit uc 6")
    case True
    with b have "0x10000 OR ?a = ?a" by (intro bit16(1)) (simp only:)
    moreover have "?a \<noteq> 0x10000 + ?a" by simp
    ultimately show ?thesis using True by (simp only: j) simp
  next
    case False
    with b have "0x10000 AND ?a = 0" by (intro bit16(2)) (simp only:, simp)
    then have "0x10000 + ?a = 0x10000 OR ?a" by (rule disjunctive_add_eq_or)
    then show ?thesis using False by (simp only: j simp_thms)
  qed
qed

text \<open>
  Surrogate pairs are joined with \<^verbatim>\<open>|\<close> where the standard adds: an escaped pair is written as the UTF-8
  text of \<open>join_pair\<close>, which is the code point of the pair only if bit 6 of the first half is clear.
  The characters from U+20000 on, for example, come out as other characters.
\<close>

theorem json_surrogate_pairs:
  assumes "is_high (of_nat hi)" "is_low (of_nat lo)" "hi < 65536" "lo < 65536"
  shows "str_unicode uc uc2 (hex4 hi @ [backslash, CHR ''u''] @ hex4 lo @ r) =
      Some (snd (utf8 (join_pair (of_nat hi) (of_nat lo))), Some (fst (utf8 (join_pair (of_nat hi) (of_nat lo)))),
        Some (of_nat lo), r) \<and>
    (join_pair (of_nat hi) (of_nat lo) =
       0x10000 + (push_bit 10 (of_nat hi AND 0x3FF) OR (of_nat lo AND 0x3FF)) \<longleftrightarrow> \<not> bit (of_nat hi :: u32) 6)"
proof -
  have "(of_nat hi :: u32) \<noteq> 0" "\<not> is_low (of_nat hi)"
    using assms(1) by (auto simp: is_high_def is_low_def word_le_nat_alt)
  moreover have "length (hex4 hi) = 4" "length (hex4 lo) = 4" by (simp_all add: hex4_def)
  ultimately have "str_unicode uc uc2 (hex4 hi @ [backslash, CHR ''u''] @ hex4 lo @ r) =
      Some (snd (utf8 (join_pair (of_nat hi) (of_nat lo))), Some (fst (utf8 (join_pair (of_nat hi) (of_nat lo)))),
        Some (of_nat lo), r)"
    using assms scan_hex4_nat [OF assms(3), of "[backslash, CHR ''u''] @ hex4 lo @ r"] scan_hex4_nat [OF assms(4), of r]
    by (simp add: str_unicode_def keep_def split: prod.split)
  then show ?thesis using join_pair_sum by blast
qed

theorem json_surrogate_pairs_witness:
  "str_unicode None None (hex4 0xD840 @ [backslash, CHR ''u''] @ hex4 0xDC00 @ []) =
      Some (snd (utf8 (join_pair 0xD840 0xDC00)), Some (fst (utf8 (join_pair 0xD840 0xDC00))), Some 0xDC00, []) \<and>
   join_pair 0xD840 0xDC00 = (0x10000 :: u32) \<and>
   0x10000 + (push_bit 10 ((0xD840 :: u32) AND 0x3FF) OR (0xDC00 AND 0x3FF)) = (0x20000 :: u32)"
  using json_surrogate_pairs [of "0xD840" "0xDC00" None None "[]"]
  by (simp add: is_high_def is_low_def join_pair_def)

text \<open>
  A number below the range of \<^verbatim>\<open>int64\<close> is not refused: its value wraps around, and it is printed as a
  positive number.
\<close>

theorem json_negative_wraps:
  assumes "2 ^ 63 < n" "n < 2 ^ 64"
  shows "\<exists>it. cJSON_Parse always fp (CHR ''-'' # dec_nat n) = Ok it \<and>
    cJSON_PrintUnformatted always fp it = Ok (dec_nat (2 ^ 64 - n))"
proof -
  let ?v = "- of_nat n :: u64"
  let ?it = "set_type cJSON_Int (set_num ?v (fp_of_u64 fp ?v) (- 1) (blank fp))"
  have "no_nul (CHR ''-'' # dec_nat n)" by (simp add: no_nul_dec)
  then have "cJSON_Parse always fp (CHR ''-'' # dec_nat n) = Ok ?it"
    using pv_neg [of "[]" n always fp "blank fp"] assms
    by (simp add: cJSON_Parse_def new_item_cases c_str_no_nul skip_char num_end_def)
  moreover have "sint ?v = int (2 ^ 64 - n)"
  proof -
    have "(of_nat n + of_nat (2 ^ 64 - n) :: u64) = of_nat (2 ^ 64)" using assms by (simp only: of_nat_add [symmetric]) simp
    also have "\<dots> = 0" by simp
    finally have "?v = of_nat (2 ^ 64 - n)" by (metis add.inverse_unique)
    moreover have "sint (of_nat (2 ^ 64 - n) :: u64) = int (2 ^ 64 - n)"
      using assms by (simp only: signed_of_nat) (simp add: signed_take_bit_int_eq_self)
    ultimately show ?thesis by simp
  qed
  then have "cJSON_PrintUnformatted always fp ?it = Ok (dec_nat (2 ^ 64 - n))"
    using print_value_renders [of fp ?it 0 False] int_text_fits(2) [of ?v]
    by (simp add: cJSON_PrintUnformatted_def blank_def render.simps cjson_types printable_def dec_def)
  ultimately show ?thesis by blast
qed

theorem json_negative_wraps_witness:
  "\<exists>it. cJSON_Parse always decimals (CHR ''-'' # dec_nat 9223372036854775809) = Ok it \<and>
    cJSON_PrintUnformatted always decimals it = Ok (dec_nat (2 ^ 64 - 9223372036854775809))"
  by (rule json_negative_wraps) simp_all

end
