(* ===== verification/JsonObject.thy ===== *)
theory JsonObject
  imports JsonText "HOL-Library.Monad_Syntax"
begin

text \<open>
  The class \<^verbatim>\<open>CJsonObject\<close> (\<^verbatim>\<open>src/src/core/util/json/CJsonObject.{hpp,cpp}\<close>) on top of the items of
  \<open>Json\<close>. An object owns a tree of items (\<^verbatim>\<open>m_pJsonData\<close>) or refers to an item of another tree
  (\<^verbatim>\<open>m_pExternJsonDataRef\<close>), and it keeps the objects that \<^verbatim>\<open>operator[]\<close> and \<^verbatim>\<open>operator()\<close> made for its
  children. A document is an object with the objects below it; a path of indices and keys names one of
  them. Items have addresses, and following the address of an item that was freed is undefined
  (\<open>None\<close>). An argument that is a \<^verbatim>\<open>CJsonObject\<close> is given by its text, as the source copies it.
\<close>

section \<open>Documents\<close>

datatype 'd cjo = CJsonObject
  (m_pJsonData: "'d cJSON option") (m_pExternJsonDataRef: "nat option") (m_strErrMsg: string)
  (m_mapJsonArrayRef: "(nat \<times> 'd cjo) list") (m_mapJsonObjectRef: "(string \<times> 'd cjo) list")

record 'd jdoc =
  jd_top :: "'d cjo"
  jd_fresh :: nat

type_synonym jpath = "(nat + string) list"

fun cjo_set_data :: "'d cJSON option \<Rightarrow> 'd cjo \<Rightarrow> 'd cjo" where
  "cjo_set_data d (CJsonObject _ e m as os) = CJsonObject d e m as os"

fun cjo_set_ext :: "nat option \<Rightarrow> 'd cjo \<Rightarrow> 'd cjo" where
  "cjo_set_ext e (CJsonObject d _ m as os) = CJsonObject d e m as os"

fun cjo_set_err :: "string \<Rightarrow> 'd cjo \<Rightarrow> 'd cjo" where
  "cjo_set_err m (CJsonObject d e _ as os) = CJsonObject d e m as os"

fun cjo_set_arr :: "(nat \<times> 'd cjo) list \<Rightarrow> 'd cjo \<Rightarrow> 'd cjo" where
  "cjo_set_arr as (CJsonObject d e m _ os) = CJsonObject d e m as os"

fun cjo_set_obj :: "(string \<times> 'd cjo) list \<Rightarrow> 'd cjo \<Rightarrow> 'd cjo" where
  "cjo_set_obj os (CJsonObject d e m as _) = CJsonObject d e m as os"

text \<open>The object that a path names, and its replacement.\<close>

fun cjo_at :: "jpath \<Rightarrow> 'd cjo \<Rightarrow> 'd cjo option" where
  "cjo_at [] x = Some x"
| "cjo_at (Inl i # p) x = (case um_find (m_mapJsonArrayRef x) i of None \<Rightarrow> None | Some y \<Rightarrow> cjo_at p y)"
| "cjo_at (Inr k # p) x = (case um_find (m_mapJsonObjectRef x) k of None \<Rightarrow> None | Some y \<Rightarrow> cjo_at p y)"

fun put_at :: "jpath \<Rightarrow> 'd cjo \<Rightarrow> 'd cjo \<Rightarrow> 'd cjo" where
  "put_at [] new x = new"
| "put_at (Inl i # p) new x =
     (case um_find (m_mapJsonArrayRef x) i of
        None \<Rightarrow> x | Some y \<Rightarrow> cjo_set_arr (um_put i (put_at p new y) (m_mapJsonArrayRef x)) x)"
| "put_at (Inr k # p) new x =
     (case um_find (m_mapJsonObjectRef x) k of
        None \<Rightarrow> x | Some y \<Rightarrow> cjo_set_obj (um_put k (put_at p new y) (m_mapJsonObjectRef x)) x)"

definition jd_self :: "jpath \<Rightarrow> 'd jdoc \<Rightarrow> 'd cjo option" where
  "jd_self p st = cjo_at p (jd_top st)"

definition jd_set_self :: "jpath \<Rightarrow> 'd cjo \<Rightarrow> 'd jdoc \<Rightarrow> 'd jdoc" where
  "jd_set_self p x st = st\<lparr>jd_top := put_at p x (jd_top st)\<rparr>"

definition jd_change :: "jpath \<Rightarrow> ('d cjo \<Rightarrow> 'd cjo) \<Rightarrow> 'd jdoc \<Rightarrow> 'd jdoc" where
  "jd_change p f st = (case jd_self p st of None \<Rightarrow> st | Some x \<Rightarrow> jd_set_self p (f x) st)"

text \<open>Addresses: the item of a tree at an address, a change of that item, new addresses for a tree.\<close>

fun node_at :: "nat \<Rightarrow> 'd cJSON \<Rightarrow> 'd cJSON option"
  and node_in :: "nat \<Rightarrow> 'd cJSON list \<Rightarrow> 'd cJSON option" where
  "node_at a (Item b ty s i d sg n ch) =
     (if a = b then Some (Item b ty s i d sg n ch) else node_in a ch)"
| "node_in a [] = None"
| "node_in a (c # cs) = (case node_at a c of Some x \<Rightarrow> Some x | None \<Rightarrow> node_in a cs)"

fun map_node :: "nat \<Rightarrow> ('d cJSON \<Rightarrow> 'd cJSON) \<Rightarrow> 'd cJSON \<Rightarrow> 'd cJSON" where
  "map_node a f (Item b ty s i d sg n ch) =
     (if a = b then f (Item b ty s i d sg n ch) else Item b ty s i d sg n (map (map_node a f) ch))"

fun label :: "nat \<Rightarrow> 'd cJSON \<Rightarrow> 'd cJSON \<times> nat"
  and labels :: "nat \<Rightarrow> 'd cJSON list \<Rightarrow> 'd cJSON list \<times> nat" where
  "label k (Item b ty s i d sg n ch) = (let (ch', k') = labels (Suc k) ch in (Item k ty s i d sg n ch', k'))"
| "labels k [] = ([], k)"
| "labels k (c # cs) = (let (c', k1) = label k c; (cs', k2) = labels k1 cs in (c' # cs', k2))"

text \<open>The trees of a document.\<close>

fun trees :: "'d cjo \<Rightarrow> 'd cJSON list" where
  "trees (CJsonObject d e m as os) =
     (case d of None \<Rightarrow> [] | Some t \<Rightarrow> [t]) @ concat (map (\<lambda>(_, x). trees x) as) @ concat (map (\<lambda>(_, x). trees x) os)"

fun map_trees :: "('d cJSON \<Rightarrow> 'd cJSON) \<Rightarrow> 'd cjo \<Rightarrow> 'd cjo" where
  "map_trees f (CJsonObject d e m as os) =
     CJsonObject (map_option f d) e m (map (\<lambda>(i, x). (i, map_trees f x)) as) (map (\<lambda>(k, x). (k, map_trees f x)) os)"

definition jd_deref :: "nat \<Rightarrow> 'd jdoc \<Rightarrow> 'd cJSON option" where
  "jd_deref a st = node_in a (trees (jd_top st))"

definition jd_modify :: "nat \<Rightarrow> ('d cJSON \<Rightarrow> 'd cJSON) \<Rightarrow> 'd jdoc \<Rightarrow> 'd jdoc" where
  "jd_modify a f st = st\<lparr>jd_top := map_trees (map_node a f) (jd_top st)\<rparr>"

definition jd_place :: "'d cJSON \<Rightarrow> 'd jdoc \<Rightarrow> 'd cJSON \<times> 'd jdoc" where
  "jd_place it st = (let (it', k) = label (jd_fresh st) it in (it', st\<lparr>jd_fresh := k\<rparr>))"

section \<open>Whole objects\<close>

definition cjo_new :: "'d cjo" where
  "cjo_new = CJsonObject None None '''' [] []"

definition cjo_ref :: "nat \<Rightarrow> 'd cjo" where
  "cjo_ref a = CJsonObject None (Some a) '''' [] []"

definition GetJsonData :: "'d cjo \<Rightarrow> nat option" where
  "GetJsonData x = (case m_pJsonData x of Some t \<Rightarrow> Some (j_addr t) | None \<Rightarrow> m_pExternJsonDataRef x)"

text \<open>The objects kept for the children are deleted with their trees.\<close>

definition cjo_Clear :: "'d cjo \<Rightarrow> 'd cjo" where
  "cjo_Clear x = CJsonObject None None (m_strErrMsg x) [] []"

text \<open>The error position is appended to the message; it is the null pointer after a failed allocation.\<close>

definition parse_error :: "jpath \<Rightarrow> string option \<Rightarrow> 'd jdoc \<Rightarrow> (bool \<times> 'd jdoc) option" where
  "parse_error p e st =
     (case e of None \<Rightarrow> None | Some ep \<Rightarrow> Some (False, jd_change p (cjo_set_err (''prase json string error at '' @ ep)) st))"

definition cjo_Parse ::
  "(nat \<Rightarrow> bool) \<Rightarrow> 'd fp \<Rightarrow> jpath \<Rightarrow> string \<Rightarrow> 'd jdoc \<Rightarrow> (bool \<times> 'd jdoc) option" where
  "cjo_Parse al fp p strJson st =
     (let st1 = jd_change p cjo_Clear st
      in case cJSON_Parse al fp (c_str strJson) of
           Undef \<Rightarrow> None
         | Fail e \<Rightarrow> parse_error p e st1
         | Ok it \<Rightarrow> let (it', st2) = jd_place it st1 in Some (True, jd_change p (cjo_set_data (Some it')) st2))"

text \<open>\<open>content\<close> is the file that \<^verbatim>\<open>std::ifstream\<close> reads, \<open>None\<close> if it cannot be opened.\<close>

definition cjo_Load ::
  "(nat \<Rightarrow> bool) \<Rightarrow> 'd fp \<Rightarrow> jpath \<Rightarrow> string option \<Rightarrow> 'd jdoc \<Rightarrow> (bool \<times> 'd jdoc) option" where
  "cjo_Load al fp p content st =
     (case content of None \<Rightarrow> Some (False, st) | Some s \<Rightarrow> cjo_Parse al fp p s st)"

definition cjo_IsEmpty :: "jpath \<Rightarrow> 'd jdoc \<Rightarrow> bool option" where
  "cjo_IsEmpty p st = do { x \<leftarrow> jd_self p st; Some (GetJsonData x = None) }"

definition cjo_IsArray :: "jpath \<Rightarrow> 'd jdoc \<Rightarrow> bool option" where
  "cjo_IsArray p st = do {
     x \<leftarrow> jd_self p st;
     case GetJsonData x of None \<Rightarrow> Some False | Some a \<Rightarrow> do { t \<leftarrow> jd_deref a st; Some (j_type t = cJSON_Array) }
   }"

definition to_text :: "('d cJSON \<Rightarrow> string outcome) \<Rightarrow> jpath \<Rightarrow> 'd jdoc \<Rightarrow> string option" where
  "to_text pr p st = do {
     x \<leftarrow> jd_self p st;
     case GetJsonData x of
       None \<Rightarrow> Some ''''
     | Some a \<Rightarrow> do {
         t \<leftarrow> jd_deref a st;
         case pr t of Undef \<Rightarrow> None | Fail _ \<Rightarrow> Some '''' | Ok s \<Rightarrow> Some s
       }
   }"

definition cjo_ToString :: "(nat \<Rightarrow> bool) \<Rightarrow> 'd fp \<Rightarrow> jpath \<Rightarrow> 'd jdoc \<Rightarrow> string option" where
  "cjo_ToString al fp = to_text (cJSON_PrintUnformatted al fp)"

definition cjo_ToFormattedString :: "(nat \<Rightarrow> bool) \<Rightarrow> 'd fp \<Rightarrow> jpath \<Rightarrow> 'd jdoc \<Rightarrow> string option" where
  "cjo_ToFormattedString al fp = to_text (cJSON_Print al fp)"

text \<open>
  Construction from a text and from another object, assignment and comparison, which all go through the
  text. \<open>other\<close> is the document of the argument and \<open>q\<close> its path there.
\<close>

definition new_doc :: "'d jdoc" where
  "new_doc = \<lparr>jd_top = cjo_new, jd_fresh = 0\<rparr>"

definition cjo_of_text :: "(nat \<Rightarrow> bool) \<Rightarrow> 'd fp \<Rightarrow> string \<Rightarrow> 'd jdoc option" where
  "cjo_of_text al fp strJson = map_option snd (cjo_Parse al fp [] strJson new_doc)"

definition cjo_of_pointer :: "(nat \<Rightarrow> bool) \<Rightarrow> 'd fp \<Rightarrow> (jpath \<times> 'd jdoc) option \<Rightarrow> 'd jdoc option" where
  "cjo_of_pointer al fp pJsonObject =
     (case pJsonObject of
        None \<Rightarrow> Some new_doc
      | Some (q, other) \<Rightarrow> do { s \<leftarrow> cjo_ToString al fp q other; cjo_of_text al fp s })"

definition cjo_copy :: "(nat \<Rightarrow> bool) \<Rightarrow> 'd fp \<Rightarrow> jpath \<Rightarrow> 'd jdoc \<Rightarrow> 'd jdoc option" where
  "cjo_copy al fp q other = do { s \<leftarrow> cjo_ToString al fp q other; cjo_of_text al fp s }"

definition cjo_assign :: "(nat \<Rightarrow> bool) \<Rightarrow> 'd fp \<Rightarrow> jpath \<Rightarrow> jpath \<Rightarrow> 'd jdoc \<Rightarrow> 'd jdoc \<Rightarrow> 'd jdoc option" where
  "cjo_assign al fp p q other st = do {
     s \<leftarrow> cjo_ToString al fp q other;
     (_, st') \<leftarrow> cjo_Parse al fp p (c_str s) st;
     Some st'
   }"

definition cjo_equal :: "(nat \<Rightarrow> bool) \<Rightarrow> 'd fp \<Rightarrow> jpath \<Rightarrow> 'd jdoc \<Rightarrow> jpath \<Rightarrow> 'd jdoc \<Rightarrow> bool option" where
  "cjo_equal al fp p st q other = do {
     s \<leftarrow> cjo_ToString al fp p st;
     t \<leftarrow> cjo_ToString al fp q other;
     Some (s = t)
   }"

definition cjo_GetKeys :: "jpath \<Rightarrow> 'd jdoc \<Rightarrow> string list option" where
  "cjo_GetKeys p st = do {
     x \<leftarrow> jd_self p st;
     case GetJsonData x of
       None \<Rightarrow> Some []
     | Some a \<Rightarrow> do {
         t \<leftarrow> jd_deref a st;
         if list_all (\<lambda>c. j_name c \<noteq> None) (j_child t) then Some (map (\<lambda>c. the (j_name c)) (j_child t)) else None
       }
   }"

section \<open>Looking up children\<close>

text \<open>The child with a key or at an index, if the data is an object or an array; \<open>None\<close> inside is the null pointer.\<close>

definition look :: "nat \<Rightarrow> ('d cJSON \<Rightarrow> 'd cJSON option) \<Rightarrow> jpath \<Rightarrow> 'd jdoc \<Rightarrow> 'd cJSON option option" where
  "look ty f p st = do {
     x \<leftarrow> jd_self p st;
     case GetJsonData x of
       None \<Rightarrow> Some None
     | Some a \<Rightarrow> do { t \<leftarrow> jd_deref a st; Some (if j_type t = ty then f t else None) }
   }"

definition get_member :: "jpath \<Rightarrow> string \<Rightarrow> 'd jdoc \<Rightarrow> 'd cJSON option option" where
  "get_member p key = look cJSON_Object (\<lambda>t. cJSON_GetObjectItem t (c_str key)) p"

definition get_element :: "jpath \<Rightarrow> int \<Rightarrow> 'd jdoc \<Rightarrow> 'd cJSON option option" where
  "get_element p which = look cJSON_Array (\<lambda>t. cJSON_GetArrayItem t which) p"

text \<open>The conversions of \<^verbatim>\<open>Get\<close>: \<open>Some None\<close> is the answer false, \<open>None\<close> a string made of the null pointer.\<close>

definition rd_string :: "'d cJSON \<Rightarrow> string option option" where
  "rd_string it = (if j_type it \<noteq> cJSON_String then Some None else map_option Some (j_str it))"

definition rd_int32 :: "'d cJSON \<Rightarrow> int option option" where
  "rd_int32 it = Some (if j_type it \<noteq> cJSON_Int then None else Some (i32 (uint (j_int it))))"

definition rd_uint32 :: "'d cJSON \<Rightarrow> int option option" where
  "rd_uint32 it = Some (if j_type it \<noteq> cJSON_Int then None else Some (uint (j_int it) mod 2 ^ 32))"

definition rd_int64 :: "'d cJSON \<Rightarrow> int option option" where
  "rd_int64 it = Some (if j_type it \<noteq> cJSON_Int then None else Some (sint (j_int it)))"

definition rd_uint64 :: "'d cJSON \<Rightarrow> int option option" where
  "rd_uint64 it = Some (if j_type it \<noteq> cJSON_Int then None else Some (uint (j_int it)))"

definition rd_bool :: "'d cJSON \<Rightarrow> bool option option" where
  "rd_bool it = Some (if j_type it > cJSON_True then None else Some (j_type it \<noteq> 0))"

definition rd_double :: "'d cJSON \<Rightarrow> 'd option option" where
  "rd_double it = Some (if j_type it \<noteq> cJSON_Double then None else Some (j_dbl it))"

definition rd_float :: "('d \<Rightarrow> 'f) \<Rightarrow> 'd cJSON \<Rightarrow> 'f option option" where
  "rd_float to_float it = Some (if j_type it \<noteq> cJSON_Double then None else Some (to_float (j_dbl it)))"

definition read_with :: "('d cJSON \<Rightarrow> 'v option option) \<Rightarrow> 'd cJSON option option \<Rightarrow> 'v option option" where
  "read_with rd r = do { it \<leftarrow> r; case it of None \<Rightarrow> Some None | Some x \<Rightarrow> rd x }"

text \<open>A child is copied into another object by its text.\<close>

definition copy_to ::
  "(nat \<Rightarrow> bool) \<Rightarrow> 'd fp \<Rightarrow> jpath \<Rightarrow> 'd jdoc \<Rightarrow> 'd cJSON option option \<Rightarrow> (bool \<times> 'd jdoc) option" where
  "copy_to al fp q other r = do {
     it \<leftarrow> r;
     case it of
       None \<Rightarrow> Some (False, other)
     | Some x \<Rightarrow> (case cJSON_Print al fp x of Ok s \<Rightarrow> cjo_Parse al fp q s other | _ \<Rightarrow> None)
   }"

definition Get_key_object ::
  "(nat \<Rightarrow> bool) \<Rightarrow> 'd fp \<Rightarrow> jpath \<Rightarrow> string \<Rightarrow> 'd jdoc \<Rightarrow> jpath \<Rightarrow> 'd jdoc \<Rightarrow> (bool \<times> 'd jdoc) option" where
  "Get_key_object al fp p key st q other = copy_to al fp q other (get_member p key st)"

definition Get_key_string :: "jpath \<Rightarrow> string \<Rightarrow> 'd jdoc \<Rightarrow> string option option" where
  "Get_key_string p key st = read_with rd_string (get_member p key st)"

definition Get_key_int32 :: "jpath \<Rightarrow> string \<Rightarrow> 'd jdoc \<Rightarrow> int option option" where
  "Get_key_int32 p key st = read_with rd_int32 (get_member p key st)"

definition Get_key_uint32 :: "jpath \<Rightarrow> string \<Rightarrow> 'd jdoc \<Rightarrow> int option option" where
  "Get_key_uint32 p key st = read_with rd_uint32 (get_member p key st)"

definition Get_key_int64 :: "jpath \<Rightarrow> string \<Rightarrow> 'd jdoc \<Rightarrow> int option option" where
  "Get_key_int64 p key st = read_with rd_int64 (get_member p key st)"

definition Get_key_uint64 :: "jpath \<Rightarrow> string \<Rightarrow> 'd jdoc \<Rightarrow> int option option" where
  "Get_key_uint64 p key st = read_with rd_uint64 (get_member p key st)"

definition Get_key_bool :: "jpath \<Rightarrow> string \<Rightarrow> 'd jdoc \<Rightarrow> bool option option" where
  "Get_key_bool p key st = read_with rd_bool (get_member p key st)"

definition Get_key_double :: "jpath \<Rightarrow> string \<Rightarrow> 'd jdoc \<Rightarrow> 'd option option" where
  "Get_key_double p key st = read_with rd_double (get_member p key st)"

definition Get_key_float :: "('d \<Rightarrow> 'f) \<Rightarrow> jpath \<Rightarrow> string \<Rightarrow> 'd jdoc \<Rightarrow> 'f option option" where
  "Get_key_float to_float p key st = read_with (rd_float to_float) (get_member p key st)"

definition Get_idx_object ::
  "(nat \<Rightarrow> bool) \<Rightarrow> 'd fp \<Rightarrow> jpath \<Rightarrow> int \<Rightarrow> 'd jdoc \<Rightarrow> jpath \<Rightarrow> 'd jdoc \<Rightarrow> (bool \<times> 'd jdoc) option" where
  "Get_idx_object al fp p which st q other = copy_to al fp q other (get_element p which st)"

definition Get_idx_string :: "jpath \<Rightarrow> int \<Rightarrow> 'd jdoc \<Rightarrow> string option option" where
  "Get_idx_string p which st = read_with rd_string (get_element p which st)"

definition Get_idx_int32 :: "jpath \<Rightarrow> int \<Rightarrow> 'd jdoc \<Rightarrow> int option option" where
  "Get_idx_int32 p which st = read_with rd_int32 (get_element p which st)"

definition Get_idx_uint32 :: "jpath \<Rightarrow> int \<Rightarrow> 'd jdoc \<Rightarrow> int option option" where
  "Get_idx_uint32 p which st = read_with rd_uint32 (get_element p which st)"

definition Get_idx_int64 :: "jpath \<Rightarrow> int \<Rightarrow> 'd jdoc \<Rightarrow> int option option" where
  "Get_idx_int64 p which st = read_with rd_int64 (get_element p which st)"

definition Get_idx_uint64 :: "jpath \<Rightarrow> int \<Rightarrow> 'd jdoc \<Rightarrow> int option option" where
  "Get_idx_uint64 p which st = read_with rd_uint64 (get_element p which st)"

definition Get_idx_bool :: "jpath \<Rightarrow> int \<Rightarrow> 'd jdoc \<Rightarrow> bool option option" where
  "Get_idx_bool p which st = read_with rd_bool (get_element p which st)"

definition Get_idx_double :: "jpath \<Rightarrow> int \<Rightarrow> 'd jdoc \<Rightarrow> 'd option option" where
  "Get_idx_double p which st = read_with rd_double (get_element p which st)"

definition Get_idx_float :: "('d \<Rightarrow> 'f) \<Rightarrow> jpath \<Rightarrow> int \<Rightarrow> 'd jdoc \<Rightarrow> 'f option option" where
  "Get_idx_float to_float p which st = read_with (rd_float to_float) (get_element p which st)"

definition cjo_GetArraySize :: "jpath \<Rightarrow> 'd jdoc \<Rightarrow> int option" where
  "cjo_GetArraySize p st = do {
     x \<leftarrow> jd_self p st;
     case GetJsonData x of
       None \<Rightarrow> Some 0
     | Some a \<Rightarrow> do { t \<leftarrow> jd_deref a st; Some (if j_type t = cJSON_Array then cJSON_GetArraySize t else 0) }
   }"

section \<open>Objects for children\<close>

text \<open>\<^verbatim>\<open>JsonStruct2Str\<close>: an integer is written as \<^verbatim>\<open>uint64\<close> whatever its sign is.\<close>

definition JsonStruct2Str :: "'d fp \<Rightarrow> 'd cJSON option \<Rightarrow> string option" where
  "JsonStruct2Str fp it =
     (case it of
        None \<Rightarrow> Some ''''
      | Some x \<Rightarrow>
          if j_type x = cJSON_String then j_str x
          else if j_type x = cJSON_Int then Some (dec_nat (unat (j_int x)))
          else if j_type x = cJSON_Double then Some (take 127 (fp_str fp (j_dbl x)))
          else if j_type x = cJSON_False then Some ''false''
          else if j_type x = cJSON_True then Some ''true''
          else Some '''')"

text \<open>The item of an object that was kept for a child.\<close>

definition kept_item :: "'d cjo \<Rightarrow> 'd jdoc \<Rightarrow> 'd cJSON option option" where
  "kept_item y st =
     (case GetJsonData y of None \<Rightarrow> Some None | Some a \<Rightarrow> map_option Some (jd_deref a st))"

definition keep_member :: "jpath \<Rightarrow> string \<Rightarrow> 'd cjo \<Rightarrow> 'd jdoc \<Rightarrow> 'd jdoc" where
  "keep_member p key y = jd_change p (\<lambda>x. cjo_set_obj (um_put key y (m_mapJsonObjectRef x)) x)"

definition keep_element :: "jpath \<Rightarrow> nat \<Rightarrow> 'd cjo \<Rightarrow> 'd jdoc \<Rightarrow> 'd jdoc" where
  "keep_element p which y = jd_change p (\<lambda>x. cjo_set_arr (um_put which y (m_mapJsonArrayRef x)) x)"

text \<open>
  \<^verbatim>\<open>Get(strKey)\<close> and \<^verbatim>\<open>operator[](strKey)\<close> give a reference to the object kept for the key, the one at the
  path \<open>p @ [Inr key]\<close>; it is made at the first call, without data if the key is missing.
\<close>

definition Get_ref_key :: "jpath \<Rightarrow> string \<Rightarrow> 'd jdoc \<Rightarrow> 'd jdoc option" where
  "Get_ref_key p key st = do {
     x \<leftarrow> jd_self p st;
     case um_find (m_mapJsonObjectRef x) key of
       Some _ \<Rightarrow> Some st
     | None \<Rightarrow> do {
         it \<leftarrow> get_member p key st;
         Some (keep_member p key (case it of None \<Rightarrow> cjo_new | Some i \<Rightarrow> cjo_ref (j_addr i)) st)
       }
   }"

definition index_key :: "jpath \<Rightarrow> string \<Rightarrow> 'd jdoc \<Rightarrow> 'd jdoc option" where
  "index_key p key st = Get_ref_key p key st"

definition index_idx :: "jpath \<Rightarrow> nat \<Rightarrow> 'd jdoc \<Rightarrow> 'd jdoc option" where
  "index_idx p which st = do {
     x \<leftarrow> jd_self p st;
     case um_find (m_mapJsonArrayRef x) which of
       Some _ \<Rightarrow> Some st
     | None \<Rightarrow> do {
         it \<leftarrow> get_element p (i32 (int which)) st;
         Some (keep_element p which (case it of None \<Rightarrow> cjo_new | Some i \<Rightarrow> cjo_ref (j_addr i)) st)
       }
   }"

text \<open>\<^verbatim>\<open>operator()\<close> gives the text of an atomic child and keeps an object for it, the constant version does not.\<close>

definition call_key :: "'d fp \<Rightarrow> jpath \<Rightarrow> string \<Rightarrow> 'd jdoc \<Rightarrow> (string \<times> 'd jdoc) option" where
  "call_key fp p key st = do {
     x \<leftarrow> jd_self p st;
     case um_find (m_mapJsonObjectRef x) key of
       Some y \<Rightarrow> do { it \<leftarrow> kept_item y st; s \<leftarrow> JsonStruct2Str fp it; Some (s, st) }
     | None \<Rightarrow> do {
         it \<leftarrow> get_member p key st;
         s \<leftarrow> JsonStruct2Str fp it;
         Some (s, case it of None \<Rightarrow> st | Some i \<Rightarrow> keep_member p key (cjo_ref (j_addr i)) st)
       }
   }"

definition call_key_const :: "'d fp \<Rightarrow> jpath \<Rightarrow> string \<Rightarrow> 'd jdoc \<Rightarrow> string option" where
  "call_key_const fp p key st = do {
     x \<leftarrow> jd_self p st;
     it \<leftarrow> (case um_find (m_mapJsonObjectRef x) key of Some y \<Rightarrow> kept_item y st | None \<Rightarrow> get_member p key st);
     JsonStruct2Str fp it
   }"

definition call_idx :: "'d fp \<Rightarrow> jpath \<Rightarrow> nat \<Rightarrow> 'd jdoc \<Rightarrow> (string \<times> 'd jdoc) option" where
  "call_idx fp p which st = do {
     x \<leftarrow> jd_self p st;
     case um_find (m_mapJsonArrayRef x) which of
       Some y \<Rightarrow> do { it \<leftarrow> kept_item y st; s \<leftarrow> JsonStruct2Str fp it; Some (s, st) }
     | None \<Rightarrow> do {
         it \<leftarrow> get_element p (i32 (int which)) st;
         s \<leftarrow> JsonStruct2Str fp it;
         Some (s, case it of None \<Rightarrow> st | Some i \<Rightarrow> keep_element p which (cjo_ref (j_addr i)) st)
       }
   }"

definition call_idx_const :: "'d fp \<Rightarrow> jpath \<Rightarrow> nat \<Rightarrow> 'd jdoc \<Rightarrow> string option" where
  "call_idx_const fp p which st = do {
     x \<leftarrow> jd_self p st;
     it \<leftarrow> (case um_find (m_mapJsonArrayRef x) which of
              Some y \<Rightarrow> kept_item y st | None \<Rightarrow> get_element p (i32 (int which)) st);
     JsonStruct2Str fp it
   }"

section \<open>Changing children\<close>

text \<open>The data to change: an object without data gets a new item first.\<close>

definition focus_or_new :: "'d cJSON outcome \<Rightarrow> jpath \<Rightarrow> 'd jdoc \<Rightarrow> (nat option \<times> 'd jdoc) option" where
  "focus_or_new mk p st = do {
     x \<leftarrow> jd_self p st;
     case GetJsonData x of
       Some a \<Rightarrow> Some (Some a, st)
     | None \<Rightarrow>
         (case mk of
            Ok it \<Rightarrow> let (it', st1) = jd_place it st
                     in Some (Some (j_addr it'), jd_change p (cjo_set_data (Some it')) st1)
          | _ \<Rightarrow> Some (None, st))
   }"

definition focus_old :: "jpath \<Rightarrow> 'd jdoc \<Rightarrow> (nat option \<times> 'd jdoc) option" where
  "focus_old p st = do { x \<leftarrow> jd_self p st; Some (GetJsonData x, st) }"

definition wrong_type :: "nat \<Rightarrow> string" where
  "wrong_type ty =
     (if ty = cJSON_Object then ''not a json object! json array?'' else ''not a json array! json object?'')"

text \<open>
  The common part of the methods that change the children: find the data, check its type, make the new
  item, link it in with \<open>ins\<close>; \<open>fin\<close> tells from the item before and after whether that worked.
  \<open>bad\<close> is what a failure to make the item does.
\<close>

definition change_children ::
  "(nat option \<times> 'd jdoc) option \<Rightarrow> nat \<Rightarrow> jpath \<Rightarrow> 'd cJSON outcome \<Rightarrow>
   (string option \<Rightarrow> 'd jdoc \<Rightarrow> (bool \<times> 'd jdoc) option) \<Rightarrow> ('d cJSON \<Rightarrow> 'd cJSON \<Rightarrow> 'd cJSON) \<Rightarrow>
   ('d cJSON \<Rightarrow> 'd cJSON \<Rightarrow> bool) \<Rightarrow> (bool \<times> 'd jdoc) option" where
  "change_children focus ty p mk bad ins fin = do {
     (a, st1) \<leftarrow> focus;
     case a of
       None \<Rightarrow> Some (False, jd_change p (cjo_set_err ''json data is null!'') st1)
     | Some a \<Rightarrow> do {
         t \<leftarrow> jd_deref a st1;
         if j_type t \<noteq> ty then Some (False, jd_change p (cjo_set_err (wrong_type ty)) st1)
         else case mk of
                Undef \<Rightarrow> None
              | Fail e \<Rightarrow> bad e st1
              | Ok it \<Rightarrow> do {
                  let (it', st2) = jd_place it st1;
                  let st3 = jd_modify a (\<lambda>t. ins t it') st2;
                  t' \<leftarrow> jd_deref a st3;
                  Some (fin t t', st3)
                }
       }
   }"

definition refuse :: "string option \<Rightarrow> 'd jdoc \<Rightarrow> (bool \<times> 'd jdoc) option" where
  "refuse e st = Some (False, st)"

definition add_member ::
  "(nat \<Rightarrow> bool) \<Rightarrow> 'd fp \<Rightarrow> jpath \<Rightarrow> string \<Rightarrow> 'd cJSON outcome \<Rightarrow>
   (string option \<Rightarrow> 'd jdoc \<Rightarrow> (bool \<times> 'd jdoc) option) \<Rightarrow> 'd jdoc \<Rightarrow> (bool \<times> 'd jdoc) option" where
  "add_member al fp p key mk bad st =
     change_children (focus_or_new (cJSON_CreateObject al fp) p st) cJSON_Object p mk bad
       (\<lambda>t it. cJSON_AddItemToObject al t (c_str key) it) (\<lambda>_ t'. cJSON_GetObjectItem t' (c_str key) \<noteq> None)"

definition replace_member ::
  "(nat \<Rightarrow> bool) \<Rightarrow> jpath \<Rightarrow> string \<Rightarrow> 'd cJSON outcome \<Rightarrow>
   (string option \<Rightarrow> 'd jdoc \<Rightarrow> (bool \<times> 'd jdoc) option) \<Rightarrow> 'd jdoc \<Rightarrow> (bool \<times> 'd jdoc) option" where
  "replace_member al p key mk bad st =
     change_children (focus_old p st) cJSON_Object p mk bad
       (\<lambda>t it. cJSON_ReplaceItemInObject al t (c_str key) it) (\<lambda>_ t'. cJSON_GetObjectItem t' (c_str key) \<noteq> None)"

definition add_element ::
  "(nat \<Rightarrow> bool) \<Rightarrow> 'd fp \<Rightarrow> jpath \<Rightarrow> 'd cJSON outcome \<Rightarrow>
   (string option \<Rightarrow> 'd jdoc \<Rightarrow> (bool \<times> 'd jdoc) option) \<Rightarrow> 'd jdoc \<Rightarrow> (bool \<times> 'd jdoc) option" where
  "add_element al fp p mk bad st =
     change_children (focus_or_new (cJSON_CreateArray al fp) p st) cJSON_Array p mk bad
       cJSON_AddItemToArray (\<lambda>t t'. cJSON_GetArraySize t' \<noteq> cJSON_GetArraySize t)"

definition add_first ::
  "(nat \<Rightarrow> bool) \<Rightarrow> 'd fp \<Rightarrow> jpath \<Rightarrow> 'd cJSON outcome \<Rightarrow>
   (string option \<Rightarrow> 'd jdoc \<Rightarrow> (bool \<times> 'd jdoc) option) \<Rightarrow> 'd jdoc \<Rightarrow> (bool \<times> 'd jdoc) option" where
  "add_first al fp p mk bad st =
     change_children (focus_or_new (cJSON_CreateArray al fp) p st) cJSON_Array p mk bad
       cJSON_AddItemToArrayHead (\<lambda>t t'. cJSON_GetArraySize t' \<noteq> cJSON_GetArraySize t)"

definition replace_element ::
  "jpath \<Rightarrow> int \<Rightarrow> 'd cJSON outcome \<Rightarrow>
   (string option \<Rightarrow> 'd jdoc \<Rightarrow> (bool \<times> 'd jdoc) option) \<Rightarrow> 'd jdoc \<Rightarrow> (bool \<times> 'd jdoc) option" where
  "replace_element p which mk bad st =
     change_children (focus_old p st) cJSON_Array p mk bad
       (\<lambda>t it. cJSON_ReplaceItemInArray t which it) (\<lambda>_ t'. cJSON_GetArrayItem t' which \<noteq> None)"

text \<open>The objects kept for children that a change makes invalid; only some methods look after them.\<close>

definition after_ok :: "('d jdoc \<Rightarrow> 'd jdoc) \<Rightarrow> (bool \<times> 'd jdoc) option \<Rightarrow> (bool \<times> 'd jdoc) option" where
  "after_ok f r = map_option (\<lambda>(b, st). (b, if b then f st else st)) r"

definition drop_member :: "jpath \<Rightarrow> string \<Rightarrow> 'd jdoc \<Rightarrow> 'd jdoc" where
  "drop_member p key = jd_change p (\<lambda>x. cjo_set_obj (um_erase key (m_mapJsonObjectRef x)) x)"

definition drop_elements :: "jpath \<Rightarrow> (nat \<Rightarrow> bool) \<Rightarrow> 'd jdoc \<Rightarrow> 'd jdoc" where
  "drop_elements p bad = jd_change p (\<lambda>x. cjo_set_arr (filter (\<lambda>(i, _). \<not> bad i) (m_mapJsonArrayRef x)) x)"

text \<open>The index of the last element of the data, as \<^verbatim>\<open>unsigned int\<close>.\<close>

definition last_index :: "jpath \<Rightarrow> 'd jdoc \<Rightarrow> nat" where
  "last_index p st =
     (case jd_self p st of
        None \<Rightarrow> 0
      | Some x \<Rightarrow> (case GetJsonData x of
                     None \<Rightarrow> 0
                   | Some a \<Rightarrow> (case jd_deref a st of
                                  None \<Rightarrow> 0 | Some t \<Rightarrow> nat ((cJSON_GetArraySize t - 1) mod 2 ^ 32))))"

section \<open>Adding members\<close>

definition Add_key_object ::
  "(nat \<Rightarrow> bool) \<Rightarrow> 'd fp \<Rightarrow> jpath \<Rightarrow> string \<Rightarrow> string \<Rightarrow> 'd jdoc \<Rightarrow> (bool \<times> 'd jdoc) option" where
  "Add_key_object al fp p key text st =
     after_ok (drop_member p key) (add_member al fp p key (cJSON_Parse al fp (c_str text)) (parse_error p) st)"

definition Add_key_string ::
  "(nat \<Rightarrow> bool) \<Rightarrow> 'd fp \<Rightarrow> jpath \<Rightarrow> string \<Rightarrow> string \<Rightarrow> 'd jdoc \<Rightarrow> (bool \<times> 'd jdoc) option" where
  "Add_key_string al fp p key v st = add_member al fp p key (cJSON_CreateString al fp (c_str v)) refuse st"

definition Add_key_int32 ::
  "(nat \<Rightarrow> bool) \<Rightarrow> 'd fp \<Rightarrow> jpath \<Rightarrow> string \<Rightarrow> int \<Rightarrow> 'd jdoc \<Rightarrow> (bool \<times> 'd jdoc) option" where
  "Add_key_int32 al fp p key v st = add_member al fp p key (cJSON_CreateInt al fp (of_int v) (- 1)) refuse st"

definition Add_key_uint32 ::
  "(nat \<Rightarrow> bool) \<Rightarrow> 'd fp \<Rightarrow> jpath \<Rightarrow> string \<Rightarrow> int \<Rightarrow> 'd jdoc \<Rightarrow> (bool \<times> 'd jdoc) option" where
  "Add_key_uint32 al fp p key v st = add_member al fp p key (cJSON_CreateInt al fp (of_int v) 1) refuse st"

definition Add_key_int64 ::
  "(nat \<Rightarrow> bool) \<Rightarrow> 'd fp \<Rightarrow> jpath \<Rightarrow> string \<Rightarrow> int \<Rightarrow> 'd jdoc \<Rightarrow> (bool \<times> 'd jdoc) option" where
  "Add_key_int64 al fp p key v st = add_member al fp p key (cJSON_CreateInt al fp (of_int v) (- 1)) refuse st"

definition Add_key_uint64 ::
  "(nat \<Rightarrow> bool) \<Rightarrow> 'd fp \<Rightarrow> jpath \<Rightarrow> string \<Rightarrow> int \<Rightarrow> 'd jdoc \<Rightarrow> (bool \<times> 'd jdoc) option" where
  "Add_key_uint64 al fp p key v st = add_member al fp p key (cJSON_CreateInt al fp (of_int v) 1) refuse st"

definition Add_key_bool ::
  "(nat \<Rightarrow> bool) \<Rightarrow> 'd fp \<Rightarrow> jpath \<Rightarrow> string \<Rightarrow> bool \<Rightarrow> 'd jdoc \<Rightarrow> (bool \<times> 'd jdoc) option" where
  "Add_key_bool al fp p key v st = add_member al fp p key (cJSON_CreateBool al fp v) refuse st"

definition Add_key_double ::
  "(nat \<Rightarrow> bool) \<Rightarrow> 'd fp \<Rightarrow> jpath \<Rightarrow> string \<Rightarrow> 'd \<Rightarrow> 'd jdoc \<Rightarrow> (bool \<times> 'd jdoc) option" where
  "Add_key_double al fp p key v st = add_member al fp p key (cJSON_CreateDouble al fp v (- 1)) refuse st"

definition Add_key_float ::
  "(nat \<Rightarrow> bool) \<Rightarrow> 'd fp \<Rightarrow> ('f \<Rightarrow> 'd) \<Rightarrow> jpath \<Rightarrow> string \<Rightarrow> 'f \<Rightarrow> 'd jdoc \<Rightarrow> (bool \<times> 'd jdoc) option" where
  "Add_key_float al fp of_float p key v st = add_member al fp p key (cJSON_CreateDouble al fp (of_float v) (- 1)) refuse st"

definition AddEmptySubObject ::
  "(nat \<Rightarrow> bool) \<Rightarrow> 'd fp \<Rightarrow> jpath \<Rightarrow> string \<Rightarrow> 'd jdoc \<Rightarrow> (bool \<times> 'd jdoc) option" where
  "AddEmptySubObject al fp p key st =
     change_children (focus_or_new (cJSON_CreateObject al fp) p st) cJSON_Object p (cJSON_CreateObject al fp)
       (\<lambda>_ st. Some (False, jd_change p (cjo_set_err ''create sub empty object error!'') st))
       (\<lambda>t it. cJSON_AddItemToObject al t (c_str key) it) (\<lambda>_ _. True)"

definition AddEmptySubArray ::
  "(nat \<Rightarrow> bool) \<Rightarrow> 'd fp \<Rightarrow> jpath \<Rightarrow> string \<Rightarrow> 'd jdoc \<Rightarrow> (bool \<times> 'd jdoc) option" where
  "AddEmptySubArray al fp p key st =
     change_children (focus_or_new (cJSON_CreateObject al fp) p st) cJSON_Object p (cJSON_CreateArray al fp)
       (\<lambda>_ st. Some (False, jd_change p (cjo_set_err ''create sub empty array error!'') st))
       (\<lambda>t it. cJSON_AddItemToObject al t (c_str key) it) (\<lambda>_ _. True)"

section \<open>Replacing members\<close>

definition Replace_key_object ::
  "(nat \<Rightarrow> bool) \<Rightarrow> 'd fp \<Rightarrow> jpath \<Rightarrow> string \<Rightarrow> string \<Rightarrow> 'd jdoc \<Rightarrow> (bool \<times> 'd jdoc) option" where
  "Replace_key_object al fp p key text st =
     after_ok (drop_member p key) (replace_member al p key (cJSON_Parse al fp (c_str text)) (parse_error p) st)"

definition Replace_key_string ::
  "(nat \<Rightarrow> bool) \<Rightarrow> 'd fp \<Rightarrow> jpath \<Rightarrow> string \<Rightarrow> string \<Rightarrow> 'd jdoc \<Rightarrow> (bool \<times> 'd jdoc) option" where
  "Replace_key_string al fp p key v st = replace_member al p key (cJSON_CreateString al fp (c_str v)) refuse st"

definition Replace_key_int32 ::
  "(nat \<Rightarrow> bool) \<Rightarrow> 'd fp \<Rightarrow> jpath \<Rightarrow> string \<Rightarrow> int \<Rightarrow> 'd jdoc \<Rightarrow> (bool \<times> 'd jdoc) option" where
  "Replace_key_int32 al fp p key v st = replace_member al p key (cJSON_CreateInt al fp (of_int v) (- 1)) refuse st"

definition Replace_key_uint32 ::
  "(nat \<Rightarrow> bool) \<Rightarrow> 'd fp \<Rightarrow> jpath \<Rightarrow> string \<Rightarrow> int \<Rightarrow> 'd jdoc \<Rightarrow> (bool \<times> 'd jdoc) option" where
  "Replace_key_uint32 al fp p key v st = replace_member al p key (cJSON_CreateInt al fp (of_int v) 1) refuse st"

definition Replace_key_int64 ::
  "(nat \<Rightarrow> bool) \<Rightarrow> 'd fp \<Rightarrow> jpath \<Rightarrow> string \<Rightarrow> int \<Rightarrow> 'd jdoc \<Rightarrow> (bool \<times> 'd jdoc) option" where
  "Replace_key_int64 al fp p key v st = replace_member al p key (cJSON_CreateInt al fp (of_int v) (- 1)) refuse st"

definition Replace_key_uint64 ::
  "(nat \<Rightarrow> bool) \<Rightarrow> 'd fp \<Rightarrow> jpath \<Rightarrow> string \<Rightarrow> int \<Rightarrow> 'd jdoc \<Rightarrow> (bool \<times> 'd jdoc) option" where
  "Replace_key_uint64 al fp p key v st = replace_member al p key (cJSON_CreateInt al fp (of_int v) 1) refuse st"

definition Replace_key_bool ::
  "(nat \<Rightarrow> bool) \<Rightarrow> 'd fp \<Rightarrow> jpath \<Rightarrow> string \<Rightarrow> bool \<Rightarrow> 'd jdoc \<Rightarrow> (bool \<times> 'd jdoc) option" where
  "Replace_key_bool al fp p key v st = replace_member al p key (cJSON_CreateBool al fp v) refuse st"

definition Replace_key_double ::
  "(nat \<Rightarrow> bool) \<Rightarrow> 'd fp \<Rightarrow> jpath \<Rightarrow> string \<Rightarrow> 'd \<Rightarrow> 'd jdoc \<Rightarrow> (bool \<times> 'd jdoc) option" where
  "Replace_key_double al fp p key v st = replace_member al p key (cJSON_CreateDouble al fp v (- 1)) refuse st"

definition Replace_key_float ::
  "(nat \<Rightarrow> bool) \<Rightarrow> 'd fp \<Rightarrow> ('f \<Rightarrow> 'd) \<Rightarrow> jpath \<Rightarrow> string \<Rightarrow> 'f \<Rightarrow> 'd jdoc \<Rightarrow> (bool \<times> 'd jdoc) option" where
  "Replace_key_float al fp of_float p key v st = replace_member al p key (cJSON_CreateDouble al fp (of_float v) (- 1)) refuse st"

section \<open>Adding elements\<close>

definition Add_elem_object ::
  "(nat \<Rightarrow> bool) \<Rightarrow> 'd fp \<Rightarrow> jpath \<Rightarrow> string \<Rightarrow> 'd jdoc \<Rightarrow> (bool \<times> 'd jdoc) option" where
  "Add_elem_object al fp p text st =
     after_ok (\<lambda>st. drop_elements p (\<lambda>i. i \<ge> last_index p st) st)
       (add_element al fp p (cJSON_Parse al fp (c_str text)) (parse_error p) st)"

definition Add_elem_string ::
  "(nat \<Rightarrow> bool) \<Rightarrow> 'd fp \<Rightarrow> jpath \<Rightarrow> string \<Rightarrow> 'd jdoc \<Rightarrow> (bool \<times> 'd jdoc) option" where
  "Add_elem_string al fp p v st = add_element al fp p (cJSON_CreateString al fp (c_str v)) refuse st"

definition Add_elem_int32 ::
  "(nat \<Rightarrow> bool) \<Rightarrow> 'd fp \<Rightarrow> jpath \<Rightarrow> int \<Rightarrow> 'd jdoc \<Rightarrow> (bool \<times> 'd jdoc) option" where
  "Add_elem_int32 al fp p v st = add_element al fp p (cJSON_CreateInt al fp (of_int v) (- 1)) refuse st"

definition Add_elem_uint32 ::
  "(nat \<Rightarrow> bool) \<Rightarrow> 'd fp \<Rightarrow> jpath \<Rightarrow> int \<Rightarrow> 'd jdoc \<Rightarrow> (bool \<times> 'd jdoc) option" where
  "Add_elem_uint32 al fp p v st = add_element al fp p (cJSON_CreateInt al fp (of_int v) 1) refuse st"

definition Add_elem_int64 ::
  "(nat \<Rightarrow> bool) \<Rightarrow> 'd fp \<Rightarrow> jpath \<Rightarrow> int \<Rightarrow> 'd jdoc \<Rightarrow> (bool \<times> 'd jdoc) option" where
  "Add_elem_int64 al fp p v st = add_element al fp p (cJSON_CreateInt al fp (of_int v) (- 1)) refuse st"

definition Add_elem_uint64 ::
  "(nat \<Rightarrow> bool) \<Rightarrow> 'd fp \<Rightarrow> jpath \<Rightarrow> int \<Rightarrow> 'd jdoc \<Rightarrow> (bool \<times> 'd jdoc) option" where
  "Add_elem_uint64 al fp p v st = add_element al fp p (cJSON_CreateInt al fp (of_int v) 1) refuse st"

definition Add_elem_bool ::
  "(nat \<Rightarrow> bool) \<Rightarrow> 'd fp \<Rightarrow> jpath \<Rightarrow> bool \<Rightarrow> 'd jdoc \<Rightarrow> (bool \<times> 'd jdoc) option" where
  "Add_elem_bool al fp p v st = add_element al fp p (cJSON_CreateBool al fp v) refuse st"

definition Add_elem_double ::
  "(nat \<Rightarrow> bool) \<Rightarrow> 'd fp \<Rightarrow> jpath \<Rightarrow> 'd \<Rightarrow> 'd jdoc \<Rightarrow> (bool \<times> 'd jdoc) option" where
  "Add_elem_double al fp p v st = add_element al fp p (cJSON_CreateDouble al fp v (- 1)) refuse st"

definition Add_elem_float ::
  "(nat \<Rightarrow> bool) \<Rightarrow> 'd fp \<Rightarrow> ('f \<Rightarrow> 'd) \<Rightarrow> jpath \<Rightarrow> 'f \<Rightarrow> 'd jdoc \<Rightarrow> (bool \<times> 'd jdoc) option" where
  "Add_elem_float al fp of_float p v st = add_element al fp p (cJSON_CreateDouble al fp (of_float v) (- 1)) refuse st"

section \<open>Adding elements in front\<close>

definition AddAsFirst_object ::
  "(nat \<Rightarrow> bool) \<Rightarrow> 'd fp \<Rightarrow> jpath \<Rightarrow> string \<Rightarrow> 'd jdoc \<Rightarrow> (bool \<times> 'd jdoc) option" where
  "AddAsFirst_object al fp p text st =
     after_ok (drop_elements p (\<lambda>_. True)) (add_first al fp p (cJSON_Parse al fp (c_str text)) (parse_error p) st)"

definition AddAsFirst_string ::
  "(nat \<Rightarrow> bool) \<Rightarrow> 'd fp \<Rightarrow> jpath \<Rightarrow> string \<Rightarrow> 'd jdoc \<Rightarrow> (bool \<times> 'd jdoc) option" where
  "AddAsFirst_string al fp p v st = add_first al fp p (cJSON_CreateString al fp (c_str v)) refuse st"

definition AddAsFirst_int32 ::
  "(nat \<Rightarrow> bool) \<Rightarrow> 'd fp \<Rightarrow> jpath \<Rightarrow> int \<Rightarrow> 'd jdoc \<Rightarrow> (bool \<times> 'd jdoc) option" where
  "AddAsFirst_int32 al fp p v st = add_first al fp p (cJSON_CreateInt al fp (of_int v) (- 1)) refuse st"

definition AddAsFirst_uint32 ::
  "(nat \<Rightarrow> bool) \<Rightarrow> 'd fp \<Rightarrow> jpath \<Rightarrow> int \<Rightarrow> 'd jdoc \<Rightarrow> (bool \<times> 'd jdoc) option" where
  "AddAsFirst_uint32 al fp p v st = add_first al fp p (cJSON_CreateInt al fp (of_int v) 1) refuse st"

definition AddAsFirst_int64 ::
  "(nat \<Rightarrow> bool) \<Rightarrow> 'd fp \<Rightarrow> jpath \<Rightarrow> int \<Rightarrow> 'd jdoc \<Rightarrow> (bool \<times> 'd jdoc) option" where
  "AddAsFirst_int64 al fp p v st = add_first al fp p (cJSON_CreateInt al fp (of_int v) (- 1)) refuse st"

definition AddAsFirst_uint64 ::
  "(nat \<Rightarrow> bool) \<Rightarrow> 'd fp \<Rightarrow> jpath \<Rightarrow> int \<Rightarrow> 'd jdoc \<Rightarrow> (bool \<times> 'd jdoc) option" where
  "AddAsFirst_uint64 al fp p v st = add_first al fp p (cJSON_CreateInt al fp (of_int v) 1) refuse st"

definition AddAsFirst_bool ::
  "(nat \<Rightarrow> bool) \<Rightarrow> 'd fp \<Rightarrow> jpath \<Rightarrow> bool \<Rightarrow> 'd jdoc \<Rightarrow> (bool \<times> 'd jdoc) option" where
  "AddAsFirst_bool al fp p v st = add_first al fp p (cJSON_CreateBool al fp v) refuse st"

definition AddAsFirst_double ::
  "(nat \<Rightarrow> bool) \<Rightarrow> 'd fp \<Rightarrow> jpath \<Rightarrow> 'd \<Rightarrow> 'd jdoc \<Rightarrow> (bool \<times> 'd jdoc) option" where
  "AddAsFirst_double al fp p v st = add_first al fp p (cJSON_CreateDouble al fp v (- 1)) refuse st"

definition AddAsFirst_float ::
  "(nat \<Rightarrow> bool) \<Rightarrow> 'd fp \<Rightarrow> ('f \<Rightarrow> 'd) \<Rightarrow> jpath \<Rightarrow> 'f \<Rightarrow> 'd jdoc \<Rightarrow> (bool \<times> 'd jdoc) option" where
  "AddAsFirst_float al fp of_float p v st = add_first al fp p (cJSON_CreateDouble al fp (of_float v) (- 1)) refuse st"

section \<open>Replacing elements\<close>

definition Replace_idx_object ::
  "(nat \<Rightarrow> bool) \<Rightarrow> 'd fp \<Rightarrow> jpath \<Rightarrow> int \<Rightarrow> string \<Rightarrow> 'd jdoc \<Rightarrow> (bool \<times> 'd jdoc) option" where
  "Replace_idx_object al fp p which text st =
     after_ok (drop_elements p (\<lambda>i. int i = which mod 2 ^ 32))
       (replace_element p which (cJSON_Parse al fp (c_str text)) (parse_error p) st)"

definition Replace_idx_string ::
  "(nat \<Rightarrow> bool) \<Rightarrow> 'd fp \<Rightarrow> jpath \<Rightarrow> int \<Rightarrow> string \<Rightarrow> 'd jdoc \<Rightarrow> (bool \<times> 'd jdoc) option" where
  "Replace_idx_string al fp p which v st = replace_element p which (cJSON_CreateString al fp (c_str v)) refuse st"

definition Replace_idx_int32 ::
  "(nat \<Rightarrow> bool) \<Rightarrow> 'd fp \<Rightarrow> jpath \<Rightarrow> int \<Rightarrow> int \<Rightarrow> 'd jdoc \<Rightarrow> (bool \<times> 'd jdoc) option" where
  "Replace_idx_int32 al fp p which v st = replace_element p which (cJSON_CreateInt al fp (of_int v) (- 1)) refuse st"

definition Replace_idx_uint32 ::
  "(nat \<Rightarrow> bool) \<Rightarrow> 'd fp \<Rightarrow> jpath \<Rightarrow> int \<Rightarrow> int \<Rightarrow> 'd jdoc \<Rightarrow> (bool \<times> 'd jdoc) option" where
  "Replace_idx_uint32 al fp p which v st = replace_element p which (cJSON_CreateInt al fp (of_int v) 1) refuse st"

definition Replace_idx_int64 ::
  "(nat \<Rightarrow> bool) \<Rightarrow> 'd fp \<Rightarrow> jpath \<Rightarrow> int \<Rightarrow> int \<Rightarrow> 'd jdoc \<Rightarrow> (bool \<times> 'd jdoc) option" where
  "Replace_idx_int64 al fp p which v st = replace_element p which (cJSON_CreateInt al fp (of_int v) (- 1)) refuse st"

definition Replace_idx_uint64 ::
  "(nat \<Rightarrow> bool) \<Rightarrow> 'd fp \<Rightarrow> jpath \<Rightarrow> int \<Rightarrow> int \<Rightarrow> 'd jdoc \<Rightarrow> (bool \<times> 'd jdoc) option" where
  "Replace_idx_uint64 al fp p which v st = replace_element p which (cJSON_CreateInt al fp (of_int v) 1) refuse st"

definition Replace_idx_bool ::
  "(nat \<Rightarrow> bool) \<Rightarrow> 'd fp \<Rightarrow> jpath \<Rightarrow> int \<Rightarrow> bool \<Rightarrow> 'd jdoc \<Rightarrow> (bool \<times> 'd jdoc) option" where
  "Replace_idx_bool al fp p which v st = replace_element p which (cJSON_CreateBool al fp v) refuse st"

definition Replace_idx_double ::
  "(nat \<Rightarrow> bool) \<Rightarrow> 'd fp \<Rightarrow> jpath \<Rightarrow> int \<Rightarrow> 'd \<Rightarrow> 'd jdoc \<Rightarrow> (bool \<times> 'd jdoc) option" where
  "Replace_idx_double al fp p which v st = replace_element p which (cJSON_CreateDouble al fp v (- 1)) refuse st"

definition Replace_idx_float ::
  "(nat \<Rightarrow> bool) \<Rightarrow> 'd fp \<Rightarrow> ('f \<Rightarrow> 'd) \<Rightarrow> jpath \<Rightarrow> int \<Rightarrow> 'f \<Rightarrow> 'd jdoc \<Rightarrow> (bool \<times> 'd jdoc) option" where
  "Replace_idx_float al fp of_float p which v st = replace_element p which (cJSON_CreateDouble al fp (of_float v) (- 1)) refuse st"

section \<open>Deleting children\<close>

definition delete_children ::
  "nat \<Rightarrow> ('d cJSON \<Rightarrow> 'd cJSON) \<Rightarrow> ('d jdoc \<Rightarrow> 'd jdoc) \<Rightarrow> jpath \<Rightarrow> 'd jdoc \<Rightarrow> (bool \<times> 'd jdoc) option" where
  "delete_children ty del forget p st = do {
     x \<leftarrow> jd_self p st;
     case GetJsonData x of
       None \<Rightarrow> Some (False, jd_change p (cjo_set_err ''json data is null!'') st)
     | Some a \<Rightarrow> do {
         t \<leftarrow> jd_deref a st;
         if j_type t \<noteq> ty then Some (False, jd_change p (cjo_set_err (wrong_type ty)) st)
         else Some (True, forget (jd_modify a del st))
       }
   }"

definition Delete_key :: "jpath \<Rightarrow> string \<Rightarrow> 'd jdoc \<Rightarrow> (bool \<times> 'd jdoc) option" where
  "Delete_key p key =
     delete_children cJSON_Object (\<lambda>t. cJSON_DeleteItemFromObject t (c_str key)) (drop_member p key) p"

definition Delete_idx :: "jpath \<Rightarrow> int \<Rightarrow> 'd jdoc \<Rightarrow> (bool \<times> 'd jdoc) option" where
  "Delete_idx p which =
     delete_children cJSON_Array (\<lambda>t. cJSON_DeleteItemFromArray t which)
       (drop_elements p (\<lambda>i. int i \<ge> which mod 2 ^ 32)) p"

section \<open>Following addresses\<close>

lemma trees_map_trees: "trees (map_trees f x) = map f (trees x)"
proof (induction x)
  case (CJsonObject d e m as os)
  have "map (\<lambda>(_, y). trees y) (map (\<lambda>(i, y). (i, map_trees f y)) as) = map (\<lambda>(_, y). map f (trees y)) as"
    using CJsonObject(1) by (auto simp: snds.simps)
  moreover have "map (\<lambda>(_, y). trees y) (map (\<lambda>(i, y). (i, map_trees f y)) os) = map (\<lambda>(_, y). map f (trees y)) os"
    using CJsonObject(2) by (auto simp: snds.simps)
  ultimately show ?case by (auto simp: map_concat comp_def split_def split: option.split cong: map_cong)
qed

lemma map_node_addr: "(\<And>x. j_addr (f x) = j_addr x) \<Longrightarrow> j_addr (map_node a f t) = j_addr t"
  by (cases t) auto

lemma node_map_node:
  assumes f: "\<And>x. j_addr (f x) = j_addr x"
  shows "node_at a (map_node a f t) = map_option f (node_at a t)"
    and "node_in a (map (map_node a f) ts) = map_option f (node_in a ts)"
proof (induction t and ts rule: node_at_node_in.induct)
  case (1 a b ty s i d sg n ch)
  show ?case
  proof (cases "a = b")
    case True
    have "j_addr (f (Item b ty s i d sg n ch)) = b" using f by simp
    then show ?thesis using True by (cases "f (Item b ty s i d sg n ch)") simp
  qed (use 1 in simp)
qed (auto split: option.split)

lemma deref_modify:
  "(\<And>x. j_addr (f x) = j_addr x) \<Longrightarrow> jd_deref a (jd_modify a f st) = map_option f (jd_deref a st)"
  by (simp add: jd_deref_def jd_modify_def trees_map_trees node_map_node)

lemma um_find_map: "um_find (map (\<lambda>(i, x). (i, g x)) m) k = map_option g (um_find m k)"
  by (induction m) (auto simp: um_find_def)

lemma map_trees_maps:
  "m_mapJsonArrayRef (map_trees g x) = map (\<lambda>(i, y). (i, map_trees g y)) (m_mapJsonArrayRef x)"
  "m_mapJsonObjectRef (map_trees g x) = map (\<lambda>(i, y). (i, map_trees g y)) (m_mapJsonObjectRef x)"
  by (cases x; simp)+

lemma self_modify: "jd_self p (jd_modify a f st) = map_option (map_trees (map_node a f)) (jd_self p st)"
proof -
  have "cjo_at p (map_trees g x) = map_option (map_trees g) (cjo_at p x)" for g x
    by (induction p x rule: cjo_at.induct) (auto simp: um_find_map map_trees_maps split: option.split)
  then show ?thesis by (simp add: jd_self_def jd_modify_def)
qed

lemma GetJsonData_map:
  "(\<And>x. j_addr (f x) = j_addr x) \<Longrightarrow> GetJsonData (map_trees (map_node a f) x) = GetJsonData x"
  by (cases x) (auto simp: GetJsonData_def map_node_addr split: option.split)

lemma set_addr [simp]: "j_addr (set_child ch t) = j_addr t" "j_addr (set_name n t) = j_addr t"
  by (cases t; simp)+

lemma children_addr [simp]:
  "j_addr (cJSON_AddItemToObject al t k it) = j_addr t" "j_addr (cJSON_AddItemToArray t it) = j_addr t"
  "j_addr (cJSON_AddItemToArrayHead t it) = j_addr t" "j_addr (cJSON_ReplaceItemInArray t w it) = j_addr t"
  "j_addr (cJSON_ReplaceItemInObject al t k it) = j_addr t"
  by (simp_all add: cJSON_AddItemToObject_def cJSON_AddItemToArray_def cJSON_AddItemToArrayHead_def
      cJSON_ReplaceItemInArray_def cJSON_ReplaceItemInObject_def split: option.split)

lemma place_simps: "fst (jd_place it st) = fst (label (jd_fresh st) it)"
  "jd_top (snd (jd_place it st)) = jd_top st"
  by (simp_all add: jd_place_def split: prod.split)

lemma place_invariant: "jd_self p (snd (jd_place it st)) = jd_self p st" "jd_deref a (snd (jd_place it st)) = jd_deref a st"
  by (simp_all add: jd_self_def jd_deref_def place_simps)

section \<open>Values read back\<close>

lemma strcasecmp_refl [simp]: "strcasecmp_loop s s = 0"
  by (induction s) auto

lemma find_name_append:
  "find_name s (ch @ [c]) =
     (case find_name s ch of
        Some i \<Rightarrow> Some i | None \<Rightarrow> if cJSON_strcasecmp (j_name c) (Some s) = 0 then Some (length ch) else None)"
  by (induction ch) (auto split: option.splits)

lemma find_name_Some: "find_name s ch = Some i \<Longrightarrow> i < length ch \<and> cJSON_strcasecmp (j_name (ch ! i)) (Some s) = 0"
  by (induction ch arbitrary: i) (auto split: if_splits)

lemma find_name_update:
  "find_name s ch = Some i \<Longrightarrow> cJSON_strcasecmp (j_name c) (Some s) = 0 \<Longrightarrow> find_name s (ch[i := c]) = Some i"
  by (induction ch arbitrary: i) (auto split: if_splits)


lemma dup_name_always [simp]: "dup_name always s = Some s"
  by (simp add: dup_name_def cJSON_strdup_def alloc_def fits_def)

text \<open>An object whose data is a JSON object.\<close>

definition holds_object :: "jpath \<Rightarrow> 'd jdoc \<Rightarrow> nat \<Rightarrow> 'd cJSON \<Rightarrow> bool" where
  "holds_object p st a t =
     (jd_deref a st = Some t \<and> j_type t = cJSON_Object \<and> map_option GetJsonData (jd_self p st) = Some (Some a))"

lemma get_member_object: "holds_object p st a t \<Longrightarrow> get_member p key st = Some (cJSON_GetObjectItem t (c_str key))"
  by (auto simp: holds_object_def get_member_def look_def)

lemma change_children_object:
  fixes f :: "'d cJSON \<Rightarrow> 'd cJSON \<Rightarrow> 'd cJSON"
  assumes h: "holds_object p st a t" and f: "\<And>x y. j_addr (f x y) = j_addr x" "\<And>x y. j_type (f x y) = j_type x"
  shows "\<exists>st'. change_children (Some (Some a, st)) cJSON_Object p (Ok it) bad f fin =
      Some (fin t (f t (fst (label (jd_fresh st) it))), st') \<and> holds_object p st' a (f t (fst (label (jd_fresh st) it))) \<and>
      (\<exists>g. jd_self p st' = map_option (map_trees g) (jd_self p st))"
proof -
  let ?new = "fst (label (jd_fresh st) it)" and ?st1 = "snd (jd_place it st)"
  let ?st2 = "jd_modify a (\<lambda>x. f x ?new) ?st1"

  have d: "jd_deref a ?st2 = Some (f t ?new)"
    using h deref_modify [of "\<lambda>x. f x ?new" a ?st1] f(1) by (simp add: place_invariant holds_object_def)
  moreover have "map_option GetJsonData (jd_self p ?st2) = Some (Some a)"
    using h GetJsonData_map [of "\<lambda>x. f x ?new"] f(1)
    by (auto simp: holds_object_def self_modify place_invariant)
  ultimately have "holds_object p ?st2 a (f t ?new)" using h f(2) by (simp add: holds_object_def)
  moreover have "jd_deref a st = Some t" "j_type t = cJSON_Object" using h by (simp_all add: holds_object_def)
  ultimately show ?thesis using d
    by (intro exI [of _ ?st2]) (auto simp: change_children_def split_def Let_def place_simps self_modify place_invariant)
qed

text \<open>
  Making an item from a value and reading the value from an item, as the overloads for one type do;
  neither the address nor the name of the item matters.
\<close>

locale typed_value =
  fixes mk :: "'v \<Rightarrow> 'd cJSON outcome" and rd :: "'d cJSON \<Rightarrow> 'v option option" and ok :: "'v \<Rightarrow> bool"
  assumes mk_rd: "ok v \<Longrightarrow> \<exists>it. mk v = Ok it \<and> rd it = Some (Some v)"
    and rd_local: "rd (set_name n (fst (label k it))) = rd it"
begin

lemma add_get_self:
  assumes h: "holds_object p st a t" and new: "find_name (c_str key) (j_child t) = None" and v: "ok v"
  shows "\<exists>st'. add_member always fp p key (mk v) bad st = Some (True, st') \<and>
    read_with rd (get_member p key st') = Some (Some v) \<and> (\<exists>g. jd_self p st' = map_option (map_trees g) (jd_self p st))"
proof -
  obtain it where it: "mk v = Ok it" "rd it = Some (Some v)" using mk_rd [OF v] by blast
  let ?f = "\<lambda>t it. cJSON_AddItemToObject always t (c_str key) it"
  let ?new = "fst (label (jd_fresh st) it)"
  have foc: "focus_or_new (cJSON_CreateObject always fp) p st = Some (Some a, st)"
    using h by (auto simp: focus_or_new_def holds_object_def)
  have item: "cJSON_GetObjectItem (?f t ?new) (c_str key) = Some (set_name (Some (c_str key)) ?new)"
    using new by (simp add: cJSON_GetObjectItem_def cJSON_AddItemToObject_def cJSON_AddItemToArray_def find_name_append)
  obtain st' where "add_member always fp p key (mk v) bad st = Some (True, st')" "holds_object p st' a (?f t ?new)"
    "\<exists>g. jd_self p st' = map_option (map_trees g) (jd_self p st)"
    using change_children_object [OF h, of ?f it bad "\<lambda>_ t'. cJSON_GetObjectItem t' (c_str key) \<noteq> None"] it(1) foc item
    by (auto simp: add_member_def cJSON_AddItemToObject_def cJSON_AddItemToArray_def)
  then show ?thesis using it(2) item by (auto simp: get_member_object read_with_def rd_local)
qed

lemma add_get:
  assumes "holds_object p st a t" "find_name (c_str key) (j_child t) = None" "ok v"
  shows "\<exists>st'. add_member always fp p key (mk v) bad st = Some (True, st') \<and>
    read_with rd (get_member p key st') = Some (Some v)"
  using add_get_self [OF assms] by blast

lemma replace_get:
  assumes h: "holds_object p st a t" and old: "find_name (c_str key) (j_child t) = Some i" and v: "ok v"
  shows "\<exists>st'. replace_member always p key (mk v) bad st = Some (True, st') \<and>
    read_with rd (get_member p key st') = Some (Some v)"
proof -
  obtain it where it: "mk v = Ok it" "rd it = Some (Some v)" using mk_rd [OF v] by blast
  let ?f = "\<lambda>t it. cJSON_ReplaceItemInObject always t (c_str key) it"
  let ?new = "fst (label (jd_fresh st) it)"
  have foc: "focus_old p st = Some (Some a, st)" using h by (auto simp: focus_old_def holds_object_def)
  have i: "i < length (j_child t)" using find_name_Some [OF old] by simp
  have item: "cJSON_GetObjectItem (?f t ?new) (c_str key) = Some (set_name (Some (c_str key)) ?new)"
    using old i by (simp add: cJSON_GetObjectItem_def cJSON_ReplaceItemInObject_def cJSON_ReplaceItemInArray_def find_name_update)
  have ty: "j_type (?f x y) = j_type x" for x y
    by (auto simp: cJSON_ReplaceItemInObject_def cJSON_ReplaceItemInArray_def split: option.split)
  obtain st' where "replace_member always p key (mk v) bad st = Some (True, st')" "holds_object p st' a (?f t ?new)"
    using change_children_object [OF h, of ?f it bad "\<lambda>_ t'. cJSON_GetObjectItem t' (c_str key) \<noteq> None"] it(1) foc item ty
    by (auto simp: replace_member_def)
  then show ?thesis using it(2) item by (auto simp: get_member_object read_with_def rd_local)
qed

end

lemma label_fields [simp]:
  "j_type (fst (label k it)) = j_type it" "j_str (fst (label k it)) = j_str it" "j_int (fst (label k it)) = j_int it"
  "j_dbl (fst (label k it)) = j_dbl it" "j_int (set_name n it) = j_int it" "j_dbl (set_name n it) = j_dbl it"
  by (cases it; simp split: prod.split)+

lemma made_items:
  "cJSON_CreateInt always fp w sg = Ok (Item 0 cJSON_Int None w (fp_of_u64 fp w) sg None [])"
  "cJSON_CreateString always fp s = Ok (Item 0 cJSON_String (Some s) 0 (fp_zero fp) 0 None [])"
  "cJSON_CreateBool always fp b = Ok (Item 0 (if b then cJSON_True else cJSON_False) None 0 (fp_zero fp) 0 None [])"
  "cJSON_CreateDouble always fp d sg = Ok (Item 0 cJSON_Double None (fp_to_u64 fp d) d sg None [])"
  by (simp_all add: cJSON_CreateInt_def cJSON_CreateString_def cJSON_CreateBool_def cJSON_CreateDouble_def
      cJSON_New_Item_def blank_def)

lemma uint_of_int: "uint (of_int v :: u64) = v mod 2 ^ 64"
  by (simp add: unsigned_of_int take_bit_eq_mod)

lemma i32_uint: "- (2 ^ 31) \<le> v \<Longrightarrow> v < 2 ^ 31 \<Longrightarrow> i32 (uint (of_int v :: u64)) = v"
proof -
  assume v: "- (2 ^ 31) \<le> v" "v < 2 ^ 31"
  have "(v mod 18446744073709551616) mod 4294967296 = v mod (4294967296 :: int)"
    by (rule mod_mod_cancel) simp
  then have "(v mod 18446744073709551616 + 2147483648) mod 4294967296 = (v + 2147483648) mod 4294967296"
    by (rule mod_add_cong) simp
  then have "i32 (v mod 18446744073709551616) = i32 v" by (simp only: i32_def)
  then show ?thesis using v by (simp add: uint_of_int)
qed

interpretation tv_string: typed_value "\<lambda>v. cJSON_CreateString always fp (c_str v)" rd_string no_nul for fp
  by unfold_locales (simp_all add: made_items rd_string_def c_str_no_nul)

interpretation tv_int32: typed_value "\<lambda>v. cJSON_CreateInt always fp (of_int v) (- 1)" rd_int32
    "\<lambda>v. - (2 ^ 31) \<le> v \<and> v < 2 ^ 31" for fp
  by unfold_locales (simp_all add: made_items rd_int32_def i32_uint)

interpretation tv_uint32: typed_value "\<lambda>v. cJSON_CreateInt always fp (of_int v) 1" rd_uint32
    "\<lambda>v. 0 \<le> v \<and> v < 2 ^ 32" for fp
  by unfold_locales (simp_all add: made_items rd_uint32_def uint_of_int)

interpretation tv_int64: typed_value "\<lambda>v. cJSON_CreateInt always fp (of_int v) (- 1)" rd_int64
    "\<lambda>v. - (2 ^ 63) \<le> v \<and> v < 2 ^ 63" for fp
  by unfold_locales (simp_all add: made_items rd_int64_def signed_of_int signed_take_bit_int_eq_self)

interpretation tv_uint64: typed_value "\<lambda>v. cJSON_CreateInt always fp (of_int v) 1" rd_uint64
    "\<lambda>v. 0 \<le> v \<and> v < 2 ^ 64" for fp
  by unfold_locales (simp_all add: made_items rd_uint64_def uint_of_int)

interpretation tv_bool: typed_value "cJSON_CreateBool always fp" rd_bool "\<lambda>_. True" for fp
  by unfold_locales (auto simp: made_items rd_bool_def cjson_types)

interpretation tv_double: typed_value "\<lambda>v. cJSON_CreateDouble always fp v (- 1)" rd_double "\<lambda>_. True" for fp
  by unfold_locales (simp_all add: made_items rd_double_def)

section \<open>Reading what was added\<close>

text \<open>An item with children, for the examples: the document \<^verbatim>\<open>{"a":1}\<close>.\<close>

definition test_doc :: "(int \<times> int) jdoc" where
  "test_doc = \<lparr>jd_top = CJsonObject (Some (Item 0 cJSON_Object None 0 (0, 0) 0 None
       [Item 1 cJSON_Int None 1 (1, 0) 1 (Some ''a'') []])) None '''' [] [], jd_fresh = 2\<rparr>"

lemma test_doc_holds:
  "holds_object [] test_doc 0 (Item 0 cJSON_Object None 0 (0, 0) 0 None [Item 1 cJSON_Int None 1 (1, 0) 1 (Some ''a'') []])"
  by (simp add: holds_object_def test_doc_def jd_deref_def jd_self_def GetJsonData_def)

lemma c_str_b: "c_str ''b'' = ''b''"
  by (simp add: c_str_def)



text \<open>
  \<^verbatim>\<open>Add\<close> under a key that exists already also answers true, but the new member is put behind the old one
  and is never found: \<^verbatim>\<open>Get\<close> gives the old value as before.
\<close>

theorem json_add_existing_key:
  assumes h: "holds_object p st a t" and old: "find_name (c_str key) (j_child t) = Some i"
  shows "\<exists>st'. Add_key_int32 always fp p key v st = Some (True, st') \<and> get_member p key st' = get_member p key st"
proof -
  let ?f = "\<lambda>t it. cJSON_AddItemToObject always t (c_str key) it"
  let ?it = "Item 0 cJSON_Int None (of_int v) (fp_of_u64 fp (of_int v)) (- 1) None []"
  let ?new = "fst (label (jd_fresh st) ?it)"
  have foc: "focus_or_new (cJSON_CreateObject always fp) p st = Some (Some a, st)"
    using h by (auto simp: focus_or_new_def holds_object_def)
  have item: "cJSON_GetObjectItem (?f t ?new) (c_str key) = Some (j_child t ! i)" "cJSON_GetObjectItem t (c_str key) = Some (j_child t ! i)"
    using old find_name_Some [OF old]
    by (simp_all add: cJSON_GetObjectItem_def cJSON_AddItemToObject_def cJSON_AddItemToArray_def find_name_append nth_append)
  obtain st' where "Add_key_int32 always fp p key v st = Some (True, st')" "holds_object p st' a (?f t ?new)"
    using change_children_object [OF h, of ?f ?it refuse "\<lambda>_ t'. cJSON_GetObjectItem t' (c_str key) \<noteq> None"] foc item
    by (auto simp: Add_key_int32_def add_member_def made_items cJSON_AddItemToObject_def cJSON_AddItemToArray_def)
  then show ?thesis using item h by (auto simp: get_member_object)
qed

theorem json_add_existing_key_witness:
  "\<exists>st'. Add_key_int32 always decimals [] ''a'' 2 test_doc = Some (True, st') \<and>
    get_member [] ''a'' st' = get_member [] ''a'' test_doc"
  using json_add_existing_key [OF test_doc_holds, of "''a''" 0 decimals 2] by (simp add: c_str_def)

section \<open>Objects that outlive their items\<close>

fun addrs :: "'d cJSON \<Rightarrow> nat list" where
  "addrs (Item a ty s i d sg n ch) = a # concat (map addrs ch)"

lemma addrs_label:
  fixes t :: "'d cJSON" and ts :: "'d cJSON list"
  shows "addrs (fst (label k t)) = [k ..< snd (label k t)] \<and> k < snd (label k t)"
  "concat (map addrs (fst (labels k ts))) = [k ..< snd (labels k ts)] \<and> k \<le> snd (labels k ts)"
proof (induction k t and k ts rule: label_labels.induct)
  case (1 k b ty s i d sg n ch)
  then show ?case by (auto simp: split_def Let_def upt_conv_Cons)
next
  case (3 k c cs)
  let ?k1 = "snd (label k c)" and ?k2 = "snd (labels (snd (label k c)) cs)"
  have "addrs (fst (label k c)) = [k ..< ?k1]" "k < ?k1" "?k1 \<le> ?k2"
    "concat (map addrs (fst (labels ?k1 cs))) = [?k1 ..< ?k2]"
    using 3 by (auto simp: prod_eq_iff)
  moreover have "[k ..< ?k1] @ [?k1 ..< ?k2] = [k ..< ?k2]"
    using calculation upt_add_eq_append [of k ?k1 "?k2 - ?k1"] by simp
  ultimately show ?case by (auto simp: split_def Let_def)
qed simp

lemma node_None:
  fixes t :: "'d cJSON" and ts :: "'d cJSON list"
  shows "a \<notin> set (addrs t) \<Longrightarrow> node_at a t = None" "a \<notin> set (concat (map addrs ts)) \<Longrightarrow> node_in a ts = None"
  by (induction a t and a ts rule: node_at_node_in.induct) auto

lemma addrs_update:
  assumes "distinct (concat (map addrs ch))" "i < length ch" "b \<in> set (addrs (ch ! i))" "b \<notin> set (addrs x)"
  shows "b \<notin> set (concat (map addrs (ch[i := x])))"
proof -
  have "concat (map addrs ch) = concat (map addrs (take i ch)) @ addrs (ch ! i) @ concat (map addrs (drop (Suc i) ch))"
    using assms(2) by (subst id_take_nth_drop [of i ch]) simp_all
  then have "b \<notin> set (concat (map addrs (take i ch))) \<union> set (concat (map addrs (drop (Suc i) ch)))"
    using assms(1,3) by auto
  then show ?thesis using assms(2,4) by (simp add: upd_conv_take_nth_drop)
qed

lemma addr_addrs: "j_addr t \<in> set (addrs t)"
  by (cases t) simp

lemma addrs_children: "addrs t = j_addr t # concat (map addrs (j_child t))"
  by (cases t) simp

lemma addrs_set [simp]:
  "addrs (set_name n t) = addrs t" "addrs (set_child ch t) = j_addr t # concat (map addrs ch)"
  by (cases t; simp)+

text \<open>The top object after a parse, and after \<^verbatim>\<open>operator()\<close> has kept an object for a member.\<close>

lemma parsed_top:
  assumes "cjo_Parse al fp [] text st0 = Some (True, st)"
  obtains k t e where "jd_top st = CJsonObject (Some t) None e [] []" "addrs t = [k ..< jd_fresh st]"
proof -
  obtain it where it: "cJSON_Parse al fp (c_str text) = Ok it"
    using assms by (auto simp: cjo_Parse_def parse_error_def Let_def split: outcome.splits option.splits)
  then show thesis
    using assms that [of "fst (label (jd_fresh st0) it)"] addrs_label(1) [of "jd_fresh st0" it]
    by (cases "jd_top st0") (auto simp: cjo_Parse_def jd_place_def jd_change_def jd_self_def jd_set_self_def cjo_Clear_def split: prod.splits)
qed

lemma get_member_top:
  assumes "jd_top st = CJsonObject (Some t) None e as os" "get_member [] key st = Some (Some it)"
  shows "j_type t = cJSON_Object \<and> jd_deref (j_addr t) st = Some t \<and> cJSON_GetObjectItem t (c_str key) = Some it"
proof -
  have d: "jd_deref (j_addr t) st = Some t" using assms(1) by (cases t) (simp add: jd_deref_def)
  then show ?thesis using assms by (simp add: get_member_def look_def jd_self_def GetJsonData_def split: if_splits)
qed

lemma replace_frees:
  assumes t: "addrs t = [k ..< n]" and g: "cJSON_GetObjectItem t key = Some old" and new: "set (addrs new) \<subseteq> {n ..}"
  shows "node_at (j_addr old) (cJSON_ReplaceItemInObject always t key new) = None"
proof -
  obtain i where i: "find_name key (j_child t) = Some i" "old = j_child t ! i"
    using g by (auto simp: cJSON_GetObjectItem_def split: option.splits)
  have len: "i < length (j_child t)" using find_name_Some [OF i(1)] by simp
  have d: "distinct (addrs t)" unfolding t by simp
  have b: "j_addr old \<in> set (addrs (j_child t ! i))" using i(2) addr_addrs by metis
  then have m: "j_addr old \<in> set (concat (map addrs (j_child t)))" using len by auto
  then have "j_addr old \<in> set (addrs t)" by (simp add: addrs_children [of t])
  then have "j_addr old < n" unfolding t by simp
  then have "j_addr old \<notin> set (addrs (set_name (Some key) new))" using new by auto
  then have "j_addr old \<notin> set (concat (map addrs ((j_child t)[i := set_name (Some key) new])))"
    using d by (intro addrs_update [OF _ len b]) (simp_all add: addrs_children [of t])
  moreover have "j_addr old \<noteq> j_addr t" using d m by (auto simp: addrs_children [of t])
  ultimately show ?thesis
    using i(1) len by (intro node_None(1)) (simp add: cJSON_ReplaceItemInObject_def cJSON_ReplaceItemInArray_def)
qed

lemma replaced_found:
  assumes "cJSON_GetObjectItem t key = Some old"
  shows "\<exists>x. cJSON_GetObjectItem (cJSON_ReplaceItemInObject always t key new) key = Some x"
proof -
  obtain i where i: "find_name key (j_child t) = Some i"
    using assms by (auto simp: cJSON_GetObjectItem_def split: option.splits)
  then show ?thesis using find_name_Some [OF i]
    by (simp add: cJSON_GetObjectItem_def cJSON_ReplaceItemInObject_def cJSON_ReplaceItemInArray_def find_name_update)
qed

text \<open>
  A scalar \<^verbatim>\<open>Replace\<close> leaves a dangling object behind: after any parse, reading a member with
  \<^verbatim>\<open>operator()\<close>, replacing it by a number and reading it again follows the address of the freed item.
\<close>

theorem json_replace_dangles:
  assumes p: "cjo_Parse al fp [] text st0 = Some (True, st)" and m: "get_member [] key st = Some (Some it)"
    and c: "call_key fp [] key st = Some (s, st1)"
  shows "\<exists>st2. Replace_key_int32 always fp [] key v st1 = Some (True, st2) \<and> call_key fp [] key st2 = None"
proof -
  obtain k t e where top: "jd_top st = CJsonObject (Some t) None e [] []" and a: "addrs t = [k ..< jd_fresh st]"
    using p by (rule parsed_top)
  note g = get_member_top [OF top m]
  let ?it = "Item 0 cJSON_Int None (of_int v) (fp_of_u64 fp (of_int v)) (- 1) None []"
  let ?new = "fst (label (jd_fresh st) ?it)"
  let ?t = "cJSON_ReplaceItemInObject always t (c_str key) ?new"
  let ?st = "\<lparr>jd_top = CJsonObject (Some ?t) None e [] [(key, cjo_ref (j_addr it))], jd_fresh = snd (label (jd_fresh st) ?it)\<rparr>"
  have st1: "st1 = st\<lparr>jd_top := CJsonObject (Some t) None e [] [(key, cjo_ref (j_addr it))]\<rparr>"
    using c m by (auto simp: call_key_def top jd_self_def keep_member_def jd_change_def jd_set_self_def um_find_def um_put_def
        split: bind_splits)
  have sub: "set (addrs ?new) \<subseteq> {jd_fresh st ..}"
    using addrs_label(1) [of "jd_fresh st" ?it] by auto
  have gone: "node_at (j_addr it) ?t = None" using replace_frees [OF a _ sub] g by simp
  have found: "\<exists>x. cJSON_GetObjectItem ?t (c_str key) = Some x" using replaced_found [of t] g by blast
  have mod: "jd_modify (j_addr t) (\<lambda>x. cJSON_ReplaceItemInObject always x (c_str key) ?new) (snd (jd_place ?it st1)) = ?st"
    by (cases t) (simp add: st1 jd_modify_def cjo_ref_def jd_place_def)
  have at: "node_at (j_addr x) x = Some x" for x :: "'a cJSON" by (cases x) simp
  have "jd_deref (j_addr t) ?st = Some ?t" using at [of ?t] by (simp add: jd_deref_def cjo_ref_def)
  then have "Replace_key_int32 always fp [] key v st1 = Some (True, ?st)"
    using g found mod at [of t]
    by (simp add: Replace_key_int32_def replace_member_def change_children_def focus_old_def jd_self_def GetJsonData_def
        made_items split_def Let_def place_simps jd_deref_def st1)
  moreover have "call_key fp [] key ?st = None"
    using gone by (simp add: call_key_def jd_self_def kept_item_def cjo_ref_def GetJsonData_def jd_deref_def um_find_def)
  ultimately show ?thesis by blast
qed

text \<open>The document for the examples: the text of \<^const>\<open>test_item\<close>, parsed.\<close>

definition parsed_doc :: "(int \<times> int) jdoc" where
  "parsed_doc = \<lparr>jd_top = CJsonObject (Some (Item 0 cJSON_Object None 0 (0, 0) 0 None
       [Item 1 cJSON_Int None (- 5) (fp_of_u64 decimals (- 5)) (- 1) (Some ''n'') [],
        Item 2 cJSON_Array None 0 (0, 0) 0 (Some ''l'')
          [Item 3 cJSON_True None 1 (0, 0) 0 None [], Item 4 cJSON_String (Some ''a b'') 0 (0, 0) 0 None []]])) None '''' [] [],
     jd_fresh = 5\<rparr>"


lemma test_parsed:
  "cjo_Parse always decimals [] (render decimals 0 False test_item) new_doc = Some (True, parsed_doc)"
proof -
  have "cJSON_Parse always decimals (c_str (render decimals 0 False test_item)) = Ok (norm decimals None test_item)"
    using print_parse [OF test_item_ok test_item_printable, of False] c_str_no_nul [OF no_nul_render [OF test_item_ok]] by simp
  moreover have "fst (label 0 (norm decimals None test_item)) = the (m_pJsonData (jd_top parsed_doc))"
    "snd (label 0 (norm decimals None test_item)) = jd_fresh parsed_doc"
    by (simp_all add: test_item_def parsed_doc_def norm.simps cjson_types decimals_def)
  ultimately show ?thesis
    by (simp add: cjo_Parse_def new_doc_def jd_change_def jd_self_def jd_set_self_def cjo_Clear_def cjo_new_def jd_place_def
        parsed_doc_def split_def)
qed

lemma parsed_doc_member:
  "get_member [] ''n'' parsed_doc = Some (Some (Item 1 cJSON_Int None (- 5) (fp_of_u64 decimals (- 5)) (- 1) (Some ''n'') []))"
  "get_member [] ''b'' parsed_doc = Some None"
  by (simp_all add: get_member_def look_def parsed_doc_def jd_self_def GetJsonData_def jd_deref_def cJSON_GetObjectItem_def
      c_str_def tolower_def)

theorem json_replace_dangles_witness:
  "\<exists>st1 st2. call_key decimals [] ''n'' parsed_doc = Some (dec_nat (2 ^ 64 - 5), st1) \<and>
    Replace_key_int32 always decimals [] ''n'' 7 st1 = Some (True, st2) \<and> call_key decimals [] ''n'' st2 = None"
proof -
  have "\<exists>st1. call_key decimals [] ''n'' parsed_doc = Some (dec_nat (2 ^ 64 - 5), st1)"
    using parsed_doc_member(1)
    by (simp add: call_key_def parsed_doc_def jd_self_def um_find_def JsonStruct2Str_def cjson_types)
  then show ?thesis
    using json_replace_dangles [OF test_parsed parsed_doc_member(1)] by fast
qed

text \<open>
  \<^verbatim>\<open>operator[]\<close> with a missing key keeps an object without data for the key, and \<^verbatim>\<open>Add\<close> does not drop it:
  after any parse, a member added behind such an access is found by \<^verbatim>\<open>Get\<close>, but \<^verbatim>\<open>operator()\<close> still gives the empty
  string.
\<close>

theorem json_stale_missing:
  assumes p: "cjo_Parse al fp [] text st0 = Some (True, st)" and o: "holds_object [] st a t"
    and m: "get_member [] key st = Some None" and s: "no_nul s"
  shows "\<exists>st1 st2. index_key [] key st = Some st1 \<and> Add_key_string always fp [] key s st1 = Some (True, st2) \<and>
    Get_key_string [] key st2 = Some (Some s) \<and> call_key fp [] key st2 = Some ('''', st2)"
proof -
  obtain k u e where top: "jd_top st = CJsonObject (Some u) None e [] []"
    using p by (rule parsed_top)
  let ?st1 = "st\<lparr>jd_top := CJsonObject (Some u) None e [] [(key, cjo_new)]\<rparr>"
  have st1: "index_key [] key st = Some ?st1"
    using m by (simp add: index_key_def Get_ref_key_def jd_self_def top um_find_def um_put_def keep_member_def
        jd_change_def jd_set_self_def)
  have h: "holds_object [] ?st1 a t"
    using o by (simp add: holds_object_def jd_deref_def jd_self_def top GetJsonData_def cjo_new_def)
  have new: "find_name (c_str key) (j_child t) = None"
    using m get_member_object [OF o] by (simp add: cJSON_GetObjectItem_def split: option.splits)
  obtain st2 g where st2: "Add_key_string always fp [] key s ?st1 = Some (True, st2)"
    "Get_key_string [] key st2 = Some (Some s)" "jd_self [] st2 = map_option (map_trees g) (jd_self [] ?st1)"
    using tv_string.add_get_self [OF h new s, of fp fp refuse] unfolding Add_key_string_def Get_key_string_def by blast
  then have "call_key fp [] key st2 = Some ('''', st2)"
    by (simp add: call_key_def jd_self_def um_find_def kept_item_def GetJsonData_def cjo_new_def JsonStruct2Str_def)
  then show ?thesis using st1 st2 by blast
qed

lemma parsed_doc_holds: "holds_object [] parsed_doc 0 (the (m_pJsonData (jd_top parsed_doc)))"
  by (simp add: holds_object_def parsed_doc_def jd_deref_def jd_self_def GetJsonData_def)

theorem json_stale_missing_witness:
  "\<exists>st1 st2. index_key [] ''b'' parsed_doc = Some st1 \<and> Add_key_string always decimals [] ''b'' ''x'' st1 = Some (True, st2) \<and>
    Get_key_string [] ''b'' st2 = Some (Some ''x'') \<and> call_key decimals [] ''b'' st2 = Some ('''', st2)"
  by (rule json_stale_missing [OF test_parsed parsed_doc_holds parsed_doc_member(2)]) simp

end
