(* ===== verification/JsonReads.thy ===== *)
theory JsonReads
  imports JsonObject
begin

text \<open>
  Reading a parsed document. The reading methods of \<^verbatim>\<open>CJsonObject\<close> keep objects for the children they
  give access to, so they change the document; here it is shown that they do not change what it means.
  The abstract view of a document is the tree that was parsed, and each read gives the value of the tree.
\<close>

section \<open>The abstract view: items of a tree\<close>

definition member_of :: "'d cJSON option \<Rightarrow> string \<Rightarrow> 'd cJSON option" where
  "member_of it key =
     (case it of
        None \<Rightarrow> None
      | Some t \<Rightarrow> if j_type t = cJSON_Object then cJSON_GetObjectItem t (c_str key) else None)"

definition element_of :: "'d cJSON option \<Rightarrow> nat \<Rightarrow> 'd cJSON option" where
  "element_of it which =
     (case it of
        None \<Rightarrow> None
      | Some t \<Rightarrow> if j_type t = cJSON_Array then cJSON_GetArrayItem t (i32 (int which)) else None)"

fun item_at :: "jpath \<Rightarrow> 'd cJSON option \<Rightarrow> 'd cJSON option" where
  "item_at [] it = it"
| "item_at (Inl i # p) it = item_at p (element_of it i)"
| "item_at (Inr k # p) it = item_at p (member_of it k)"

text \<open>The objects kept below an object follow the items below its item.\<close>

definition refers :: "'d cJSON option \<Rightarrow> 'd cjo \<Rightarrow> bool" where
  "refers it y \<longleftrightarrow> m_pJsonData y = None \<and> m_pExternJsonDataRef y = map_option j_addr it"

fun follows :: "'d cJSON option \<Rightarrow> 'd cjo \<Rightarrow> bool" where
  "follows it (CJsonObject d e m as os) \<longleftrightarrow>
     (\<forall>x \<in> set as. refers (element_of it (fst x)) (snd x) \<and> follows (element_of it (fst x)) (snd x)) \<and>
     (\<forall>x \<in> set os. refers (member_of it (fst x)) (snd x) \<and> follows (member_of it (fst x)) (snd x))"

definition doc_of :: "'d cJSON \<Rightarrow> 'd jdoc \<Rightarrow> bool" where
  "doc_of t st \<longleftrightarrow>
     m_pJsonData (jd_top st) = Some t \<and> follows (Some t) (jd_top st) \<and> distinct (addrs t) \<and> typed t"

section \<open>Subtrees\<close>

fun subs :: "'d cJSON \<Rightarrow> 'd cJSON set" where
  "subs (Item a ty s i d sg n ch) = insert (Item a ty s i d sg n ch) (\<Union> (subs ` set ch))"

lemma subs_refl: "t \<in> subs t"
  by (cases t) simp

lemma subs_addr: "x \<in> subs t \<Longrightarrow> j_addr x \<in> set (addrs t)"
  by (induction t) (auto simp: )

lemma subs_child: "c \<in> set (j_child x) \<Longrightarrow> x \<in> subs t \<Longrightarrow> c \<in> subs t"
  by (induction t) (auto intro: subs_refl)

lemma node_subs:
  fixes t :: "'d cJSON" and ts :: "'d cJSON list"
  shows "x \<in> subs t \<Longrightarrow> distinct (addrs t) \<Longrightarrow> a = j_addr x \<Longrightarrow> node_at a t = Some x"
    "x \<in> \<Union> (subs ` set ts) \<Longrightarrow> distinct (concat (map addrs ts)) \<Longrightarrow> a = j_addr x \<Longrightarrow> node_in a ts = Some x"
proof (induction a t and a ts rule: node_at_node_in.induct)
  case (1 a b ty s i d sg n ch)
  then show ?case using subs_addr by fastforce
next
  case (3 a c cs)
  show ?case
  proof (cases "x \<in> subs c")
    case True
    then show ?thesis using 3 by simp
  next
    case False
    then have "a \<in> set (concat (map addrs cs))" using 3 subs_addr by fastforce
    then have "node_at a c = None" using 3(4) by (intro node_None(1)) auto
    then show ?thesis using 3 False by simp
  qed
qed simp

lemma child_in:
  "member_of it key = Some c \<Longrightarrow> \<exists>t. it = Some t \<and> c \<in> set (j_child t)"
  "element_of it which = Some c \<Longrightarrow> \<exists>t. it = Some t \<and> c \<in> set (j_child t)"
  by (auto simp: member_of_def element_of_def cJSON_GetObjectItem_def cJSON_GetArrayItem_def nth_child_def
      dest: find_name_Some split: option.splits if_splits)

lemma item_at_subs: "item_at p it = Some x \<Longrightarrow> (\<And>y. it = Some y \<Longrightarrow> y \<in> subs t) \<Longrightarrow> x \<in> subs t"
proof (induction p it rule: item_at.induct)
  case (2 i p it)
  show ?case using 2(2,3) by (intro "2.IH") (auto dest!: child_in(2) intro: subs_child)
next
  case (3 k p it)
  show ?case using 3(2,3) by (intro "3.IH") (auto dest!: child_in(1) intro: subs_child)
qed simp

section \<open>Documents that follow a tree\<close>

lemma follows_iff:
  "follows it x \<longleftrightarrow>
     (\<forall>e \<in> set (m_mapJsonArrayRef x). refers (element_of it (fst e)) (snd e) \<and> follows (element_of it (fst e)) (snd e)) \<and>
     (\<forall>e \<in> set (m_mapJsonObjectRef x). refers (member_of it (fst e)) (snd e) \<and> follows (member_of it (fst e)) (snd e))"
  by (cases x) simp

lemma follows_kept:
  "follows it x \<Longrightarrow> um_find (m_mapJsonArrayRef x) i = Some y \<Longrightarrow> refers (element_of it i) y \<and> follows (element_of it i) y"
  "follows it x \<Longrightarrow> um_find (m_mapJsonObjectRef x) k = Some y \<Longrightarrow> refers (member_of it k) y \<and> follows (member_of it k) y"
  by (fastforce simp: um_find_def follows_iff [of it x] dest: map_of_SomeD)+

lemma follows_at:
  "follows it x \<Longrightarrow> cjo_at p x = Some y \<Longrightarrow> follows (item_at p it) y \<and> (p \<noteq> [] \<longrightarrow> refers (item_at p it) y)"
proof (induction p x arbitrary: it rule: cjo_at.induct)
  case (2 i p x)
  then obtain z where z: "um_find (m_mapJsonArrayRef x) i = Some z" "cjo_at p z = Some y" by (auto split: option.splits)
  then show ?case using follows_kept(1) [OF "2.prems"(1) z(1)] "2.IH" [OF z(1), of "element_of it i"] by (cases p) auto
next
  case (3 k p x)
  then obtain z where z: "um_find (m_mapJsonObjectRef x) k = Some z" "cjo_at p z = Some y" by (auto split: option.splits)
  then show ?case using follows_kept(2) [OF "3.prems"(1) z(1)] "3.IH" [OF z(1), of "member_of it k"] by (cases p) auto
qed simp

lemma follows_trees: "follows it x \<Longrightarrow> trees x = (case m_pJsonData x of None \<Rightarrow> [] | Some t \<Rightarrow> [t])"
  by (induction it x rule: follows.induct) (auto simp: refers_def)

lemma doc_self:
  assumes "doc_of t st" "jd_self p st = Some y"
  shows "GetJsonData y = map_option j_addr (item_at p (Some t))" "follows (item_at p (Some t)) y"
  using follows_at [of "Some t" "jd_top st" p y] assms
  by (cases p; auto simp: doc_of_def jd_self_def GetJsonData_def refers_def split: option.splits)+

lemma doc_deref: "doc_of t st \<Longrightarrow> item_at p (Some t) = Some x \<Longrightarrow> jd_deref (j_addr x) st = Some x"
  using node_subs(1) [of x t "j_addr x"] item_at_subs [of p "Some t" x t] subs_refl [of t]
  by (simp add: jd_deref_def doc_of_def follows_trees [of "Some t"])

lemma um_put_set: "set (um_put k v m) \<subseteq> insert (k, v) (set m)"
  unfolding um_put_def by (induction m) auto

lemma follows_set:
  "follows it x \<Longrightarrow> refers (element_of it i) y \<Longrightarrow> follows (element_of it i) y \<Longrightarrow>
     follows it (cjo_set_arr (um_put i y (m_mapJsonArrayRef x)) x)"
  "follows it x \<Longrightarrow> refers (member_of it k) y \<Longrightarrow> follows (member_of it k) y \<Longrightarrow>
     follows it (cjo_set_obj (um_put k y (m_mapJsonObjectRef x)) x)"
  using um_put_set [of i y "m_mapJsonArrayRef x"] um_put_set [of k y "m_mapJsonObjectRef x"]
  by (cases x; fastforce)+

lemma data_set [simp]:
  "m_pJsonData (cjo_set_arr as x) = m_pJsonData x" "m_pJsonData (cjo_set_obj os x) = m_pJsonData x"
  "m_pExternJsonDataRef (cjo_set_arr as x) = m_pExternJsonDataRef x"
  "m_pExternJsonDataRef (cjo_set_obj os x) = m_pExternJsonDataRef x"
  "m_mapJsonArrayRef (cjo_set_arr as x) = as" "m_mapJsonArrayRef (cjo_set_obj os x) = m_mapJsonArrayRef x"
  "m_mapJsonObjectRef (cjo_set_obj os x) = os" "m_mapJsonObjectRef (cjo_set_arr as x) = m_mapJsonObjectRef x"
  by (cases x; simp)+

lemma follows_put:
  assumes "follows it x" "cjo_at p x = Some y" "follows (item_at p it) new"
    "m_pJsonData new = m_pJsonData y" "m_pExternJsonDataRef new = m_pExternJsonDataRef y"
  shows "follows it (put_at p new x) \<and> m_pJsonData (put_at p new x) = m_pJsonData x \<and>
    m_pExternJsonDataRef (put_at p new x) = m_pExternJsonDataRef x"
  using assms
proof (induction p x arbitrary: it rule: cjo_at.induct)
  case (2 i p x)
  then obtain z where z: "um_find (m_mapJsonArrayRef x) i = Some z" "cjo_at p z = Some y" by (auto split: option.splits)
  then show ?case
    using follows_kept(1) [OF "2.prems"(1) z(1)] "2.IH" [OF z(1), of "element_of it i"] "2.prems"
    by (auto simp: refers_def intro!: follows_set)
next
  case (3 k p x)
  then obtain z where z: "um_find (m_mapJsonObjectRef x) k = Some z" "cjo_at p z = Some y" by (auto split: option.splits)
  then show ?case
    using follows_kept(2) [OF "3.prems"(1) z(1)] "3.IH" [OF z(1), of "member_of it k"] "3.prems"
    by (auto simp: refers_def intro!: follows_set)
qed simp

text \<open>Keeping another object loses none.\<close>

definition keeps :: "'d cjo \<Rightarrow> 'd cjo \<Rightarrow> bool" where
  "keeps x x' \<longleftrightarrow> (\<forall>q. cjo_at q x \<noteq> None \<longrightarrow> cjo_at q x' \<noteq> None)"

lemma keeps_put:
  assumes "cjo_at p x = Some y" "keeps y new"
  shows "keeps x (put_at p new x)"
  using assms
proof (induction p x rule: cjo_at.induct)
  case (2 i p x)
  then obtain z where z: "um_find (m_mapJsonArrayRef x) i = Some z" "cjo_at p z = Some y" by (auto split: option.splits)
  have "cjo_at q (put_at (Inl i # p) new x) \<noteq> None" if q: "cjo_at q x \<noteq> None" for q
    using q z "2.IH" [OF z(1)] "2.prems"
    by (cases "(q, x)" rule: cjo_at.cases) (auto simp: keeps_def um_find_put split: option.splits)
  then show ?case by (simp add: keeps_def)
next
  case (3 k p x)
  then obtain z where z: "um_find (m_mapJsonObjectRef x) k = Some z" "cjo_at p z = Some y" by (auto split: option.splits)
  have "cjo_at q (put_at (Inr k # p) new x) \<noteq> None" if q: "cjo_at q x \<noteq> None" for q
    using q z "3.IH" [OF z(1)] "3.prems"
    by (cases "(q, x)" rule: cjo_at.cases) (auto simp: keeps_def um_find_put split: option.splits)
  then show ?case by (simp add: keeps_def)
qed simp

section \<open>The reading methods\<close>

lemma doc_member: "doc_of t st \<Longrightarrow> jd_self p st = Some y \<Longrightarrow> get_member p key st = Some (member_of (item_at p (Some t)) key)"
  using doc_self(1) [of t st p y] doc_deref [of t st p]
  by (auto simp: get_member_def look_def member_of_def split: option.splits)

lemma doc_element:
  "doc_of t st \<Longrightarrow> jd_self p st = Some y \<Longrightarrow> get_element p (i32 (int which)) st = Some (element_of (item_at p (Some t)) which)"
  using doc_self(1) [of t st p y] doc_deref [of t st p]
  by (auto simp: get_element_def look_def element_of_def split: option.splits)

text \<open>What a new kept object is: a reference to the item of the child, or empty.\<close>

definition kept :: "'d cJSON option \<Rightarrow> 'd cjo" where
  "kept it = (case it of None \<Rightarrow> cjo_new | Some i \<Rightarrow> cjo_ref (j_addr i))"

lemma kept_refers: "refers it (kept it)" "follows it (kept it)"
  by (simp_all add: kept_def refers_def cjo_new_def cjo_ref_def split: option.split)

lemma keep_doc:
  assumes d: "doc_of t st" and s: "jd_self p st = Some y"
  shows "um_find (m_mapJsonObjectRef y) key = None \<Longrightarrow>
      doc_of t (keep_member p key (kept (member_of (item_at p (Some t)) key)) st) \<and>
      keeps (jd_top st) (jd_top (keep_member p key (kept (member_of (item_at p (Some t)) key)) st))"
    "um_find (m_mapJsonArrayRef y) i = None \<Longrightarrow>
      doc_of t (keep_element p i (kept (element_of (item_at p (Some t)) i)) st) \<and>
      keeps (jd_top st) (jd_top (keep_element p i (kept (element_of (item_at p (Some t)) i)) st))"
proof -
  let ?m = "cjo_set_obj (um_put key (kept (member_of (item_at p (Some t)) key)) (m_mapJsonObjectRef y)) y"
  let ?e = "cjo_set_arr (um_put i (kept (element_of (item_at p (Some t)) i)) (m_mapJsonArrayRef y)) y"
  have y: "cjo_at p (jd_top st) = Some y" "follows (Some t) (jd_top st)"
    using d s by (simp_all add: jd_self_def doc_of_def)
  have f: "follows (item_at p (Some t)) ?m" "follows (item_at p (Some t)) ?e"
    using doc_self(2) [OF d s] by (auto intro: follows_set kept_refers)
  have k: "um_find (m_mapJsonObjectRef y) key = None \<Longrightarrow> keeps y ?m" "um_find (m_mapJsonArrayRef y) i = None \<Longrightarrow> keeps y ?e"
    unfolding keeps_def
  proof -
    show "\<forall>q. cjo_at q y \<noteq> None \<longrightarrow> cjo_at q ?m \<noteq> None" if "um_find (m_mapJsonObjectRef y) key = None"
      using that by (intro allI, rule_tac x = "(q, y)" in cjo_at.cases) (auto simp: um_find_put split: option.splits)
    show "\<forall>q. cjo_at q y \<noteq> None \<longrightarrow> cjo_at q ?e \<noteq> None" if "um_find (m_mapJsonArrayRef y) i = None"
      using that by (intro allI, rule_tac x = "(q, y)" in cjo_at.cases) (auto simp: um_find_put split: option.splits)
  qed
  show "um_find (m_mapJsonObjectRef y) key = None \<Longrightarrow> doc_of t (keep_member p key (kept (member_of (item_at p (Some t)) key)) st) \<and>
      keeps (jd_top st) (jd_top (keep_member p key (kept (member_of (item_at p (Some t)) key)) st))"
    using d s follows_put [OF y(2,1) f(1)] keeps_put [OF y(1) k(1)]
    by (simp add: doc_of_def keep_member_def jd_change_def jd_set_self_def)
  show "um_find (m_mapJsonArrayRef y) i = None \<Longrightarrow> doc_of t (keep_element p i (kept (element_of (item_at p (Some t)) i)) st) \<and>
      keeps (jd_top st) (jd_top (keep_element p i (kept (element_of (item_at p (Some t)) i)) st))"
    using d s follows_put [OF y(2,1) f(2)] keeps_put [OF y(1) k(2)]
    by (simp add: doc_of_def keep_element_def jd_change_def jd_set_self_def)
qed

text \<open>The text of an item; only a string without characters would have none, and a parsed tree has no such item.\<close>

definition text_of :: "'d fp \<Rightarrow> 'd cJSON option \<Rightarrow> string" where
  "text_of fp it = the (JsonStruct2Str fp it)"

lemma typed_subs: "x \<in> subs t \<Longrightarrow> typed t \<Longrightarrow> typed x"
  by (induction t) auto

lemma text_total: "(\<And>x. it = Some x \<Longrightarrow> typed x) \<Longrightarrow> JsonStruct2Str fp it = Some (text_of fp it)"
  using typed_iff [of "the it"] by (cases it) (auto simp: text_of_def JsonStruct2Str_def)

lemma doc_text: "doc_of t st \<Longrightarrow> JsonStruct2Str fp (item_at p (Some t)) = Some (text_of fp (item_at p (Some t)))"
  using item_at_subs [of p "Some t" _ t] subs_refl [of t] by (intro text_total) (auto simp: doc_of_def intro: typed_subs)

lemma item_at_snoc [simp]:
  "item_at (p @ [Inr k]) it = member_of (item_at p it) k" "item_at (p @ [Inl i]) it = element_of (item_at p it) i"
  by (induction p it rule: item_at.induct) auto

lemma keeps_refl: "keeps x x" and keeps_trans: "keeps x y \<Longrightarrow> keeps y z \<Longrightarrow> keeps x z"
  by (simp_all add: keeps_def)

lemma cjo_at_snoc:
  "cjo_at p x = Some y \<Longrightarrow> um_find (m_mapJsonObjectRef y) k = Some z \<Longrightarrow> cjo_at (p @ [Inr k]) x = Some z"
  "cjo_at p x = Some y \<Longrightarrow> um_find (m_mapJsonArrayRef y) i = Some z \<Longrightarrow> cjo_at (p @ [Inl i]) x = Some z"
  by (induction p x rule: cjo_at.induct) (auto split: option.splits)

lemma self_snoc:
  "jd_self p st = Some y \<Longrightarrow> um_find (m_mapJsonObjectRef y) k = Some z \<Longrightarrow> jd_self (p @ [Inr k]) st = Some z"
  "jd_self p st = Some y \<Longrightarrow> um_find (m_mapJsonArrayRef y) i = Some z \<Longrightarrow> jd_self (p @ [Inl i]) st = Some z"
  by (simp_all add: jd_self_def cjo_at_snoc)

lemma cjo_at_put: "cjo_at p x = Some y \<Longrightarrow> cjo_at p (put_at p new x) = Some new"
  by (induction p x rule: cjo_at.induct) (auto simp: um_find_put split: option.splits)

lemma kept_found:
  assumes "jd_self p st = Some y"
  shows "jd_self (p @ [Inr key]) (keep_member p key z st) = Some z" "jd_self (p @ [Inl i]) (keep_element p i z st) = Some z"
proof -
  have "jd_self p (jd_change p f st) = Some (f y)" for f
    using assms cjo_at_put by (auto simp: jd_change_def jd_set_self_def jd_self_def)
  then show "jd_self (p @ [Inr key]) (keep_member p key z st) = Some z" "jd_self (p @ [Inl i]) (keep_element p i z st) = Some z"
    by (auto simp: keep_member_def keep_element_def um_find_put intro: self_snoc)
qed

lemma kept_item_doc:
  assumes d: "doc_of t st" and s: "jd_self p st = Some y"
  shows "um_find (m_mapJsonObjectRef y) k = Some z \<Longrightarrow> kept_item z st = Some (member_of (item_at p (Some t)) k)"
    "um_find (m_mapJsonArrayRef y) i = Some z \<Longrightarrow> kept_item z st = Some (element_of (item_at p (Some t)) i)"
proof -
  show "kept_item z st = Some (member_of (item_at p (Some t)) k)" if "um_find (m_mapJsonObjectRef y) k = Some z"
    using doc_self(1) [OF d self_snoc(1) [OF s that]] doc_deref [OF d, of "p @ [Inr k]"]
    by (auto simp: kept_item_def split: option.split)
  show "kept_item z st = Some (element_of (item_at p (Some t)) i)" if "um_find (m_mapJsonArrayRef y) i = Some z"
    using doc_self(1) [OF d self_snoc(2) [OF s that]] doc_deref [OF d, of "p @ [Inl i]"]
    by (auto simp: kept_item_def split: option.split)
qed

lemma index_reads:
  assumes d: "doc_of t st" and s: "jd_self p st = Some y"
  shows "\<exists>st'. index_key p key st = Some st' \<and> doc_of t st' \<and> keeps (jd_top st) (jd_top st') \<and> jd_self (p @ [Inr key]) st' \<noteq> None"
    "\<exists>st'. index_idx p i st = Some st' \<and> doc_of t st' \<and> keeps (jd_top st) (jd_top st') \<and> jd_self (p @ [Inl i]) st' \<noteq> None"
  using s keep_doc [OF d s] kept_found [OF s] doc_member [OF d s] doc_element [OF d s] d keeps_refl self_snoc(1) [OF s, of key]
    self_snoc(2) [OF s, of i]
  by (auto simp: index_key_def Get_ref_key_def index_idx_def simp flip: kept_def split: option.split)

lemma call_reads:
  assumes d: "doc_of t st" and s: "jd_self p st = Some y"
  shows "\<exists>st'. call_key fp p key st = Some (text_of fp (member_of (item_at p (Some t)) key), st') \<and> doc_of t st' \<and>
      keeps (jd_top st) (jd_top st')"
    "\<exists>st'. call_idx fp p i st = Some (text_of fp (element_of (item_at p (Some t)) i), st') \<and> doc_of t st' \<and>
      keeps (jd_top st) (jd_top st')"
    "call_key_const fp p key st = Some (text_of fp (member_of (item_at p (Some t)) key))"
    "call_idx_const fp p i st = Some (text_of fp (element_of (item_at p (Some t)) i))"
proof -
  note tx = doc_text [OF d, of fp "p @ [Inr key]", simplified] doc_text [OF d, of fp "p @ [Inl i]", simplified]
  note facts = s keep_doc(1) [OF d s, of key] keep_doc(2) [OF d s, of i] doc_member [OF d s, of key] doc_element [OF d s, of i] d
    keeps_refl [of "jd_top st"] kept_item_doc(1) [OF d s, of key] kept_item_doc(2) [OF d s, of i] tx
  show "\<exists>st'. call_key fp p key st = Some (text_of fp (member_of (item_at p (Some t)) key), st') \<and> doc_of t st' \<and>
      keeps (jd_top st) (jd_top st')"
    using facts by (auto simp: call_key_def kept_def split: option.split)
  show "\<exists>st'. call_idx fp p i st = Some (text_of fp (element_of (item_at p (Some t)) i), st') \<and> doc_of t st' \<and>
      keeps (jd_top st) (jd_top st')"
    using facts by (auto simp: call_idx_def kept_def split: option.split)
  show "call_key_const fp p key st = Some (text_of fp (member_of (item_at p (Some t)) key))"
    "call_idx_const fp p i st = Some (text_of fp (element_of (item_at p (Some t)) i))"
    using facts by (auto simp: call_key_const_def call_idx_const_def split: option.split)
qed

section \<open>Sequences of reads\<close>

datatype jread =
    At_key jpath string
  | At_idx jpath nat
  | Text_key jpath string
  | Text_idx jpath nat
  | Const_key jpath string
  | Read_string jpath string
  | Read_int jpath string
  | Read_bool jpath string
  | Size_of jpath
  | Keys_of jpath

datatype jval = J_ref | J_text string | J_string "string option" | J_int "int option" | J_bool "bool option"
  | J_size int | J_keys "string list"

fun read_step :: "'d fp \<Rightarrow> jread \<Rightarrow> 'd jdoc \<Rightarrow> (jval \<times> 'd jdoc) option" where
  "read_step fp (At_key p k) st = map_option (\<lambda>st'. (J_ref, st')) (index_key p k st)"
| "read_step fp (At_idx p i) st = map_option (\<lambda>st'. (J_ref, st')) (index_idx p i st)"
| "read_step fp (Text_key p k) st = map_option (\<lambda>(s, st'). (J_text s, st')) (call_key fp p k st)"
| "read_step fp (Text_idx p i) st = map_option (\<lambda>(s, st'). (J_text s, st')) (call_idx fp p i st)"
| "read_step fp (Const_key p k) st = map_option (\<lambda>s. (J_text s, st)) (call_key_const fp p k st)"
| "read_step fp (Read_string p k) st = map_option (\<lambda>v. (J_string v, st)) (Get_key_string p k st)"
| "read_step fp (Read_int p k) st = map_option (\<lambda>v. (J_int v, st)) (Get_key_int32 p k st)"
| "read_step fp (Read_bool p k) st = map_option (\<lambda>v. (J_bool v, st)) (Get_key_bool p k st)"
| "read_step fp (Size_of p) st = map_option (\<lambda>v. (J_size v, st)) (cjo_GetArraySize p st)"
| "read_step fp (Keys_of p) st = map_option (\<lambda>v. (J_keys v, st)) (cjo_GetKeys p st)"

fun read_run :: "'d fp \<Rightarrow> jread list \<Rightarrow> 'd jdoc \<Rightarrow> (jval list \<times> 'd jdoc) option" where
  "read_run fp [] st = Some ([], st)"
| "read_run fp (r # rs) st = do {
     (v, st1) \<leftarrow> read_step fp r st;
     (vs, st2) \<leftarrow> read_run fp rs st1;
     Some (v # vs, st2)
   }"

text \<open>The value that a read has in the tree.\<close>

definition value_in :: "('d cJSON \<Rightarrow> 'v option option) \<Rightarrow> 'd cJSON option \<Rightarrow> 'v option" where
  "value_in rd it = (case it of None \<Rightarrow> None | Some x \<Rightarrow> the (rd x))"

fun tree_val :: "'d fp \<Rightarrow> 'd cJSON \<Rightarrow> jread \<Rightarrow> jval" where
  "tree_val fp t (At_key p k) = J_ref"
| "tree_val fp t (At_idx p i) = J_ref"
| "tree_val fp t (Text_key p k) = J_text (text_of fp (member_of (item_at p (Some t)) k))"
| "tree_val fp t (Text_idx p i) = J_text (text_of fp (element_of (item_at p (Some t)) i))"
| "tree_val fp t (Const_key p k) = J_text (text_of fp (member_of (item_at p (Some t)) k))"
| "tree_val fp t (Read_string p k) = J_string (value_in rd_string (member_of (item_at p (Some t)) k))"
| "tree_val fp t (Read_int p k) = J_int (value_in rd_int32 (member_of (item_at p (Some t)) k))"
| "tree_val fp t (Read_bool p k) = J_bool (value_in rd_bool (member_of (item_at p (Some t)) k))"
| "tree_val fp t (Size_of p) =
     J_size (case item_at p (Some t) of None \<Rightarrow> 0 | Some x \<Rightarrow> if j_type x = cJSON_Array then cJSON_GetArraySize x else 0)"
| "tree_val fp t (Keys_of p) =
     J_keys (case item_at p (Some t) of None \<Rightarrow> [] | Some x \<Rightarrow> map (\<lambda>c. the (j_name c)) (j_child x))"

text \<open>
  A read is on the document itself or on an object that an earlier \<^verbatim>\<open>operator[]\<close> gave; the keys are not asked of
  an array, whose elements have no names.
\<close>

fun read_path :: "jread \<Rightarrow> jpath" where
  "read_path (At_key p k) = p" | "read_path (At_idx p i) = p" | "read_path (Text_key p k) = p"
| "read_path (Text_idx p i) = p" | "read_path (Const_key p k) = p" | "read_path (Read_string p k) = p"
| "read_path (Read_int p k) = p" | "read_path (Read_bool p k) = p" | "read_path (Size_of p) = p"
| "read_path (Keys_of p) = p"

fun read_gives :: "jread \<Rightarrow> jpath list" where
  "read_gives (At_key p k) = [p @ [Inr k]]"
| "read_gives (At_idx p i) = [p @ [Inl i]]"
| "read_gives r = []"

fun read_asks :: "'d cJSON \<Rightarrow> jread \<Rightarrow> bool" where
  "read_asks t (Keys_of p) = (case item_at p (Some t) of None \<Rightarrow> True | Some x \<Rightarrow> j_type x \<noteq> cJSON_Array)"
| "read_asks t r = True"

fun reads_ok :: "'d cJSON \<Rightarrow> jpath list \<Rightarrow> jread list \<Rightarrow> bool" where
  "reads_ok t live [] = True"
| "reads_ok t live (r # rs) = (read_path r \<in> set live \<and> read_asks t r \<and> reads_ok t (read_gives r @ live) rs)"

lemma doc_value:
  assumes d: "doc_of t st" and s: "jd_self p st = Some y" and rd: "\<And>x. typed x \<Longrightarrow> rd x \<noteq> None"
  shows "read_with rd (get_member p key st) = Some (value_in rd (member_of (item_at p (Some t)) key))"
proof -
  have "typed x" if "member_of (item_at p (Some t)) key = Some x" for x
    using item_at_subs [of "p @ [Inr key]" "Some t" x t] that subs_refl [of t] d by (auto simp: doc_of_def intro: typed_subs)
  then show ?thesis using doc_member [OF d s] rd by (auto simp: read_with_def value_in_def split: option.split)
qed

lemma rd_total: "typed x \<Longrightarrow> rd_string x \<noteq> None" "rd_int32 x \<noteq> None" "rd_bool x \<noteq> None"
  using typed_iff [of x] by (auto simp: rd_string_def rd_int32_def rd_bool_def)

lemma doc_sizes:
  assumes d: "doc_of t st" and s: "jd_self p st = Some y"
  shows "read_step fp (Size_of p) st = Some (tree_val fp t (Size_of p), st)"
    "read_asks t (Keys_of p) \<Longrightarrow> read_step fp (Keys_of p) st = Some (tree_val fp t (Keys_of p), st)"
proof -
  have dr: "jd_deref (j_addr x) st = Some x \<and> typed x" if "item_at p (Some t) = Some x" for x
    using doc_deref [OF d that] item_at_subs [OF that, of t] subs_refl [of t] d by (auto simp: doc_of_def intro: typed_subs)
  show "read_step fp (Size_of p) st = Some (tree_val fp t (Size_of p), st)"
    using doc_self(1) [OF d s] dr s by (auto simp: cjo_GetArraySize_def split: option.split)
  show "read_step fp (Keys_of p) st = Some (tree_val fp t (Keys_of p), st)" if a: "read_asks t (Keys_of p)"
  proof (cases "item_at p (Some t)")
    case None
    then show ?thesis using doc_self(1) [OF d s] s by (simp add: cjo_GetKeys_def)
  next
    case (Some x)
    then have "list_all (\<lambda>c. j_name c \<noteq> None) (j_child x)"
      using dr [OF Some] a typed_iff [of x] by (auto simp: list_all_iff)
    then show ?thesis using doc_self(1) [OF d s] s dr [OF Some] Some by (simp add: cjo_GetKeys_def)
  qed
qed

lemma read_step_tree:
  assumes d: "doc_of t st" and s: "jd_self (read_path r) st = Some y" and a: "read_asks t r"
  shows "\<exists>st'. read_step fp r st = Some (tree_val fp t r, st') \<and> doc_of t st' \<and> keeps (jd_top st) (jd_top st') \<and>
    (\<forall>q \<in> set (read_gives r). jd_self q st' \<noteq> None)"
proof (cases r)
  case (At_key p k)
  then show ?thesis using index_reads(1) [OF d, of p y k] s by fastforce
next
  case (At_idx p i)
  then show ?thesis using index_reads(2) [OF d, of p y i] s by fastforce
next
  case (Text_key p k)
  then show ?thesis using call_reads(1) [OF d, of p y fp k] s by fastforce
next
  case (Text_idx p i)
  then show ?thesis using call_reads(2) [OF d, of p y fp i] s by fastforce
qed (use s d a keeps_refl [of "jd_top st"] in \<open>simp_all add: call_reads(3) doc_value rd_total doc_sizes Get_key_string_def
      Get_key_int32_def Get_key_bool_def del: read_step.simps(9,10) tree_val.simps(9,10)\<close>)

lemma typed_label:
  fixes t :: "'d cJSON" and ts :: "'d cJSON list"
  shows "typed (fst (label k t)) = typed t \<and> j_name (fst (label k t)) = j_name t"
    "length (fst (labels k ts)) = length ts \<and>
     (\<forall>i < length ts. typed (fst (labels k ts) ! i) = typed (ts ! i) \<and> j_name (fst (labels k ts) ! i) = j_name (ts ! i))"
proof (induction k t and k ts rule: label_labels.induct)
  case (1 k b ty s i d sg n ch)
  then show ?case by (auto simp: split_def Let_def all_set_conv_all_nth)
next
  case (3 k c cs)
  then show ?case by (auto simp: split_def Let_def prod_eq_iff nth_Cons split: nat.split)
qed simp

lemma read_run_tree:
  assumes "doc_of t st" "\<And>q. q \<in> set live \<Longrightarrow> jd_self q st \<noteq> None" "reads_ok t live rs"
  shows "\<exists>st'. read_run fp rs st = Some (map (tree_val fp t) rs, st') \<and> doc_of t st'"
  using assms
proof (induction rs arbitrary: st live)
  case (Cons r rs)
  obtain y where y: "jd_self (read_path r) st = Some y" using Cons.prems(2,3) by fastforce
  obtain st1 where st1: "read_step fp r st = Some (tree_val fp t r, st1)" "doc_of t st1" "keeps (jd_top st) (jd_top st1)"
    "\<forall>q \<in> set (read_gives r). jd_self q st1 \<noteq> None"
    using read_step_tree [OF Cons.prems(1) y] Cons.prems(3) by (metis reads_ok.simps(2))
  have "jd_self q st1 \<noteq> None" if "q \<in> set (read_gives r @ live)" for q
    using that st1(3,4) Cons.prems(2) by (auto simp: keeps_def jd_self_def)
  then show ?case using Cons.IH [OF st1(2), of "read_gives r @ live"] st1(1) Cons.prems(3) by auto
qed simp

lemma parsed_follows:
  assumes "cjo_Parse al fp [] text st0 = Some (True, st)"
  obtains t where "m_pJsonData (jd_top st) = Some t" "doc_of t st"
proof -
  obtain it where it: "cJSON_Parse al fp (c_str text) = Ok it"
    using assms by (auto simp: cjo_Parse_def parse_error_def Let_def split: outcome.splits option.splits)
  obtain k t e where t: "jd_top st = CJsonObject (Some t) None e [] []" "addrs t = [k ..< jd_fresh st]"
    using assms by (rule parsed_top)
  have "t = fst (label (jd_fresh st0) it)"
    using assms t(1) it by (cases "jd_top st0") (auto simp: cjo_Parse_def jd_place_def jd_change_def jd_self_def jd_set_self_def
        cjo_Clear_def split: prod.splits)
  moreover have "typed it"
    using it parse_typed(1) [of al fp "blank fp"] plain_blank [of fp]
    by (auto simp: cJSON_Parse_def obind_eq_Ok new_item_cases split: if_splits)
  ultimately have "typed t" using typed_label(1) [of "jd_fresh st0" it] by simp
  then show thesis using that [of t] t by (simp add: doc_of_def)
qed

text \<open>
  C12. A parsed document means its tree: any sequence of reads of a document, on it or on the objects that
  \<^verbatim>\<open>operator[]\<close> gave, succeeds, and each read gives the value that the parsed tree has there, whatever was
  read before; the objects kept for children never become visible.
\<close>

theorem json_reads_refine_tree:
  assumes p: "cjo_Parse al fp [] text st0 = Some (True, st)" and r: "reads_ok (the (m_pJsonData (jd_top st))) [[]] rs"
  shows "\<exists>st'. read_run fp rs st = Some (map (tree_val fp (the (m_pJsonData (jd_top st)))) rs, st')"
proof -
  obtain t where "m_pJsonData (jd_top st) = Some t" "doc_of t st" using p by (rule parsed_follows)
  then show ?thesis using read_run_tree [of t st "[[]]" rs fp] r by (auto simp: jd_self_def)
qed

theorem json_reads_refine_tree_witness:
  "\<exists>st'. read_run decimals [At_key [] ''l'', Text_idx [Inr ''l''] 1, At_key [] ''x'', Text_key [Inr ''x''] ''y'',
      Read_int [] ''n'', Size_of [Inr ''l''], Keys_of []] parsed_doc =
    Some ([J_ref, J_text ''a b'', J_ref, J_text '''', J_int (Some (- 5)), J_size 2, J_keys [''n'', ''l'']], st')"
proof -
  let ?rs = "[At_key [] ''l'', Text_idx [Inr ''l''] 1, At_key [] ''x'', Text_key [Inr ''x''] ''y'',
      Read_int [] ''n'', Size_of [Inr ''l''], Keys_of []]"
  let ?t = "the (m_pJsonData (jd_top parsed_doc))"
  have "reads_ok ?t [[]] ?rs" by (simp add: parsed_doc_def cjson_types)
  moreover have "map (tree_val decimals ?t) ?rs =
      [J_ref, J_text ''a b'', J_ref, J_text '''', J_int (Some (- 5)), J_size 2, J_keys [''n'', ''l'']]"
    by (simp add: parsed_doc_def member_of_def element_of_def text_of_def JsonStruct2Str_def cJSON_GetObjectItem_def
        c_str_def tolower_def cJSON_GetArrayItem_def nth_child_def cjson_types cJSON_GetArraySize_def value_in_def rd_int32_def i32_def)
  ultimately show ?thesis using json_reads_refine_tree [OF test_parsed, of ?rs] by simp
qed

end
