(* ===== verification/SysConfig.thy ===== *)
theory SysConfig
  imports JsonReads Network
begin

text \<open>
  The system configuration (\<^verbatim>\<open>src/src/core/sys_config.{h,cpp}\<close>) on the JSON document it loads. The network
  theories read the configuration through a plain look-up; here that look-up is refined to the code: the
  accessors go through \<^verbatim>\<open>CJsonObject\<close>, which changes its tables at every read.
\<close>

section \<open>State and loading\<close>

record 'd sysconf =
  sc_config :: "'d jdoc option"
  sc_work_path :: string
  sc_conf_path :: string

text \<open>The content of the file is \<open>None\<close> if it cannot be opened.\<close>

definition load_config ::
  "(nat \<Rightarrow> bool) \<Rightarrow> 'd fp \<Rightarrow> string option \<Rightarrow> 'd sysconf \<Rightarrow> (bool \<times> 'd sysconf) option" where
  "load_config al fp content sc = do {
     (ok, doc) \<leftarrow> cjo_Load al fp [] content new_doc;
     Some (if ok then (True, sc\<lparr>sc_config := Some doc\<rparr>) else (False, sc\<lparr>sc_config := None\<rparr>))
   }"

text \<open>\<open>writable\<close> is the answer of \<^verbatim>\<open>access(path, W_OK)\<close>, \<open>cwd\<close> that of \<^verbatim>\<open>getcwd\<close>.\<close>

definition conf_init ::
  "(nat \<Rightarrow> bool) \<Rightarrow> 'd fp \<Rightarrow> bool \<Rightarrow> string option \<Rightarrow> string option \<Rightarrow> string \<Rightarrow> 'd sysconf \<Rightarrow> (bool \<times> 'd sysconf) option" where
  "conf_init al fp writable cwd content path sc =
     (if \<not> writable then Some (False, sc)
      else case cwd of
             None \<Rightarrow> Some (False, sc)
           | Some work_path \<Rightarrow> do {
               (ok, sc1) \<leftarrow> load_config al fp content (sc\<lparr>sc_work_path := work_path\<rparr>);
               Some (if ok then (True, sc1\<lparr>sc_conf_path := path\<rparr>) else (False, sc1))
             })"

section \<open>Accessors\<close>

text \<open>\<^verbatim>\<open>(*m_config)(key)\<close>, and its conversion, whose exception nobody catches.\<close>

definition conf_text :: "'d fp \<Rightarrow> string \<Rightarrow> 'd sysconf \<Rightarrow> (string \<times> 'd sysconf) option" where
  "conf_text fp key sc = do {
     doc \<leftarrow> sc_config sc;
     (s, doc') \<leftarrow> call_key fp [] key doc;
     Some (s, sc\<lparr>sc_config := Some doc'\<rparr>)
   }"

definition conf_int :: "'d fp \<Rightarrow> string \<Rightarrow> 'd sysconf \<Rightarrow> (int \<times> 'd sysconf) option" where
  "conf_int fp key sc = do {
     (s, sc') \<leftarrow> conf_text fp key sc;
     n \<leftarrow> str_to_int s;
     Some (n, sc')
   }"

definition conf_worker_cnt :: "'d fp \<Rightarrow> 'd sysconf \<Rightarrow> (int \<times> 'd sysconf) option" where
  "conf_worker_cnt fp = conf_int fp ''worker_cnt''"

definition conf_server_name :: "'d fp \<Rightarrow> 'd sysconf \<Rightarrow> (string \<times> 'd sysconf) option" where
  "conf_server_name fp = conf_text fp ''server_name''"

definition conf_worker_name :: "'d fp \<Rightarrow> int \<Rightarrow> 'd sysconf \<Rightarrow> (string \<times> 'd sysconf) option" where
  "conf_worker_name fp index sc = do {
     (s, sc') \<leftarrow> conf_server_name fp sc;
     Some (format_str (c_str s @ ''_w_'' @ dec index), sc')
   }"

definition conf_reuseport :: "'d sysconf \<Rightarrow> (bool \<times> 'd sysconf) option" where
  "conf_reuseport sc = do {
     doc \<leftarrow> sc_config sc;
     v \<leftarrow> Get_key_bool [] ''is_reuseport'' doc;
     Some (case v of None \<Rightarrow> False | Some b \<Rightarrow> b, sc)
   }"

definition conf_open_zookeeper :: "'d sysconf \<Rightarrow> (bool \<times> 'd sysconf) option" where
  "conf_open_zookeeper sc = do {
     doc \<leftarrow> sc_config sc;
     doc' \<leftarrow> Get_ref_key [] ''zookeeper'' doc;
     v \<leftarrow> Get_key_bool [Inr ''zookeeper''] ''is_open'' doc';
     Some (case v of None \<Rightarrow> False | Some b \<Rightarrow> b, sc\<lparr>sc_config := Some doc'\<rparr>)
   }"

section \<open>The abstract configuration\<close>

definition conf_view :: "'d fp \<Rightarrow> 'd cJSON \<Rightarrow> sys_config" where
  "conf_view fp t =
     \<lparr>cf_str = \<lambda>key. text_of fp (member_of (Some t) key),
      cf_reuseport = value_in rd_bool (member_of (Some t) ''is_reuseport''),
      cf_zk_is_open = value_in rd_bool (member_of (member_of (Some t) ''zookeeper'') ''is_open'')\<rparr>"

definition conf_of :: "'d cJSON \<Rightarrow> 'd sysconf \<Rightarrow> bool" where
  "conf_of t sc = (case sc_config sc of None \<Rightarrow> False | Some doc \<Rightarrow> doc_of t doc)"

datatype conf_op = Op_text string | Op_int string | Op_worker_name int | Op_reuseport | Op_zookeeper

datatype conf_value = V_text string | V_int int | V_bool bool

fun conf_step :: "'d fp \<Rightarrow> conf_op \<Rightarrow> 'd sysconf \<Rightarrow> (conf_value \<times> 'd sysconf) option" where
  "conf_step fp (Op_text key) sc = map_option (apfst V_text) (conf_text fp key sc)"
| "conf_step fp (Op_int key) sc = map_option (apfst V_int) (conf_int fp key sc)"
| "conf_step fp (Op_worker_name i) sc = map_option (apfst V_text) (conf_worker_name fp i sc)"
| "conf_step fp Op_reuseport sc = map_option (apfst V_bool) (conf_reuseport sc)"
| "conf_step fp Op_zookeeper sc = map_option (apfst V_bool) (conf_open_zookeeper sc)"

fun view_step :: "sys_config \<Rightarrow> conf_op \<Rightarrow> conf_value option" where
  "view_step cf (Op_text key) = Some (V_text (cf_str cf key))"
| "view_step cf (Op_int key) = map_option V_int (cf_int key cf)"
| "view_step cf (Op_worker_name i) = Some (V_text (worker_name cf i))"
| "view_step cf Op_reuseport = Some (V_bool (is_reuseport cf))"
| "view_step cf Op_zookeeper = Some (V_bool (is_open_zookeeper cf))"

fun conf_run :: "'d fp \<Rightarrow> conf_op list \<Rightarrow> 'd sysconf \<Rightarrow> (conf_value list \<times> 'd sysconf) option" where
  "conf_run fp [] sc = Some ([], sc)"
| "conf_run fp (r # rs) sc = do {
     (v, sc1) \<leftarrow> conf_step fp r sc;
     (vs, sc2) \<leftarrow> conf_run fp rs sc1;
     Some (v # vs, sc2)
   }"

lemma text_view:
  assumes "conf_of t sc"
  shows "\<exists>sc'. conf_text fp key sc = Some (cf_str (conf_view fp t) key, sc') \<and> conf_of t sc'"
proof -
  obtain doc where doc: "sc_config sc = Some doc" "doc_of t doc" using assms by (auto simp: conf_of_def split: option.splits)
  show ?thesis
    using call_reads(1) [OF doc(2), of "[]" "jd_top doc" fp key] doc(1)
    by (auto simp: conf_text_def conf_view_def conf_of_def jd_self_def)
qed

lemma bool_views:
  assumes "conf_of t sc"
  shows "conf_reuseport sc = Some (is_reuseport (conf_view fp t), sc)"
    "\<exists>sc'. conf_open_zookeeper sc = Some (is_open_zookeeper (conf_view fp t), sc') \<and> conf_of t sc'"
proof -
  obtain doc where doc: "sc_config sc = Some doc" "doc_of t doc" using assms by (auto simp: conf_of_def split: option.splits)
  show "conf_reuseport sc = Some (is_reuseport (conf_view fp t), sc)"
    using doc_value [OF doc(2), of "[]" "jd_top doc" rd_bool "''is_reuseport''"] doc(1)
    by (simp add: conf_reuseport_def Get_key_bool_def rd_total jd_self_def is_reuseport_def conf_view_def)
  obtain doc' y where d: "Get_ref_key [] ''zookeeper'' doc = Some doc'" "doc_of t doc'" "jd_self [Inr ''zookeeper''] doc' = Some y"
    using index_reads(1) [OF doc(2), of "[]" "jd_top doc" "''zookeeper''"] by (auto simp: index_key_def jd_self_def)
  show "\<exists>sc'. conf_open_zookeeper sc = Some (is_open_zookeeper (conf_view fp t), sc') \<and> conf_of t sc'"
    using doc_value [OF d(2,3), of rd_bool "''is_open''"] d(1,2) doc(1)
    by (simp add: conf_open_zookeeper_def Get_key_bool_def rd_total is_open_zookeeper_def conf_view_def conf_of_def)
qed

lemma step_view:
  assumes "conf_of t sc"
  shows "case view_step (conf_view fp t) r of
      None \<Rightarrow> conf_step fp r sc = None
    | Some v \<Rightarrow> \<exists>sc'. conf_step fp r sc = Some (v, sc') \<and> conf_of t sc'"
proof (cases r)
  case (Op_text key)
  then show ?thesis using text_view [OF assms, of fp key] by auto
next
  case (Op_int key)
  then show ?thesis using text_view [OF assms, of fp key] by (auto simp: conf_int_def cf_int_def split: option.split)
next
  case (Op_worker_name i)
  then show ?thesis using text_view [OF assms, of fp "''server_name''"]
    by (auto simp: conf_worker_name_def conf_server_name_def worker_name_def)
qed (use bool_views [OF assms, of fp] assms in auto)

lemma run_view:
  "conf_of t sc \<Longrightarrow> map_option fst (conf_run fp rs sc) = those (map (view_step (conf_view fp t)) rs)"
proof (induction rs arbitrary: sc)
  case (Cons r rs)
  show ?case
  proof (cases "view_step (conf_view fp t) r")
    case None
    then show ?thesis using step_view [OF Cons.prems, of fp r] by simp
  next
    case (Some v)
    then obtain sc' where sc': "conf_step fp r sc = Some (v, sc')" "conf_of t sc'"
      using step_view [OF Cons.prems, of fp r] by auto
    then show ?thesis using Cons.IH [OF sc'(2), symmetric] Some by (cases "conf_run fp rs sc'") auto
  qed
qed simp

lemma init_conf_of:
  assumes "conf_init al fp w cwd content path sc0 = Some (True, sc)"
  obtains doc t where "sc_config sc = Some doc" "m_pJsonData (jd_top doc) = Some t" "conf_of t sc"
proof -
  obtain js doc where doc: "cjo_Parse al fp [] js new_doc = Some (True, doc)" "sc_config sc = Some doc"
    using assms
    by (auto simp: conf_init_def load_config_def cjo_Load_def split: if_splits option.splits bind_splits)
  obtain t where "m_pJsonData (jd_top doc) = Some t" "doc_of t doc" using doc(1) by (rule parsed_follows)
  then show thesis using that doc(2) by (auto simp: conf_of_def)
qed

section \<open>The configuration the network sees\<close>

text \<open>
  C20. The loaded configuration is the look-up that the network theories use: after a successful \<^verbatim>\<open>init\<close>
  any sequence of accessor calls gives the values of the abstract configuration of the document's tree,
  however often and in whatever order they are made, and ends in an uncaught exception exactly if the
  abstract one does.
\<close>

theorem config_refines_lookup:
  assumes "conf_init al fp w cwd content path sc0 = Some (True, sc)"
  shows "map_option fst (conf_run fp rs sc) =
    those (map (view_step (conf_view fp (the (m_pJsonData (jd_top (the (sc_config sc))))))) rs)"
proof -
  obtain doc t where "sc_config sc = Some doc" "m_pJsonData (jd_top doc) = Some t" "conf_of t sc"
    using assms by (rule init_conf_of)
  then show ?thesis by (simp add: run_view)
qed

lemma test_conf_init:
  "conf_init always decimals True (Some ''/'') (Some (render decimals 0 False test_item)) ''c'' sc0 =
     Some (True, sc0\<lparr>sc_work_path := ''/'', sc_config := Some parsed_doc, sc_conf_path := ''c''\<rparr>)"
  by (simp add: conf_init_def load_config_def cjo_Load_def test_parsed)

lemma parsed_doc_views:
  "cf_str (conf_view decimals (the (m_pJsonData (jd_top parsed_doc)))) ''b'' = ''''"
  "member_of (Some (the (m_pJsonData (jd_top parsed_doc)))) ''n'' =
     Some (Item 1 cJSON_Int None (- 5) (fp_of_u64 decimals (- 5)) (- 1) (Some ''n'') [])"
  by (simp_all add: conf_view_def parsed_doc_def member_of_def text_of_def JsonStruct2Str_def cJSON_GetObjectItem_def
      c_str_def tolower_def cjson_types)

theorem config_refines_lookup_witness:
  "map_option fst (conf_run decimals [Op_text ''b'', Op_int ''b'', Op_text ''b'']
      \<lparr>sc_config = Some parsed_doc, sc_work_path = ''/'', sc_conf_path = ''c''\<rparr>) =
    Some [V_text '''', V_int 0, V_text '''']"
  using config_refines_lookup [OF test_conf_init [of "\<lparr>sc_config = None, sc_work_path = [], sc_conf_path = []\<rparr>"],
      of "[Op_text ''b'', Op_int ''b'', Op_text ''b'']"]
  by (simp add: parsed_doc_views cf_int_def str_to_int_def)

text \<open>
  An integer of the configuration is read through its unsigned text: \<^verbatim>\<open>str_to_int((*m_config)(key))\<close> gives
  the number if it is at most \<^verbatim>\<open>INT_MAX\<close>, and ends the process with an uncaught exception otherwise, in
  particular for every negative number.
\<close>

theorem config_int_range:
  assumes "conf_of t sc" "member_of (Some t) key = Some it" "j_type it = cJSON_Int"
  shows "map_option fst (conf_int fp key sc) = (if uint (j_int it) \<le> INT_MAX then Some (uint (j_int it)) else None)"
proof -
  obtain sc' where sc': "conf_text fp key sc = Some (dec_nat (unat (j_int it)), sc')"
    using text_view [OF assms(1), of fp key] assms(2,3)
    by (auto simp: conf_view_def text_of_def JsonStruct2Str_def cjson_types)
  then show ?thesis by (simp add: conf_int_def str_to_int_nat)
qed

theorem config_int_range_witness:
  "map_option fst (conf_int decimals ''n'' \<lparr>sc_config = Some parsed_doc, sc_work_path = ''/'', sc_conf_path = ''c''\<rparr>) = None"
proof -
  let ?sc = "\<lparr>sc_config = Some parsed_doc, sc_work_path = ''/'', sc_conf_path = ''c''\<rparr>"
  have "conf_of (the (m_pJsonData (jd_top parsed_doc))) ?sc"
    using test_parsed by (rule parsed_follows) (simp add: conf_of_def)
  then show ?thesis
    using config_int_range [of "the (m_pJsonData (jd_top parsed_doc))" ?sc "''n''", OF _ parsed_doc_views(2)]
    by (simp add: INT_MAX_def)
qed

end
