(* ===== verification/Links.thy ===== *)
theory Links
  imports Prelude "HOL-Library.Monad_Syntax"
begin

text \<open>
  The intrusive doubly linked lists of libco (\<^verbatim>\<open>RemoveFromLink\<close>, \<^verbatim>\<open>AddTail\<close>, \<^verbatim>\<open>PopHead\<close> and \<^verbatim>\<open>Join\<close> in
  \<^verbatim>\<open>src/src/core/libco/co_routine.cpp\<close>), on a store of nodes and list heads: every node has its two
  neighbours and the list it is in, every list its first and last node. A failed \<^verbatim>\<open>assert\<close> and a null
  pointer that is followed are \<open>None\<close>. The store is related to plain lists, and each operation to the
  operation on lists that it stands for.
\<close>

section \<open>The store\<close>

record ('n, 'l) links =
  pPrev :: "'n \<Rightarrow> 'n option"
  pNext :: "'n \<Rightarrow> 'n option"
  pLink :: "'n \<Rightarrow> 'l option"
  lst_head :: "'l \<Rightarrow> 'n option"
  lst_tail :: "'l \<Rightarrow> 'n option"

definition no_links :: "('n, 'l) links" where
  "no_links = \<lparr>pPrev = \<lambda>_. None, pNext = \<lambda>_. None, pLink = \<lambda>_. None, lst_head = \<lambda>_. None, lst_tail = \<lambda>_. None\<rparr>"

definition set_prev :: "'n \<Rightarrow> 'n option \<Rightarrow> ('n, 'l) links \<Rightarrow> ('n, 'l) links" where
  "set_prev n v s = s\<lparr>pPrev := (pPrev s)(n := v)\<rparr>"

definition set_next :: "'n \<Rightarrow> 'n option \<Rightarrow> ('n, 'l) links \<Rightarrow> ('n, 'l) links" where
  "set_next n v s = s\<lparr>pNext := (pNext s)(n := v)\<rparr>"

definition set_link :: "'n \<Rightarrow> 'l option \<Rightarrow> ('n, 'l) links \<Rightarrow> ('n, 'l) links" where
  "set_link n v s = s\<lparr>pLink := (pLink s)(n := v)\<rparr>"

definition set_head :: "'l \<Rightarrow> 'n option \<Rightarrow> ('n, 'l) links \<Rightarrow> ('n, 'l) links" where
  "set_head l v s = s\<lparr>lst_head := (lst_head s)(l := v)\<rparr>"

definition set_tail :: "'l \<Rightarrow> 'n option \<Rightarrow> ('n, 'l) links \<Rightarrow> ('n, 'l) links" where
  "set_tail l v s = s\<lparr>lst_tail := (lst_tail s)(l := v)\<rparr>"

lemma set_sel [simp]:
  "pPrev (set_prev n v s) = (pPrev s)(n := v)" "pNext (set_prev n v s) = pNext s" "pLink (set_prev n v s) = pLink s"
  "lst_head (set_prev n v s) = lst_head s" "lst_tail (set_prev n v s) = lst_tail s"
  "pPrev (set_next n v s) = pPrev s" "pNext (set_next n v s) = (pNext s)(n := v)" "pLink (set_next n v s) = pLink s"
  "lst_head (set_next n v s) = lst_head s" "lst_tail (set_next n v s) = lst_tail s"
  "pPrev (set_link n w s) = pPrev s" "pNext (set_link n w s) = pNext s" "pLink (set_link n w s) = (pLink s)(n := w)"
  "lst_head (set_link n w s) = lst_head s" "lst_tail (set_link n w s) = lst_tail s"
  "pPrev (set_head l v s) = pPrev s" "pNext (set_head l v s) = pNext s" "pLink (set_head l v s) = pLink s"
  "lst_head (set_head l v s) = (lst_head s)(l := v)" "lst_tail (set_head l v s) = lst_tail s"
  "pPrev (set_tail l v s) = pPrev s" "pNext (set_tail l v s) = pNext s" "pLink (set_tail l v s) = pLink s"
  "lst_head (set_tail l v s) = lst_head s" "lst_tail (set_tail l v s) = (lst_tail s)(l := v)"
  by (simp_all add: set_prev_def set_next_def set_link_def set_head_def set_tail_def)

section \<open>Operations\<close>

text \<open>The two halves of \<^verbatim>\<open>RemoveFromLink\<close>: the neighbour in front and the head, the neighbour behind and the tail.\<close>

definition unlink_front :: "'n \<Rightarrow> 'l \<Rightarrow> ('n, 'l) links \<Rightarrow> ('n, 'l) links" where
  "unlink_front ap l s =
     (if lst_head s l = Some ap
      then let s1 = set_head l (pNext s ap) s
           in case pNext s ap of None \<Rightarrow> s1 | Some h \<Rightarrow> set_prev h None s1
      else case pPrev s ap of None \<Rightarrow> s | Some p \<Rightarrow> set_next p (pNext s ap) s)"

definition unlink_back :: "'n \<Rightarrow> 'l \<Rightarrow> ('n, 'l) links \<Rightarrow> ('n, 'l) links option" where
  "unlink_back ap l s =
     (if lst_tail s l = Some ap
      then Some (let s1 = set_tail l (pPrev s ap) s
                 in case pPrev s ap of None \<Rightarrow> s1 | Some t \<Rightarrow> set_next t None s1)
      else case pNext s ap of None \<Rightarrow> None | Some n \<Rightarrow> Some (set_prev n (pPrev s ap) s))"

definition RemoveFromLink :: "'n \<Rightarrow> ('n, 'l) links \<Rightarrow> ('n, 'l) links option" where
  "RemoveFromLink ap s =
     (case pLink s ap of
        None \<Rightarrow> Some s
      | Some l \<Rightarrow>
          if lst_head s l = None \<or> lst_tail s l = None then None
          else do {
            s1 \<leftarrow> unlink_back ap l (unlink_front ap l s);
            Some (set_link ap None (set_prev ap None (set_next ap None s1)))
          })"

definition AddTail :: "'l \<Rightarrow> 'n \<Rightarrow> ('n, 'l) links \<Rightarrow> ('n, 'l) links" where
  "AddTail l ap s =
     (if pLink s ap \<noteq> None then s
      else set_link ap (Some l)
             (case lst_tail s l of
                Some t \<Rightarrow> set_tail l (Some ap) (set_prev ap (Some t) (set_next ap None (set_next t (Some ap) s)))
              | None \<Rightarrow> set_prev ap None (set_next ap None (set_tail l (Some ap) (set_head l (Some ap) s)))))"

definition PopHead :: "'l \<Rightarrow> ('n, 'l) links \<Rightarrow> ('n, 'l) links option" where
  "PopHead l s =
     (case lst_head s l of
        None \<Rightarrow> Some s
      | Some lp \<Rightarrow>
          let s1 = (if lst_head s l = lst_tail s l then set_tail l None (set_head l None s)
                    else set_head l (pNext s lp) s);
              s2 = set_link lp None (set_prev lp None (set_next lp None s1))
          in Some (case lst_head s2 l of None \<Rightarrow> s2 | Some h \<Rightarrow> set_prev h None s2))"

text \<open>\<^verbatim>\<open>Join\<close> walks over the other list to set the list of its nodes.\<close>

partial_function (option) relink :: "'l \<Rightarrow> 'n option \<Rightarrow> ('n, 'l) links \<Rightarrow> ('n, 'l) links option" where
  "relink l lp s = (case lp of None \<Rightarrow> Some s | Some n \<Rightarrow> relink l (pNext s n) (set_link n (Some l) s))"

definition Join :: "'l \<Rightarrow> 'l \<Rightarrow> ('n, 'l) links \<Rightarrow> ('n, 'l) links option" where
  "Join l ot s =
     (case lst_head s ot of
        None \<Rightarrow> Some s
      | Some lp \<Rightarrow> do {
          s1 \<leftarrow> relink l (Some lp) s;
          let s2 = (case lst_tail s1 l of
                      Some t \<Rightarrow> set_tail l (lst_tail s1 ot) (set_prev lp (Some t) (set_next t (Some lp) s1))
                    | None \<Rightarrow> set_tail l (lst_tail s1 ot) (set_head l (lst_head s1 ot) s1));
          Some (set_tail ot None (set_head ot None s2))
        })"

section \<open>The lists that a store represents\<close>

definition hdo :: "'a list \<Rightarrow> 'a option" where
  "hdo xs = (case xs of [] \<Rightarrow> None | x # _ \<Rightarrow> Some x)"

definition lasto :: "'a list \<Rightarrow> 'a option" where
  "lasto xs = hdo (rev xs)"

lemma ends [simp]:
  "hdo [] = None" "hdo (x # xs) = Some x" "lasto [] = None" "lasto (xs @ [x]) = Some x"
  "hdo xs = None \<longleftrightarrow> xs = []" "lasto xs = None \<longleftrightarrow> xs = []"
  by (auto simp: hdo_def lasto_def split: list.splits)

lemma lasto_Cons [simp]: "lasto (x # xs) = (if xs = [] then Some x else lasto xs)"
  by (cases xs rule: rev_cases) (auto simp: lasto_def)

lemma ends_ex [simp]: "(\<exists>y. lasto xs = Some y) \<longleftrightarrow> xs \<noteq> []" "(\<exists>y. hdo xs = Some y) \<longleftrightarrow> xs \<noteq> []"
  by (metis ends(6) not_None_eq, metis ends(5) not_None_eq)

lemma ends_in: "lasto xs = Some x \<Longrightarrow> x \<in> set xs" "hdo xs = Some x \<Longrightarrow> x \<in> set xs"
  by (cases xs rule: rev_cases; auto)(cases xs; auto)

lemma ends_append: "hdo (xs @ ys) = (if xs = [] then hdo ys else hdo xs)" "lasto (xs @ ys) = (if ys = [] then lasto xs else lasto ys)"
  by (auto simp: hdo_def lasto_def split: list.splits)

lemma ends_iff: "hdo xs = Some x \<longleftrightarrow> (\<exists>ys. xs = x # ys)" "lasto xs = Some x \<longleftrightarrow> (\<exists>ys. xs = ys @ [x])"
proof -
  show "hdo xs = Some x \<longleftrightarrow> (\<exists>ys. xs = x # ys)" by (auto simp: hdo_def split: list.splits)
  show "lasto xs = Some x \<longleftrightarrow> (\<exists>ys. xs = ys @ [x])" by (cases xs rule: rev_cases) auto
qed

definition linked_as :: "('n, 'l) links \<Rightarrow> 'l \<Rightarrow> 'n list \<Rightarrow> bool" where
  "linked_as s l xs \<longleftrightarrow>
     distinct xs \<and> lst_head s l = hdo xs \<and> lst_tail s l = lasto xs \<and>
     (\<forall>ys n zs. xs = ys @ n # zs \<longrightarrow> pPrev s n = lasto ys \<and> pNext s n = hdo zs)"

definition links_rep :: "('n, 'l) links \<Rightarrow> ('l \<Rightarrow> 'n list) \<Rightarrow> bool" where
  "links_rep s L \<longleftrightarrow> (\<forall>l. linked_as s l (L l)) \<and> (\<forall>n l. pLink s n = Some l \<longleftrightarrow> n \<in> set (L l))"

lemma rep_empty: "links_rep no_links (\<lambda>_. [])"
  by (simp add: links_rep_def linked_as_def no_links_def)

lemma rep_distinct: "links_rep s L \<Longrightarrow> distinct (L l)"
  and rep_ends: "links_rep s L \<Longrightarrow> lst_head s l = hdo (L l)" "links_rep s L \<Longrightarrow> lst_tail s l = lasto (L l)"
  and rep_in: "links_rep s L \<Longrightarrow> pLink s n = Some l \<longleftrightarrow> n \<in> set (L l)"
  and rep_around: "links_rep s L \<Longrightarrow> L l = ys @ n # zs \<Longrightarrow> pPrev s n = lasto ys \<and> pNext s n = hdo zs"
  by (simp_all add: links_rep_def linked_as_def)

lemma rep_one: "links_rep s L \<Longrightarrow> n \<in> set (L l) \<Longrightarrow> n \<in> set (L l') \<Longrightarrow> l = l'"
  by (metis option.inject rep_in)

section \<open>The operations on the lists\<close>

text \<open>A list with one node more at the end, or without one of its nodes.\<close>

lemma split_snoc: "xs @ [x] = ys @ n # zs \<longleftrightarrow> (zs = [] \<and> n = x \<and> ys = xs) \<or> (\<exists>zs'. zs = zs' @ [x] \<and> xs = ys @ n # zs')"
  by (cases zs rule: rev_cases) auto

lemma split_append:
  "xs @ us = ys @ n # zs \<longleftrightarrow>
     (\<exists>zs'. zs = zs' @ us \<and> xs = ys @ n # zs') \<or> (\<exists>ys'. ys = xs @ ys' \<and> us = ys' @ n # zs)"
  by (auto simp: append_eq_append_conv2 append_eq_Cons_conv Cons_eq_append_conv)

lemma AddTail_rep:
  assumes r: "links_rep s L" and n: "pLink s n = None"
  shows "links_rep (AddTail l n s) (L(l := L l @ [n]))"
proof -
  have out: "n \<notin> set (L k)" for k using r n by (metis option.distinct(1) rep_in)
  have tl: "lst_tail s l = lasto (L l)" using r by (rule rep_ends)
  have old: "pPrev s m = lasto ys \<and> pNext s m = hdo zs" if "L k = ys @ m # zs" for k ys m zs
    using rep_around [OF r that] .
  let ?s = "AddTail l n s"
  have prev: "pPrev ?s = (pPrev s)(n := lasto (L l))"
    using n tl by (auto simp: AddTail_def split: option.split)
  have nxt: "pNext ?s = (case lasto (L l) of None \<Rightarrow> (pNext s)(n := None) | Some t \<Rightarrow> (pNext s)(t := Some n, n := None))"
    using n tl by (auto simp: AddTail_def split: option.split)
  have rest: "pLink ?s = (pLink s)(n := Some l)" "lst_tail ?s = (lst_tail s)(l := Some n)"
    "lst_head ?s = (if L l = [] then (lst_head s)(l := Some n) else lst_head s)"
    using n tl by (auto simp: AddTail_def split: option.split)
  have "linked_as ?s k ((L(l := L l @ [n])) k)" for k
  proof (cases "k = l")
    case True
    have "pPrev ?s m = lasto ys \<and> pNext ?s m = hdo zs" if m: "L l @ [n] = ys @ m # zs" for ys m zs
    proof (cases zs rule: rev_cases)
      case Nil
      then show ?thesis using m prev nxt by (auto split: option.split)
    next
      case (snoc zs' z)
      then have e: "L l = ys @ m # zs'" "z = n" using m by auto
      then have "m \<noteq> n" "lasto (L l) = Some m \<longleftrightarrow> zs' = []"
        using out [of l] rep_distinct [OF r, of l] by (auto simp: ends_append ends_iff Cons_eq_append_conv)
      moreover obtain t where "lasto (L l) = Some t" using e by (cases "lasto (L l)") auto
      ultimately show ?thesis using old [OF e(1)] prev nxt snoc e by (auto simp: ends_append)
    qed
    then show ?thesis using True rest rep_ends(1) [OF r, of l] rep_distinct [OF r, of l] out [of l]
      by (auto simp: linked_as_def ends_append)
  next
    case False
    have "pPrev ?s m = lasto ys \<and> pNext ?s m = hdo zs" if m: "L k = ys @ m # zs" for ys m zs
    proof -
      have "m \<in> set (L k)" using m by simp
      then have "m \<noteq> n" "lasto (L l) \<noteq> Some m"
        using out [of k] rep_one [OF r, of m k l] False by (auto simp: ends_iff)
      then show ?thesis using old [OF m] prev nxt by (auto split: option.split)
    qed
    then show ?thesis using False rest rep_ends [OF r, of k] rep_distinct [OF r, of k] by (simp add: linked_as_def)
  qed
  moreover have "pLink ?s m = Some k \<longleftrightarrow> m \<in> set ((L(l := L l @ [n])) k)" for m k
    using rep_in [OF r, of m k] out [of k] rest by auto
  ultimately show ?thesis by (simp add: links_rep_def)
qed

lemma AddTail_linked: "pLink s n = Some k \<Longrightarrow> AddTail l n s = s"
  by (simp add: AddTail_def)

lemma rep_without:
  assumes r: "links_rep s L" and e: "L l = ys @ n # zs"
    and prev: "pPrev s' = (case hdo zs of None \<Rightarrow> (pPrev s)(n := None) | Some h \<Rightarrow> (pPrev s)(h := lasto ys, n := None))"
    and nxt: "pNext s' = (case lasto ys of None \<Rightarrow> (pNext s)(n := None) | Some p \<Rightarrow> (pNext s)(p := hdo zs, n := None))"
    and rest: "pLink s' = (pLink s)(n := None)" "lst_head s' = (lst_head s)(l := hdo (ys @ zs))"
      "lst_tail s' = (lst_tail s)(l := lasto (ys @ zs))"
  shows "links_rep s' (L(l := ys @ zs))"
proof -
  have d: "distinct (ys @ n # zs)" using rep_distinct [OF r, of l] e by simp
  have "linked_as s' k ((L(l := ys @ zs)) k)" for k
  proof (cases "k = l")
    case True
    have "pPrev s' m = lasto us \<and> pNext s' m = hdo vs" if m: "ys @ zs = us @ m # vs" for us m vs
    proof -
      have mn: "m \<noteq> n" using m d by (metis Un_iff distinct.simps(2) distinct_append in_set_conv_decomp set_append disjoint_iff list.set_intros(1))
      consider vs' where "vs = vs' @ zs" "ys = us @ m # vs'" | us' where "us = ys @ us'" "zs = us' @ m # vs"
        using m unfolding split_append by blast
      then show ?thesis
      proof cases
        case 1
        then have o: "pPrev s m = lasto us \<and> pNext s m = hdo (vs' @ n # zs)"
          using rep_around [OF r, of l us m "vs' @ n # zs"] e by simp
        have h: "hdo zs \<noteq> Some m" using d 1 by (auto simp: ends_iff)
        have p: "lasto ys = Some m \<longleftrightarrow> vs' = []" using d 1 by (auto simp: ends_append ends_iff Cons_eq_append_conv)
        then show ?thesis using o h mn 1 prev nxt by (auto simp: ends_append split: option.splits)
      next
        case 2
        then have o: "pPrev s m = lasto (ys @ n # us') \<and> pNext s m = hdo vs"
          using rep_around [OF r, of l "ys @ n # us'" m vs] e by simp
        have p: "lasto ys \<noteq> Some m" using d 2 by (auto simp: ends_iff)
        have h: "hdo zs = Some m \<longleftrightarrow> us' = []" using d 2 by (auto simp: ends_iff Cons_eq_append_conv append_eq_Cons_conv)
        then show ?thesis using o p mn 2 prev nxt by (auto simp: ends_append split: option.splits)
      qed
    qed
    then show ?thesis using True rest d by (simp add: linked_as_def)
  next
    case False
    have "pPrev s' m = lasto us \<and> pNext s' m = hdo vs" if m: "L k = us @ m # vs" for us m vs
    proof -
      have "m \<notin> set (L l)" using m rep_one [OF r, of m k l] False by auto
      then have "m \<noteq> n" "hdo zs \<noteq> Some m" "lasto ys \<noteq> Some m" unfolding e by (auto simp: ends_iff)
      then show ?thesis using rep_around [OF r m] prev nxt by (auto split: option.split)
    qed
    then show ?thesis using False rest rep_ends [OF r, of k] rep_distinct [OF r, of k] by (simp add: linked_as_def)
  qed
  moreover have "pLink s' m = Some k \<longleftrightarrow> m \<in> set ((L(l := ys @ zs)) k)" for m k
  proof (cases "m = n")
    case True
    have "n \<notin> set ((L(l := ys @ zs)) k)" using rep_one [OF r, of n l k] e d by (cases "k = l") auto
    then show ?thesis using True rest(1) by simp
  next
    case False
    then have "m \<in> set ((L(l := ys @ zs)) k) \<longleftrightarrow> m \<in> set (L k)" using e by (cases "k = l") auto
    then show ?thesis using rep_in [OF r, of m k] rest(1) False by simp
  qed
  ultimately show ?thesis by (simp add: links_rep_def)
qed

lemma RemoveFromLink_rep:
  assumes r: "links_rep s L" and e: "L l = ys @ n # zs"
  shows "\<exists>s'. RemoveFromLink n s = Some s' \<and> links_rep s' (L(l := ys @ zs))"
proof -
  have d: "distinct (ys @ n # zs)" using rep_distinct [OF r, of l] e by simp
  have k: "pLink s n = Some l" using rep_in [OF r, of n l] e by simp
  have a: "pPrev s n = lasto ys" "pNext s n = hdo zs" using rep_around [OF r e] by simp_all
  have hd: "lst_head s l = hdo (ys @ n # zs)" and tl: "lst_tail s l = lasto (ys @ n # zs)" using rep_ends [OF r, of l] e by simp_all
  have "\<exists>s'. RemoveFromLink n s = Some s' \<and>
      pPrev s' = (case hdo zs of None \<Rightarrow> (pPrev s)(n := None) | Some h \<Rightarrow> (pPrev s)(h := lasto ys, n := None)) \<and>
      pNext s' = (case lasto ys of None \<Rightarrow> (pNext s)(n := None) | Some p \<Rightarrow> (pNext s)(p := hdo zs, n := None)) \<and>
      pLink s' = (pLink s)(n := None) \<and> lst_head s' = (lst_head s)(l := hdo (ys @ zs)) \<and>
      lst_tail s' = (lst_tail s)(l := lasto (ys @ zs))"
  proof (cases ys rule: rev_cases)
    case Nil
    with d a hd tl k show ?thesis
      by (cases zs) (auto simp: RemoveFromLink_def unlink_back_def unlink_front_def Let_def ends_append fun_upd_twist dest: ends_in)
  next
    case (snoc us u)
    with d a hd tl k show ?thesis
      by (cases zs; cases us)
        (auto simp: RemoveFromLink_def unlink_back_def unlink_front_def Let_def ends_append fun_upd_twist fun_upd_idem_iff dest: ends_in)
  qed
  then show ?thesis using rep_without [OF r e] by metis
qed

lemma RemoveFromLink_none: "pLink s n = None \<Longrightarrow> RemoveFromLink n s = Some s"
  by (simp add: RemoveFromLink_def)

lemma PopHead_rep:
  assumes r: "links_rep s L" and e: "L l = n # zs"
  shows "\<exists>s'. PopHead l s = Some s' \<and> links_rep s' (L(l := zs))"
proof -
  have d: "distinct (n # zs)" using rep_distinct [OF r, of l] e by simp
  have a: "pPrev s n = None" "pNext s n = hdo zs" using rep_around [OF r, of l "[]" n zs] e by simp_all
  have hd: "lst_head s l = Some n" and tl: "lst_tail s l = lasto (n # zs)" using rep_ends [OF r, of l] e by simp_all
  have "\<exists>s'. PopHead l s = Some s' \<and>
      pPrev s' = (case hdo zs of None \<Rightarrow> (pPrev s)(n := None) | Some h \<Rightarrow> (pPrev s)(h := lasto [], n := None)) \<and>
      pNext s' = (case lasto ([] :: 'a list) of None \<Rightarrow> (pNext s)(n := None) | Some p \<Rightarrow> (pNext s)(p := hdo zs, n := None)) \<and>
      pLink s' = (pLink s)(n := None) \<and> lst_head s' = (lst_head s)(l := hdo ([] @ zs)) \<and>
      lst_tail s' = (lst_tail s)(l := lasto ([] @ zs))"
    using d a hd tl by (cases zs) (auto simp: PopHead_def Let_def fun_upd_twist fun_upd_idem_iff dest: ends_in ends_in [OF sym])
  then obtain s' where s': "PopHead l s = Some s'"
      "pPrev s' = (case hdo zs of None \<Rightarrow> (pPrev s)(n := None) | Some h \<Rightarrow> (pPrev s)(h := lasto [], n := None))"
      "pNext s' = (case lasto ([] :: 'a list) of None \<Rightarrow> (pNext s)(n := None) | Some p \<Rightarrow> (pNext s)(p := hdo zs, n := None))"
      "pLink s' = (pLink s)(n := None)" "lst_head s' = (lst_head s)(l := hdo ([] @ zs))"
      "lst_tail s' = (lst_tail s)(l := lasto ([] @ zs))"
    by blast
  have "links_rep s' (L(l := [] @ zs))" using e by (intro rep_without [OF r _ s'(2-)]) simp
  then show ?thesis using s'(1) by simp
qed

lemma PopHead_empty: "links_rep s L \<Longrightarrow> L l = [] \<Longrightarrow> PopHead l s = Some s"
  by (simp add: PopHead_def rep_ends)

lemma relink_all:
  "(\<And>ys n zs. xs = ys @ n # zs \<Longrightarrow> pNext s n = hdo zs) \<Longrightarrow>
     relink l (hdo xs) s = Some (s\<lparr>pLink := \<lambda>n. if n \<in> set xs then Some l else pLink s n\<rparr>)"
proof (induction xs arbitrary: s)
  case Nil
  then show ?case by (simp add: relink.simps [of l None])
next
  case (Cons x xs)
  have "pNext s x = hdo xs" using Cons.prems [of "[]" x xs] by simp
  moreover have "relink l (hdo xs) (set_link x (Some l) s) =
      Some ((set_link x (Some l) s)\<lparr>pLink := \<lambda>n. if n \<in> set xs then Some l else pLink (set_link x (Some l) s) n\<rparr>)"
    using Cons.prems [of "x # _"] by (intro Cons.IH) simp
  moreover have "(set_link x (Some l) s)\<lparr>pLink := \<lambda>n. if n \<in> set xs then Some l else pLink (set_link x (Some l) s) n\<rparr> =
      s\<lparr>pLink := \<lambda>n. if n \<in> set (x # xs) then Some l else pLink s n\<rparr>"
    by (simp add: set_link_def fun_eq_iff)
  ultimately show ?case by (simp add: relink.simps [of l "Some x"])
qed

lemma Join_rep:
  assumes r: "links_rep s L" and ne: "l \<noteq> ot"
  shows "\<exists>s'. Join l ot s = Some s' \<and> links_rep s' (L(l := L l @ L ot, ot := []))"
proof (cases "L ot")
  case Nil
  have "L(l := L l @ [], ot := []) = L" using Nil by (auto simp: fun_eq_iff)
  then show ?thesis using r rep_ends(1) [OF r, of ot] Nil by (auto simp: Join_def)
next
  case (Cons lp us)
  let ?s1 = "s\<lparr>pLink := \<lambda>n. if n \<in> set (L ot) then Some l else pLink s n\<rparr>"
  have rl: "relink l (Some lp) s = Some ?s1"
    using relink_all [of "L ot" s l] rep_around [OF r, of ot] Cons by simp
  have "\<exists>s'. Join l ot s = Some s' \<and> pPrev s' = (pPrev s)(lp := lasto (L l)) \<and>
      pNext s' = (case lasto (L l) of None \<Rightarrow> pNext s | Some t \<Rightarrow> (pNext s)(t := Some lp)) \<and> pLink s' = pLink ?s1 \<and>
      lst_head s' = (lst_head s)(l := hdo (L l @ L ot), ot := None) \<and> lst_tail s' = (lst_tail s)(l := lasto (L ot), ot := None)"
    using rl rep_ends [OF r, of l] rep_ends [OF r, of ot] rep_around [OF r, of ot "[]" lp us] Cons ne
    by (cases "L l") (auto simp: Join_def ends_append fun_upd_idem_iff split: option.splits)
  then obtain s' where s': "Join l ot s = Some s'" and prev: "pPrev s' = (pPrev s)(lp := lasto (L l))"
      and nxt: "pNext s' = (case lasto (L l) of None \<Rightarrow> pNext s | Some t \<Rightarrow> (pNext s)(t := Some lp))" and lk: "pLink s' = pLink ?s1"
      and hd: "lst_head s' = (lst_head s)(l := hdo (L l @ L ot), ot := None)"
      and tl: "lst_tail s' = (lst_tail s)(l := lasto (L ot), ot := None)" by blast
  have lo: "set (L l) \<inter> set (L ot) = {}" using rep_one [OF r, of _ l ot] ne by auto
  have "pPrev s' m = lasto ys \<and> pNext s' m = hdo zs" if m: "L l @ L ot = ys @ m # zs" for ys m zs
  proof -
    consider zs' where "zs = zs' @ L ot" "L l = ys @ m # zs'" | ys' where "ys = L l @ ys'" "L ot = ys' @ m # zs"
      using m unfolding split_append by blast
    then show ?thesis
    proof cases
      case 1
      have "m \<noteq> lp" using lo 1(2) Cons by auto
      moreover have "lasto (L l) = Some m \<longleftrightarrow> zs' = []"
        using rep_distinct [OF r, of l] 1(2) by (auto simp: ends_append dest: ends_in)
      moreover obtain t where "lasto (L l) = Some t" using 1(2) by (cases "lasto (L l)") auto
      ultimately show ?thesis using rep_around [OF r 1(2)] prev nxt 1(1) Cons by (auto simp: ends_append)
    next
      case 2
      have "lasto (L l) \<noteq> Some m" using lo 2(2) by (auto dest: ends_in)
      moreover have "m = lp \<longleftrightarrow> ys' = []" using rep_distinct [OF r, of ot] 2(2) Cons by (cases ys') auto
      ultimately show ?thesis using rep_around [OF r 2(2)] prev nxt 2(1) by (auto simp: ends_append split: option.split)
    qed
  qed
  moreover have "pPrev s' m = lasto ys \<and> pNext s' m = hdo zs" if k: "k \<noteq> l" "k \<noteq> ot" and m: "L k = ys @ m # zs" for k ys m zs
  proof -
    have "m \<notin> set (L l)" "m \<notin> set (L ot)" using rep_one [OF r, of m k] k m by auto
    then have "m \<noteq> lp" "lasto (L l) \<noteq> Some m" using Cons by (auto dest: ends_in)
    then show ?thesis using rep_around [OF r m] prev nxt by (auto split: option.split)
  qed
  ultimately have "linked_as s' k ((L(l := L l @ L ot, ot := [])) k)" for k
    using hd tl ne rep_ends [OF r, of k] rep_distinct [OF r, of k] rep_distinct [OF r, of ot] lo Cons
    by (auto simp: linked_as_def ends_append)
  moreover have "pLink s' m = Some k \<longleftrightarrow> m \<in> set ((L(l := L l @ L ot, ot := [])) k)" for m k
    using lk ne rep_in [OF r, of m k] rep_in [OF r, of m ot] rep_one [OF r, of m ot k] by auto
  ultimately show ?thesis using s' by (auto simp: links_rep_def)
qed

section \<open>The interface of the lists\<close>

text \<open>What a user of the lists relies on: each operation succeeds and does to the represented lists what it says.\<close>

definition without :: "'n \<Rightarrow> ('l \<Rightarrow> 'n list) \<Rightarrow> 'l \<Rightarrow> 'n list" where
  "without n L = (\<lambda>k. filter (\<lambda>m. m \<noteq> n) (L k))"

datatype ('n, 'l) link_op = Op_add 'l 'n | Op_remove 'n | Op_pop 'l | Op_join 'l 'l

fun list_step :: "('n, 'l) link_op \<Rightarrow> ('l \<Rightarrow> 'n list) \<Rightarrow> 'l \<Rightarrow> 'n list" where
  "list_step (Op_add l n) L = (if \<exists>k. n \<in> set (L k) then L else L(l := L l @ [n]))"
| "list_step (Op_remove n) L = without n L"
| "list_step (Op_pop l) L = L(l := tl (L l))"
| "list_step (Op_join l ot) L = L(l := L l @ L ot, ot := [])"

fun op_ok :: "('n, 'l) link_op \<Rightarrow> bool" where
  "op_ok (Op_join l ot) \<longleftrightarrow> l \<noteq> ot"
| "op_ok _ \<longleftrightarrow> True"

locale list_store =
  fixes rep :: "'s \<Rightarrow> ('l \<Rightarrow> 'n list) \<Rightarrow> bool"
    and add :: "'l \<Rightarrow> 'n \<Rightarrow> 's \<Rightarrow> 's"
    and rem :: "'n \<Rightarrow> 's \<Rightarrow> 's option"
    and pop :: "'l \<Rightarrow> 's \<Rightarrow> 's option"
    and join :: "'l \<Rightarrow> 'l \<Rightarrow> 's \<Rightarrow> 's option"
  assumes add_rep: "rep s L \<Longrightarrow> rep (add l n s) (list_step (Op_add l n) L)"
    and rem_rep: "rep s L \<Longrightarrow> \<exists>s'. rem n s = Some s' \<and> rep s' (without n L)"
    and pop_rep: "rep s L \<Longrightarrow> \<exists>s'. pop l s = Some s' \<and> rep s' (L(l := tl (L l)))"
    and join_rep: "rep s L \<Longrightarrow> l \<noteq> ot \<Longrightarrow> \<exists>s'. join l ot s = Some s' \<and> rep s' (L(l := L l @ L ot, ot := []))"
begin

fun store_step :: "('n, 'l) link_op \<Rightarrow> 's \<Rightarrow> 's option" where
  "store_step (Op_add l n) s = Some (add l n s)"
| "store_step (Op_remove n) s = rem n s"
| "store_step (Op_pop l) s = pop l s"
| "store_step (Op_join l ot) s = join l ot s"

lemma store_step_rep: "rep s L \<Longrightarrow> op_ok p \<Longrightarrow> \<exists>s'. store_step p s = Some s' \<and> rep s' (list_step p L)"
  using add_rep rem_rep pop_rep join_rep by (cases p) auto

end

lemma add_law: "links_rep s L \<Longrightarrow> links_rep (AddTail l n s) (list_step (Op_add l n) L)"
  using AddTail_rep [of s L n l] rep_in [of s L n] by (cases "pLink s n") (auto simp: AddTail_linked)

lemma remove_law:
  assumes r: "links_rep s L"
  shows "\<exists>s'. RemoveFromLink n s = Some s' \<and> links_rep s' (without n L)"
proof (cases "pLink s n")
  case None
  then have "without n L = L" using rep_in [OF r, of n] by (auto simp: without_def fun_eq_iff intro!: filter_True)
  then show ?thesis using None r by (simp add: RemoveFromLink_none)
next
  case (Some l)
  then obtain ys zs where e: "L l = ys @ n # zs" using rep_in [OF r, of n l] by (auto simp: in_set_conv_decomp)
  have "n \<notin> set (L k)" if "k \<noteq> l" for k using that rep_one [OF r, of n l k] e by auto
  moreover have "filter (\<lambda>m. m \<noteq> n) ys = ys" "filter (\<lambda>m. m \<noteq> n) zs = zs"
    using e rep_distinct [OF r, of l] by (auto simp: filter_id_conv)
  ultimately have "without n L = L(l := ys @ zs)"
    using e by (auto simp: without_def fun_eq_iff filter_id_conv)
  then show ?thesis using RemoveFromLink_rep [OF r e] by simp
qed

lemma pop_law:
  assumes r: "links_rep s L"
  shows "\<exists>s'. PopHead l s = Some s' \<and> links_rep s' (L(l := tl (L l)))"
proof (cases "L l")
  case Nil
  then have "L(l := tl (L l)) = L" by (auto simp: fun_eq_iff)
  then show ?thesis using PopHead_empty [OF r Nil] r by simp
next
  case (Cons n zs)
  then show ?thesis using PopHead_rep [OF r Cons] by simp
qed

interpretation lk: list_store links_rep AddTail RemoveFromLink PopHead Join
  by unfold_locales (simp_all add: add_law remove_law pop_law Join_rep del: list_step.simps)

text \<open>The operations of the code as one step, and runs of steps.\<close>

fun link_step :: "('n, 'l) link_op \<Rightarrow> ('n, 'l) links \<Rightarrow> ('n, 'l) links option" where
  "link_step (Op_add l n) s = Some (AddTail l n s)"
| "link_step (Op_remove n) s = RemoveFromLink n s"
| "link_step (Op_pop l) s = PopHead l s"
| "link_step (Op_join l ot) s = Join l ot s"

fun link_run :: "('n, 'l) link_op list \<Rightarrow> ('n, 'l) links \<Rightarrow> ('n, 'l) links option" where
  "link_run [] s = Some s"
| "link_run (p # ps) s = do { s1 \<leftarrow> link_step p s; link_run ps s1 }"

lemma link_step_rep: "links_rep s L \<Longrightarrow> op_ok p \<Longrightarrow> \<exists>s'. link_step p s = Some s' \<and> links_rep s' (list_step p L)"
  using lk.store_step_rep [of s L p] by (cases p) auto

lemma link_run_rep:
  "links_rep s L \<Longrightarrow> list_all op_ok ps \<Longrightarrow> \<exists>s'. link_run ps s = Some s' \<and> links_rep s' (fold list_step ps L)"
proof (induction ps arbitrary: s L)
  case (Cons p ps)
  then obtain s1 where "link_step p s = Some s1" "links_rep s1 (list_step p L)" using link_step_rep [of s L p] by auto
  then show ?case using Cons.IH [of s1 "list_step p L"] Cons.prems by simp
qed simp

text \<open>
  C16. The linked lists of libco are lists: any sequence of \<^verbatim>\<open>AddTail\<close>, \<^verbatim>\<open>RemoveFromLink\<close>, \<^verbatim>\<open>PopHead\<close> and
  \<^verbatim>\<open>Join\<close> of different lists, from the empty store, fails no assertion, follows no null pointer and ends,
  and the pointers then represent exactly the lists that the operations make.
\<close>

theorem links_refine_lists:
  assumes "list_all op_ok ps"
  shows "\<exists>s. link_run ps no_links = Some s \<and> links_rep s (fold list_step ps (\<lambda>_. []))"
  by (rule link_run_rep [OF rep_empty assms])

theorem links_refine_lists_witness:
  "\<exists>s. link_run [Op_add (0::nat) (1::nat), Op_add 0 2, Op_add 1 3, Op_join 0 1, Op_remove 2, Op_pop 0] no_links = Some s \<and>
    links_rep s ((\<lambda>_. [])(0 := [3]))"
  using links_refine_lists [of "[Op_add (0::nat) (1::nat), Op_add 0 2, Op_add 1 3, Op_join 0 1, Op_remove 2, Op_pop 0]"]
  by (simp add: without_def fun_upd_def cong: if_cong)

end
