(* ===== verification/TimeWheel.thy ===== *)
theory TimeWheel
  imports Links
begin

text \<open>
  The time wheel of libco (\<^verbatim>\<open>stTimeout_t\<close>, \<^verbatim>\<open>AllocTimeout\<close>, \<^verbatim>\<open>AddTimeout\<close> and \<^verbatim>\<open>TakeAllTimeout\<close> in
  \<^verbatim>\<open>src/src/core/libco/co_routine.cpp\<close>): a ring of linked lists, one for every millisecond. Items are
  numbered; the lists are those of \<open>Links\<close>. The wheel is compared with a plain collection of items.
\<close>

section \<open>State\<close>

datatype tlink = Slot nat | ActiveList | TimeoutList

record titem =
  ullExpireTime :: nat
  bTimeout :: bool
  pArg :: nat

record wheel =
  wh_links :: "(nat, tlink) links"
  wh_item :: "nat \<Rightarrow> titem"
  iItemSize :: int
  ullStart :: nat
  llStartIdx :: int

definition no_item :: titem where
  "no_item = \<lparr>ullExpireTime = 0, bTimeout = False, pArg = 0\<rparr>"

definition AllocTimeout :: "int \<Rightarrow> nat \<Rightarrow> wheel" where
  "AllocTimeout iSize tick =
     \<lparr>wh_links = no_links, wh_item = \<lambda>_. no_item, iItemSize = iSize, ullStart = tick, llStartIdx = 0\<rparr>"

text \<open>A wheel that was never used starts now.\<close>

definition wheel_start :: "nat \<Rightarrow> wheel \<Rightarrow> wheel" where
  "wheel_start allNow w = (if ullStart w = 0 then w\<lparr>ullStart := allNow, llStartIdx := 0\<rparr> else w)"

text \<open>The slot is computed with unsigned 64-bit numbers.\<close>

definition slot_of :: "wheel \<Rightarrow> nat \<Rightarrow> nat" where
  "slot_of w diff = nat (((llStartIdx w + int diff) mod 2 ^ 64) mod iItemSize w)"

definition AddTimeout :: "nat \<Rightarrow> nat \<Rightarrow> wheel \<Rightarrow> int \<times> wheel" where
  "AddTimeout apItem allNow w0 =
     (let w = wheel_start allNow w0
      in if allNow < ullStart w then (350, w)
         else if ullExpireTime (wh_item w apItem) < allNow then (356, w)
         else let diff0 = ullExpireTime (wh_item w apItem) - ullStart w;
                  diff = (if int diff0 \<ge> iItemSize w then nat (iItemSize w - 1) else diff0)
              in (0, w\<lparr>wh_links := AddTail (Slot (slot_of w diff)) apItem (wh_links w)\<rparr>))"

text \<open>The index of a slot that is taken: the remainder of a negative number is outside of the array.\<close>

definition taken_idx :: "wheel \<Rightarrow> nat \<Rightarrow> nat option" where
  "taken_idx w i =
     (let v = llStartIdx w + int i
      in if v \<ge> 0 then Some (nat (v mod iItemSize w)) else if (- v) mod iItemSize w = 0 then Some 0 else None)"

fun take_slots :: "nat list \<Rightarrow> wheel \<Rightarrow> wheel option" where
  "take_slots [] w = Some w"
| "take_slots (i # is) w = do {
     idx \<leftarrow> taken_idx w i;
     ls \<leftarrow> Join TimeoutList (Slot idx) (wh_links w);
     take_slots is (w\<lparr>wh_links := ls\<rparr>)
   }"

definition TakeAllTimeout :: "nat \<Rightarrow> wheel \<Rightarrow> wheel option" where
  "TakeAllTimeout allNow w0 =
     (let w = wheel_start allNow w0
      in if allNow < ullStart w then Some w
         else let cnt0 = i32 (int (allNow - ullStart w) + 1);
                  cnt = (if cnt0 > iItemSize w then iItemSize w else cnt0)
              in if cnt < 0 then Some w
                 else do {
                   w1 \<leftarrow> take_slots [0 ..< nat cnt] w;
                   Some (w1\<lparr>ullStart := allNow, llStartIdx := llStartIdx w1 + cnt - 1\<rparr>)
                 })"

section \<open>The invariant of the wheel\<close>

text \<open>
  The lists of a wheel; the slot at distance \<open>d\<close> from the start holds items that expire \<open>d\<close> milliseconds
  after it, or later if they were put into the last slot. Times stay far below the range of their types.
\<close>

definition at_dist :: "wheel \<Rightarrow> nat \<Rightarrow> nat" where
  "at_dist w d = nat ((llStartIdx w + int d) mod iItemSize w)"

definition wheel_ok :: "wheel \<Rightarrow> (tlink \<Rightarrow> nat list) \<Rightarrow> bool" where
  "wheel_ok w L \<longleftrightarrow>
     links_rep (wh_links w) L \<and> 0 < iItemSize w \<and> iItemSize w < 2 ^ 31 \<and> 0 \<le> llStartIdx w \<and> llStartIdx w < 2 ^ 62 \<and>
     0 < ullStart w \<and>
     (\<forall>k. int k \<ge> iItemSize w \<longrightarrow> L (Slot k) = []) \<and>
     (\<forall>d < nat (iItemSize w). \<forall>n \<in> set (L (Slot (at_dist w d))). ullStart w + d \<le> ullExpireTime (wh_item w n))"

definition wheel_items :: "wheel \<Rightarrow> (tlink \<Rightarrow> nat list) \<Rightarrow> nat set" where
  "wheel_items w L = (\<Union>k < nat (iItemSize w). set (L (Slot k)))"

lemma wheel_ok_new:
  "0 < iSize \<Longrightarrow> iSize < 2 ^ 31 \<Longrightarrow> 0 < tick \<Longrightarrow> wheel_ok (AllocTimeout iSize tick) (\<lambda>_. [])"
  by (simp add: wheel_ok_def AllocTimeout_def rep_empty)

lemma at_dist_range: "0 < iItemSize w \<Longrightarrow> at_dist w d < nat (iItemSize w)"
  by (simp add: at_dist_def)

lemma at_dist_inj:
  assumes "0 < iItemSize w" "d < nat (iItemSize w)" "e < nat (iItemSize w)" "at_dist w d = at_dist w e"
  shows "d = e"
proof -
  have "(llStartIdx w + int d) mod iItemSize w = (llStartIdx w + int e) mod iItemSize w"
    using assms(1,4) by (simp add: at_dist_def eq_nat_nat_iff)
  then have "iItemSize w dvd int d - int e" by (simp add: mod_eq_dvd_iff)
  then show ?thesis using assms(2,3) zdvd_imp_le [of "iItemSize w" "int d - int e"] zdvd_imp_le [of "iItemSize w" "int e - int d"]
    by (cases "int d - int e" "0 :: int" rule: linorder_cases) (auto simp: dvd_diff_commute)
qed

lemma at_dist_surj:
  assumes "0 < iItemSize w" "k < nat (iItemSize w)"
  shows "\<exists>d < nat (iItemSize w). at_dist w d = k"
proof -
  have "inj_on (at_dist w) {..<nat (iItemSize w)}" using at_dist_inj [OF assms(1)] by (auto simp: inj_on_def)
  moreover have "at_dist w ` {..<nat (iItemSize w)} \<subseteq> {..<nat (iItemSize w)}" using at_dist_range [OF assms(1)] by auto
  ultimately have "at_dist w ` {..<nat (iItemSize w)} = {..<nat (iItemSize w)}" by (simp add: endo_inj_surj)
  then show ?thesis using assms(2) by (metis imageE lessThan_iff)
qed

section \<open>Adding\<close>

lemma slot_of_at: "wheel_ok w L \<Longrightarrow> int d < iItemSize w \<Longrightarrow> slot_of w d = at_dist w d"
  by (simp add: wheel_ok_def slot_of_def at_dist_def)

lemma wheel_start_id: "0 < ullStart w \<Longrightarrow> wheel_start now w = w"
  by (simp add: wheel_start_def)

text \<open>The distance at which an item is put.\<close>

definition dist_of :: "wheel \<Rightarrow> nat \<Rightarrow> nat" where
  "dist_of w n = min (ullExpireTime (wh_item w n) - ullStart w) (nat (iItemSize w) - 1)"

lemma AddTimeout_ok:
  assumes ok: "wheel_ok w L" and n: "\<And>l. n \<notin> set (L l)" and t: "ullStart w \<le> now" "now \<le> ullExpireTime (wh_item w n)"
  shows "\<exists>ls. AddTimeout n now w = (0, w\<lparr>wh_links := ls\<rparr>) \<and>
    wheel_ok (w\<lparr>wh_links := ls\<rparr>) (L(Slot (at_dist w (dist_of w n)) := L (Slot (at_dist w (dist_of w n))) @ [n]))"
proof -
  let ?d = "dist_of w n" and ?ls = "AddTail (Slot (at_dist w (dist_of w n))) n (wh_links w)"
  have size: "0 < iItemSize w" and start: "0 < ullStart w" and rep: "links_rep (wh_links w) L"
    using ok by (simp_all add: wheel_ok_def)
  have d: "int ?d < iItemSize w" using size by (simp add: dist_of_def min_def) linarith
  have "pLink (wh_links w) n = None" using rep_in [OF rep, of n] n by (metis not_None_eq)
  then have r: "links_rep ?ls (L(Slot (at_dist w ?d) := L (Slot (at_dist w ?d)) @ [n]))" by (rule AddTail_rep [OF rep])
  have "AddTimeout n now w = (0, w\<lparr>wh_links := ?ls\<rparr>)"
    using t start size slot_of_at [OF ok d]
    by (auto simp: AddTimeout_def wheel_start_id Let_def dist_of_def min_def nat_diff_distrib' split: if_splits)
  moreover have "wheel_ok (w\<lparr>wh_links := ?ls\<rparr>) (L(Slot (at_dist w ?d) := L (Slot (at_dist w ?d)) @ [n]))"
  proof -
    have "ullStart w + e \<le> ullExpireTime (wh_item w m)"
      if e: "e < nat (iItemSize w)" and m: "m \<in> set ((L(Slot (at_dist w ?d) := L (Slot (at_dist w ?d)) @ [n])) (Slot (at_dist w e)))" for e m
    proof (cases "m \<in> set (L (Slot (at_dist w e)))")
      case True
      then show ?thesis using ok e by (simp add: wheel_ok_def)
    next
      case False
      then have "at_dist w e = at_dist w ?d" "m = n" using m by (auto split: if_splits)
      then have "e = ?d" using at_dist_inj [OF size e, of ?d] d by simp
      then show ?thesis using t \<open>m = n\<close> by (simp add: dist_of_def)
    qed
    moreover have "at_dist (w\<lparr>wh_links := ?ls\<rparr>) = at_dist w" by (simp add: at_dist_def fun_eq_iff)
    moreover have "int k \<ge> iItemSize w \<Longrightarrow> k \<noteq> at_dist w ?d" for k using at_dist_range [OF size, of ?d] by auto
    ultimately show ?thesis using ok r by (simp add: wheel_ok_def)
  qed
  ultimately show ?thesis by blast
qed

section \<open>Taking\<close>

definition taken :: "wheel \<Rightarrow> (tlink \<Rightarrow> nat list) \<Rightarrow> nat \<Rightarrow> nat list" where
  "taken w L c = concat (map (\<lambda>i. L (Slot (at_dist w i))) [0 ..< c])"

definition after_take :: "wheel \<Rightarrow> (tlink \<Rightarrow> nat list) \<Rightarrow> nat \<Rightarrow> tlink \<Rightarrow> nat list" where
  "after_take w L c l =
     (case l of
        TimeoutList \<Rightarrow> L TimeoutList @ taken w L c
      | Slot k \<Rightarrow> if k \<in> at_dist w ` {..<c} then [] else L (Slot k)
      | ActiveList \<Rightarrow> L ActiveList)"

lemma after_take_Suc:
  assumes "0 < iItemSize w" "int c < iItemSize w"
  shows "after_take w L (Suc c) =
    (after_take w L c)(TimeoutList := after_take w L c TimeoutList @ after_take w L c (Slot (at_dist w c)), Slot (at_dist w c) := [])"
proof -
  have "at_dist w c \<noteq> at_dist w x" if "x < c" for x
    using at_dist_inj [OF assms(1), of c x] assms(2) that by (auto simp: zless_nat_eq_int_zless)
  then have "at_dist w c \<notin> at_dist w ` {..<c}" by auto
  then show ?thesis by (auto simp: after_take_def taken_def fun_eq_iff lessThan_Suc split: tlink.split)
qed

lemma take_slots_snoc: "take_slots (is @ [i]) w = do {
     w1 \<leftarrow> take_slots is w;
     idx \<leftarrow> taken_idx w1 i;
     ls \<leftarrow> Join TimeoutList (Slot idx) (wh_links w1);
     Some (w1\<lparr>wh_links := ls\<rparr>)
   }"
  by (induction "is" arbitrary: w) (auto split: bind_splits)

lemma take_slots_rep:
  assumes r: "links_rep (wh_links w) L" and size: "0 < iItemSize w" and idx: "0 \<le> llStartIdx w"
  shows "int c \<le> iItemSize w \<Longrightarrow>
    \<exists>ls. take_slots [0 ..< c] w = Some (w\<lparr>wh_links := ls\<rparr>) \<and> links_rep ls (after_take w L c)"
proof (induction c)
  case 0
  have "after_take w L 0 = L" by (auto simp: after_take_def taken_def fun_eq_iff split: tlink.split)
  then show ?case using r by (auto intro: exI [of _ "wh_links w"])
next
  case (Suc c)
  then obtain ls where ls: "take_slots [0 ..< c] w = Some (w\<lparr>wh_links := ls\<rparr>)" "links_rep ls (after_take w L c)" by auto
  have "taken_idx (w\<lparr>wh_links := ls\<rparr>) c = Some (at_dist w c)" using idx by (simp add: taken_idx_def at_dist_def)
  moreover obtain ls' where "Join TimeoutList (Slot (at_dist w c)) ls = Some ls'"
    "links_rep ls' (after_take w L (Suc c))"
    using Join_rep [OF ls(2), of TimeoutList "Slot (at_dist w c)"] after_take_Suc [OF size, of c L] Suc.prems by auto
  ultimately show ?case using ls(1) by (intro exI [of _ ls']) (simp add: take_slots_snoc)
qed

text \<open>
  What \<^verbatim>\<open>TakeAllTimeout\<close> does at a time at or after the start of the wheel: it takes the lists of the slots up to
  now, and every item that stays expires later.
\<close>

definition take_cnt :: "wheel \<Rightarrow> nat \<Rightarrow> nat" where
  "take_cnt w now = min (now - ullStart w + 1) (nat (iItemSize w))"

lemma take_cnt_le: "0 < iItemSize w \<Longrightarrow> int (take_cnt w now) \<le> iItemSize w"
  by (auto simp: take_cnt_def)

lemma TakeAllTimeout_eq:
  assumes ok: "wheel_ok w L" and t: "ullStart w \<le> now" "now - ullStart w < 2 ^ 31 - 1"
  shows "\<exists>ls. TakeAllTimeout now w =
      Some (w\<lparr>wh_links := ls, ullStart := now, llStartIdx := llStartIdx w + int (take_cnt w now) - 1\<rparr>) \<and>
    links_rep ls (after_take w L (take_cnt w now))"
proof -
  have w: "links_rep (wh_links w) L" "0 < iItemSize w" "0 \<le> llStartIdx w" "0 < ullStart w" "iItemSize w < 2 ^ 31"
    using ok by (simp_all add: wheel_ok_def)
  have "i32 (int (now - ullStart w) + 1) = int (now - ullStart w) + 1" using t by (intro i32_id) auto
  then have cnt: "(if i32 (int (now - ullStart w) + 1) > iItemSize w then iItemSize w else i32 (int (now - ullStart w) + 1)) =
      int (take_cnt w now)" using w(2) by (auto simp: take_cnt_def)
  obtain ls where "take_slots [0 ..< take_cnt w now] w = Some (w\<lparr>wh_links := ls\<rparr>)" "links_rep ls (after_take w L (take_cnt w now))"
    using take_slots_rep [OF w(1-3) take_cnt_le [OF w(2)]] by blast
  then show ?thesis using t(1) w(4) unfolding TakeAllTimeout_def wheel_start_id [OF w(4)] Let_def cnt
    by (intro exI [of _ ls]) simp
qed

lemma at_dist_shift: "at_dist (w\<lparr>wh_links := ls, ullStart := now, llStartIdx := llStartIdx w + int c - 1\<rparr>) d = at_dist w (c + d - 1)"
  if "0 < c"
  using that by (simp add: at_dist_def algebra_simps)

lemma at_dist_wrap: "0 < iItemSize w \<Longrightarrow> at_dist w (d + nat (iItemSize w)) = at_dist w d"
  by (simp add: at_dist_def add.assoc [symmetric])

lemma TakeAllTimeout_ok:
  assumes ok: "wheel_ok w L" and t: "ullStart w \<le> now" "now - ullStart w < 2 ^ 31 - 1"
    and i: "llStartIdx w + iItemSize w < 2 ^ 62"
    and w': "w' = w\<lparr>wh_links := ls, ullStart := now, llStartIdx := llStartIdx w + int (take_cnt w now) - 1\<rparr>"
    and r: "links_rep ls (after_take w L (take_cnt w now))"
  shows "wheel_ok w' (after_take w L (take_cnt w now))"
proof -
  let ?c = "take_cnt w now" and ?L = "after_take w L (take_cnt w now)"
  have w: "0 < iItemSize w" "0 \<le> llStartIdx w" "0 < ullStart w" "iItemSize w < 2 ^ 31" using ok by (simp_all add: wheel_ok_def)
  have c: "0 < ?c" "int ?c \<le> iItemSize w" using w(1) by (auto simp: take_cnt_def)
  have "now + d \<le> ullExpireTime (wh_item w n)" if d: "d < nat (iItemSize w)" and n: "n \<in> set (?L (Slot (at_dist w' d)))" for d n
  proof -
    have ad: "at_dist w' d = at_dist w (?c + d - 1)" unfolding w' by (rule at_dist_shift [OF c(1)])
    have out: "at_dist w (?c + d - 1) \<notin> at_dist w ` {..<?c}" "n \<in> set (L (Slot (at_dist w (?c + d - 1))))"
      using n unfolding ad by (auto simp: after_take_def split: if_splits)
    have "?c + d - 1 < nat (iItemSize w)"
    proof (rule ccontr)
      assume "\<not> ?c + d - 1 < nat (iItemSize w)"
      then have "at_dist w (?c + d - 1) = at_dist w (?c + d - 1 - nat (iItemSize w))" "?c + d - 1 - nat (iItemSize w) < ?c"
        using at_dist_wrap [OF w(1), of "?c + d - 1 - nat (iItemSize w)"] d c by auto
      then show False using out(1) by blast
    qed
    moreover have "\<not> ?c + d - 1 < ?c" using out(1) by blast
    ultimately have "ullStart w + (?c + d - 1) \<le> ullExpireTime (wh_item w n)" "1 \<le> d" "?c < nat (iItemSize w)"
      using ok out(2) c by (auto simp: wheel_ok_def)
    then show ?thesis using t(1) by (simp add: take_cnt_def min_def split: if_splits)
  qed
  moreover have "L (Slot k) = [] \<Longrightarrow> ?L (Slot k) = []" for k by (simp add: after_take_def)
  ultimately show ?thesis using ok r i w c t(1) unfolding w' by (auto simp: wheel_ok_def)
qed

end
