(* ===== verification/CoLoop.thy ===== *)
theory CoLoop
  imports TimeWheel "HOL-Library.Word"
begin

unbundle bit_operations_syntax

text \<open>
  The event loop of libco (\<^verbatim>\<open>src/src/core/libco/co_routine.cpp\<close>): polling, condition variables, and the turns
  of \<^verbatim>\<open>co_eventloop\<close>. Resuming a coroutine runs user code until it yields; that is the parameter \<open>run\<close>
  of the turns. A function that yields in the middle is split there. The events of the kernel, the results of
  \<^verbatim>\<open>epoll_ctl\<close> and the clock are arguments.
\<close>

section \<open>Events\<close>

definition POLLIN :: "16 word" where "POLLIN = 0x1"
definition POLLOUT :: "16 word" where "POLLOUT = 0x4"
definition POLLERR :: "16 word" where "POLLERR = 0x8"
definition POLLHUP :: "16 word" where "POLLHUP = 0x10"
definition POLLRDNORM :: "16 word" where "POLLRDNORM = 0x40"
definition POLLWRNORM :: "16 word" where "POLLWRNORM = 0x100"

definition EPOLLIN :: "32 word" where "EPOLLIN = 0x1"
definition EPOLLOUT :: "32 word" where "EPOLLOUT = 0x4"
definition EPOLLERR :: "32 word" where "EPOLLERR = 0x8"
definition EPOLLHUP :: "32 word" where "EPOLLHUP = 0x10"
definition EPOLLRDNORM :: "32 word" where "EPOLLRDNORM = 0x40"
definition EPOLLWRNORM :: "32 word" where "EPOLLWRNORM = 0x100"

definition PollEvent2Epoll :: "16 word \<Rightarrow> 32 word" where
  "PollEvent2Epoll events =
     (if events AND POLLIN \<noteq> 0 then EPOLLIN else 0) OR (if events AND POLLOUT \<noteq> 0 then EPOLLOUT else 0) OR
     (if events AND POLLHUP \<noteq> 0 then EPOLLHUP else 0) OR (if events AND POLLERR \<noteq> 0 then EPOLLERR else 0) OR
     (if events AND POLLRDNORM \<noteq> 0 then EPOLLRDNORM else 0) OR (if events AND POLLWRNORM \<noteq> 0 then EPOLLWRNORM else 0)"

definition EpollEvent2Poll :: "32 word \<Rightarrow> 16 word" where
  "EpollEvent2Poll events =
     (if events AND EPOLLIN \<noteq> 0 then POLLIN else 0) OR (if events AND EPOLLOUT \<noteq> 0 then POLLOUT else 0) OR
     (if events AND EPOLLHUP \<noteq> 0 then POLLHUP else 0) OR (if events AND EPOLLERR \<noteq> 0 then POLLERR else 0) OR
     (if events AND EPOLLRDNORM \<noteq> 0 then POLLRDNORM else 0) OR (if events AND EPOLLWRNORM \<noteq> 0 then POLLWRNORM else 0)"

section \<open>State\<close>

text \<open>A poll is an item of the wheel with its copy of the results; a waiter on a condition has the number of its item.\<close>

record poll =
  po_fds :: "int list"
  po_revents :: "16 word list"
  iAllEventDetach :: bool
  iRaiseCnt :: int

record sched =
  sd_wheel :: wheel
  sd_poll :: "nat \<Rightarrow> poll"
  sd_conds :: "(nat, nat) links"
  sd_fresh :: nat

definition sd_links :: "('a sched_scheme) \<Rightarrow> (nat, tlink) links" where
  "sd_links sd = wh_links (sd_wheel sd)"

definition sd_set_links :: "(nat, tlink) links \<Rightarrow> 'a sched_scheme \<Rightarrow> 'a sched_scheme" where
  "sd_set_links ls sd = sd\<lparr>sd_wheel := (sd_wheel sd)\<lparr>wh_links := ls\<rparr>\<rparr>"

definition sd_set_item :: "nat \<Rightarrow> titem \<Rightarrow> 'a sched_scheme \<Rightarrow> 'a sched_scheme" where
  "sd_set_item n it sd = sd\<lparr>sd_wheel := (sd_wheel sd)\<lparr>wh_item := (wh_item (sd_wheel sd))(n := it)\<rparr>\<rparr>"

definition sd_item :: "'a sched_scheme \<Rightarrow> nat \<Rightarrow> titem" where
  "sd_item sd n = wh_item (sd_wheel sd) n"

definition no_poll :: poll where
  "no_poll = \<lparr>po_fds = [], po_revents = [], iAllEventDetach = False, iRaiseCnt = 0\<rparr>"

definition AllocEpoll :: "nat \<Rightarrow> sched" where
  "AllocEpoll tick =
     \<lparr>sd_wheel = AllocTimeout (60 * 1000) tick, sd_poll = \<lambda>_. no_poll, sd_conds = no_links, sd_fresh = 0\<rparr>"

section \<open>Turns of the event loop\<close>

text \<open>An event carries the pointer that was registered: an entry of a poll, or an item without a preparing function.\<close>

datatype ev_ptr = Poll_item nat nat | Plain_item nat

definition OnPollPreparePfn :: "nat \<Rightarrow> nat \<Rightarrow> 32 word \<Rightarrow> 'a sched_scheme \<Rightarrow> 'a sched_scheme option" where
  "OnPollPreparePfn p i events sd =
     (let po = sd_poll sd p
      in if i \<ge> length (po_revents po) then None
         else let po1 = po\<lparr>po_revents := (po_revents po)[i := EpollEvent2Poll events], iRaiseCnt := iRaiseCnt po + 1\<rparr>
              in if iAllEventDetach po then Some (sd\<lparr>sd_poll := (sd_poll sd)(p := po1)\<rparr>)
                 else do {
                   ls \<leftarrow> RemoveFromLink p (sd_links sd);
                   Some (sd_set_links (AddTail ActiveList p ls) (sd\<lparr>sd_poll := (sd_poll sd)(p := po1\<lparr>iAllEventDetach := True\<rparr>)\<rparr>))
                 })"

fun loop_events :: "(ev_ptr \<times> 32 word) list \<Rightarrow> 'a sched_scheme \<Rightarrow> 'a sched_scheme option" where
  "loop_events [] sd = Some sd"
| "loop_events ((Poll_item p i, ev) # es) sd = do { sd1 \<leftarrow> OnPollPreparePfn p i ev sd; loop_events es sd1 }"
| "loop_events ((Plain_item n, ev) # es) sd = loop_events es (sd_set_links (AddTail ActiveList n (sd_links sd)) sd)"

partial_function (option) mark_timeout :: "nat option \<Rightarrow> wheel \<Rightarrow> wheel option" where
  "mark_timeout lp w =
     (case lp of
        None \<Rightarrow> Some w
      | Some n \<Rightarrow>
          mark_timeout (pNext (wh_links w) n) (w\<lparr>wh_item := (wh_item w)(n := (wh_item w n)\<lparr>bTimeout := True\<rparr>)\<rparr>))"

text \<open>
  The loop over the active list. An item that is here because its slot came up before its time goes back into
  the wheel; if that fails it is processed.
\<close>

partial_function (option) drain ::
  "(nat \<Rightarrow> 'a sched_scheme \<Rightarrow> 'a sched_scheme option) \<Rightarrow> nat \<Rightarrow> 'a sched_scheme \<Rightarrow> 'a sched_scheme option" where
  "drain run now sd =
     (case lst_head (sd_links sd) ActiveList of
        None \<Rightarrow> Some sd
      | Some lp \<Rightarrow> do {
          ls \<leftarrow> PopHead ActiveList (sd_links sd);
          let sd1 = sd_set_links ls sd;
          if bTimeout (sd_item sd1 lp) \<and> now < ullExpireTime (sd_item sd1 lp)
          then let (ret, w) = AddTimeout lp now (sd_wheel sd1);
                   sd2 = sd1\<lparr>sd_wheel := w\<rparr>
               in if ret = 0 then drain run now (sd_set_item lp ((sd_item sd2 lp)\<lparr>bTimeout := False\<rparr>) sd2)
                  else do { sd3 \<leftarrow> run lp sd2; drain run now sd3 }
          else do { sd3 \<leftarrow> run lp sd1; drain run now sd3 }
        })"

definition clear_timeout_list :: "'a sched_scheme \<Rightarrow> 'a sched_scheme" where
  "clear_timeout_list sd = sd_set_links (set_tail TimeoutList None (set_head TimeoutList None (sd_links sd))) sd"

definition loop_turn ::
  "(nat \<Rightarrow> 'a sched_scheme \<Rightarrow> 'a sched_scheme option) \<Rightarrow> (ev_ptr \<times> 32 word) list \<Rightarrow> nat \<Rightarrow> 'a sched_scheme \<Rightarrow>
   'a sched_scheme option" where
  "loop_turn run events now sd = do {
     sd1 \<leftarrow> loop_events events (clear_timeout_list sd);
     w1 \<leftarrow> TakeAllTimeout now (sd_wheel sd1);
     w2 \<leftarrow> mark_timeout (lst_head (wh_links w1) TimeoutList) w1;
     ls \<leftarrow> Join ActiveList TimeoutList (wh_links w2);
     drain run now (sd1\<lparr>sd_wheel := w2\<lparr>wh_links := ls\<rparr>\<rparr>)
   }"

text \<open>The loop; after each turn it asks the function it was given, which may end it.\<close>

fun co_eventloop ::
  "(nat \<Rightarrow> 'a sched_scheme \<Rightarrow> 'a sched_scheme option) \<Rightarrow> ('a sched_scheme \<Rightarrow> int \<times> 'a sched_scheme) option \<Rightarrow>
   ((ev_ptr \<times> 32 word) list \<times> nat) list \<Rightarrow> 'a sched_scheme \<Rightarrow> 'a sched_scheme option" where
  "co_eventloop run pfn [] sd = Some sd"
| "co_eventloop run pfn ((events, now) # ts) sd = do {
     sd1 \<leftarrow> loop_turn run events now sd;
     case pfn of
       None \<Rightarrow> co_eventloop run pfn ts sd1
     | Some f \<Rightarrow> (let (r, sd2) = f sd1 in if r = - 1 then Some sd2 else co_eventloop run pfn ts sd2)
   }"

section \<open>Polling\<close>

text \<open>
  \<^verbatim>\<open>co_poll_inner\<close> up to the yield. \<open>ctl i\<close> tells whether \<^verbatim>\<open>epoll_ctl\<close> for entry \<open>i\<close> failed with \<^verbatim>\<open>EPERM\<close>; other
  failures are ignored. The result is the answer of the system's \<^verbatim>\<open>poll\<close>, a failure, or the poll to wait for.
\<close>

datatype 'a polling = Poll_system int | Poll_error "'a" | Poll_wait nat "'a"

definition co_poll_begin ::
  "(nat \<Rightarrow> bool) \<Rightarrow> nat \<Rightarrow> nat \<Rightarrow> int list \<Rightarrow> int \<Rightarrow> bool \<Rightarrow> 'a sched_scheme \<Rightarrow> 'a sched_scheme polling" where
  "co_poll_begin eperm now self fds timeout0 has_pollfunc sd =
     (if timeout0 = 0 then Poll_system 0
      else let timeout = (if timeout0 < 0 then INT_MAX else timeout0);
               p = sd_fresh sd;
               sd1 = sd\<lparr>sd_fresh := p + 1,
                        sd_poll := (sd_poll sd)(p := \<lparr>po_fds = fds, po_revents = replicate (length fds) 0, iAllEventDetach = False, iRaiseCnt = 0\<rparr>)\<rparr>
           in if length fds = 1 \<and> fds ! 0 > - 1 \<and> eperm 0 \<and> has_pollfunc then Poll_system timeout
              else let sd2 = sd_set_item p \<lparr>ullExpireTime = now + nat timeout, bTimeout = False, pArg = self\<rparr> sd1;
                       (ret, w) = AddTimeout p now (sd_wheel sd2)
                   in if ret \<noteq> 0 then Poll_error (sd2\<lparr>sd_wheel := w\<rparr>) else Poll_wait p (sd2\<lparr>sd_wheel := w\<rparr>))"

text \<open>After the yield: the item is unlinked, and the results are those that were noted.\<close>

definition co_poll_end :: "nat \<Rightarrow> 'a sched_scheme \<Rightarrow> (int \<times> 16 word list \<times> 'a sched_scheme) option" where
  "co_poll_end p sd = do {
     ls \<leftarrow> RemoveFromLink p (sd_links sd);
     Some (iRaiseCnt (sd_poll sd p), po_revents (sd_poll sd p), sd_set_links ls sd)
   }"

text \<open>\<^verbatim>\<open>co_sleep\<close> polls one descriptor, by default \<open>-1\<close>.\<close>

definition co_sleep :: "(nat \<Rightarrow> bool) \<Rightarrow> nat \<Rightarrow> nat \<Rightarrow> int \<Rightarrow> int \<Rightarrow> 'a sched_scheme \<Rightarrow> 'a sched_scheme polling" where
  "co_sleep eperm now self ms fd sd = co_poll_begin eperm now self [fd] ms True sd"

section \<open>Condition variables\<close>

definition co_cond_pop :: "nat \<Rightarrow> 'a sched_scheme \<Rightarrow> (nat option \<times> 'a sched_scheme) option" where
  "co_cond_pop c sd =
     (case lst_head (sd_conds sd) c of
        None \<Rightarrow> Some (None, sd)
      | Some p \<Rightarrow> do { cs \<leftarrow> PopHead c (sd_conds sd); Some (Some p, sd\<lparr>sd_conds := cs\<rparr>) })"

definition wake :: "nat \<Rightarrow> 'a sched_scheme \<Rightarrow> 'a sched_scheme option" where
  "wake p sd = do {
     ls \<leftarrow> RemoveFromLink p (sd_links sd);
     Some (sd_set_links (AddTail ActiveList p ls) sd)
   }"

definition co_cond_signal :: "nat \<Rightarrow> 'a sched_scheme \<Rightarrow> 'a sched_scheme option" where
  "co_cond_signal c sd = do {
     (sp, sd1) \<leftarrow> co_cond_pop c sd;
     case sp of None \<Rightarrow> Some sd1 | Some p \<Rightarrow> wake p sd1
   }"

partial_function (option) co_cond_broadcast :: "nat \<Rightarrow> 'a sched_scheme \<Rightarrow> 'a sched_scheme option" where
  "co_cond_broadcast c sd = do {
     (sp, sd1) \<leftarrow> co_cond_pop c sd;
     case sp of None \<Rightarrow> Some sd1 | Some p \<Rightarrow> do { sd2 \<leftarrow> wake p sd1; co_cond_broadcast c sd2 }
   }"

text \<open>\<^verbatim>\<open>co_cond_timedwait\<close> up to the yield, and after it. A result is the error of \<^verbatim>\<open>AddTimeout\<close> or the waiter.\<close>

definition co_cond_timedwait_begin ::
  "nat \<Rightarrow> nat \<Rightarrow> nat \<Rightarrow> int \<Rightarrow> 'a sched_scheme \<Rightarrow> (int + nat) \<times> 'a sched_scheme" where
  "co_cond_timedwait_begin now self c ms sd =
     (let p = sd_fresh sd;
          sd1 = sd_set_item p \<lparr>ullExpireTime = (if ms > 0 then now + nat ms else 0), bTimeout = False, pArg = self\<rparr>
                  (sd\<lparr>sd_fresh := p + 1\<rparr>)
      in if ms > 0
         then let (ret, w) = AddTimeout p now (sd_wheel sd1); sd2 = sd1\<lparr>sd_wheel := w\<rparr>
              in if ret \<noteq> 0 then (Inl ret, sd2) else (Inr p, sd2\<lparr>sd_conds := AddTail c p (sd_conds sd2)\<rparr>)
         else (Inr p, sd1\<lparr>sd_conds := AddTail c p (sd_conds sd1)\<rparr>))"

definition co_cond_timedwait_end :: "nat \<Rightarrow> 'a sched_scheme \<Rightarrow> 'a sched_scheme option" where
  "co_cond_timedwait_end p sd = do {
     cs \<leftarrow> RemoveFromLink p (sd_conds sd);
     Some (sd\<lparr>sd_conds := cs\<rparr>)
   }"

end
