(* ===== verification/CoTurns.thy ===== *)
theory CoTurns
  imports CoLoop
begin

text \<open>
  What the turns of the event loop do, compared with a reference that keeps a set of waiting items: in each
  turn the items that have an event and those whose time has come are processed, each once, and no other.
\<close>

section \<open>The invariant between turns\<close>

definition sched_ok :: "'a sched_scheme \<Rightarrow> (tlink \<Rightarrow> nat list) \<Rightarrow> bool" where
  "sched_ok sd L \<longleftrightarrow>
     wheel_ok (sd_wheel sd) L \<and> llStartIdx (sd_wheel sd) \<le> int (ullStart (sd_wheel sd)) \<and>
     (\<forall>k. \<forall>n \<in> set (L (Slot k)). \<not> bTimeout (sd_item sd n) \<and> \<not> iAllEventDetach (sd_poll sd n))"

definition idle :: "(tlink \<Rightarrow> nat list) \<Rightarrow> bool" where
  "idle L \<longleftrightarrow> L ActiveList = [] \<and> L TimeoutList = []"

lemma sched_ok_new: "0 < tick \<Longrightarrow> sched_ok (AllocEpoll tick) (\<lambda>_. []) \<and> idle (\<lambda>_. [])"
  using wheel_ok_new [of 60000 tick] by (simp add: sched_ok_def idle_def AllocEpoll_def) (simp add: AllocTimeout_def)

lemma wheel_ok_sub:
  assumes "wheel_ok w L" "links_rep ls L'" "\<And>k. set (L' (Slot k)) \<subseteq> set (L (Slot k))"
  shows "wheel_ok (w\<lparr>wh_links := ls\<rparr>) L'"
proof -
  have a: "at_dist (w\<lparr>wh_links := ls\<rparr>) = at_dist w" by (simp add: at_dist_def fun_eq_iff)
  have "L' (Slot k) = []" if "int k \<ge> iItemSize w" for k
    using assms(1) assms(3) [of k] that by (auto simp: wheel_ok_def)
  moreover have "ullStart w + d \<le> ullExpireTime (wh_item w n)" if "d < nat (iItemSize w)" "n \<in> set (L' (Slot (at_dist w d)))" for d n
    using assms(1) assms(3) [of "at_dist w d"] that by (auto simp: wheel_ok_def)
  ultimately show ?thesis using assms(1,2) by (auto simp: wheel_ok_def a)
qed

lemma wheel_ok_items:
  "wheel_ok w L \<Longrightarrow> (\<And>n. ullExpireTime (f n) = ullExpireTime (wh_item w n)) \<Longrightarrow> wheel_ok (w\<lparr>wh_item := f\<rparr>) L"
  by (simp add: wheel_ok_def at_dist_def)

lemma in_slots: "wheel_ok w L \<Longrightarrow> n \<in> wheel_items w L \<longleftrightarrow> (\<exists>k. n \<in> set (L (Slot k)))"
proof -
  assume ok: "wheel_ok w L"
  have "k < nat (iItemSize w)" if "n \<in> set (L (Slot k))" for k
  proof (rule ccontr)
    assume "\<not> k < nat (iItemSize w)"
    then have "int k \<ge> iItemSize w" using ok by (simp add: wheel_ok_def)
    then have "L (Slot k) = []" using ok by (simp add: wheel_ok_def)
    then show False using that by simp
  qed
  then show ?thesis by (auto simp: wheel_items_def)
qed

section \<open>Events\<close>

definition insert_last :: "nat \<Rightarrow> nat list \<Rightarrow> nat list" where
  "insert_last p act = (if p \<in> set act then act else act @ [p])"

fun ev_poll :: "ev_ptr \<Rightarrow> nat" where
  "ev_poll (Poll_item p i) = p"
| "ev_poll (Plain_item n) = n"

text \<open>Events of entries of waiting polls.\<close>

definition event_ok :: "'a sched_scheme \<Rightarrow> nat set \<Rightarrow> ev_ptr \<times> 32 word \<Rightarrow> bool" where
  "event_ok sd S e = (case fst e of Poll_item p i \<Rightarrow> p \<in> S \<and> i < length (po_revents (sd_poll sd p)) | Plain_item n \<Rightarrow> False)"

definition moved :: "(tlink \<Rightarrow> nat list) \<Rightarrow> nat list \<Rightarrow> tlink \<Rightarrow> nat list" where
  "moved L act l = (case l of ActiveList \<Rightarrow> act | TimeoutList \<Rightarrow> [] | Slot k \<Rightarrow> filter (\<lambda>n. n \<notin> set act) (L (Slot k)))"

lemma sd_set_simps [simp]:
  "sd_links (sd_set_links ls sd) = ls" "sd_item (sd_set_links ls sd) = sd_item sd" "sd_poll (sd_set_links ls sd) = sd_poll sd"
  "sd_wheel (sd_set_links ls sd) = (sd_wheel sd)\<lparr>wh_links := ls\<rparr>" "sd_item (sd\<lparr>sd_poll := f\<rparr>) = sd_item sd"
  "sd_links (sd\<lparr>sd_poll := f\<rparr>) = sd_links sd" "sd_set_links ls (sd\<lparr>sd_poll := f\<rparr>) = (sd_set_links ls sd)\<lparr>sd_poll := f\<rparr>"
  "sd_set_links ls (sd_set_links ls' sd) = sd_set_links ls sd"
  by (simp_all add: sd_set_links_def sd_links_def sd_item_def fun_eq_iff)

lemma prepare_ok:
  assumes r: "links_rep (sd_links sd) (moved L0 act)" and ev: "i < length (po_revents (sd_poll sd p))"
    and det: "iAllEventDetach (sd_poll sd p) \<longleftrightarrow> p \<in> set act"
  shows "\<exists>ls po. OnPollPreparePfn p i e sd = Some ((sd_set_links ls sd)\<lparr>sd_poll := (sd_poll sd)(p := po)\<rparr>) \<and>
    links_rep ls (moved L0 (insert_last p act)) \<and> iAllEventDetach po \<and> length (po_revents po) = length (po_revents (sd_poll sd p))"
proof (cases "p \<in> set act")
  case True
  let ?po = "(sd_poll sd p)\<lparr>po_revents := (po_revents (sd_poll sd p))[i := EpollEvent2Poll e], iRaiseCnt := iRaiseCnt (sd_poll sd p) + 1\<rparr>"
  have "sd_set_links (sd_links sd) sd = sd" by (simp add: sd_set_links_def sd_links_def)
  then show ?thesis using True det ev r
    by (intro exI [of _ "sd_links sd"] exI [of _ ?po]) (auto simp: OnPollPreparePfn_def Let_def insert_last_def)
next
  case False
  let ?po = "(sd_poll sd p)\<lparr>po_revents := (po_revents (sd_poll sd p))[i := EpollEvent2Poll e], iRaiseCnt := iRaiseCnt (sd_poll sd p) + 1,
    iAllEventDetach := True\<rparr>"
  obtain ls where ls: "RemoveFromLink p (sd_links sd) = Some ls" "links_rep ls (without p (moved L0 act))"
    using remove_law [OF r, of p] by blast
  have "p \<notin> set (without p (moved L0 act) l)" for l by (simp add: without_def)
  then have "pLink ls p = None" using rep_in [OF ls(2), of p] by (metis not_None_eq)
  then have r2: "links_rep (AddTail ActiveList p ls)
      ((without p (moved L0 act))(ActiveList := without p (moved L0 act) ActiveList @ [p]))" by (rule AddTail_rep [OF ls(2)])
  have "filter (\<lambda>m. m \<noteq> p) act = act" using False by (auto simp: filter_id_conv)
  then have "(without p (moved L0 act))(ActiveList := without p (moved L0 act) ActiveList @ [p]) = moved L0 (insert_last p act)"
    using False by (auto simp: moved_def without_def insert_last_def fun_eq_iff intro!: filter_cong split: tlink.split)
  then show ?thesis using False det ev ls(1) r2
    by (intro exI [of _ "AddTail ActiveList p ls"] exI [of _ ?po]) (simp add: OnPollPreparePfn_def Let_def)
qed

lemma events_ok:
  assumes "links_rep (sd_links sd) (moved L0 act)" "\<forall>n \<in> S. iAllEventDetach (sd_poll sd n) \<longleftrightarrow> n \<in> set act"
    "list_all (event_ok sd S) es"
  shows "\<exists>ls po. loop_events es sd = Some ((sd_set_links ls sd)\<lparr>sd_poll := po\<rparr>) \<and>
    links_rep ls (moved L0 (fold (\<lambda>e. insert_last (ev_poll (fst e))) es act)) \<and>
    (\<forall>n. length (po_revents (po n)) = length (po_revents (sd_poll sd n))) \<and>
    (\<forall>n \<in> S. iAllEventDetach (po n) \<longleftrightarrow> n \<in> set (fold (\<lambda>e. insert_last (ev_poll (fst e))) es act))"
  using assms
proof (induction es arbitrary: sd act)
  case Nil
  have "(sd_set_links (sd_links sd) sd)\<lparr>sd_poll := sd_poll sd\<rparr> = sd" by (simp add: sd_set_links_def sd_links_def)
  then show ?case using Nil by (intro exI [of _ "sd_links sd"] exI [of _ "sd_poll sd"]) simp
next
  case (Cons e es)
  obtain p i v where e: "e = (Poll_item p i, v)" "p \<in> S" "i < length (po_revents (sd_poll sd p))"
    using Cons.prems(3) by (cases e; cases "fst e") (auto simp: event_ok_def)
  obtain ls po where p: "OnPollPreparePfn p i v sd = Some ((sd_set_links ls sd)\<lparr>sd_poll := (sd_poll sd)(p := po)\<rparr>)"
    "links_rep ls (moved L0 (insert_last p act))" "iAllEventDetach po" "length (po_revents po) = length (po_revents (sd_poll sd p))"
    using prepare_ok [OF Cons.prems(1) e(3)] Cons.prems(2) e(2) by blast
  let ?sd = "(sd_set_links ls sd)\<lparr>sd_poll := (sd_poll sd)(p := po)\<rparr>"
  have "\<forall>n \<in> S. iAllEventDetach (sd_poll ?sd n) \<longleftrightarrow> n \<in> set (insert_last p act)"
    using Cons.prems(2) p(3) by (auto simp: insert_last_def)
  moreover have "list_all (event_ok ?sd S) es"
    using Cons.prems(3) p(4) by (auto simp: list_all_iff event_ok_def split: ev_ptr.splits)
  ultimately obtain ls' po' where "loop_events es ?sd = Some ((sd_set_links ls' ?sd)\<lparr>sd_poll := po'\<rparr>)"
    "links_rep ls' (moved L0 (fold (\<lambda>e. insert_last (ev_poll (fst e))) es (insert_last p act)))"
    "\<forall>n. length (po_revents (po' n)) = length (po_revents (sd_poll ?sd n))"
    "\<forall>n \<in> S. iAllEventDetach (po' n) \<longleftrightarrow> n \<in> set (fold (\<lambda>e. insert_last (ev_poll (fst e))) es (insert_last p act))"
    using Cons.IH [of ?sd "insert_last p act"] p(2) by auto
  then show ?case using p(1,4) e(1) by (intro exI [of _ ls'] exI [of _ po']) auto
qed

section \<open>Collecting\<close>

definition mark :: "nat list \<Rightarrow> wheel \<Rightarrow> wheel" where
  "mark xs w = w\<lparr>wh_item := \<lambda>n. if n \<in> set xs then (wh_item w n)\<lparr>bTimeout := True\<rparr> else wh_item w n\<rparr>"

lemma mark_all:
  "(\<And>ys n zs. xs = ys @ n # zs \<Longrightarrow> pNext (wh_links w) n = hdo zs) \<Longrightarrow> mark_timeout (hdo xs) w = Some (mark xs w)"
proof (induction xs arbitrary: w)
  case Nil
  then show ?case by (simp add: mark_timeout.simps [of None] mark_def)
next
  case (Cons x xs)
  let ?w = "w\<lparr>wh_item := (wh_item w)(x := (wh_item w x)\<lparr>bTimeout := True\<rparr>)\<rparr>"
  have "pNext (wh_links w) x = hdo xs" using Cons.prems [of "[]" x xs] by simp
  moreover have "mark_timeout (hdo xs) ?w = Some (mark xs ?w)" using Cons.prems [of "x # _"] by (intro Cons.IH) simp
  moreover have "mark xs ?w = mark (x # xs) w" by (auto simp: mark_def fun_eq_iff)
  ultimately show ?case by (simp add: mark_timeout.simps [of "Some x"])
qed

lemma mark_simps [simp]:
  "wh_links (mark xs w) = wh_links w" "iItemSize (mark xs w) = iItemSize w" "ullStart (mark xs w) = ullStart w"
  "llStartIdx (mark xs w) = llStartIdx w" "ullExpireTime (wh_item (mark xs w) n) = ullExpireTime (wh_item w n)"
  "bTimeout (wh_item (mark xs w) n) \<longleftrightarrow> n \<in> set xs \<or> bTimeout (wh_item w n)"
  by (simp_all add: mark_def)

lemma mark_ok: "wheel_ok w L \<Longrightarrow> wheel_ok (mark xs w) L"
  unfolding mark_def by (rule wheel_ok_items) simp_all

lemma after_take_items:
  assumes ok: "wheel_ok w L" and c: "int c \<le> iItemSize w" and e: "L TimeoutList = []"
  shows "wheel_items w L = set (after_take w L c TimeoutList) \<union> wheel_items w (after_take w L c)"
    "set (after_take w L c TimeoutList) \<inter> wheel_items w (after_take w L c) = {}"
proof -
  have size: "0 < iItemSize w" and rep: "links_rep (wh_links w) L" using ok by (simp_all add: wheel_ok_def)
  have tk: "set (after_take w L c TimeoutList) = (\<Union>i<c. set (L (Slot (at_dist w i))))"
    using e by (auto simp: after_take_def taken_def)
  have st: "wheel_items w (after_take w L c) = (\<Union>k \<in> {..<nat (iItemSize w)} - at_dist w ` {..<c}. set (L (Slot k)))"
    by (auto simp: wheel_items_def after_take_def split: if_splits)
  have r: "at_dist w i < nat (iItemSize w)" for i by (rule at_dist_range [OF size])
  show "wheel_items w L = set (after_take w L c TimeoutList) \<union> wheel_items w (after_take w L c)"
    unfolding tk st using r by (auto simp: wheel_items_def)
  show "set (after_take w L c TimeoutList) \<inter> wheel_items w (after_take w L c) = {}"
    unfolding tk st using rep_one [OF rep] by blast
qed

lemma left_not_due:
  assumes ok: "wheel_ok w1 (after_take w L c)" and c: "0 < c"
    and w1: "w1 = w\<lparr>wh_links := ls1, ullStart := now, llStartIdx := llStartIdx w + int c - 1\<rparr>"
    and n: "n \<in> wheel_items w1 (after_take w L c)"
  shows "now < ullExpireTime (wh_item w n)"
proof -
  have size: "0 < iItemSize w1" using ok by (simp add: wheel_ok_def)
  obtain k where k: "k < nat (iItemSize w1)" "n \<in> set (after_take w L c (Slot k))" using n by (auto simp: wheel_items_def)
  obtain d where d: "d < nat (iItemSize w1)" "at_dist w1 d = k" using at_dist_surj [OF size k(1)] by blast
  have "d \<noteq> 0"
  proof
    assume "d = 0"
    then have "k = at_dist w (c - 1)" using d(2) at_dist_shift [where w = w and ls = "ls1" and now = now and d = 0, OF c] unfolding w1 by simp
    then have "after_take w L c (Slot k) = []" using c by (auto simp: after_take_def)
    then show False using k(2) by simp
  qed
  moreover have "ullStart w1 + d \<le> ullExpireTime (wh_item w1 n)" using ok d k(2) by (auto simp: wheel_ok_def)
  ultimately show ?thesis unfolding w1 by simp
qed

text \<open>After the events, the taking, the marking and the joining: what is in the active list and in the wheel.\<close>

lemma collect_ok:
  assumes ok: "wheel_ok w L" and e: "L TimeoutList = []" and t: "ullStart w \<le> now" "now - ullStart w < 2 ^ 31 - 1"
    and i: "llStartIdx w + iItemSize w < 2 ^ 62"
  shows "\<exists>w1 ls xs L'. TakeAllTimeout now w = Some w1 \<and> mark_timeout (lst_head (wh_links w1) TimeoutList) w1 = Some (mark xs w1) \<and>
    Join ActiveList TimeoutList (wh_links (mark xs w1)) = Some ls \<and> wheel_ok ((mark xs w1)\<lparr>wh_links := ls\<rparr>) L' \<and>
    L' ActiveList = L ActiveList @ xs \<and> L' TimeoutList = [] \<and> wh_item w1 = wh_item w \<and> iItemSize w1 = iItemSize w \<and> ullStart w1 = now \<and>
    llStartIdx w1 - int now \<le> llStartIdx w - int (ullStart w) \<and>
    wheel_items w L = set xs \<union> wheel_items w1 L' \<and> set xs \<inter> wheel_items w1 L' = {} \<and> (\<forall>k. set (L' (Slot k)) \<subseteq> set (L (Slot k))) \<and>
    (\<forall>n \<in> wheel_items w1 L'. now < ullExpireTime (wh_item w n))"
proof -
  let ?c = "take_cnt w now"
  let ?L1 = "after_take w L ?c"
  obtain ls1 where tk: "TakeAllTimeout now w =
      Some (w\<lparr>wh_links := ls1, ullStart := now, llStartIdx := llStartIdx w + int ?c - 1\<rparr>)" "links_rep ls1 ?L1"
    using TakeAllTimeout_eq [OF ok t] by blast
  let ?w1 = "w\<lparr>wh_links := ls1, ullStart := now, llStartIdx := llStartIdx w + int ?c - 1\<rparr>"
  have ok1: "wheel_ok ?w1 ?L1" by (rule TakeAllTimeout_ok [OF ok t i refl tk(2)])
  let ?xs = "?L1 TimeoutList"
  have mk: "mark_timeout (lst_head ls1 TimeoutList) ?w1 = Some (mark ?xs ?w1)"
    using mark_all [of ?xs ?w1] rep_around [OF tk(2), of TimeoutList] rep_ends(1) [OF tk(2), of TimeoutList] by simp
  let ?L' = "?L1(ActiveList := ?L1 ActiveList @ ?xs, TimeoutList := [])"
  obtain ls where j: "Join ActiveList TimeoutList ls1 = Some ls" "links_rep ls ?L'"
    using Join_rep [OF tk(2), of ActiveList TimeoutList] by auto
  let ?w2 = "(mark ?xs ?w1)\<lparr>wh_links := ls\<rparr>"
  have size: "0 < iItemSize w" "int ?c \<le> iItemSize w" "0 < ?c" using ok take_cnt_le [of w now] by (auto simp: wheel_ok_def take_cnt_def)
  have ok2: "wheel_ok ?w2 ?L'" by (rule wheel_ok_sub [OF mark_ok [OF ok1] j(2)]) simp
  have wi: "wheel_items ?w1 ?L' = wheel_items w ?L1" by (simp add: wheel_items_def)
  have "now < ullExpireTime (wh_item w n)" if "n \<in> wheel_items ?w1 ?L'" for n
    using left_not_due [OF ok1 size(3) refl, of n] that by (simp add: wheel_items_def)
  moreover have "wheel_items w L = set ?xs \<union> wheel_items ?w1 ?L'" "set ?xs \<inter> wheel_items ?w1 ?L' = {}"
    unfolding wi using after_take_items [OF ok size(2) e] by simp_all
  moreover have "set (?L' (Slot k)) \<subseteq> set (L (Slot k))" for k by (auto simp: after_take_def)
  moreover have "int ?c - 1 \<le> int now - int (ullStart w)" using t(1) by (simp add: take_cnt_def)
  moreover have "?L1 ActiveList = L ActiveList" by (simp add: after_take_def)
  ultimately show ?thesis using tk(1) mk j(1) ok2
    by (intro exI [of _ ?w1] exI [of _ ls] exI [of _ ?xs] exI [of _ ?L']) simp
qed

section \<open>Processing\<close>

text \<open>Coroutines that only note that they were resumed.\<close>

record logged = sched +
  sd_log :: "nat list"

definition noting_run :: "nat \<Rightarrow> logged \<Rightarrow> logged option" where
  "noting_run n sd = Some (sd\<lparr>sd_log := sd_log sd @ [n]\<rparr>)"

definition fires :: "nat \<Rightarrow> wheel \<Rightarrow> nat \<Rightarrow> bool" where
  "fires now w n \<longleftrightarrow> \<not> (bTimeout (wh_item w n) \<and> now < ullExpireTime (wh_item w n))"

lemma fires_links [simp]: "fires now (w\<lparr>wh_links := ls\<rparr>) = fires now w"
  by (simp add: fires_def fun_eq_iff)

lemma drain_pop:
  assumes "links_rep (sd_links sd) L" "L ActiveList = n # zs"
  obtains ls where "links_rep ls (L(ActiveList := zs))" and
    "drain run now sd =
      (let sd1 = sd_set_links ls sd
       in if bTimeout (sd_item sd n) \<and> now < ullExpireTime (sd_item sd n)
          then let (ret, w) = AddTimeout n now (sd_wheel sd1);
                   sd2 = sd1\<lparr>sd_wheel := w\<rparr>
               in if ret = 0 then drain run now (sd_set_item n ((sd_item sd2 n)\<lparr>bTimeout := False\<rparr>) sd2)
                  else do { sd3 \<leftarrow> run n sd2; drain run now sd3 }
          else do { sd3 \<leftarrow> run n sd1; drain run now sd3 })"
proof -
  obtain ls where "PopHead ActiveList (sd_links sd) = Some ls" "links_rep ls (L(ActiveList := zs))"
    using PopHead_rep [OF assms] by blast
  moreover have "lst_head (sd_links sd) ActiveList = Some n" using rep_ends(1) [OF assms(1), of ActiveList] assms(2) by simp
  ultimately show thesis using that [of ls] by (simp add: drain.simps [of run now sd])
qed

lemma drain_notes:
  assumes "wheel_ok (sd_wheel sd) L" "ullStart (sd_wheel sd) = now" "L TimeoutList = []"
    "\<And>k n. n \<in> set (L (Slot k)) \<Longrightarrow> \<not> bTimeout (wh_item (sd_wheel sd) n)"
  shows "\<exists>w' L'. drain noting_run now sd =
      Some (sd\<lparr>sd_wheel := w', sd_log := sd_log sd @ filter (fires now (sd_wheel sd)) (L ActiveList)\<rparr>) \<and>
    wheel_ok w' L' \<and> idle L' \<and> (\<forall>k. \<forall>n \<in> set (L' (Slot k)). \<not> bTimeout (wh_item w' n)) \<and>
    wheel_items w' L' = wheel_items (sd_wheel sd) L \<union> {n \<in> set (L ActiveList). \<not> fires now (sd_wheel sd) n} \<and>
    (\<forall>n. ullExpireTime (wh_item w' n) = ullExpireTime (wh_item (sd_wheel sd) n)) \<and>
    iItemSize w' = iItemSize (sd_wheel sd) \<and> ullStart w' = now \<and> llStartIdx w' = llStartIdx (sd_wheel sd)"
  using assms
proof (induction "L ActiveList" arbitrary: sd L)
  case Nil
  have "links_rep (sd_links sd) L" using Nil.prems(1) by (simp add: wheel_ok_def sd_links_def)
  then have "lst_head (sd_links sd) ActiveList = None" using rep_ends(1) [of "sd_links sd" L ActiveList] Nil.hyps by simp
  then have "drain noting_run now sd = Some sd" by (simp add: drain.simps [of noting_run now sd])
  moreover have "sd = sd\<lparr>sd_wheel := sd_wheel sd, sd_log := sd_log sd @ filter (fires now (sd_wheel sd)) (L ActiveList)\<rparr>"
    using Nil.hyps by simp
  ultimately show ?case using Nil by (intro exI [of _ "sd_wheel sd"] exI [of _ L]) (auto simp: idle_def)
next
  case (Cons n zs)
  let ?w = "sd_wheel sd"
  have r: "links_rep (sd_links sd) L" using Cons.prems(1) by (simp add: wheel_ok_def sd_links_def)
  obtain ls where ls: "links_rep ls (L(ActiveList := zs))" and
    d: "drain noting_run now sd =
      (let sd1 = sd_set_links ls sd
       in if bTimeout (sd_item sd n) \<and> now < ullExpireTime (sd_item sd n)
          then let (ret, w) = AddTimeout n now (sd_wheel sd1);
                   sd2 = sd1\<lparr>sd_wheel := w\<rparr>
               in if ret = 0 then drain noting_run now (sd_set_item n ((sd_item sd2 n)\<lparr>bTimeout := False\<rparr>) sd2)
                  else do { sd3 \<leftarrow> noting_run n sd2; drain noting_run now sd3 }
          else do { sd3 \<leftarrow> noting_run n sd1; drain noting_run now sd3 })"
    using drain_pop [OF r Cons.hyps(2) [symmetric], of noting_run now] by blast
  let ?L1 = "L(ActiveList := zs)" and ?w1 = "?w\<lparr>wh_links := ls\<rparr>"
  have ok1: "wheel_ok ?w1 ?L1" by (rule wheel_ok_sub [OF Cons.prems(1) ls]) simp
  show ?case
  proof (cases "fires now ?w n")
    case True
    let ?sd = "(sd_set_links ls sd)\<lparr>sd_log := sd_log sd @ [n]\<rparr>"
    have e: "drain noting_run now sd = drain noting_run now ?sd"
      using True unfolding d by (auto simp: fires_def sd_item_def noting_run_def sd_set_links_def Let_def)
    have f: "fires now (sd_wheel ?sd) = fires now ?w" by (simp add: fires_def fun_eq_iff)
    obtain w' L' where w': "drain noting_run now ?sd =
        Some (?sd\<lparr>sd_wheel := w', sd_log := sd_log ?sd @ filter (fires now (sd_wheel ?sd)) (?L1 ActiveList)\<rparr>)"
      "wheel_ok w' L'" "idle L'" "\<forall>k. \<forall>n \<in> set (L' (Slot k)). \<not> bTimeout (wh_item w' n)"
      "wheel_items w' L' = wheel_items (sd_wheel ?sd) ?L1 \<union> {n \<in> set (?L1 ActiveList). \<not> fires now (sd_wheel ?sd) n}"
      "\<forall>n. ullExpireTime (wh_item w' n) = ullExpireTime (wh_item (sd_wheel ?sd) n)" "iItemSize w' = iItemSize (sd_wheel ?sd)"
      "ullStart w' = now" "llStartIdx w' = llStartIdx (sd_wheel ?sd)"
      using Cons.hyps(1) [of ?L1 ?sd] ok1 Cons.prems(2-4) by auto
    have "?sd\<lparr>sd_wheel := w', sd_log := sd_log ?sd @ filter (fires now (sd_wheel ?sd)) (?L1 ActiveList)\<rparr> =
        sd\<lparr>sd_wheel := w', sd_log := sd_log sd @ filter (fires now ?w) (L ActiveList)\<rparr>"
      using True Cons.hyps(2) [symmetric] by (simp add: sd_set_links_def)
    moreover have "wheel_items (sd_wheel ?sd) ?L1 \<union> {n \<in> set (?L1 ActiveList). \<not> fires now (sd_wheel ?sd) n} =
        wheel_items ?w L \<union> {n \<in> set (L ActiveList). \<not> fires now ?w n}"
      unfolding f using True Cons.hyps(2) [symmetric] by (auto simp: wheel_items_def)
    ultimately show ?thesis unfolding e w'(1) using w'(2-) by (intro exI [of _ w'] exI [of _ L']) simp
  next
    case False
    have n: "n \<notin> set (?L1 l)" for l
      using rep_one [OF r, of n ActiveList l] rep_distinct [OF r, of ActiveList] Cons.hyps(2) [symmetric] by auto
    let ?s = "Slot (at_dist ?w1 (dist_of ?w1 n))"
    have t: "ullStart ?w1 \<le> now" "now \<le> ullExpireTime (wh_item ?w1 n)"
      using Cons.prems(2) False by (simp_all add: fires_def)
    obtain ls' where a: "AddTimeout n now ?w1 = (0, ?w1\<lparr>wh_links := ls'\<rparr>)" "wheel_ok (?w1\<lparr>wh_links := ls'\<rparr>) (?L1(?s := ?L1 ?s @ [n]))"
      using AddTimeout_ok [OF ok1 n t] by blast
    let ?it = "(wh_item ?w n)\<lparr>bTimeout := False\<rparr>" and ?L2 = "?L1(?s := ?L1 ?s @ [n])"
    let ?w2 = "?w\<lparr>wh_links := ls', wh_item := (wh_item ?w)(n := ?it)\<rparr>"
    let ?sd = "sd\<lparr>sd_wheel := ?w2\<rparr>"
    have e: "drain noting_run now sd = drain noting_run now ?sd"
      using d False a(1) by (simp add: fires_def sd_item_def sd_set_links_def sd_set_item_def Let_def)
    have ok2: "wheel_ok (sd_wheel ?sd) ?L2"
      using wheel_ok_items [OF a(2), of "(wh_item ?w)(n := ?it)"] by simp
    have bt: "\<not> bTimeout (wh_item (sd_wheel ?sd) m)" if "m \<in> set (?L2 (Slot k))" for k m
      using that Cons.prems(4) [of m k] by (auto split: if_splits)
    have nz: "n \<notin> set zs" using n [of ActiveList] by simp
    have f: "fires now (sd_wheel ?sd) m = fires now ?w m" if "m \<in> set zs" for m
      using that nz by (cases "m = n") (simp_all add: fires_def)
    obtain w' L' where w': "drain noting_run now ?sd =
        Some (?sd\<lparr>sd_wheel := w', sd_log := sd_log ?sd @ filter (fires now (sd_wheel ?sd)) (?L2 ActiveList)\<rparr>)"
      "wheel_ok w' L'" "idle L'" "\<forall>k. \<forall>n \<in> set (L' (Slot k)). \<not> bTimeout (wh_item w' n)"
      "wheel_items w' L' = wheel_items (sd_wheel ?sd) ?L2 \<union> {n \<in> set (?L2 ActiveList). \<not> fires now (sd_wheel ?sd) n}"
      "\<forall>n. ullExpireTime (wh_item w' n) = ullExpireTime (wh_item (sd_wheel ?sd) n)" "iItemSize w' = iItemSize (sd_wheel ?sd)"
      "ullStart w' = now" "llStartIdx w' = llStartIdx (sd_wheel ?sd)"
      using Cons.hyps(1) [of ?L2 ?sd] ok2 Cons.prems(2,3) bt by auto
    have "filter (fires now (sd_wheel ?sd)) zs = filter (fires now ?w) zs" by (rule filter_cong [OF refl f])
    then have "?sd\<lparr>sd_wheel := w', sd_log := sd_log ?sd @ filter (fires now (sd_wheel ?sd)) (?L2 ActiveList)\<rparr> =
        sd\<lparr>sd_wheel := w', sd_log := sd_log sd @ filter (fires now ?w) (L ActiveList)\<rparr>"
      using False Cons.hyps(2) [symmetric] by simp
    moreover have "wheel_items (sd_wheel ?sd) ?L2 = insert n (wheel_items ?w L)"
      using at_dist_range [of ?w1 "dist_of ?w1 n"] ok1 by (auto simp: wheel_items_def wheel_ok_def split: if_splits)
    then have "wheel_items (sd_wheel ?sd) ?L2 \<union> {n \<in> set (?L2 ActiveList). \<not> fires now (sd_wheel ?sd) n} =
        wheel_items ?w L \<union> {n \<in> set (L ActiveList). \<not> fires now ?w n}"
      using False Cons.hyps(2) [symmetric] f by (auto simp del: sched.simps)
    ultimately show ?thesis unfolding e w'(1) using w'(2-) by (intro exI [of _ w'] exI [of _ L']) simp
  qed
qed

section \<open>A turn\<close>

definition ready_of :: "(ev_ptr \<times> 32 word) list \<Rightarrow> nat list" where
  "ready_of es = fold (\<lambda>e. insert_last (ev_poll (fst e))) es []"

lemma set_ready: "set (fold (\<lambda>e. insert_last (ev_poll (fst e))) es act) = set act \<union> (ev_poll \<circ> fst) ` set es"
  by (induction es arbitrary: act) (auto simp: insert_last_def)

lemma clear_idle:
  assumes "links_rep (sd_links sd) L" "L TimeoutList = []"
  shows "clear_timeout_list sd = sd"
proof -
  have "lst_head (sd_links sd) TimeoutList = None" "lst_tail (sd_links sd) TimeoutList = None"
    using rep_ends [OF assms(1), of TimeoutList] assms(2) by simp_all
  then have "set_tail TimeoutList None (set_head TimeoutList None (sd_links sd)) = sd_links sd"
    by (simp add: set_head_def set_tail_def fun_upd_idem)
  then show ?thesis by (simp add: clear_timeout_list_def sd_set_links_def sd_links_def)
qed

lemma event_poll: "event_ok sd S e \<Longrightarrow> ev_poll (fst e) \<in> S"
  by (cases "fst e") (auto simp: event_ok_def)

text \<open>The events of a turn: the polls they are for become active, the other items stay in the wheel.\<close>

lemma events_turn:
  assumes ok: "sched_ok sd L" and id: "idle L" and ev: "list_all (event_ok sd (wheel_items (sd_wheel sd) L)) es"
  shows "\<exists>ls po. loop_events es (clear_timeout_list sd) = Some ((sd_set_links ls sd)\<lparr>sd_poll := po\<rparr>) \<and>
    wheel_ok ((sd_wheel sd)\<lparr>wh_links := ls\<rparr>) (moved L (ready_of es)) \<and> set (ready_of es) \<subseteq> wheel_items (sd_wheel sd) L \<and>
    wheel_items (sd_wheel sd) (moved L (ready_of es)) = wheel_items (sd_wheel sd) L - set (ready_of es) \<and>
    (\<forall>n. length (po_revents (po n)) = length (po_revents (sd_poll sd n))) \<and>
    (\<forall>n \<in> wheel_items (sd_wheel sd) L. iAllEventDetach (po n) \<longleftrightarrow> n \<in> set (ready_of es))"
proof -
  have w: "wheel_ok (sd_wheel sd) L" using ok by (simp add: sched_ok_def)
  then have r: "links_rep (sd_links sd) L" by (simp add: wheel_ok_def sd_links_def)
  have m: "moved L [] = L" using id by (auto simp: moved_def idle_def fun_eq_iff split: tlink.split)
  have "\<forall>n \<in> wheel_items (sd_wheel sd) L. iAllEventDetach (sd_poll sd n) \<longleftrightarrow> n \<in> set []"
    using ok in_slots [OF w] by (auto simp: sched_ok_def)
  then obtain ls po where l: "loop_events es sd = Some ((sd_set_links ls sd)\<lparr>sd_poll := po\<rparr>)"
    "links_rep ls (moved L (ready_of es))" "\<forall>n. length (po_revents (po n)) = length (po_revents (sd_poll sd n))"
    "\<forall>n \<in> wheel_items (sd_wheel sd) L. iAllEventDetach (po n) \<longleftrightarrow> n \<in> set (ready_of es)"
    using events_ok [of sd L "[]" "wheel_items (sd_wheel sd) L" es] ev r unfolding m ready_of_def by blast
  have "wheel_ok ((sd_wheel sd)\<lparr>wh_links := ls\<rparr>) (moved L (ready_of es))"
    by (rule wheel_ok_sub [OF w l(2)]) (auto simp: moved_def)
  moreover have "set (ready_of es) \<subseteq> wheel_items (sd_wheel sd) L"
    using ev event_poll [of sd "wheel_items (sd_wheel sd) L"] by (auto simp: ready_of_def set_ready list_all_iff)
  moreover have "wheel_items (sd_wheel sd) (moved L (ready_of es)) = wheel_items (sd_wheel sd) L - set (ready_of es)"
    by (auto simp: wheel_items_def moved_def)
  ultimately show ?thesis using l clear_idle [OF r] id
    by (intro exI [of _ ls] exI [of _ po]) (simp add: idle_def)
qed

lemma turn_ok:
  assumes ok: "sched_ok sd L" and id: "idle L" and ev: "list_all (event_ok sd (wheel_items (sd_wheel sd) L)) es"
    and t: "ullStart (sd_wheel sd) \<le> now" "now - ullStart (sd_wheel sd) < 2 ^ 31 - 1" "now < 2 ^ 61"
  shows "\<exists>sd' L' due. loop_turn noting_run es now sd = Some sd' \<and> sched_ok sd' L' \<and> idle L' \<and>
    sd_log sd' = sd_log sd @ ready_of es @ due \<and> distinct (ready_of es @ due) \<and>
    set due = {n \<in> wheel_items (sd_wheel sd) L - set (ready_of es). ullExpireTime (sd_item sd n) \<le> now} \<and>
    wheel_items (sd_wheel sd') L' = wheel_items (sd_wheel sd) L - set (ready_of es) - set due \<and>
    (\<forall>n. ullExpireTime (sd_item sd' n) = ullExpireTime (sd_item sd n)) \<and> ullStart (sd_wheel sd') = now \<and>
    (\<forall>n. length (po_revents (sd_poll sd' n)) = length (po_revents (sd_poll sd n)))"
proof -
  let ?w = "sd_wheel sd" and ?R = "ready_of es"
  obtain ls po where e: "loop_events es (clear_timeout_list sd) = Some ((sd_set_links ls sd)\<lparr>sd_poll := po\<rparr>)"
    "wheel_ok (?w\<lparr>wh_links := ls\<rparr>) (moved L ?R)" "set ?R \<subseteq> wheel_items ?w L" "wheel_items ?w (moved L ?R) = wheel_items ?w L - set ?R"
    "\<forall>n. length (po_revents (po n)) = length (po_revents (sd_poll sd n))"
    "\<forall>n \<in> wheel_items ?w L. iAllEventDetach (po n) \<longleftrightarrow> n \<in> set ?R"
    using events_turn [OF ok id ev] by blast
  let ?sd1 = "(sd_set_links ls sd)\<lparr>sd_poll := po\<rparr>" and ?wl = "?w\<lparr>wh_links := ls\<rparr>"
  have i: "llStartIdx ?wl + iItemSize ?wl < 2 ^ 62" using ok t by (auto simp: sched_ok_def wheel_ok_def)
  obtain w1 ls2 xs L2 where c: "TakeAllTimeout now ?wl = Some w1" "mark_timeout (lst_head (wh_links w1) TimeoutList) w1 = Some (mark xs w1)"
    "Join ActiveList TimeoutList (wh_links (mark xs w1)) = Some ls2" "wheel_ok ((mark xs w1)\<lparr>wh_links := ls2\<rparr>) L2"
    "L2 ActiveList = ?R @ xs" "L2 TimeoutList = []" "wh_item w1 = wh_item ?w" "iItemSize w1 = iItemSize ?w" "ullStart w1 = now"
    "llStartIdx w1 - int now \<le> llStartIdx ?w - int (ullStart ?w)"
    "wheel_items ?wl (moved L ?R) = set xs \<union> wheel_items w1 L2" "set xs \<inter> wheel_items w1 L2 = {}"
    "\<forall>n \<in> wheel_items w1 L2. now < ullExpireTime (wh_item ?w n)"
    using collect_ok [OF e(2) _ _ _ i, of now] t by (auto simp: moved_def)
  have all: "wheel_items ?w L - set ?R = set xs \<union> wheel_items w1 L2" using c(11) e(4) by (simp add: wheel_items_def)
  let ?w2 = "(mark xs w1)\<lparr>wh_links := ls2\<rparr>"
  let ?sd2 = "?sd1\<lparr>sd_wheel := ?w2\<rparr>"
  have old: "\<not> bTimeout (wh_item ?w n)" if "n \<in> wheel_items ?w L" for n
    using ok that in_slots [of ?w L n] by (auto simp: sched_ok_def sd_item_def)
  have bt: "\<not> bTimeout (wh_item ?w2 n)" if "n \<in> set (L2 (Slot k))" for k n
  proof -
    have "n \<in> wheel_items w1 L2" using in_slots [OF c(4), of n] that by (auto simp: wheel_items_def)
    then show ?thesis using c(7,12) all old [of n] by auto
  qed
  obtain w' L' where d: "drain noting_run now ?sd2 =
      Some (?sd2\<lparr>sd_wheel := w', sd_log := sd_log ?sd2 @ filter (fires now ?w2) (L2 ActiveList)\<rparr>)"
    "wheel_ok w' L'" "idle L'" "\<forall>k. \<forall>n \<in> set (L' (Slot k)). \<not> bTimeout (wh_item w' n)"
    "wheel_items w' L' = wheel_items ?w2 L2 \<union> {n \<in> set (L2 ActiveList). \<not> fires now ?w2 n}"
    "\<forall>n. ullExpireTime (wh_item w' n) = ullExpireTime (wh_item ?w2 n)" "ullStart w' = now" "llStartIdx w' = llStartIdx ?w2"
    using drain_notes [of ?sd2 L2 now] c(4,6,9) bt by auto
  let ?due = "filter (\<lambda>n. ullExpireTime (sd_item sd n) \<le> now) xs"
  let ?sd' = "?sd2\<lparr>sd_wheel := w', sd_log := sd_log ?sd2 @ filter (fires now ?w2) (L2 ActiveList)\<rparr>"
  have fR: "fires now ?w2 n" if "n \<in> set ?R" for n
    using that all e(3) old [of n] c(7) by (auto simp: fires_def)
  have fx: "fires now ?w2 n \<longleftrightarrow> ullExpireTime (sd_item sd n) \<le> now" if "n \<in> set xs" for n
    using that c(7) by (auto simp: fires_def sd_item_def)
  have fil: "filter (fires now ?w2) (L2 ActiveList) = ?R @ ?due"
    using fR fx c(5) by (simp add: filter_id_conv cong: filter_cong)
  have turn: "loop_turn noting_run es now sd = Some ?sd'"
    using e(1) c(1-3) d(1) by (simp add: loop_turn_def)
  have dist: "distinct (?R @ ?due)"
    using rep_distinct [of ls2 L2 ActiveList] c(4,5) by (auto simp: wheel_ok_def)
  have due: "set ?due = {n \<in> wheel_items ?w L - set ?R. ullExpireTime (sd_item sd n) \<le> now}"
    using all c(13) by (auto simp: sd_item_def)
  have left: "wheel_items w' L' = wheel_items ?w L - set ?R - set ?due"
  proof -
    have "wheel_items w' L' = wheel_items w1 L2 \<union> {n \<in> set xs. \<not> ullExpireTime (sd_item sd n) \<le> now}"
      using d(5) c(5) fR fx by (auto simp: wheel_items_def)
    then show ?thesis using all c(12) by auto
  qed
  have "\<not> iAllEventDetach (po n)" if "n \<in> set (L' (Slot k))" for n k
  proof -
    have "n \<in> wheel_items w' L'" using in_slots [OF d(2), of n] that by blast
    then show ?thesis using left e(6) by auto
  qed
  then have sok: "sched_ok ?sd' L'"
    using d(2,4,7,8) ok c(10) by (auto simp: sched_ok_def sd_item_def)
  show ?thesis using turn sok d(3,6,7) fil dist due left e(5) c(7)
    by (intro exI [of _ ?sd'] exI [of _ L'] exI [of _ ?due]) (simp add: sd_item_def sd_set_links_def)
qed

section \<open>Runs of the loop against the reference\<close>

text \<open>The reference: a set of waiting items; a turn fires those with an event and those that are due.\<close>

fun ref_turns :: "(nat \<Rightarrow> nat) \<Rightarrow> nat set \<Rightarrow> ((ev_ptr \<times> 32 word) list \<times> nat) list \<Rightarrow> nat set list" where
  "ref_turns expire S [] = []"
| "ref_turns expire S ((es, now) # ts) =
     (let F = (ev_poll \<circ> fst) ` set es \<union> {n \<in> S. expire n \<le> now} in F # ref_turns expire (S - F) ts)"

text \<open>The loop, with the items that each turn processes.\<close>

fun fired_turns :: "((ev_ptr \<times> 32 word) list \<times> nat) list \<Rightarrow> logged \<Rightarrow> nat list list option" where
  "fired_turns [] sd = Some []"
| "fired_turns ((es, now) # ts) sd = do {
     sd1 \<leftarrow> loop_turn noting_run es now (sd\<lparr>sd_log := []\<rparr>);
     fs \<leftarrow> fired_turns ts sd1;
     Some (sd_log sd1 # fs)
   }"

text \<open>
  The clock does not go back, a turn takes less than 24 days, and the events are for entries of polls that
  still wait.
\<close>

fun turns_ok :: "(nat \<Rightarrow> nat) \<Rightarrow> (nat \<Rightarrow> nat) \<Rightarrow> nat \<Rightarrow> nat set \<Rightarrow> ((ev_ptr \<times> 32 word) list \<times> nat) list \<Rightarrow> bool" where
  "turns_ok expire nfds start S [] = True"
| "turns_ok expire nfds start S ((es, now) # ts) =
     (start \<le> now \<and> now - start < 2 ^ 31 - 1 \<and> now < 2 ^ 61 \<and>
      list_all (\<lambda>e. case fst e of Poll_item p i \<Rightarrow> p \<in> S \<and> i < nfds p | Plain_item _ \<Rightarrow> False) es \<and>
      turns_ok expire nfds now (S - ((ev_poll \<circ> fst) ` set es \<union> {n \<in> S. expire n \<le> now})) ts)"

lemma turns_fire:
  assumes "sched_ok sd L" "idle L"
    "turns_ok (\<lambda>n. ullExpireTime (sd_item sd n)) (\<lambda>n. length (po_revents (sd_poll sd n))) (ullStart (sd_wheel sd))
       (wheel_items (sd_wheel sd) L) ts"
  shows "\<exists>fs. fired_turns ts sd = Some fs \<and> list_all distinct fs \<and>
    map set fs = ref_turns (\<lambda>n. ullExpireTime (sd_item sd n)) (wheel_items (sd_wheel sd) L) ts"
  using assms
proof (induction ts arbitrary: sd L)
  case (Cons te ts)
  obtain es now where te: "te = (es, now)" by (cases te)
  let ?sd = "sd\<lparr>sd_log := []\<rparr>" and ?S = "wheel_items (sd_wheel sd) L"
  have i: "sd_item ?sd = sd_item sd" by (simp add: sd_item_def fun_eq_iff)
  have ok: "sched_ok ?sd L" using Cons.prems(1) by (simp add: sched_ok_def i)
  let ?ev = "\<lambda>e. case fst e of Poll_item p i \<Rightarrow> p \<in> ?S \<and> i < length (po_revents (sd_poll sd p)) | Plain_item _ \<Rightarrow> False"
  let ?F = "(ev_poll \<circ> fst) ` set es \<union> {n \<in> ?S. ullExpireTime (sd_item sd n) \<le> now}"
  have tm: "ullStart (sd_wheel sd) \<le> now" "now - ullStart (sd_wheel sd) < 2 ^ 31 - 1" "now < 2 ^ 61" and el: "list_all ?ev es"
    and rest: "turns_ok (\<lambda>n. ullExpireTime (sd_item sd n)) (\<lambda>n. length (po_revents (sd_poll sd n))) now (?S - ?F) ts"
    using Cons.prems(3) unfolding te turns_ok.simps by blast+
  have "event_ok ?sd (wheel_items (sd_wheel ?sd) L) = ?ev"
    by (auto simp: event_ok_def fun_eq_iff split: ev_ptr.splits)
  then have ev: "list_all (event_ok ?sd (wheel_items (sd_wheel ?sd) L)) es" using el by simp
  have tm': "ullStart (sd_wheel ?sd) \<le> now" "now - ullStart (sd_wheel ?sd) < 2 ^ 31 - 1" "now < 2 ^ 61" using tm by simp_all
  obtain sd' L' due where t: "loop_turn noting_run es now ?sd = Some sd'" "sched_ok sd' L'" "idle L'"
    "sd_log sd' = sd_log ?sd @ ready_of es @ due" "distinct (ready_of es @ due)"
    "set due = {n \<in> wheel_items (sd_wheel ?sd) L - set (ready_of es). ullExpireTime (sd_item ?sd n) \<le> now}"
    "wheel_items (sd_wheel sd') L' = wheel_items (sd_wheel ?sd) L - set (ready_of es) - set due"
    "\<forall>n. ullExpireTime (sd_item sd' n) = ullExpireTime (sd_item ?sd n)" "ullStart (sd_wheel sd') = now"
    "\<forall>n. length (po_revents (sd_poll sd' n)) = length (po_revents (sd_poll ?sd n))"
    using turn_ok [OF ok Cons.prems(2) ev tm'] by blast
  have R: "set (ready_of es) = (ev_poll \<circ> fst) ` set es" by (simp add: ready_of_def set_ready)
  have F: "set (ready_of es @ due) = ?F" using t(6) R i by auto
  have S: "wheel_items (sd_wheel sd') L' = ?S - ?F" using t(7) F by auto
  obtain fs where "fired_turns ts sd' = Some fs" "list_all distinct fs"
    "map set fs = ref_turns (\<lambda>n. ullExpireTime (sd_item sd n)) (?S - ?F) ts"
    using Cons.IH [OF t(2,3)] rest unfolding S by (simp add: t(8-10) i) blast
  then show ?case using t(1,4,5) te F by (simp add: Let_def del: set_append)
qed simp

section \<open>Sleeping coroutines\<close>

text \<open>Numbers of new items are not in use.\<close>

definition fresh_ok :: "'a sched_scheme \<Rightarrow> (tlink \<Rightarrow> nat list) \<Rightarrow> bool" where
  "fresh_ok sd L \<longleftrightarrow> (\<forall>l. \<forall>n \<in> set (L l). n < sd_fresh sd)"

definition poll_time :: "int \<Rightarrow> nat" where
  "poll_time timeout = nat (if timeout < 0 then INT_MAX else timeout)"

lemma wheel_ok_new_item:
  assumes "wheel_ok w L" "\<And>l. p \<notin> set (L l)"
  shows "wheel_ok (w\<lparr>wh_item := (wh_item w)(p := it)\<rparr>) L"
  using assms by (auto simp: wheel_ok_def at_dist_def)

lemma poll_begin_ok:
  assumes ok: "sched_ok sd L" and id: "idle L" and fr: "fresh_ok sd L" and t: "ullStart (sd_wheel sd) \<le> now"
    and to: "timeout \<noteq> 0" and ep: "\<not> (length fds = 1 \<and> fds ! 0 > - 1 \<and> eperm 0 \<and> pf)"
  shows "\<exists>sd' L'. co_poll_begin eperm now self fds timeout pf sd = Poll_wait (sd_fresh sd) sd' \<and>
    sched_ok sd' L' \<and> idle L' \<and> fresh_ok sd' L' \<and> wheel_items (sd_wheel sd') L' = insert (sd_fresh sd) (wheel_items (sd_wheel sd) L) \<and>
    ullExpireTime (sd_item sd' (sd_fresh sd)) = now + poll_time timeout \<and>
    (\<forall>n. n \<noteq> sd_fresh sd \<longrightarrow> sd_item sd' n = sd_item sd n \<and> sd_poll sd' n = sd_poll sd n) \<and>
    ullStart (sd_wheel sd') = ullStart (sd_wheel sd)"
proof -
  let ?p = "sd_fresh sd" and ?w = "sd_wheel sd"
  let ?it = "\<lparr>ullExpireTime = now + poll_time timeout, bTimeout = False, pArg = self\<rparr>"
  let ?po = "\<lparr>po_fds = fds, po_revents = replicate (length fds) 0, iAllEventDetach = False, iRaiseCnt = 0\<rparr>"
  let ?w1 = "?w\<lparr>wh_item := (wh_item ?w)(?p := ?it)\<rparr>"
  have w: "wheel_ok ?w L" using ok by (simp add: sched_ok_def)
  have new: "?p \<notin> set (L l)" for l using fr by (auto simp: fresh_ok_def)
  have w1: "wheel_ok ?w1 L" by (rule wheel_ok_new_item [OF w new])
  let ?s = "Slot (at_dist ?w1 (dist_of ?w1 ?p))"
  have t1: "ullStart ?w1 \<le> now" "now \<le> ullExpireTime (wh_item ?w1 ?p)" using t by simp_all
  obtain ls where a: "AddTimeout ?p now ?w1 = (0, ?w1\<lparr>wh_links := ls\<rparr>)" "wheel_ok (?w1\<lparr>wh_links := ls\<rparr>) (L(?s := L ?s @ [?p]))"
    using AddTimeout_ok [OF w1 new t1] by blast
  let ?sd' = "sd\<lparr>sd_fresh := ?p + 1, sd_poll := (sd_poll sd)(?p := ?po), sd_wheel := ?w1\<lparr>wh_links := ls\<rparr>\<rparr>"
  let ?L' = "L(?s := L ?s @ [?p])"
  have b: "co_poll_begin eperm now self fds timeout pf sd = Poll_wait ?p ?sd'"
    using to ep a(1) by (auto simp: co_poll_begin_def Let_def sd_set_item_def poll_time_def)
  have nn: "n \<noteq> ?p" if "n \<in> set (L l)" for n l using that new by auto
  have s: "sched_ok ?sd' ?L'"
    using ok a(2) nn by (auto simp: sched_ok_def sd_item_def split: if_splits)
  have "wheel_items (sd_wheel ?sd') ?L' = insert ?p (wheel_items ?w L)"
    using at_dist_range [of ?w1 "dist_of ?w1 ?p"] w by (auto simp: wheel_items_def wheel_ok_def split: if_splits)
  moreover have "fresh_ok ?sd' ?L'" using fr by (auto simp: fresh_ok_def less_Suc_eq split: if_splits)
  ultimately show ?thesis using b s id
    by (intro exI [of _ ?sd'] exI [of _ ?L']) (auto simp: idle_def sd_item_def)
qed

lemma ref_turns_length: "length (ref_turns expire S ts) = length ts"
  by (induction expire S ts rule: ref_turns.induct) (simp_all add: Let_def)

lemma ref_turns_sub:
  "list_all (\<lambda>t. fst t = []) ts \<Longrightarrow> i < length ts \<Longrightarrow> ref_turns expire S ts ! i \<subseteq> S"
proof (induction ts arbitrary: S i)
  case (Cons t ts)
  then obtain now where t: "t = ([], now)" by (cases t) auto
  show ?case using Cons.IH [of "i - 1" "S - {n \<in> S. expire n \<le> now}"] Cons.prems t
    by (cases i) (auto simp: Let_def)
qed simp

lemma ref_quiet:
  "n \<in> S \<Longrightarrow> list_all (\<lambda>t. fst t = []) ts \<Longrightarrow> i < length ts \<Longrightarrow>
     n \<in> ref_turns expire S ts ! i \<longleftrightarrow> expire n \<le> snd (ts ! i) \<and> (\<forall>j < i. snd (ts ! j) < expire n)"
proof (induction ts arbitrary: S i)
  case (Cons t ts)
  obtain now where t: "t = ([], now)" using Cons.prems(2) by (cases t) auto
  show ?case
  proof (cases i)
    case 0
    then show ?thesis using t Cons.prems(1) by (simp add: Let_def)
  next
    case (Suc k)
    show ?thesis
    proof (cases "expire n \<le> now")
      case True
      have "n \<notin> ref_turns expire (S - {n \<in> S. expire n \<le> now}) ts ! k"
        using True Cons.prems(2,3) Suc ref_turns_sub [of ts k expire "S - {n \<in> S. expire n \<le> now}"] by auto
      then show ?thesis using True Suc t by (auto simp: Let_def All_less_Suc2)
    next
      case False
      then show ?thesis using Cons.IH [of "S - {n \<in> S. expire n \<le> now}" k] Cons.prems Suc t
        by (auto simp: Let_def All_less_Suc2)
    qed
  qed
qed simp

text \<open>Times at which the loop may turn, and an environment that was just created.\<close>

fun times_ok :: "nat \<Rightarrow> nat list \<Rightarrow> bool" where
  "times_ok start [] = True"
| "times_ok start (t # ts) = (start \<le> t \<and> t - start < 2 ^ 31 - 1 \<and> t < 2 ^ 61 \<and> times_ok t ts)"

definition logged_start :: "nat \<Rightarrow> logged" where
  "logged_start tick = sched.extend (AllocEpoll tick) \<lparr>sd_log = []\<rparr>"

lemma logged_start_ok:
  assumes "0 < tick"
  shows "sched_ok (logged_start tick) (\<lambda>_. [])" "fresh_ok (logged_start tick) (\<lambda>_. [])" "idle (\<lambda>_. [])"
    "sd_fresh (logged_start tick) = 0" "ullStart (sd_wheel (logged_start tick)) = tick" "wheel_items (sd_wheel (logged_start tick)) (\<lambda>_. []) = {}"
  using sched_ok_new [OF assms]
  by (auto simp: sched_ok_def logged_start_def sched.defs AllocEpoll_def fresh_ok_def AllocTimeout_def wheel_items_def sd_item_def)

lemma times_turns: "times_ok start ts \<Longrightarrow> turns_ok expire nfds start S (map (Pair []) ts)"
  by (induction ts arbitrary: start S) auto

lemma sleep_begins:
  assumes "sched_ok sd L" "idle L" "fresh_ok sd L" "ullStart (sd_wheel sd) \<le> now" "0 < ms"
  shows "\<exists>sd' L'. co_sleep eperm now self (int ms) (- 1) sd = Poll_wait (sd_fresh sd) sd' \<and>
    sched_ok sd' L' \<and> idle L' \<and> wheel_items (sd_wheel sd') L' = insert (sd_fresh sd) (wheel_items (sd_wheel sd) L) \<and>
    ullExpireTime (sd_item sd' (sd_fresh sd)) = now + ms \<and> ullStart (sd_wheel sd') = ullStart (sd_wheel sd)"
  using poll_begin_ok [OF assms(1-4), of "int ms" "[- 1]" eperm True self] assms(5)
  unfolding co_sleep_def poll_time_def by auto



text \<open>
  C6. The time wheel and the event loop are equivalent to a set of waiting items: in any run of turns, each
  turn processes exactly the items that have an event and those whose time has come, each of them once;
  none is processed early, and none later than the first turn at or after its time.
\<close>

theorem loop_equals_reference:
  assumes "sched_ok sd L" "idle L"
    "turns_ok (\<lambda>n. ullExpireTime (sd_item sd n)) (\<lambda>n. length (po_revents (sd_poll sd n))) (ullStart (sd_wheel sd))
       (wheel_items (sd_wheel sd) L) ts"
  shows "\<exists>fs. fired_turns ts sd = Some fs \<and> list_all distinct fs \<and>
    map set fs = ref_turns (\<lambda>n. ullExpireTime (sd_item sd n)) (wheel_items (sd_wheel sd) L) ts"
  by (rule turns_fire [OF assms])

theorem loop_equals_reference_witness:
  "\<exists>sd' fs. co_sleep (\<lambda>_. False) 1000 7 (int 70000) (- 1) (logged_start 1000) = Poll_wait 0 sd' \<and>
     fired_turns [([], 61000), ([], 71000)] sd' = Some fs \<and> map set fs = [{}, {0}]"
proof -
  have st: "ullStart (sd_wheel (logged_start 1000)) = 1000" "sd_fresh (logged_start 1000) = 0"
    "wheel_items (sd_wheel (logged_start 1000)) (\<lambda>_. []) = {}" using logged_start_ok [of 1000] by simp_all
  obtain sd' L' where s: "co_sleep (\<lambda>_. False) 1000 7 (int 70000) (- 1) (logged_start 1000) = Poll_wait 0 sd'" "sched_ok sd' L'" "idle L'"
    "wheel_items (sd_wheel sd') L' = {0}" "ullExpireTime (sd_item sd' 0) = 71000" "ullStart (sd_wheel sd') = 1000"
    using sleep_begins [of "logged_start 1000" "\<lambda>_. []" 1000 70000 "\<lambda>_. False" 7] logged_start_ok [of 1000] unfolding st
    by auto
  have "{n. n = 0 \<and> ullExpireTime (sd_item sd' n) \<le> 61000} = {}" "{n. n = 0 \<and> ullExpireTime (sd_item sd' n) \<le> 71000} = {0}"
    using s(5) by auto
  then have "map set fs = [{}, {0}]"
    if "map set fs = ref_turns (\<lambda>n. ullExpireTime (sd_item sd' n)) {0} [([], 61000), ([], 71000)]" for fs
    using that by (simp add: Let_def)
  moreover have "\<exists>fs. fired_turns [([], 61000), ([], 71000)] sd' = Some fs \<and> list_all distinct fs \<and>
      map set fs = ref_turns (\<lambda>n. ullExpireTime (sd_item sd' n)) {0} [([], 61000), ([], 71000)]"
    by (rule loop_equals_reference [OF s(2,3), of "[([], 61000), ([], 71000)]", unfolded s(4,6)]) simp
  ultimately show ?thesis using s(1) by blast
qed

end
