(* ===== verification/CoCond.thy ===== *)
theory CoCond
  imports CoTurns
begin

text \<open>
  Condition variables of libco (\<^verbatim>\<open>co_cond_signal\<close>, \<^verbatim>\<open>co_cond_broadcast\<close>, \<^verbatim>\<open>co_cond_timedwait\<close> in
  \<^verbatim>\<open>src/src/core/libco/co_routine.cpp\<close>) on the lists that the links represent: whom they wake, and in what order
  the loop then resumes them.
\<close>

section \<open>Waking\<close>

text \<open>What waking an item does to the lists of the loop.\<close>

definition woken :: "nat \<Rightarrow> (tlink \<Rightarrow> nat list) \<Rightarrow> tlink \<Rightarrow> nat list" where
  "woken p L = (without p L)(ActiveList := without p L ActiveList @ [p])"


lemma wake_ok:
  assumes r: "links_rep (sd_links sd) L"
  shows "\<exists>ls. wake p sd = Some (sd_set_links ls sd) \<and> links_rep ls (woken p L)"
proof -
  obtain ls where l: "RemoveFromLink p (sd_links sd) = Some ls" "links_rep ls (without p L)"
    using lk.rem_rep [OF r] by blast
  have "pLink ls p = None" using rep_in [OF l(2), of p] by (cases "pLink ls p") (auto simp: without_def)
  then have "links_rep (AddTail ActiveList p ls) (woken p L)" using AddTail_rep [OF l(2)] by (simp add: woken_def)
  then show ?thesis using l(1) by (auto simp: wake_def)
qed

lemma pop_ok:
  assumes r: "links_rep (sd_conds sd) C"
  shows "C c = [] \<Longrightarrow> co_cond_pop c sd = Some (None, sd)"
    and "C c = p # ps \<Longrightarrow> \<exists>cs. co_cond_pop c sd = Some (Some p, sd\<lparr>sd_conds := cs\<rparr>) \<and> links_rep cs (C(c := ps))"
  using rep_ends(1) [OF r, of c] PopHead_rep [OF r, of c p ps] by (auto simp: co_cond_pop_def)

lemma signal_ok:
  assumes "links_rep (sd_links sd) L" "links_rep (sd_conds sd) C" "C c = p # ps"
  shows "\<exists>ls cs. co_cond_signal c sd = Some (sd_set_links ls (sd\<lparr>sd_conds := cs\<rparr>)) \<and>
    links_rep ls (woken p L) \<and> links_rep cs (C(c := ps))"
proof -
  obtain cs where c: "co_cond_pop c sd = Some (Some p, sd\<lparr>sd_conds := cs\<rparr>)" "links_rep cs (C(c := ps))"
    using pop_ok(2) [OF assms(2,3)] by blast
  have "links_rep (sd_links (sd\<lparr>sd_conds := cs\<rparr>)) L" using assms(1) by (simp add: sd_links_def)
  then show ?thesis using wake_ok [of "sd\<lparr>sd_conds := cs\<rparr>" L p] c by (auto simp: co_cond_signal_def)
qed

lemma broadcast_ok:
  assumes "links_rep (sd_links sd) L" "links_rep (sd_conds sd) C"
  shows "\<exists>ls cs. co_cond_broadcast c sd = Some (sd_set_links ls (sd\<lparr>sd_conds := cs\<rparr>)) \<and>
    links_rep ls (fold woken (C c) L) \<and> links_rep cs (C(c := []))"
  using assms
proof (induction "C c" arbitrary: sd L C)
  case Nil
  have "co_cond_broadcast c sd = Some sd" using pop_ok(1) [OF Nil.prems(2)] Nil.hyps by (simp add: co_cond_broadcast.simps)
  moreover have "C = C(c := [])" using Nil.hyps by auto
  moreover have "sd = sd_set_links (sd_links sd) (sd\<lparr>sd_conds := sd_conds sd\<rparr>)" by (simp add: sd_set_links_def sd_links_def)
  ultimately show ?case using Nil by (intro exI [of _ "sd_links sd"] exI [of _ "sd_conds sd"]) simp
next
  case (Cons p ps)
  have e: "C c = p # ps" using Cons.hyps(2) by simp
  obtain cs where c: "co_cond_pop c sd = Some (Some p, sd\<lparr>sd_conds := cs\<rparr>)" "links_rep cs (C(c := ps))"
    using pop_ok(2) [OF Cons.prems(2) e] by blast
  have "links_rep (sd_links (sd\<lparr>sd_conds := cs\<rparr>)) L" using Cons.prems(1) by (simp add: sd_links_def)
  then obtain ls where w: "wake p (sd\<lparr>sd_conds := cs\<rparr>) = Some (sd_set_links ls (sd\<lparr>sd_conds := cs\<rparr>))" "links_rep ls (woken p L)"
    using wake_ok by blast
  let ?sd = "sd_set_links ls (sd\<lparr>sd_conds := cs\<rparr>)"
  have "links_rep (sd_links ?sd) (woken p L)" "links_rep (sd_conds ?sd) (C(c := ps))"
    using w(2) c(2) by (simp_all add: sd_links_def sd_set_links_def)
  then obtain ls' cs' where b: "co_cond_broadcast c ?sd = Some (sd_set_links ls' (?sd\<lparr>sd_conds := cs'\<rparr>))"
    "links_rep ls' (fold woken ps (woken p L))" "links_rep cs' ((C(c := ps))(c := []))"
    using Cons.hyps(1) [of "C(c := ps)" ?sd "woken p L"] by auto
  have "co_cond_broadcast c sd = co_cond_broadcast c ?sd" using c(1) w(1) by (simp add: co_cond_broadcast.simps [of c sd])
  then show ?case using b e by (intro exI [of _ ls'] exI [of _ cs']) (simp add: sd_set_links_def)
qed

lemma fold_woken:
  "distinct ps \<Longrightarrow> fold woken ps L =
     (\<lambda>l. filter (\<lambda>m. m \<notin> set ps) (L l) @ (if l = ActiveList then ps else []))"
proof (induction ps arbitrary: L)
  case (Cons p ps)
  have "filter (\<lambda>m. m \<notin> set ps) ps = []" by (simp add: filter_empty_conv)
  then show ?case using Cons by (auto simp: woken_def without_def fun_eq_iff conj_commute)
qed (simp add: fun_eq_iff)

lemma broadcast_lists:
  assumes "sched_ok sd L" "idle L" "links_rep (sd_conds sd) C" "\<forall>p \<in> set (C c). \<not> bTimeout (sd_item sd p)"
  shows "\<exists>sd1 L1. co_cond_broadcast c sd = Some sd1 \<and> wheel_ok (sd_wheel sd1) L1 \<and> L1 ActiveList = C c \<and> L1 TimeoutList = [] \<and>
    (\<forall>k. \<forall>n \<in> set (L1 (Slot k)). \<not> bTimeout (wh_item (sd_wheel sd1) n)) \<and>
    wheel_items (sd_wheel sd1) L1 = wheel_items (sd_wheel sd) L - set (C c) \<and>
    ullStart (sd_wheel sd1) = ullStart (sd_wheel sd) \<and> wh_item (sd_wheel sd1) = wh_item (sd_wheel sd) \<and>
    links_rep (sd_conds sd1) (C(c := [])) \<and> sched.more sd1 = sched.more sd"
proof -
  have w: "wheel_ok (sd_wheel sd) L" using assms(1) by (simp add: sched_ok_def)
  then have r: "links_rep (sd_links sd) L" by (simp add: wheel_ok_def sd_links_def)
  obtain ls cs where b: "co_cond_broadcast c sd = Some (sd_set_links ls (sd\<lparr>sd_conds := cs\<rparr>))"
    "links_rep ls (fold woken (C c) L)" "links_rep cs (C(c := []))"
    using broadcast_ok [OF r assms(3)] by blast
  let ?L = "fold woken (C c) L"
  have L: "?L = (\<lambda>l. filter (\<lambda>m. m \<notin> set (C c)) (L l) @ (if l = ActiveList then C c else []))"
    by (rule fold_woken [OF rep_distinct [OF assms(3)]])
  have "wheel_ok ((sd_wheel sd)\<lparr>wh_links := ls\<rparr>) ?L" by (rule wheel_ok_sub [OF w b(2)]) (simp add: L)
  then show ?thesis using assms(1,2) b(1,3)
    by (intro exI [of _ "sd_set_links ls (sd\<lparr>sd_conds := cs\<rparr>)"] exI [of _ ?L])
      (auto simp: L sd_set_links_def sched_ok_def idle_def wheel_items_def sd_item_def)
qed

section \<open>Broadcasts and signals within a turn\<close>

lemma same_log: "sched.more (sd1 :: logged) = sched.more sd \<Longrightarrow> sd_log sd1 = sd_log sd"
  by (cases sd, cases sd1) simp

text \<open>A state in which two coroutines wait on condition 5 without a time limit.\<close>

definition two_waiters :: logged where
  "two_waiters = snd (co_cond_timedwait_begin 1000 8 5 (- 1) (snd (co_cond_timedwait_begin 1000 7 5 (- 1) (logged_start 1000))))"

lemma two_waiters_ok:
  "sched_ok two_waiters (\<lambda>_. [])" "links_rep (sd_conds two_waiters) ((\<lambda>_. [])(5 := [0, 1]))"
  "ullStart (sd_wheel two_waiters) = 1000" "sd_log two_waiters = []"
  "\<not> bTimeout (sd_item two_waiters 0)" "\<not> bTimeout (sd_item two_waiters 1)"
proof -
  have c: "sd_conds two_waiters = AddTail 5 1 (AddTail 5 0 no_links)"
    by (simp add: two_waiters_def co_cond_timedwait_begin_def Let_def sd_set_item_def logged_start_def sched.defs AllocEpoll_def)
  have 1: "links_rep (AddTail 5 0 no_links) ((\<lambda>_ :: nat. [])(5 := [0 :: nat]))"
    using AddTail_rep [OF rep_empty, of 0 "5 :: nat"] by (simp add: no_links_def)
  have "pLink (AddTail (5 :: nat) 0 no_links) (1 :: nat) = None"
    using rep_in [OF 1, of 1] by (cases "pLink (AddTail (5 :: nat) 0 no_links) (1 :: nat)") (auto split: if_splits)
  then show "links_rep (sd_conds two_waiters) ((\<lambda>_. [])(5 := [0, 1]))" using AddTail_rep [OF 1, of 1 5] c by simp
  have "wheel_ok (sd_wheel two_waiters) (\<lambda>_. [])"
    using wheel_ok_new [of 60000 1000] by (simp add: two_waiters_def co_cond_timedwait_begin_def Let_def sd_set_item_def logged_start_def sched.defs AllocEpoll_def wheel_ok_def AllocTimeout_def)
  then show "sched_ok two_waiters (\<lambda>_. [])"
    by (simp add: sched_ok_def two_waiters_def co_cond_timedwait_begin_def Let_def sd_set_item_def logged_start_def sched.defs AllocEpoll_def AllocTimeout_def)
qed (simp_all add: two_waiters_def co_cond_timedwait_begin_def Let_def sd_set_item_def logged_start_def sched.defs AllocEpoll_def AllocTimeout_def sd_item_def)



text \<open>
  C39. A signal can be lost. When a waiter with a time limit beyond the wheel's minute has been taken out of its
  slot before its time, a signal that another coroutine of the same turn sends takes it off the condition, but
  the loop puts it back into the wheel without resuming it: it sleeps on until its full time limit, and no
  later signal can reach it.
\<close>

theorem signal_lost:
  assumes "wheel_ok (sd_wheel sd) L" "ullStart (sd_wheel sd) = now" "L TimeoutList = []"
    and "\<And>k n. n \<in> set (L (Slot k)) \<Longrightarrow> \<not> bTimeout (wh_item (sd_wheel sd) n)"
    and "p \<in> set (L ActiveList)" "bTimeout (sd_item sd p)" "now < ullExpireTime (sd_item sd p)"
    and "links_rep (sd_conds sd) C" "C c = p # ps"
  shows "\<exists>sd1 sd2 L2 log. co_cond_signal c sd = Some sd1 \<and> drain noting_run now sd1 = Some sd2 \<and>
    sd_log sd2 = sd_log sd @ log \<and> p \<notin> set log \<and> wheel_ok (sd_wheel sd2) L2 \<and> p \<in> wheel_items (sd_wheel sd2) L2 \<and>
    links_rep (sd_conds sd2) (C(c := ps))"
proof -
  have r: "links_rep (sd_links sd) L" using assms(1) by (simp add: wheel_ok_def sd_links_def)
  obtain ls cs where s: "co_cond_signal c sd = Some (sd_set_links ls (sd\<lparr>sd_conds := cs\<rparr>))"
    "links_rep ls (woken p L)" "links_rep cs (C(c := ps))"
    using signal_ok [OF r assms(8,9)] by blast
  let ?sd1 = "sd_set_links ls (sd\<lparr>sd_conds := cs\<rparr>)" and ?L1 = "woken p L"
  have sl: "set (?L1 (Slot k)) \<subseteq> set (L (Slot k))" for k by (auto simp: woken_def without_def)
  have w1: "wheel_ok (sd_wheel ?sd1) ?L1"
    using wheel_ok_sub [OF assms(1) s(2) sl] by (simp add: sd_set_links_def)
  have nf: "\<not> fires now (sd_wheel ?sd1) p" using assms(6,7) by (simp add: fires_def sd_set_links_def sd_item_def)
  have "ullStart (sd_wheel ?sd1) = now" "?L1 TimeoutList = []" "p \<in> set (?L1 ActiveList)"
    using assms(2,3) by (simp_all add: sd_set_links_def woken_def without_def)
  moreover have "\<not> bTimeout (wh_item (sd_wheel ?sd1) n)" if "n \<in> set (?L1 (Slot k))" for k n
    using assms(4) [of n k] sl that by (auto simp: sd_set_links_def)
  ultimately obtain w' L' where d: "drain noting_run now ?sd1 =
      Some (?sd1\<lparr>sd_wheel := w', sd_log := sd_log ?sd1 @ filter (fires now (sd_wheel ?sd1)) (?L1 ActiveList)\<rparr>)"
    "wheel_ok w' L'" "p \<in> wheel_items w' L'"
    using drain_notes [OF w1, of now] nf by blast
  let ?log = "filter (fires now (sd_wheel ?sd1)) (?L1 ActiveList)"
  show ?thesis using s(1,3) d nf
    by (rule_tac x = ?sd1 in exI, rule_tac x = "?sd1\<lparr>sd_wheel := w', sd_log := sd_log ?sd1 @ ?log\<rparr>" in exI,
        rule_tac x = L' in exI, rule_tac x = ?log in exI) (simp add: sd_set_links_def)
qed

text \<open>A turn at 61000 in which a waiter until 71000 came up, since the wheel has slots for a minute only.\<close>

definition early_waiter :: logged where
  "early_waiter = (logged_start 61000)\<lparr>
     sd_wheel := (AllocTimeout 60000 61000)\<lparr>wh_links := AddTail ActiveList 0 no_links,
       wh_item := (\<lambda>_. no_item)(0 := \<lparr>ullExpireTime = 71000, bTimeout = True, pArg = 7\<rparr>)\<rparr>,
     sd_conds := AddTail 5 0 no_links, sd_fresh := 1\<rparr>"

theorem signal_lost_witness:
  "\<exists>sd1 sd2 L2. co_cond_signal 5 early_waiter = Some sd1 \<and> drain noting_run 61000 sd1 = Some sd2 \<and>
     0 \<notin> set (sd_log sd2) \<and> 0 \<in> wheel_items (sd_wheel sd2) L2 \<and> links_rep (sd_conds sd2) (\<lambda>_. [])"
proof -
  let ?L = "(\<lambda>_. [])(ActiveList := [0])" and ?C = "(\<lambda>_. [])(5 := [0])"
  have e: "ullStart (sd_wheel early_waiter) = 61000" "bTimeout (sd_item early_waiter 0)" "61000 < ullExpireTime (sd_item early_waiter 0)"
    "sd_log early_waiter = []" "sd_conds early_waiter = AddTail 5 0 no_links"
    by (simp_all add: early_waiter_def AllocTimeout_def sd_item_def logged_start_def sched.defs)
  have c: "links_rep (sd_conds early_waiter) ?C" using AddTail_rep [OF rep_empty, of 0 "5 :: nat"] by (simp add: e no_links_def)
  have "links_rep (AddTail ActiveList 0 no_links) ?L" using AddTail_rep [OF rep_empty, of 0 ActiveList] by (simp add: no_links_def)
  then have w: "wheel_ok (sd_wheel early_waiter) ?L" by (simp add: early_waiter_def wheel_ok_def AllocTimeout_def)
  have "?C(5 := []) = (\<lambda>_. [])" by auto
  then show ?thesis using signal_lost [OF w e(1) _ _ _ e(2,3) c, of 5 "[]"] e(4) by (simp add: fun_upd_idem) blast
qed

end
