(* ===== verification/CoSwap.thy ===== *)
theory CoSwap
  imports Prelude "HOL-Library.Word" "HOL-Library.Monad_Syntax"
begin

unbundle bit_operations_syntax

text \<open>
  Coroutines of libco (\<^verbatim>\<open>src/src/core/libco/co_routine.cpp\<close>): creating, resuming, yielding, resetting and
  freeing them, and the copying of shared stacks. A stack is its list of bytes, a stack pointer an offset in
  it. \<^verbatim>\<open>coctx_swap\<close> only changes which coroutine runs: \<^verbatim>\<open>co_swap\<close> is split there, and its second half
  runs in the coroutine that got control. \<open>None\<close> is undefined behaviour: a released coroutine is touched, the
  call stack of 128 entries overflows, or it underflows.
\<close>

section \<open>Data\<close>

text \<open>A stack of the shared ones, or the stack of one coroutine.\<close>

datatype memid = Shared nat | Own nat

record 'b stackmem =
  sm_occupy_co :: "nat option"
  stack_buffer :: "'b list"

record 'b coroutine =
  cStart :: bool
  cEnd :: bool
  cIsMain :: bool
  cEnableSysHook :: bool
  cIsShareStack :: bool
  stack_mem :: memid
  stack_sp :: nat
  save_buffer :: "'b list option"
  aSpec :: "nat \<Rightarrow> nat"

record sharestack =
  alloc_idx :: "32 word"
  ss_stack_size :: int
  ss_count :: int

record 'b coenv =
  pCallStack :: "nat list"
  pending_co :: "nat option"
  env_occupy_co :: "nat option"
  co_heap :: "nat \<Rightarrow> 'b coroutine option"
  co_mems :: "memid \<Rightarrow> 'b stackmem"
  share_stack :: "sharestack option"

definition upd_co :: "nat \<Rightarrow> ('b coroutine \<Rightarrow> 'b coroutine) \<Rightarrow> 'b coenv \<Rightarrow> 'b coenv" where
  "upd_co c f st = st\<lparr>co_heap := (co_heap st)(c := map_option f (co_heap st c))\<rparr>"

definition upd_mem :: "memid \<Rightarrow> ('b stackmem \<Rightarrow> 'b stackmem) \<Rightarrow> 'b coenv \<Rightarrow> 'b coenv" where
  "upd_mem m f st = st\<lparr>co_mems := (co_mems st)(m := f (co_mems st m))\<rparr>"

definition GetCurrCo :: "'b coenv \<Rightarrow> nat option" where
  "GetCurrCo st = (if pCallStack st = [] then None else Some (last (pCallStack st)))"

section \<open>Stacks\<close>

text \<open>The content of fresh memory is arbitrary: every byte is \<open>fill\<close>.\<close>

definition co_alloc_stackmem :: "'b \<Rightarrow> int \<Rightarrow> 'b stackmem" where
  "co_alloc_stackmem fill bytes = \<lparr>sm_occupy_co = None, stack_buffer = replicate (nat bytes) fill\<rparr>"

fun alloc_stacks :: "'b \<Rightarrow> nat \<Rightarrow> int \<Rightarrow> 'b coenv \<Rightarrow> 'b coenv" where
  "alloc_stacks fill 0 bytes st = st"
| "alloc_stacks fill (Suc n) bytes st =
     upd_mem (Shared n) (\<lambda>_. co_alloc_stackmem fill bytes) (alloc_stacks fill n bytes st)"

definition co_alloc_sharestack :: "'b \<Rightarrow> int \<Rightarrow> int \<Rightarrow> 'b coenv \<Rightarrow> 'b coenv" where
  "co_alloc_sharestack fill count bytes st =
     (alloc_stacks fill (nat count) bytes st)\<lparr>share_stack := Some \<lparr>alloc_idx = 0, ss_stack_size = bytes, ss_count = count\<rparr>\<rparr>"

text \<open>The index is unsigned and wraps around.\<close>

definition co_get_stackmem :: "sharestack \<Rightarrow> (nat \<times> sharestack) option" where
  "co_get_stackmem ss =
     (if ss_count ss = 0 then None
      else Some (unat (alloc_idx ss mod word_of_int (ss_count ss)), ss\<lparr>alloc_idx := alloc_idx ss + 1\<rparr>))"

section \<open>Creating\<close>

definition round_stack_size :: "int \<Rightarrow> int" where
  "round_stack_size n0 =
     (let n = (if n0 \<le> 0 then 128 * 1024 else if n0 > 1024 * 1024 * 8 then 1024 * 1024 * 8 else n0)
      in if n AND 0xFFF \<noteq> 0 then (n AND NOT 0xFFF) + 0x1000 else n)"

definition fresh_co :: "memid \<Rightarrow> bool \<Rightarrow> 'b coroutine" where
  "fresh_co m share = \<lparr>cStart = False, cEnd = False, cIsMain = False, cEnableSysHook = False, cIsShareStack = share,
     stack_mem = m, stack_sp = 0, save_buffer = None, aSpec = \<lambda>_. 0\<rparr>"

text \<open>\<open>c\<close> is the memory the coroutine gets.\<close>

definition co_create_env :: "'b \<Rightarrow> nat \<Rightarrow> bool \<Rightarrow> int \<Rightarrow> 'b coenv \<Rightarrow> 'b coenv option" where
  "co_create_env fill c share bytes st =
     (if share
      then do {
        ss \<leftarrow> share_stack st;
        (i, ss1) \<leftarrow> co_get_stackmem ss;
        Some (st\<lparr>share_stack := Some ss1, co_heap := (co_heap st)(c := Some (fresh_co (Shared i) True))\<rparr>)
      }
      else Some (upd_mem (Own c) (\<lambda>_. co_alloc_stackmem fill (round_stack_size bytes))
                  (st\<lparr>co_heap := (co_heap st)(c := Some (fresh_co (Own c) False))\<rparr>)))"

definition co_init_curr_thread_env :: "'b \<Rightarrow> nat \<Rightarrow> 'b coenv option" where
  "co_init_curr_thread_env fill main = do {
     st \<leftarrow> co_create_env fill main False (128 * 1024)
            \<lparr>pCallStack = [], pending_co = None, env_occupy_co = None, co_heap = \<lambda>_. None,
             co_mems = \<lambda>_. co_alloc_stackmem fill 0, share_stack = None\<rparr>;
     Some ((upd_co main (\<lambda>co. co\<lparr>cIsMain := True\<rparr>) st)\<lparr>pCallStack := [main]\<rparr>)
   }"

section \<open>Switching\<close>

definition save_stack_buffer :: "nat \<Rightarrow> 'b coenv \<Rightarrow> 'b coenv option" where
  "save_stack_buffer c st = do {
     co \<leftarrow> co_heap st c;
     let b = stack_buffer (co_mems st (stack_mem co));
     if stack_sp co > length b then None
     else Some (upd_co c (\<lambda>co. co\<lparr>save_buffer := Some (drop (stack_sp co) b)\<rparr>) st)
   }"

definition co_swap_out :: "nat \<Rightarrow> nat \<Rightarrow> nat \<Rightarrow> 'b coenv \<Rightarrow> 'b coenv option" where
  "co_swap_out cu pend sp st = do {
     _ \<leftarrow> co_heap st cu;
     pe \<leftarrow> co_heap st pend;
     let st1 = upd_co cu (\<lambda>co. co\<lparr>stack_sp := sp\<rparr>) st;
     if \<not> cIsShareStack pe then Some (st1\<lparr>pending_co := None, env_occupy_co := None\<rparr>)
     else let occ = sm_occupy_co (co_mems st1 (stack_mem pe));
              st2 = upd_mem (stack_mem pe) (\<lambda>m. m\<lparr>sm_occupy_co := Some pend\<rparr>)
                      (st1\<lparr>pending_co := Some pend, env_occupy_co := occ\<rparr>)
          in case occ of
               None \<Rightarrow> Some st2
             | Some oc \<Rightarrow> if oc \<noteq> pend then save_stack_buffer oc st2 else Some st2
   }"

definition co_swap_in :: "'b coenv \<Rightarrow> 'b coenv option" where
  "co_swap_in st =
     (case pending_co st of
        None \<Rightarrow> Some st
      | Some p \<Rightarrow>
          if env_occupy_co st = Some p then Some st
          else do {
            co \<leftarrow> co_heap st p;
            case save_buffer co of
              None \<Rightarrow> Some st
            | Some b \<Rightarrow>
                (let m = stack_mem co; buf = stack_buffer (co_mems st m); sp = stack_sp co
                 in if length b = 0 then Some st
                    else if sp + length b > length buf then None
                    else Some (upd_mem m (\<lambda>m. m\<lparr>stack_buffer := take sp buf @ b @ drop (sp + length b) buf\<rparr>) st))
          })"

text \<open>A coroutine that was not started begins in \<^verbatim>\<open>CoRoutineFunc\<close>; any other one goes on in the middle of \<^verbatim>\<open>co_swap\<close>.\<close>

definition co_resume :: "nat \<Rightarrow> nat \<Rightarrow> 'b coenv \<Rightarrow> 'b coenv option" where
  "co_resume c sp st = do {
     co \<leftarrow> co_heap st c;
     cu \<leftarrow> GetCurrCo st;
     let st1 = upd_co c (\<lambda>co. co\<lparr>cStart := True\<rparr>) st;
     if length (pCallStack st) \<ge> 128 then None
     else do {
       st2 \<leftarrow> co_swap_out cu c sp (st1\<lparr>pCallStack := pCallStack st @ [c]\<rparr>);
       if cStart co then co_swap_in st2 else Some st2
     }
   }"

definition co_yield_env :: "nat \<Rightarrow> 'b coenv \<Rightarrow> 'b coenv option" where
  "co_yield_env sp st =
     (if length (pCallStack st) < 2 then None
      else do {
        st1 \<leftarrow> co_swap_out (last (pCallStack st)) (last (butlast (pCallStack st))) sp (st\<lparr>pCallStack := butlast (pCallStack st)\<rparr>);
        co_swap_in st1
      })"

text \<open>The end of \<^verbatim>\<open>CoRoutineFunc\<close>.\<close>

definition co_finish :: "nat \<Rightarrow> 'b coenv \<Rightarrow> 'b coenv option" where
  "co_finish sp st = do {
     c \<leftarrow> GetCurrCo st;
     co_yield_env sp (upd_co c (\<lambda>co. co\<lparr>cEnd := True\<rparr>) st)
   }"

definition leave_stack :: "nat \<Rightarrow> memid \<Rightarrow> 'b coenv \<Rightarrow> 'b coenv" where
  "leave_stack c m st =
     (let st1 = (if env_occupy_co st = Some c then st\<lparr>env_occupy_co := None\<rparr> else st)
      in if sm_occupy_co (co_mems st1 m) = Some c then upd_mem m (\<lambda>m. m\<lparr>sm_occupy_co := None\<rparr>) st1 else st1)"

definition co_reset :: "nat \<Rightarrow> 'b coenv \<Rightarrow> 'b coenv option" where
  "co_reset c st = do {
     co \<leftarrow> co_heap st c;
     if \<not> cStart co \<or> cIsMain co then Some st
     else Some (leave_stack c (stack_mem co) (upd_co c (\<lambda>co. co\<lparr>cStart := False, cEnd := False, save_buffer := None\<rparr>) st))
   }"

definition co_free :: "nat \<Rightarrow> 'b coenv \<Rightarrow> 'b coenv option" where
  "co_free c st = do {
     co \<leftarrow> co_heap st c;
     let st1 = (if cIsShareStack co then leave_stack c (stack_mem co) st
                else upd_mem (stack_mem co) (\<lambda>_. \<lparr>sm_occupy_co = None, stack_buffer = []\<rparr>) st);
     Some (st1\<lparr>co_heap := (co_heap st1)(c := None)\<rparr>)
   }"

section \<open>Values and flags of a coroutine\<close>

text \<open>The main coroutine uses the values of the thread; an index of 1024 or more is outside the array.\<close>

definition co_getspecific :: "(nat \<Rightarrow> nat) \<Rightarrow> nat \<Rightarrow> 'b coenv \<Rightarrow> nat option" where
  "co_getspecific thread key st =
     (case GetCurrCo st of
        None \<Rightarrow> Some (thread key)
      | Some c \<Rightarrow> do { co \<leftarrow> co_heap st c;
          if cIsMain co then Some (thread key) else if key \<ge> 1024 then None else Some (aSpec co key) })"

definition co_setspecific :: "nat \<Rightarrow> nat \<Rightarrow> (nat \<Rightarrow> nat) \<times> 'b coenv \<Rightarrow> ((nat \<Rightarrow> nat) \<times> 'b coenv) option" where
  "co_setspecific key v ts = (let (thread, st) = ts in
     case GetCurrCo st of
        None \<Rightarrow> Some (thread(key := v), st)
      | Some c \<Rightarrow> do { co \<leftarrow> co_heap st c;
          if cIsMain co then Some (thread(key := v), st) else if key \<ge> 1024 then None
          else Some (thread, upd_co c (\<lambda>co. co\<lparr>aSpec := (aSpec co)(key := v)\<rparr>) st) })"

definition co_disable_hook_sys :: "'b coenv \<Rightarrow> 'b coenv" where
  "co_disable_hook_sys st =
     (case GetCurrCo st of None \<Rightarrow> st | Some c \<Rightarrow> upd_co c (\<lambda>co. co\<lparr>cEnableSysHook := False\<rparr>) st)"

definition co_is_enable_sys_hook :: "'b coenv \<Rightarrow> bool" where
  "co_is_enable_sys_hook st =
     (case GetCurrCo st of
        None \<Rightarrow> False
      | Some c \<Rightarrow> (case co_heap st c of None \<Rightarrow> False | Some co \<Rightarrow> cEnableSysHook co))"

section \<open>Private stacks\<close>

text \<open>
  The specification: every coroutine has a stack of its own. A suspended coroutine is the part of its stack
  that is in use; the coroutine that gets control sees exactly what it left.
\<close>

datatype 'b astate = Fresh | Running | Suspended "'b list" | Ended

record 'b privates =
  ab_stack :: "nat list"
  ab_co :: "nat \<Rightarrow> 'b astate option"
  ab_size :: "nat \<Rightarrow> nat"
  ab_share :: nat

definition ab_fits :: "'b list \<Rightarrow> nat \<Rightarrow> 'b privates \<Rightarrow> bool" where
  "ab_fits data sp ab \<longleftrightarrow> length data = ab_size ab (last (ab_stack ab)) \<and> sp \<le> length data"

text \<open>
  Before a switch the running coroutine may have filled its stack in any way: \<open>data\<close> is the stack at the switch
  and \<open>sp\<close> the stack pointer. What the next coroutine sees is reported, \<open>None\<close> if it is at its beginning.
\<close>

datatype 'b sw_op = Sw_create nat bool int | Sw_resume nat "'b list" nat | Sw_yield "'b list" nat | Sw_finish "'b list" nat
  | Sw_reset nat | Sw_free nat

type_synonym 'b seen = "(nat \<times> 'b list option) option"

definition hand_over :: "nat \<Rightarrow> 'b astate \<Rightarrow> nat \<Rightarrow> nat list \<Rightarrow> 'b privates \<Rightarrow> ('b privates \<times> 'b seen) option" where
  "hand_over cu left c stk ab =
     (case ab_co ab c of
        Some Fresh \<Rightarrow> Some (ab\<lparr>ab_stack := stk, ab_co := (ab_co ab)(cu \<mapsto> left, c \<mapsto> Running)\<rparr>, Some (c, None))
      | Some (Suspended x) \<Rightarrow> Some (ab\<lparr>ab_stack := stk, ab_co := (ab_co ab)(cu \<mapsto> left, c \<mapsto> Running)\<rparr>, Some (c, Some x))
      | _ \<Rightarrow> None)"

fun private_step :: "'b sw_op \<Rightarrow> 'b privates \<Rightarrow> ('b privates \<times> 'b seen) option" where
  "private_step (Sw_create c share bytes) ab =
     (if ab_co ab c \<noteq> None then None
      else Some (ab\<lparr>ab_co := (ab_co ab)(c \<mapsto> Fresh),
                    ab_size := (ab_size ab)(c := if share then ab_share ab else nat (round_stack_size bytes))\<rparr>, None))"
| "private_step (Sw_resume c data sp) ab =
     (if c \<in> set (ab_stack ab) \<or> length (ab_stack ab) \<ge> 128 \<or> \<not> ab_fits data sp ab then None
      else hand_over (last (ab_stack ab)) (Suspended (drop sp data)) c (ab_stack ab @ [c]) ab)"
| "private_step (Sw_yield data sp) ab =
     (if length (ab_stack ab) < 2 \<or> \<not> ab_fits data sp ab then None
      else hand_over (last (ab_stack ab)) (Suspended (drop sp data)) (last (butlast (ab_stack ab))) (butlast (ab_stack ab)) ab)"
| "private_step (Sw_finish data sp) ab =
     (if length (ab_stack ab) < 2 \<or> \<not> ab_fits data sp ab then None
      else hand_over (last (ab_stack ab)) Ended (last (butlast (ab_stack ab))) (butlast (ab_stack ab)) ab)"
| "private_step (Sw_reset c) ab =
     (if c \<in> set (ab_stack ab) \<or> ab_co ab c = None then None else Some (ab\<lparr>ab_co := (ab_co ab)(c \<mapsto> Fresh)\<rparr>, None))"
| "private_step (Sw_free c) ab =
     (if c \<in> set (ab_stack ab) \<or> ab_co ab c = None then None else Some (ab\<lparr>ab_co := (ab_co ab)(c := None)\<rparr>, None))"

text \<open>The implementation. The stack that the running coroutine leaves has the size of its memory.\<close>

definition see :: "nat \<Rightarrow> 'b coenv \<Rightarrow> 'b list option" where
  "see c st = do { co \<leftarrow> co_heap st c; Some (drop (stack_sp co) (stack_buffer (co_mems st (stack_mem co)))) }"

definition fill_stack :: "'b list \<Rightarrow> nat \<Rightarrow> 'b coenv \<Rightarrow> 'b coenv option" where
  "fill_stack data sp st = do {
     c \<leftarrow> GetCurrCo st;
     co \<leftarrow> co_heap st c;
     if length data = length (stack_buffer (co_mems st (stack_mem co))) \<and> sp \<le> length data
     then Some (upd_mem (stack_mem co) (\<lambda>m. m\<lparr>stack_buffer := data\<rparr>) st) else None
   }"

fun shared_step :: "'b \<Rightarrow> 'b sw_op \<Rightarrow> 'b coenv \<Rightarrow> ('b coenv \<times> 'b seen) option" where
  "shared_step fill (Sw_create c share bytes) st = map_option (\<lambda>st. (st, None)) (co_create_env fill c share bytes st)"
| "shared_step fill (Sw_resume c data sp) st = do {
     st1 \<leftarrow> fill_stack data sp st;
     co \<leftarrow> co_heap st1 c;
     st2 \<leftarrow> co_resume c sp st1;
     Some (st2, Some (c, if cStart co then see c st2 else None))
   }"
| "shared_step fill (Sw_yield data sp) st = do {
     st1 \<leftarrow> fill_stack data sp st;
     st2 \<leftarrow> co_yield_env sp st1;
     c \<leftarrow> GetCurrCo st2;
     Some (st2, Some (c, see c st2))
   }"
| "shared_step fill (Sw_finish data sp) st = do {
     st1 \<leftarrow> fill_stack data sp st;
     st2 \<leftarrow> co_finish sp st1;
     c \<leftarrow> GetCurrCo st2;
     Some (st2, Some (c, see c st2))
   }"
| "shared_step fill (Sw_reset c) st = map_option (\<lambda>st. (st, None)) (co_reset c st)"
| "shared_step fill (Sw_free c) st = map_option (\<lambda>st. (st, None)) (co_free c st)"

section \<open>The invariant\<close>

text \<open>Where the stack of a suspended coroutine is: in the memory it occupies, or in its copy.\<close>

definition image_is :: "nat \<Rightarrow> 'b coroutine \<Rightarrow> (memid \<Rightarrow> 'b stackmem) \<Rightarrow> 'b list \<Rightarrow> bool" where
  "image_is c co ms x \<longleftrightarrow>
     length x + stack_sp co = length (stack_buffer (ms (stack_mem co))) \<and>
     (if cIsShareStack co \<and> sm_occupy_co (ms (stack_mem co)) \<noteq> Some c then save_buffer co = Some x
      else drop (stack_sp co) (stack_buffer (ms (stack_mem co))) = x)"

definition own_mem :: "nat \<Rightarrow> 'b coroutine \<Rightarrow> bool" where
  "own_mem c co \<longleftrightarrow> (case stack_mem co of Own d \<Rightarrow> d = c \<and> \<not> cIsShareStack co | Shared _ \<Rightarrow> cIsShareStack co)"

definition co_inv :: "nat \<Rightarrow> (nat \<Rightarrow> nat) \<Rightarrow> (memid \<Rightarrow> 'b stackmem) \<Rightarrow> nat \<Rightarrow> 'b coroutine \<Rightarrow> 'b astate \<Rightarrow> bool" where
  "co_inv r bytes ms c co a \<longleftrightarrow>
     own_mem c co \<and> length (stack_buffer (ms (stack_mem co))) = bytes c \<and> stack_sp co \<le> bytes c \<and>
     (case a of
        Fresh \<Rightarrow> sm_occupy_co (ms (stack_mem co)) \<noteq> Some c \<and> c \<noteq> r
      | Running \<Rightarrow> (cStart co \<or> cIsMain co) \<and> c = r \<and> (cIsShareStack co \<longrightarrow> sm_occupy_co (ms (stack_mem co)) = Some c)
      | Suspended x \<Rightarrow> (cStart co \<or> cIsMain co) \<and> c \<noteq> r \<and> image_is c co ms x
      | Ended \<Rightarrow> cStart co \<and> c \<noteq> r)"

definition occupied_ok :: "(nat \<Rightarrow> 'b coroutine option) \<Rightarrow> (memid \<Rightarrow> 'b stackmem) \<Rightarrow> bool" where
  "occupied_ok h ms \<longleftrightarrow>
     (\<forall>m c. sm_occupy_co (ms m) = Some c \<longrightarrow> (\<exists>co. h c = Some co \<and> stack_mem co = m \<and> cIsShareStack co))"

definition cos_ok ::
  "nat \<Rightarrow> (nat \<Rightarrow> nat) \<Rightarrow> (nat \<Rightarrow> 'b coroutine option) \<Rightarrow> (memid \<Rightarrow> 'b stackmem) \<Rightarrow> (nat \<Rightarrow> 'b astate option) \<Rightarrow> bool" where
  "cos_ok r bytes h ms A \<longleftrightarrow> (\<forall>c. rel_option (co_inv r bytes ms c) (h c) (A c)) \<and> occupied_ok h ms"

lemma own_mem_upd [simp]:
  "own_mem c (co\<lparr>stack_sp := sp\<rparr>) = own_mem c co" "own_mem c (co\<lparr>cStart := s\<rparr>) = own_mem c co"
  "own_mem c (co\<lparr>cEnd := s\<rparr>) = own_mem c co" "own_mem c (co\<lparr>save_buffer := b\<rparr>) = own_mem c co"
  by (simp_all add: own_mem_def cong: memid.case_cong)

lemma cos_okD:
  assumes "cos_ok r bytes h ms A" "A c = Some a"
  obtains co where "h c = Some co" "co_inv r bytes ms c co a"
proof -
  have "rel_option (co_inv r bytes ms c) (h c) (Some a)" using assms by (metis cos_ok_def)
  then show thesis using that by (cases "h c") auto
qed

lemma cos_okD':
  assumes "cos_ok r bytes h ms A" "h c = Some co"
  obtains a where "A c = Some a" "co_inv r bytes ms c co a"
proof -
  have "rel_option (co_inv r bytes ms c) (Some co) (A c)" using assms by (metis cos_ok_def)
  then show thesis using that by (cases "A c") auto
qed

lemma cos_ok_None: "cos_ok r bytes h ms A \<Longrightarrow> h c = None \<longleftrightarrow> A c = None"
  by (metis cos_ok_def option.rel_distinct not_None_eq)

lemma own_mem_other:
  assumes "own_mem c co" "own_mem d co'" "c \<noteq> d" "stack_mem co = stack_mem co'"
  shows "cIsShareStack co" "cIsShareStack co'"
  using assms by (auto simp: own_mem_def split: memid.splits)

text \<open>The running coroutine may change its stack.\<close>

lemma fill_ok:
  assumes ok: "cos_ok r bytes h ms A" and r: "A r = Some Running" and h: "h r = Some co" and len: "length data = bytes r"
  shows "cos_ok r bytes h (ms(stack_mem co := (ms (stack_mem co))\<lparr>stack_buffer := data\<rparr>)) A"
proof -
  let ?m = "stack_mem co" let ?ms = "ms(?m := (ms ?m)\<lparr>stack_buffer := data\<rparr>)"
  have rc: "co_inv r bytes ms r co Running" using cos_okD [OF ok r] h by auto
  have "rel_option (co_inv r bytes ?ms c) (h c) (A c)" for c
  proof (cases "h c")
    case None
    then show ?thesis using cos_ok_None [OF ok, of c] by simp
  next
    case (Some co')
    then obtain a where a: "A c = Some a" "co_inv r bytes ms c co' a" using cos_okD' [OF ok] by blast
    consider "c = r" | "c \<noteq> r" "stack_mem co' = ?m" | "c \<noteq> r" "stack_mem co' \<noteq> ?m" by blast
    then have "co_inv r bytes ?ms c co' a"
    proof cases
      case 1
      then have "co' = co" "a = Running" using Some h a(1) r by simp_all
      then show ?thesis using rc 1 len by (simp add: co_inv_def)
    next
      case 2
      have "cIsShareStack co'" "cIsShareStack co" using own_mem_other [of c co' r co] a(2) rc 2 by (simp_all add: co_inv_def)
      then have "sm_occupy_co (ms ?m) = Some r" using rc by (simp add: co_inv_def)
      moreover have "bytes c = bytes r" using a(2) rc 2 by (simp add: co_inv_def)
      ultimately show ?thesis using a(2) 2 len \<open>cIsShareStack co'\<close>
        by (cases a) (simp_all add: co_inv_def image_is_def)
    next
      case 3
      then show ?thesis using a(2) by (cases a) (simp_all add: co_inv_def image_is_def)
    qed
    then show ?thesis using Some a(1) by simp
  qed
  moreover have "occupied_ok h ?ms" using ok by (auto simp: cos_ok_def occupied_ok_def)
  ultimately show ?thesis by (simp add: cos_ok_def)
qed

section \<open>Switching keeps the invariant\<close>

text \<open>What a switch to a coroutine on a shared stack does to a coroutine: the old occupant gets a copy.\<close>

definition swapped :: "nat \<Rightarrow> nat \<Rightarrow> nat \<Rightarrow> nat option \<Rightarrow> 'b list \<Rightarrow> nat \<Rightarrow> 'b coroutine \<Rightarrow> 'b coroutine" where
  "swapped cu pend sp occ buf c co =
     (let co1 = (if c = cu then co\<lparr>stack_sp := sp\<rparr> else co)
      in if occ = Some c \<and> c \<noteq> pend then co1\<lparr>save_buffer := Some (drop (stack_sp co1) buf)\<rparr> else co1)"

lemma swap_out_own:
  assumes "co_heap st cu = Some cc" "co_heap st pend = Some pe" "\<not> cIsShareStack pe"
  shows "co_swap_out cu pend sp st =
    Some (st\<lparr>pending_co := None, env_occupy_co := None, co_heap := (co_heap st)(cu \<mapsto> cc\<lparr>stack_sp := sp\<rparr>)\<rparr>)"
  using assms by (simp add: co_swap_out_def upd_co_def Let_def)

lemma swap_out_share:
  fixes st :: "'b coenv"
  defines "occ pe \<equiv> sm_occupy_co (co_mems st (stack_mem pe))" and "buf pe \<equiv> stack_buffer (co_mems st (stack_mem pe))"
  assumes h: "co_heap st cu = Some cc" "co_heap st pend = Some pe" "cIsShareStack pe" "cu \<noteq> pend"
    and oc: "\<And>oc. occ pe = Some oc \<Longrightarrow> \<exists>co. co_heap st oc = Some co \<and> stack_mem co = stack_mem pe \<and> stack_sp co \<le> length (buf pe)"
    and sp: "stack_mem cc = stack_mem pe \<Longrightarrow> sp \<le> length (buf pe)"
  shows "co_swap_out cu pend sp st = Some (st\<lparr>pending_co := Some pend, env_occupy_co := occ pe,
    co_heap := (\<lambda>c. map_option (swapped cu pend sp (occ pe) (buf pe) c) (co_heap st c)),
    co_mems := (co_mems st)(stack_mem pe := (co_mems st (stack_mem pe))\<lparr>sm_occupy_co := Some pend\<rparr>)\<rparr>)"
proof (cases "occ pe")
  case None
  let ?h = "(co_heap st)(cu \<mapsto> cc\<lparr>stack_sp := sp\<rparr>)"
  have "?h x = map_option (swapped cu pend sp (occ pe) (buf pe) x) (co_heap st x)" for x
    using h None by (cases "co_heap st x") (auto simp: swapped_def)
  then have e: "?h = (\<lambda>x. map_option (swapped cu pend sp (occ pe) (buf pe) x) (co_heap st x))" by (rule ext)
  show ?thesis unfolding e [symmetric] using h None by (simp add: co_swap_out_def Let_def upd_co_def upd_mem_def occ_def)
next
  case (Some oc)
  then obtain co where co: "co_heap st oc = Some co" "stack_mem co = stack_mem pe" "stack_sp co \<le> length (buf pe)" using oc by blast
  let ?h = "(co_heap st)(cu \<mapsto> cc\<lparr>stack_sp := sp\<rparr>)"
  let ?h1 = "if oc \<noteq> pend then ?h(oc := map_option (\<lambda>co. co\<lparr>save_buffer := Some (drop (stack_sp co) (buf pe))\<rparr>) (?h oc)) else ?h"
  have "?h1 x = map_option (swapped cu pend sp (occ pe) (buf pe) x) (co_heap st x)" for x
    using h Some by (cases "co_heap st x") (auto simp: swapped_def Let_def)
  then have e: "?h1 = (\<lambda>x. map_option (swapped cu pend sp (occ pe) (buf pe) x) (co_heap st x))" by (rule ext)
  have "oc = cu \<Longrightarrow> sp \<le> length (buf pe)" using sp co h(1) by auto
  then show ?thesis unfolding e [symmetric] using Some h co
    by (cases "oc = cu") (simp_all add: co_swap_out_def Let_def upd_co_def upd_mem_def occ_def buf_def save_stack_buffer_def)
qed

text \<open>What the running coroutine leaves behind.\<close>

definition left_as :: "'b astate \<Rightarrow> nat \<Rightarrow> 'b coroutine \<Rightarrow> (memid \<Rightarrow> 'b stackmem) \<Rightarrow> bool" where
  "left_as left sp cc ms \<longleftrightarrow>
     left = Suspended (drop sp (stack_buffer (ms (stack_mem cc)))) \<or> left = Ended \<and> cStart cc"

lemma rel_optionI:
  assumes "\<And>c. h c = None \<longleftrightarrow> A c = None" "\<And>c co a. h c = Some co \<Longrightarrow> A c = Some a \<Longrightarrow> R c co a"
  shows "rel_option (R c) (h c) (A c)"
  using assms(1) [of c] assms(2) [of c] by (cases "h c"; cases "A c") auto

lemma occupied_okD:
  assumes "occupied_ok h ms" "sm_occupy_co (ms m) = Some c" "h c = Some co"
  shows "stack_mem co = m" "cIsShareStack co"
  using assms by (metis occupied_ok_def option.inject)+

lemma occupied_okI:
  assumes "occupied_ok h ms"
    and "\<And>c co. h c = Some co \<Longrightarrow> \<exists>co'. h' c = Some co' \<and> stack_mem co' = stack_mem co \<and> cIsShareStack co' = cIsShareStack co"
    and "\<And>m c. sm_occupy_co (ms' m) = Some c \<Longrightarrow>
      sm_occupy_co (ms m) = Some c \<or> (\<exists>co. h' c = Some co \<and> stack_mem co = m \<and> cIsShareStack co)"
  shows "occupied_ok h' ms'"
  unfolding occupied_ok_def
proof (intro allI impI)
  fix m c
  assume "sm_occupy_co (ms' m) = Some c"
  then consider "sm_occupy_co (ms m) = Some c" | "\<exists>co. h' c = Some co \<and> stack_mem co = m \<and> cIsShareStack co"
    using assms(3) by blast
  then show "\<exists>co. h' c = Some co \<and> stack_mem co = m \<and> cIsShareStack co"
  proof cases
    case 1
    then obtain co where "h c = Some co" "stack_mem co = m" "cIsShareStack co" using assms(1) by (auto simp: occupied_ok_def)
    then show ?thesis using assms(2) [of c co] by auto
  qed
qed

lemma to_own_ok:
  assumes ok: "cos_ok cu bytes h ms A" and A: "A cu = Some Running" and h: "h cu = Some cc" "h pend = Some pe"
    and pe: "\<not> cIsShareStack pe" "cStart pe \<or> cIsMain pe" and ne: "cu \<noteq> pend" and sp: "sp \<le> bytes cu"
    and left: "left_as left sp cc ms"
  shows "cos_ok pend bytes (h(cu \<mapsto> cc\<lparr>stack_sp := sp\<rparr>)) ms (A(cu \<mapsto> left, pend \<mapsto> Running))"
proof -
  let ?h = "h(cu \<mapsto> cc\<lparr>stack_sp := sp\<rparr>)" and ?A = "A(cu \<mapsto> left, pend \<mapsto> Running)"
  have cc: "co_inv cu bytes ms cu cc Running" using cos_okD [OF ok A] h by auto
  have "co_inv pend bytes ms c co a" if "?h c = Some co" "?A c = Some a" for c co a
  proof -
    consider "c = cu" | "c = pend" | "c \<noteq> cu" "c \<noteq> pend" by blast
    then show ?thesis
    proof cases
      case 1
      then have "co = cc\<lparr>stack_sp := sp\<rparr>" "a = left" using that ne by auto
      then show ?thesis using cc left sp ne 1
        by (auto simp: left_as_def co_inv_def image_is_def)
    next
      case 2
      then have "co = pe" "a = Running" using that ne h by auto
      moreover obtain a0 where "co_inv cu bytes ms pend pe a0" using cos_okD' [OF ok h(2)] by blast
      ultimately show ?thesis using pe 2 by (simp add: co_inv_def)
    next
      case 3
      then have "h c = Some co" "A c = Some a" using that by auto
      then have "co_inv cu bytes ms c co a" using cos_okD' [OF ok] by force
      then show ?thesis using 3 by (cases a) (simp_all add: co_inv_def)
    qed
  qed
  moreover have "?h c = None \<longleftrightarrow> ?A c = None" for c using cos_ok_None [OF ok, of c] h(2) by auto
  ultimately have "\<forall>c. rel_option (co_inv pend bytes ms c) (?h c) (?A c)" using rel_optionI [of ?h ?A "co_inv pend bytes ms"] by blast
  moreover have "occupied_ok ?h ms" by (rule occupied_okI [of h ms]) (use ok h in \<open>auto simp: cos_ok_def\<close>)
  ultimately show ?thesis by (simp add: cos_ok_def)
qed

lemma swapped_same [simp]:
  "cStart (swapped cu pend sp oc buf c co) = cStart co" "cIsMain (swapped cu pend sp oc buf c co) = cIsMain co"
  "stack_mem (swapped cu pend sp oc buf c co) = stack_mem co" "cIsShareStack (swapped cu pend sp oc buf c co) = cIsShareStack co"
  "stack_sp (swapped cu pend sp oc buf c co) = (if c = cu then sp else stack_sp co)"
  "own_mem d (swapped cu pend sp oc buf c co) = own_mem d co"
  by (simp_all add: swapped_def Let_def)

lemma to_share_ok:
  assumes ok: "cos_ok cu bytes h ms A" and A: "A cu = Some Running" and h: "h cu = Some cc" "h pend = Some pe"
    and pe: "cIsShareStack pe" "cStart pe \<or> cIsMain pe" and ne: "cu \<noteq> pend" and sp: "sp \<le> bytes cu"
    and left: "left_as left sp cc ms" and B: "length B = length (stack_buffer (ms (stack_mem pe)))"
  shows "cos_ok pend bytes
    (\<lambda>c. map_option (swapped cu pend sp (sm_occupy_co (ms (stack_mem pe))) (stack_buffer (ms (stack_mem pe))) c) (h c))
    (ms(stack_mem pe := \<lparr>sm_occupy_co = Some pend, stack_buffer = B\<rparr>)) (A(cu \<mapsto> left, pend \<mapsto> Running))"
proof -
  let ?m = "stack_mem pe" let ?oc = "sm_occupy_co (ms ?m)" and ?buf = "stack_buffer (ms ?m)"
  let ?s = "swapped cu pend sp ?oc ?buf" let ?h = "\<lambda>c. map_option (?s c) (h c)"
  let ?ms = "ms(?m := \<lparr>sm_occupy_co = Some pend, stack_buffer = B\<rparr>)" and ?A = "A(cu \<mapsto> left, pend \<mapsto> Running)"
  have cc: "co_inv cu bytes ms cu cc Running" using cos_okD [OF ok A] h by auto
  obtain a0 where pi: "co_inv cu bytes ms pend pe a0" using cos_okD' [OF ok h(2)] by blast
  have oc: "stack_mem co = ?m" if "?oc = Some c" "h c = Some co" for c co
    using ok that occupied_okD [of h ms ?m c co] by (simp add: cos_ok_def)
  have "co_inv pend bytes ?ms c co' a" if c': "?h c = Some co'" "?A c = Some a" for c co' a
  proof -
    obtain co where co: "h c = Some co" "co' = ?s c co" using c'(1) by auto
    consider "c = cu" "stack_mem cc = ?m" | "c = cu" "stack_mem cc \<noteq> ?m" | "c = pend"
      | "c \<noteq> cu" "c \<noteq> pend" "stack_mem co = ?m" | "c \<noteq> cu" "c \<noteq> pend" "stack_mem co \<noteq> ?m" by blast
    then show ?thesis
    proof cases
      case 1
      then have e: "co = cc" "a = left" using co c' ne h by auto
      have "cIsShareStack cc" using own_mem_other [of cu cc pend pe] cc pi ne 1 by (simp add: co_inv_def)
      then have "?oc = Some cu" using cc 1 by (simp add: co_inv_def)
      then have "save_buffer (?s cu cc) = Some (drop sp ?buf)" using ne by (simp add: swapped_def)
      then show ?thesis using cc left sp ne 1 e co B \<open>cIsShareStack cc\<close> by (auto simp: left_as_def co_inv_def image_is_def)
    next
      case 2
      then have e: "co = cc" "a = left" using co c' ne h by auto
      show ?thesis using cc left sp ne 2 e co by (auto simp: left_as_def co_inv_def image_is_def)
    next
      case 3
      then have "co = pe" "a = Running" using co c' ne h by auto
      then show ?thesis using pi pe 3 co B ne by (simp add: co_inv_def)
    next
      case 4
      have i: "co_inv cu bytes ms c co a" using cos_okD' [OF ok co(1)] c' 4 by force
      have "cIsShareStack co" using own_mem_other [of c co pend pe] i pi 4 by (simp add: co_inv_def)
      moreover have "save_buffer (?s c co) = (if ?oc = Some c then Some (drop (stack_sp co) ?buf) else save_buffer co)"
        using 4 by (simp add: swapped_def)
      ultimately show ?thesis using i 4 co B by (cases a) (auto simp: co_inv_def image_is_def split: if_splits)
    next
      case 5
      have i: "co_inv cu bytes ms c co a" using cos_okD' [OF ok co(1)] c' 5 by force
      have "?oc \<noteq> Some c" using oc [of c co] co(1) 5 by auto
      then have "?s c co = co" using 5 by (simp add: swapped_def)
      then show ?thesis using i 5 co by (cases a) (simp_all add: co_inv_def image_is_def)
    qed
  qed
  moreover have "?h c = None \<longleftrightarrow> ?A c = None" for c using cos_ok_None [OF ok, of c] h by auto
  ultimately have "\<forall>c. rel_option (co_inv pend bytes ?ms c) (?h c) (?A c)" using rel_optionI [of ?h ?A "co_inv pend bytes ?ms"] by blast
  moreover have "occupied_ok ?h ?ms"
    by (rule occupied_okI [of h ms]) (use ok h pe(1) in \<open>auto simp: cos_ok_def split: if_splits\<close>)
  ultimately show ?thesis by (simp add: cos_ok_def)
qed

section \<open>Whole switches\<close>

definition flags :: "'b coroutine \<Rightarrow> bool \<times> bool" where
  "flags co = (cStart co, cIsMain co)"

definition switched :: "'b coenv \<Rightarrow> 'b coenv \<Rightarrow> bool" where
  "switched st st' \<longleftrightarrow>
     pCallStack st' = pCallStack st \<and> share_stack st' = share_stack st \<and>
     (\<forall>c. map_option flags (co_heap st' c) = map_option flags (co_heap st c)) \<and>
     (\<forall>m. length (stack_buffer (co_mems st' m)) = length (stack_buffer (co_mems st m)))"

text \<open>The second half of a switch to a shared stack puts back what the coroutine left.\<close>

lemma swap_in_ok:
  assumes pe: "co_heap st p = Some pe" "pending_co st = Some p" "env_occupy_co st \<noteq> Some p"
    and sv: "save_buffer pe = Some x" and len: "length x + stack_sp pe = length (stack_buffer (co_mems st (stack_mem pe)))"
  shows "co_swap_in st = Some (upd_mem (stack_mem pe)
    (\<lambda>m. m\<lparr>stack_buffer := take (stack_sp pe) (stack_buffer (co_mems st (stack_mem pe))) @ x\<rparr>) st)"
proof (cases "x = []")
  case True
  then have "take (stack_sp pe) (stack_buffer (co_mems st (stack_mem pe))) @ x = stack_buffer (co_mems st (stack_mem pe))" using len by simp
  then show ?thesis using True assms by (simp add: co_swap_in_def upd_mem_def)
next
  case False
  then show ?thesis using assms by (simp add: co_swap_in_def Let_def add.commute)
qed

lemma switch_own:
  assumes ok: "cos_ok cu bytes (co_heap st) (co_mems st) A" and A: "A cu = Some Running"
    and h: "co_heap st cu = Some cc" "co_heap st pend = Some pe"
    and pe: "\<not> cIsShareStack pe" "cStart pe \<or> cIsMain pe" and ne: "cu \<noteq> pend" and sp: "sp \<le> bytes cu"
    and left: "left_as left sp cc (co_mems st)"
  shows "\<exists>st'. co_swap_out cu pend sp st = Some st' \<and> co_swap_in st' = Some st' \<and> switched st st' \<and>
    cos_ok pend bytes (co_heap st') (co_mems st') (A(cu \<mapsto> left, pend \<mapsto> Running)) \<and>
    (\<forall>x. A pend = Some (Suspended x) \<longrightarrow> see pend st' = Some x)"
proof -
  let ?st = "st\<lparr>pending_co := None, env_occupy_co := None, co_heap := (co_heap st)(cu \<mapsto> cc\<lparr>stack_sp := sp\<rparr>)\<rparr>"
  have "see pend ?st = Some x" if "A pend = Some (Suspended x)" for x
  proof -
    have "co_inv cu bytes (co_mems st) pend pe (Suspended x)" using cos_okD [OF ok that] h by auto
    then show ?thesis using pe(1) ne h by (auto simp: co_inv_def image_is_def see_def)
  qed
  then show ?thesis using swap_out_own [OF h pe(1), of sp] to_own_ok [OF ok A h pe ne sp left] h
    by (intro exI [of _ ?st]) (auto simp: co_swap_in_def switched_def flags_def)
qed

lemma switch_share:
  assumes ok: "cos_ok cu bytes (co_heap st) (co_mems st) A" and A: "A cu = Some Running"
    and h: "co_heap st cu = Some cc" "co_heap st pend = Some pe"
    and pe: "cIsShareStack pe" "cStart pe \<or> cIsMain pe" and ne: "cu \<noteq> pend" and sp: "sp \<le> bytes cu"
    and left: "left_as left sp cc (co_mems st)"
  shows "\<exists>st1. co_swap_out cu pend sp st = Some st1 \<and> switched st st1 \<and>
    cos_ok pend bytes (co_heap st1) (co_mems st1) (A(cu \<mapsto> left, pend \<mapsto> Running)) \<and>
    (\<forall>x. A pend = Some (Suspended x) \<longrightarrow> (\<exists>st'. co_swap_in st1 = Some st' \<and> switched st st' \<and> see pend st' = Some x \<and>
       cos_ok pend bytes (co_heap st') (co_mems st') (A(cu \<mapsto> left, pend \<mapsto> Running))))"
proof -
  let ?m = "stack_mem pe" let ?oc = "sm_occupy_co (co_mems st ?m)" and ?buf = "stack_buffer (co_mems st ?m)"
  let ?h = "\<lambda>c. map_option (swapped cu pend sp ?oc ?buf c) (co_heap st c)"
  let ?ms = "\<lambda>B. (co_mems st)(?m := \<lparr>sm_occupy_co = Some pend, stack_buffer = B\<rparr>)"
  let ?st1 = "st\<lparr>pending_co := Some pend, env_occupy_co := ?oc, co_heap := ?h, co_mems := ?ms ?buf\<rparr>"
  have occ: "occupied_ok (co_heap st) (co_mems st)" using ok by (simp add: cos_ok_def)
  have occ': "\<exists>co. co_heap st oc = Some co \<and> stack_mem co = ?m \<and> stack_sp co \<le> length ?buf" if oc: "?oc = Some oc" for oc
  proof -
    obtain co where co: "co_heap st oc = Some co" "stack_mem co = ?m" using occ oc unfolding occupied_ok_def by blast
    obtain a where "co_inv cu bytes (co_mems st) oc co a" using cos_okD' [OF ok co(1)] by blast
    then show ?thesis using co by (auto simp: co_inv_def)
  qed
  have ci: "co_inv cu bytes (co_mems st) cu cc Running" by (rule cos_okD [OF ok A]) (use h in simp)
  have sp': "stack_mem cc = ?m \<Longrightarrow> sp \<le> length ?buf" using ci sp by (simp add: co_inv_def)
  have m: "(co_mems st ?m)\<lparr>sm_occupy_co := Some pend\<rparr> = \<lparr>sm_occupy_co = Some pend, stack_buffer = ?buf\<rparr>" by simp
  have out: "co_swap_out cu pend sp st = Some ?st1" using swap_out_share [OF h pe(1) ne occ' sp'] unfolding m by simp
  have inv: "cos_ok pend bytes ?h (?ms B) (A(cu \<mapsto> left, pend \<mapsto> Running))" if "length B = length ?buf" for B
    by (rule to_share_ok [OF ok A h pe ne sp left that])
  have fl: "map_option flags (?h c) = map_option flags (co_heap st c)" for c by (cases "co_heap st c") (simp_all add: flags_def)
  have "\<exists>st'. co_swap_in ?st1 = Some st' \<and> switched st st' \<and> see pend st' = Some x \<and>
      cos_ok pend bytes (co_heap st') (co_mems st') (A(cu \<mapsto> left, pend \<mapsto> Running))" if x: "A pend = Some (Suspended x)" for x
  proof -
    let ?pe = "swapped cu pend sp ?oc ?buf pend pe"
    have i: "image_is pend pe (co_mems st) x" by (rule cos_okD [OF ok x]) (use h in \<open>simp add: co_inv_def\<close>)
    have p: "?pe = pe" using ne by (simp add: swapped_def)
    show ?thesis
    proof (cases "?oc = Some pend")
      case True
      then have "co_swap_in ?st1 = Some ?st1" "see pend ?st1 = Some x" using i p h by (simp_all add: co_swap_in_def see_def image_is_def)
      then show ?thesis using inv [of ?buf] fl by (intro exI [of _ ?st1]) (simp add: switched_def)
    next
      case False
      let ?B = "take (stack_sp pe) ?buf @ x"
      let ?st' = "?st1\<lparr>co_mems := ?ms ?B\<rparr>"
      have len: "length x + stack_sp pe = length ?buf" "save_buffer pe = Some x" using i pe(1) False by (simp_all add: image_is_def)
      have "co_swap_in ?st1 = Some ?st'" using swap_in_ok [of ?st1 pend pe x] False h p len by (simp add: upd_mem_def)
      moreover have "see pend ?st' = Some x" using h p len by (simp add: see_def)
      moreover have "length ?B = length ?buf" using len by simp
      ultimately show ?thesis using inv [of ?B] fl by (intro exI [of _ ?st']) (simp add: switched_def)
    qed
  qed
  then show ?thesis using out inv [of ?buf] fl by (intro exI [of _ ?st1]) (simp add: switched_def)
qed

lemma switch:
  assumes ok: "cos_ok cu bytes (co_heap st) (co_mems st) A" and A: "A cu = Some Running"
    and h: "co_heap st cu = Some cc" "co_heap st pend = Some pe" "cStart pe \<or> cIsMain pe" and ne: "cu \<noteq> pend" and sp: "sp \<le> bytes cu"
    and left: "left_as left sp cc (co_mems st)"
  shows "\<exists>st1. co_swap_out cu pend sp st = Some st1 \<and> switched st st1 \<and>
    cos_ok pend bytes (co_heap st1) (co_mems st1) (A(cu \<mapsto> left, pend \<mapsto> Running)) \<and>
    (\<forall>x. A pend = Some (Suspended x) \<longrightarrow> (\<exists>st'. co_swap_in st1 = Some st' \<and> switched st st' \<and> see pend st' = Some x \<and>
       cos_ok pend bytes (co_heap st') (co_mems st') (A(cu \<mapsto> left, pend \<mapsto> Running))))"
  using switch_own [OF ok A h(1,2) _ h(3) ne sp left] switch_share [OF ok A h(1,2) _ h(3) ne sp left]
  by (cases "cIsShareStack pe") blast+

lemma flag_upd_ok:
  assumes ok: "cos_ok r bytes h ms A" and c: "h c = Some co"
    and co': "stack_mem co' = stack_mem co" "cIsShareStack co' = cIsShareStack co" "stack_sp co' = stack_sp co"
      "save_buffer co' = save_buffer co" "cStart co \<longrightarrow> cStart co'" "cIsMain co' = cIsMain co"
  shows "cos_ok r bytes (h(c \<mapsto> co')) ms A"
proof -
  have "rel_option (co_inv r bytes ms d) ((h(c \<mapsto> co')) d) (A d)" for d
  proof (cases "d = c")
    case True
    obtain a where a: "A c = Some a" "co_inv r bytes ms c co a" using cos_okD' [OF ok c] by blast
    have "own_mem c co' = own_mem c co" using co'(1,2) by (simp add: own_mem_def cong: memid.case_cong)
    then have "co_inv r bytes ms c co' a" using a(2) co' by (cases a) (auto simp: co_inv_def image_is_def)
    then show ?thesis using True a by simp
  next
    case False
    then show ?thesis using ok by (simp add: cos_ok_def)
  qed
  moreover have "occupied_ok (h(c \<mapsto> co')) ms"
    by (rule occupied_okI [of h ms]) (use ok c co' in \<open>auto simp: cos_ok_def\<close>)
  ultimately show ?thesis by (simp add: cos_ok_def)
qed

section \<open>The simulation\<close>

definition stack_ok :: "nat list \<Rightarrow> (nat \<Rightarrow> 'b astate option) \<Rightarrow> bool" where
  "stack_ok stk A \<longleftrightarrow>
     stk \<noteq> [] \<and> distinct stk \<and> A (last stk) = Some Running \<and> (\<forall>c \<in> set (butlast stk). \<exists>x. A c = Some (Suspended x))"

definition flags_ok :: "nat \<Rightarrow> (nat \<Rightarrow> 'b astate option) \<Rightarrow> (nat \<Rightarrow> (bool \<times> bool) option) \<Rightarrow> bool" where
  "flags_ok m A F \<longleftrightarrow> (\<forall>c s mn. F c = Some (s, mn) \<longrightarrow> mn = (c = m) \<and> (A c = Some Fresh \<longrightarrow> \<not> s))"

definition share_ok :: "nat \<Rightarrow> sharestack option \<Rightarrow> (memid \<Rightarrow> nat) \<Rightarrow> bool" where
  "share_ok n ss len \<longleftrightarrow>
     (\<exists>s. ss = Some s \<and> 0 < ss_count s \<and> ss_count s < 2 ^ 31 \<and> (\<forall>i. int i < ss_count s \<longrightarrow> len (Shared i) = n))"

definition sim :: "'b coenv \<Rightarrow> 'b privates \<Rightarrow> bool" where
  "sim st ab \<longleftrightarrow>
     pCallStack st = ab_stack ab \<and> stack_ok (ab_stack ab) (ab_co ab) \<and>
     cos_ok (last (ab_stack ab)) (ab_size ab) (co_heap st) (co_mems st) (ab_co ab) \<and>
     flags_ok (hd (ab_stack ab)) (ab_co ab) (\<lambda>c. map_option flags (co_heap st c)) \<and>
     share_ok (ab_share ab) (share_stack st) (\<lambda>m. length (stack_buffer (co_mems st m)))"

lemma stack_push:
  "stack_ok stk A \<Longrightarrow> c \<notin> set stk \<Longrightarrow> stack_ok (stk @ [c]) (A(last stk \<mapsto> Suspended y, c \<mapsto> Running))"
  by (cases stk rule: rev_cases) (auto simp: stack_ok_def butlast_append)

lemma stack_pop:
  assumes "stack_ok stk A" "length stk \<ge> 2"
  shows "last stk \<noteq> last (butlast stk)" "last stk \<noteq> hd stk" "hd (butlast stk) = hd stk"
    "\<exists>x. A (last (butlast stk)) = Some (Suspended x)"
    "stack_ok (butlast stk) (A(last stk \<mapsto> l, last (butlast stk) \<mapsto> Running))"
proof -
  obtain ys c where y: "stk = ys @ [c]" using assms(2) by (cases stk rule: rev_cases) auto
  then have "ys \<noteq> []" using assms(2) by auto
  note y = y this
  obtain xs d where s: "stk = xs @ [d, c]" using y by (cases ys rule: rev_cases) auto
  have b: "butlast stk = xs @ [d]" "last stk = c" "last (butlast stk) = d" unfolding s by (simp_all add: butlast_append)
  have o: "distinct (xs @ [d, c])" "\<forall>e \<in> set (xs @ [d]). \<exists>x. A e = Some (Suspended x)" using assms(1) b by (auto simp: stack_ok_def s)
  show "last stk \<noteq> last (butlast stk)" unfolding b(2,3) using o(1) by simp
  show "last stk \<noteq> hd stk" unfolding b(2) using o(1) by (cases xs) (simp_all add: s)
  show "hd (butlast stk) = hd stk" unfolding b(1) by (cases xs) (simp_all add: s)
  show "\<exists>x. A (last (butlast stk)) = Some (Suspended x)" unfolding b(3) using o(2) by simp
  show "stack_ok (butlast stk) (A(last stk \<mapsto> l, last (butlast stk) \<mapsto> Running))"
    unfolding b(2,3) unfolding b(1) using o by (auto simp: stack_ok_def)
qed

lemma sim_fill:
  assumes s: "sim st ab" and f: "ab_fits data sp ab"
  shows "\<exists>st1 cc. fill_stack data sp st = Some st1 \<and> sim st1 ab \<and> co_heap st1 (last (ab_stack ab)) = Some cc \<and>
    stack_buffer (co_mems st1 (stack_mem cc)) = data \<and> sp \<le> ab_size ab (last (ab_stack ab))"
proof -
  let ?r = "last (ab_stack ab)"
  have ok: "cos_ok ?r (ab_size ab) (co_heap st) (co_mems st) (ab_co ab)" and r: "ab_co ab ?r = Some Running"
    and ne: "ab_stack ab \<noteq> []" and p: "pCallStack st = ab_stack ab"
    using s by (simp_all add: sim_def stack_ok_def)
  obtain cc where cc: "co_heap st ?r = Some cc" "co_inv ?r (ab_size ab) (co_mems st) ?r cc Running" using cos_okD [OF ok r] by blast
  let ?m = "stack_mem cc" let ?ms = "(co_mems st)(?m := (co_mems st ?m)\<lparr>stack_buffer := data\<rparr>)"
  let ?st = "st\<lparr>co_mems := ?ms\<rparr>"
  have len: "length data = ab_size ab ?r" "sp \<le> length data" "length (stack_buffer (co_mems st ?m)) = ab_size ab ?r"
    using f cc(2) by (simp_all add: ab_fits_def co_inv_def)
  have "fill_stack data sp st = Some ?st" using cc len ne p by (simp add: fill_stack_def GetCurrCo_def upd_mem_def)
  moreover have "cos_ok ?r (ab_size ab) (co_heap st) ?ms (ab_co ab)" by (rule fill_ok [OF ok r cc(1) len(1)])
  moreover have "(\<lambda>m. length (stack_buffer (?ms m))) = (\<lambda>m. length (stack_buffer (co_mems st m)))" using len by (auto simp: fun_eq_iff)
  ultimately show ?thesis using s cc len by (intro exI [of _ ?st] exI [of _ cc]) (simp add: sim_def)
qed

lemma flags_hand_over:
  assumes "flags_ok m A F" "left \<noteq> Fresh" "\<And>c. F' c = F c \<or> c = p"
    "\<And>s mn. F' p = Some (s, mn) \<Longrightarrow> \<exists>s0. F p = Some (s0, mn)"
  shows "flags_ok m (A(cu \<mapsto> left, p \<mapsto> Running)) F'"
  unfolding flags_ok_def
proof (intro allI impI)
  fix c s mn
  assume c: "F' c = Some (s, mn)"
  then obtain s0 where "F c = Some (s0, mn)" "c \<noteq> p \<Longrightarrow> s0 = s" using assms(3) [of c] assms(4) [of s mn] by (cases "c = p") auto
  then show "mn = (c = m) \<and> ((A(cu \<mapsto> left, p \<mapsto> Running)) c = Some Fresh \<longrightarrow> \<not> s)"
    using assms(1,2) by (auto simp: flags_ok_def)
qed

lemma sim_pop:
  assumes s: "sim st ab" and len: "2 \<le> length (ab_stack ab)" and cc: "co_heap st (last (ab_stack ab)) = Some cc"
    and sp: "sp \<le> ab_size ab (last (ab_stack ab))" and left: "left_as left sp cc (co_mems st)"
  shows "\<exists>st' ab' ob. co_yield_env sp st = Some st' \<and>
    hand_over (last (ab_stack ab)) left (last (butlast (ab_stack ab))) (butlast (ab_stack ab)) ab = Some (ab', Some (last (butlast (ab_stack ab)), ob)) \<and>
    sim st' ab' \<and> see (last (butlast (ab_stack ab))) st' = ob \<and> GetCurrCo st' = Some (last (butlast (ab_stack ab)))"
proof -
  let ?stk = "ab_stack ab" let ?cu = "last ?stk" and ?p = "last (butlast ?stk)"
  have ok: "cos_ok ?cu (ab_size ab) (co_heap st) (co_mems st) (ab_co ab)" and st: "stack_ok ?stk (ab_co ab)"
    and A: "ab_co ab ?cu = Some Running" and p: "pCallStack st = ?stk"
    and fl: "flags_ok (hd ?stk) (ab_co ab) (\<lambda>c. map_option flags (co_heap st c))"
    and sh: "share_ok (ab_share ab) (share_stack st) (\<lambda>m. length (stack_buffer (co_mems st m)))"
    using s by (simp_all add: sim_def stack_ok_def)
  note pop = stack_pop [OF st len]
  obtain x where x: "ab_co ab ?p = Some (Suspended x)" using pop(4) by blast
  obtain pe where pe: "co_heap st ?p = Some pe" "cStart pe \<or> cIsMain pe"
    by (rule cos_okD [OF ok x]) (auto simp: co_inv_def)
  let ?st0 = "st\<lparr>pCallStack := butlast ?stk\<rparr>" and ?ab = "ab\<lparr>ab_stack := butlast ?stk, ab_co := (ab_co ab)(?cu \<mapsto> left, ?p \<mapsto> Running)\<rparr>"
  have "\<exists>st1. co_swap_out ?cu ?p sp ?st0 = Some st1 \<and> switched ?st0 st1 \<and>
    cos_ok ?p (ab_size ab) (co_heap st1) (co_mems st1) ((ab_co ab)(?cu \<mapsto> left, ?p \<mapsto> Running)) \<and>
    (\<forall>x. ab_co ab ?p = Some (Suspended x) \<longrightarrow> (\<exists>st'. co_swap_in st1 = Some st' \<and> switched ?st0 st' \<and> see ?p st' = Some x \<and>
       cos_ok ?p (ab_size ab) (co_heap st') (co_mems st') ((ab_co ab)(?cu \<mapsto> left, ?p \<mapsto> Running))))"
    by (rule switch [where cc = cc and pe = pe]) (use ok A cc pe pop(1) sp left in simp_all)
  then obtain st1 st' where sw: "co_swap_out ?cu ?p sp ?st0 = Some st1" "co_swap_in st1 = Some st'" "switched ?st0 st'" "see ?p st' = Some x"
    "cos_ok ?p (ab_size ab) (co_heap st') (co_mems st') ((ab_co ab)(?cu \<mapsto> left, ?p \<mapsto> Running))"
    using x by blast
  have y: "co_yield_env sp st = Some st'" using sw(1,2) len p by (simp add: co_yield_env_def)
  have nf: "left \<noteq> Fresh" using left by (auto simp: left_as_def)
  have fe: "(\<lambda>c. map_option flags (co_heap st' c)) = (\<lambda>c. map_option flags (co_heap st c))" using sw(3) by (simp add: switched_def)
  have "flags_ok (hd ?stk) ((ab_co ab)(?cu \<mapsto> left, ?p \<mapsto> Running)) (\<lambda>c. map_option flags (co_heap st' c))"
    unfolding fe by (rule flags_hand_over [OF fl nf]) blast+
  then have "sim st' ?ab" using sw(3,5) pop(3) pop(5) [of left] sh by (simp add: sim_def switched_def)
  moreover have "GetCurrCo st' = Some ?p" using sw(3) pop(5) [of left] by (simp add: GetCurrCo_def switched_def stack_ok_def)
  ultimately show ?thesis using y sw(4) x by (auto simp: hand_over_def)
qed

lemma sim_resume:
  assumes s: "sim st ab" and c: "c \<notin> set (ab_stack ab)" "length (ab_stack ab) < 128"
    and h: "hand_over (last (ab_stack ab)) left c (ab_stack ab @ [c]) ab = Some (ab', seen)"
    and cc: "co_heap st (last (ab_stack ab)) = Some cc"
    and sp: "sp \<le> ab_size ab (last (ab_stack ab))" and left: "left = Suspended (drop sp (stack_buffer (co_mems st (stack_mem cc))))"
  shows "\<exists>st' co. co_heap st c = Some co \<and> co_resume c sp st = Some st' \<and> sim st' ab' \<and> seen = Some (c, if cStart co then see c st' else None)"
proof -
  let ?stk = "ab_stack ab" let ?cu = "last ?stk"
  have ok: "cos_ok ?cu (ab_size ab) (co_heap st) (co_mems st) (ab_co ab)" and st: "stack_ok ?stk (ab_co ab)"
    and A: "ab_co ab ?cu = Some Running" and p: "pCallStack st = ?stk" "?stk \<noteq> []"
    and fl: "flags_ok (hd ?stk) (ab_co ab) (\<lambda>c. map_option flags (co_heap st c))"
    and sh: "share_ok (ab_share ab) (share_stack st) (\<lambda>m. length (stack_buffer (co_mems st m)))"
    using s by (simp_all add: sim_def stack_ok_def)
  obtain a where a: "ab_co ab c = Some a" "a = Fresh \<or> (\<exists>x. a = Suspended x)"
    using h by (auto simp: hand_over_def split: option.splits astate.splits)
  have ab': "ab' = ab\<lparr>ab_stack := ?stk @ [c], ab_co := (ab_co ab)(?cu \<mapsto> left, c \<mapsto> Running)\<rparr>"
    and seen: "seen = Some (c, case a of Suspended x \<Rightarrow> Some x | _ \<Rightarrow> None)"
    using h a by (auto simp: hand_over_def)
  obtain co where co: "co_heap st c = Some co" "co_inv ?cu (ab_size ab) (co_mems st) c co a" using cos_okD [OF ok a(1)] by blast
  have ne: "?cu \<noteq> c" using c(1) p(2) by auto
  have "flags_ok (hd ?stk) (ab_co ab) (\<lambda>c. map_option flags (co_heap st c)) \<Longrightarrow> cIsMain co = (c = hd ?stk) \<and> (a = Fresh \<longrightarrow> \<not> cStart co)"
    unfolding flags_ok_def using co(1) a(1) by (auto simp: flags_def)
  then have main: "\<not> cIsMain co" "a = Fresh \<longrightarrow> \<not> cStart co" using fl c(1) p(2) by auto
  then have start: "cStart co \<longleftrightarrow> a \<noteq> Fresh" using co(2) a(2) by (auto simp: co_inv_def)
  let ?co = "co\<lparr>cStart := True\<rparr>" let ?h = "(co_heap st)(c \<mapsto> ?co)"
  let ?st0 = "st\<lparr>co_heap := ?h, pCallStack := ?stk @ [c]\<rparr>" and ?A = "(ab_co ab)(?cu \<mapsto> left, c \<mapsto> Running)"
  have ok0: "cos_ok ?cu (ab_size ab) (co_heap ?st0) (co_mems ?st0) (ab_co ab)" using flag_upd_ok [OF ok co(1), of ?co] by simp
  have "\<exists>st1. co_swap_out ?cu c sp ?st0 = Some st1 \<and> switched ?st0 st1 \<and> cos_ok c (ab_size ab) (co_heap st1) (co_mems st1) ?A \<and>
    (\<forall>x. ab_co ab c = Some (Suspended x) \<longrightarrow> (\<exists>st'. co_swap_in st1 = Some st' \<and> switched ?st0 st' \<and> see c st' = Some x \<and>
       cos_ok c (ab_size ab) (co_heap st') (co_mems st') ?A))"
    by (rule switch [OF ok0 A, where cc = cc and pe = ?co]) (use cc ne sp left in \<open>simp_all add: left_as_def\<close>)
  then obtain st1 st' where sw: "co_swap_out ?cu c sp ?st0 = Some st1" "(if cStart co then co_swap_in st1 else Some st1) = Some st'"
    "switched ?st0 st'" "cos_ok c (ab_size ab) (co_heap st') (co_mems st') ?A" "cStart co \<longrightarrow> a = Suspended (the (see c st')) \<and> see c st' \<noteq> None"
    using a start by (cases "a = Fresh") fastforce+
  have r: "co_resume c sp st = Some st'"
    using sw(1,2) co p c(2) by (simp add: co_resume_def GetCurrCo_def upd_co_def Let_def)
  have fe: "(\<lambda>c. map_option flags (co_heap st' c)) = (\<lambda>d. map_option flags (?h d))" using sw(3) by (simp add: switched_def)
  have "flags_ok (hd ?stk) ?A (\<lambda>c. map_option flags (co_heap st' c))"
    unfolding fe by (rule flags_hand_over [OF fl]) (use left co(1) in \<open>auto simp: flags_def\<close>)
  then have "sim st' ab'" using sw(3,4) stack_push [OF st c(1)] sh left p(2) unfolding ab' by (simp add: sim_def switched_def)
  then show ?thesis using r co(1) seen sw(5) start by (cases a) auto
qed

lemma co_inv_mems:
  assumes "co_inv r bytes ms d co a" "d \<noteq> c" "stack_buffer (ms' (stack_mem co)) = stack_buffer (ms (stack_mem co))"
    "sm_occupy_co (ms' (stack_mem co)) = (if sm_occupy_co (ms (stack_mem co)) = Some c then None else sm_occupy_co (ms (stack_mem co)))"
  shows "co_inv r (bytes(c := n)) ms' d co a"
  using assms by (cases a) (auto simp: co_inv_def image_is_def split: if_splits)

lemma cos_ok_change:
  assumes ok: "cos_ok r bytes h ms A"
    and ms': "\<And>d co. d \<noteq> c \<Longrightarrow> h d = Some co \<Longrightarrow> stack_buffer (ms' (stack_mem co)) = stack_buffer (ms (stack_mem co)) \<and>
      sm_occupy_co (ms' (stack_mem co)) = (if sm_occupy_co (ms (stack_mem co)) = Some c then None else sm_occupy_co (ms (stack_mem co)))"
    and c: "rel_option (co_inv r (bytes(c := n)) ms' c) x y" and occ: "occupied_ok (h(c := x)) ms'"
  shows "cos_ok r (bytes(c := n)) (h(c := x)) ms' (A(c := y))"
proof -
  have "rel_option (co_inv r (bytes(c := n)) ms' d) ((h(c := x)) d) ((A(c := y)) d)" for d
  proof (cases "d = c")
    case False
    show ?thesis
    proof (cases "h d")
      case None
      then show ?thesis using False cos_ok_None [OF ok, of d] by simp
    next
      case (Some co)
      obtain a where a: "A d = Some a" "co_inv r bytes ms d co a" using cos_okD' [OF ok Some] by blast
      have "co_inv r (bytes(c := n)) ms' d co a" using co_inv_mems [OF a(2) False] ms' [OF False Some] by blast
      then show ?thesis using False Some a(1) by simp
    qed
  qed (use c in simp)
  then show ?thesis using occ by (simp add: cos_ok_def)
qed

text \<open>The index of a shared stack is within the array.\<close>

lemma share_index:
  assumes "0 < k" "k < 2 ^ 31"
  shows "int (unat (i mod (word_of_int k :: 32 word))) < k"
proof -
  have u: "uint (word_of_int k :: 32 word) = k" using assms by (simp add: uint_word_of_int)
  have "int (unat (i mod (word_of_int k :: 32 word))) = uint i mod k" by (simp add: uint_mod u)
  then show ?thesis using assms(1) by simp
qed

lemma sim_create:
  assumes s: "sim st ab" and p: "private_step (Sw_create c share n) ab = Some (ab', seen)"
  shows "\<exists>st'. shared_step fill (Sw_create c share n) st = Some (st', seen) \<and> sim st' ab'"
proof -
  have ok: "cos_ok (last (ab_stack ab)) (ab_size ab) (co_heap st) (co_mems st) (ab_co ab)" and stk: "stack_ok (ab_stack ab) (ab_co ab)"
    and fl: "flags_ok (hd (ab_stack ab)) (ab_co ab) (\<lambda>c. map_option flags (co_heap st c))"
    using s by (simp_all add: sim_def)
  have A: "ab_co ab c = None" and ab': "seen = None"
    "ab' = ab\<lparr>ab_co := (ab_co ab)(c \<mapsto> Fresh), ab_size := (ab_size ab)(c := if share then ab_share ab else nat (round_stack_size n))\<rparr>"
    using p by (auto split: if_splits)
  have h: "co_heap st c = None" using cos_ok_None [OF ok] A by simp
  have occ: "occupied_ok (co_heap st) (co_mems st)" using ok by (simp add: cos_ok_def)
  have no: "sm_occupy_co (co_mems st m) \<noteq> Some c" for m using occ h unfolding occupied_ok_def by (metis option.distinct(1))
  obtain ss where ss: "share_stack st = Some ss" "0 < ss_count ss" "ss_count ss < 2 ^ 31"
    "\<forall>i. int i < ss_count ss \<longrightarrow> length (stack_buffer (co_mems st (Shared i))) = ab_share ab"
    using s by (auto simp: sim_def share_ok_def)
  have cn: "c \<notin> set (ab_stack ab)"
  proof
    assume "c \<in> set (ab_stack ab)"
    then have "c = last (ab_stack ab) \<or> c \<in> set (butlast (ab_stack ab))" by (cases "ab_stack ab" rule: rev_cases) auto
    then show False using stk A by (auto simp: stack_ok_def)
  qed
  have st': "stack_ok (ab_stack ab) ((ab_co ab)(c \<mapsto> Fresh))" using stk cn by (auto simp: stack_ok_def dest: in_set_butlastD)
  have hd: "c \<noteq> hd (ab_stack ab)" "c \<noteq> last (ab_stack ab)" using cn stk by (auto simp: stack_ok_def)
  have fl': "flags_ok (hd (ab_stack ab)) ((ab_co ab)(c \<mapsto> Fresh)) (\<lambda>d. map_option flags (((co_heap st)(c \<mapsto> fresh_co m b)) d))" for m b
    using fl hd by (auto simp: flags_ok_def flags_def fresh_co_def)
  show ?thesis
  proof (cases share)
    case True
    let ?i = "unat (alloc_idx ss mod word_of_int (ss_count ss))" let ?co = "fresh_co (Shared ?i) True"
    let ?st = "st\<lparr>share_stack := Some (ss\<lparr>alloc_idx := alloc_idx ss + 1\<rparr>), co_heap := (co_heap st)(c \<mapsto> ?co)\<rparr>"
    have e: "co_create_env fill c share n st = Some ?st" using True ss by (simp add: co_create_env_def co_get_stackmem_def)
    have i: "int ?i < ss_count ss" using ss(2,3) by (rule share_index)
    have "cos_ok (last (ab_stack ab)) ((ab_size ab)(c := ab_share ab)) ((co_heap st)(c := Some ?co)) (co_mems st) ((ab_co ab)(c := Some Fresh))"
    proof (rule cos_ok_change [OF ok])
      show "rel_option (co_inv (last (ab_stack ab)) ((ab_size ab)(c := ab_share ab)) (co_mems st) c) (Some ?co) (Some Fresh)"
        using no i ss(4) hd by (simp add: co_inv_def own_mem_def fresh_co_def)
      show "occupied_ok ((co_heap st)(c := Some ?co)) (co_mems st)"
        by (rule occupied_okI [OF occ]) (use h in auto)
    qed (use no in auto)
    then have "sim ?st ab'" using s True st' fl' ss unfolding ab'(2) by (simp add: sim_def share_ok_def)
    then show ?thesis using e ab'(1) by simp
  next
    case False
    let ?co = "fresh_co (Own c) False" and ?n = "nat (round_stack_size n)"
    let ?ms = "(co_mems st)(Own c := co_alloc_stackmem fill (round_stack_size n))"
    let ?st = "st\<lparr>co_heap := (co_heap st)(c \<mapsto> ?co), co_mems := ?ms\<rparr>"
    have e: "co_create_env fill c share n st = Some ?st" using False by (simp add: co_create_env_def upd_mem_def)
    have oth: "stack_mem co \<noteq> Own c" if "d \<noteq> c" "co_heap st d = Some co" for d co
      by (rule cos_okD' [OF ok that(2)]) (use that(1) in \<open>auto simp: co_inv_def own_mem_def\<close>)
    have "cos_ok (last (ab_stack ab)) ((ab_size ab)(c := ?n)) ((co_heap st)(c := Some ?co)) ?ms ((ab_co ab)(c := Some Fresh))"
    proof (rule cos_ok_change [OF ok])
      show "rel_option (co_inv (last (ab_stack ab)) ((ab_size ab)(c := ?n)) ?ms c) (Some ?co) (Some Fresh)"
        using hd by (simp add: co_inv_def own_mem_def fresh_co_def co_alloc_stackmem_def)
      show "occupied_ok ((co_heap st)(c := Some ?co)) ?ms"
        by (rule occupied_okI [OF occ]) (use h in \<open>auto simp: co_alloc_stackmem_def split: if_splits\<close>)
    qed (use no oth in auto)
    then have "sim ?st ab'" using s False st' fl' unfolding ab'(2) by (simp add: sim_def share_ok_def)
    then show ?thesis using e ab'(1) by simp
  qed
qed

definition vacate :: "nat \<Rightarrow> memid \<Rightarrow> (memid \<Rightarrow> 'b stackmem) \<Rightarrow> memid \<Rightarrow> 'b stackmem" where
  "vacate c m ms = (if sm_occupy_co (ms m) = Some c then ms(m := (ms m)\<lparr>sm_occupy_co := None\<rparr>) else ms)"

lemma leave_stack_eq:
  "co_heap (leave_stack c m st) = co_heap st" "pCallStack (leave_stack c m st) = pCallStack st"
  "share_stack (leave_stack c m st) = share_stack st" "co_mems (leave_stack c m st) = vacate c m (co_mems st)"
  by (auto simp: leave_stack_def vacate_def upd_mem_def Let_def)

lemma vacate_buffer [simp]: "stack_buffer (vacate c m ms m') = stack_buffer (ms m')"
  by (simp add: vacate_def)

lemma vacate_ok:
  assumes ok: "cos_ok r bytes h ms A" and c: "h c = Some co"
  shows "sm_occupy_co (vacate c (stack_mem co) ms m) = (if sm_occupy_co (ms m) = Some c then None else sm_occupy_co (ms m))"
proof -
  have "occupied_ok h ms" using ok by (simp add: cos_ok_def)
  then have "sm_occupy_co (ms m) \<noteq> Some c \<or> stack_mem co = m" using occupied_okD(1) [of h ms m c co] c by blast
  then show ?thesis
  proof
    assume "sm_occupy_co (ms m) \<noteq> Some c"
    then show ?thesis by (auto simp: vacate_def)
  next
    assume "stack_mem co = m"
    then show ?thesis by (simp add: vacate_def)
  qed
qed

lemma occupied_vacate:
  assumes ok: "cos_ok r bytes h ms A" and c: "h c = Some co"
  shows "occupied_ok (h(c := x)) (vacate c (stack_mem co) ms)"
  unfolding occupied_ok_def
proof (intro allI impI)
  fix m d
  assume "sm_occupy_co (vacate c (stack_mem co) ms m) = Some d"
  then have "sm_occupy_co (ms m) = Some d" "d \<noteq> c" using vacate_ok [OF ok c, of m] by (auto split: if_splits)
  then show "\<exists>co. (h(c := x)) d = Some co \<and> stack_mem co = m \<and> cIsShareStack co"
    using ok unfolding cos_ok_def occupied_ok_def by auto
qed

lemma sim_outside:
  assumes s: "sim st ab" and c: "c \<notin> set (ab_stack ab)" "ab_co ab c = Some a"
  shows "\<exists>co. co_heap st c = Some co \<and> co_inv (last (ab_stack ab)) (ab_size ab) (co_mems st) c co a \<and> \<not> cIsMain co \<and>
    c \<noteq> hd (ab_stack ab) \<and> c \<noteq> last (ab_stack ab) \<and> stack_ok (ab_stack ab) ((ab_co ab)(c := y)) \<and> (a = Fresh \<longrightarrow> \<not> cStart co)"
proof -
  have ok: "cos_ok (last (ab_stack ab)) (ab_size ab) (co_heap st) (co_mems st) (ab_co ab)" and stk: "stack_ok (ab_stack ab) (ab_co ab)"
    and fl: "flags_ok (hd (ab_stack ab)) (ab_co ab) (\<lambda>c. map_option flags (co_heap st c))"
    using s by (simp_all add: sim_def)
  obtain co where co: "co_heap st c = Some co" "co_inv (last (ab_stack ab)) (ab_size ab) (co_mems st) c co a" using cos_okD [OF ok c(2)] by blast
  have hd: "c \<noteq> hd (ab_stack ab)" "c \<noteq> last (ab_stack ab)" using c(1) stk by (auto simp: stack_ok_def)
  have "stack_ok (ab_stack ab) ((ab_co ab)(c := y))" using stk c(1) by (auto simp: stack_ok_def dest: in_set_butlastD)
  moreover have "\<not> cIsMain co" "a = Fresh \<longrightarrow> \<not> cStart co" using fl co(1) c(2) hd unfolding flags_ok_def by (auto simp: flags_def)
  ultimately show ?thesis using co hd by blast
qed

lemma sim_reset:
  assumes s: "sim st ab" and p: "private_step (Sw_reset c) ab = Some (ab', seen)"
  shows "\<exists>st'. shared_step fill (Sw_reset c) st = Some (st', seen) \<and> sim st' ab'"
proof -
  obtain a where c: "c \<notin> set (ab_stack ab)" "ab_co ab c = Some a" and ab': "ab' = ab\<lparr>ab_co := (ab_co ab)(c \<mapsto> Fresh)\<rparr>" "seen = None"
    using p by (auto split: if_splits)
  obtain co where co: "co_heap st c = Some co" "co_inv (last (ab_stack ab)) (ab_size ab) (co_mems st) c co a" "\<not> cIsMain co"
    "c \<noteq> hd (ab_stack ab)" "c \<noteq> last (ab_stack ab)" "stack_ok (ab_stack ab) ((ab_co ab)(c := Some Fresh))" "a = Fresh \<longrightarrow> \<not> cStart co"
    using sim_outside [OF s c] by blast
  have ok: "cos_ok (last (ab_stack ab)) (ab_size ab) (co_heap st) (co_mems st) (ab_co ab)" 
    and fl: "flags_ok (hd (ab_stack ab)) (ab_co ab) (\<lambda>c. map_option flags (co_heap st c))"
    using s by (simp_all add: sim_def)
  show ?thesis
  proof (cases "cStart co")
    case False
    then have "a = Fresh" using co(2,3,5) by (cases a) (auto simp: co_inv_def)
    then have "(ab_co ab)(c \<mapsto> Fresh) = ab_co ab" using c(2) by auto
    then show ?thesis using False co(1) s ab' by (simp add: co_reset_def)
  next
    case True
    let ?co = "co\<lparr>cStart := False, cEnd := False, save_buffer := None\<rparr>" let ?ms = "vacate c (stack_mem co) (co_mems st)"
    let ?st = "leave_stack c (stack_mem co) (upd_co c (\<lambda>co. co\<lparr>cStart := False, cEnd := False, save_buffer := None\<rparr>) st)"
    have e: "co_reset c st = Some ?st" using True co(1,3) by (simp add: co_reset_def)
    have st: "co_heap ?st = (co_heap st)(c \<mapsto> ?co)" "co_mems ?st = ?ms" "pCallStack ?st = pCallStack st" "share_stack ?st = share_stack st"
      using co(1) by (simp_all add: leave_stack_eq upd_co_def)
    have "cos_ok (last (ab_stack ab)) ((ab_size ab)(c := ab_size ab c)) ((co_heap st)(c := Some ?co)) ?ms ((ab_co ab)(c := Some Fresh))"
    proof (rule cos_ok_change [OF ok])
      show "rel_option (co_inv (last (ab_stack ab)) ((ab_size ab)(c := ab_size ab c)) ?ms c) (Some ?co) (Some Fresh)"
        using co(2,5) vacate_ok [OF ok co(1), of "stack_mem co"] by (simp add: co_inv_def)
    qed (use vacate_ok [OF ok co(1)] occupied_vacate [OF ok co(1)] in simp_all)
    moreover have "flags_ok (hd (ab_stack ab)) ((ab_co ab)(c \<mapsto> Fresh)) (\<lambda>d. map_option flags (((co_heap st)(c \<mapsto> ?co)) d))"
      using fl co(3,4) by (auto simp: flags_ok_def flags_def)
    ultimately have "sim ?st ab'" using s co(6) unfolding ab'(1) by (simp add: sim_def st)
    then show ?thesis using e ab'(2) by simp
  qed
qed

lemma sim_free:
  assumes s: "sim st ab" and p: "private_step (Sw_free c) ab = Some (ab', seen)"
  shows "\<exists>st'. shared_step fill (Sw_free c) st = Some (st', seen) \<and> sim st' ab'"
proof -
  obtain a where c: "c \<notin> set (ab_stack ab)" "ab_co ab c = Some a" and ab': "ab' = ab\<lparr>ab_co := (ab_co ab)(c := None)\<rparr>" "seen = None"
    using p by (auto split: if_splits)
  obtain co where co: "co_heap st c = Some co" "co_inv (last (ab_stack ab)) (ab_size ab) (co_mems st) c co a"
    "stack_ok (ab_stack ab) ((ab_co ab)(c := None))"
    using sim_outside [OF s c] by blast
  have ok: "cos_ok (last (ab_stack ab)) (ab_size ab) (co_heap st) (co_mems st) (ab_co ab)" 
    and fl: "flags_ok (hd (ab_stack ab)) (ab_co ab) (\<lambda>c. map_option flags (co_heap st c))"
    and sh: "share_ok (ab_share ab) (share_stack st) (\<lambda>m. length (stack_buffer (co_mems st m)))"
    using s by (simp_all add: sim_def)
  let ?ms = "if cIsShareStack co then vacate c (stack_mem co) (co_mems st)
    else (co_mems st)(stack_mem co := \<lparr>sm_occupy_co = None, stack_buffer = []\<rparr>)"
  obtain st' where e: "co_free c st = Some st'" "co_heap st' = (co_heap st)(c := None)" "co_mems st' = ?ms"
    "pCallStack st' = pCallStack st" "share_stack st' = share_stack st"
    using co(1) by (auto simp: co_free_def Let_def leave_stack_eq upd_mem_def)
  have own: "\<not> cIsShareStack co \<Longrightarrow> stack_mem co = Own c" using co(2) by (auto simp: co_inv_def own_mem_def split: memid.splits)
  have oth: "stack_mem co' \<noteq> Own c" if "d \<noteq> c" "co_heap st d = Some co'" for d co'
    by (rule cos_okD' [OF ok that(2)]) (use that(1) in \<open>auto simp: co_inv_def own_mem_def\<close>)
  have no: "sm_occupy_co (co_mems st m) \<noteq> Some c" if "\<not> cIsShareStack co" for m
    using occupied_okD [of "co_heap st" "co_mems st" m c co] ok co(1) that by (auto simp: cos_ok_def)
  have "occupied_ok ((co_heap st)(c := None)) ?ms"
  proof (cases "cIsShareStack co")
    case True
    then show ?thesis using occupied_vacate [OF ok co(1), of None] by simp
  next
    case False
    have "vacate c (stack_mem co) (co_mems st) = co_mems st" using no [OF False] by (simp add: vacate_def)
    then show ?thesis using False occupied_vacate [OF ok co(1), of None] by (auto simp: occupied_ok_def)
  qed
  then have "cos_ok (last (ab_stack ab)) ((ab_size ab)(c := ab_size ab c)) ((co_heap st)(c := None)) ?ms ((ab_co ab)(c := None))"
    by (intro cos_ok_change [OF ok]) (use vacate_ok [OF ok co(1)] no own oth in auto)
  moreover have "flags_ok (hd (ab_stack ab)) ((ab_co ab)(c := None)) (\<lambda>d. map_option flags (((co_heap st)(c := None)) d))"
    using fl by (auto simp: flags_ok_def)
  moreover have "(\<lambda>i. length (stack_buffer (?ms (Shared i)))) = (\<lambda>i. length (stack_buffer (co_mems st (Shared i))))" using own by auto
  then have "share_ok (ab_share ab) (share_stack st) (\<lambda>m. length (stack_buffer (?ms m)))"
    using sh unfolding share_ok_def by (metis (no_types, lifting))
  ultimately have "sim st' ab'" using s co(3) unfolding ab'(1) by (simp add: sim_def e)
  then show ?thesis using e(1) ab'(2) by simp
qed

lemma sim_step:
  assumes s: "sim st ab" and p: "private_step op ab = Some (ab', seen)"
  shows "\<exists>st'. shared_step fill op st = Some (st', seen) \<and> sim st' ab'"
proof (cases op)
  case (Sw_resume c data sp)
  then have c: "c \<notin> set (ab_stack ab)" "length (ab_stack ab) < 128" "ab_fits data sp ab"
    "hand_over (last (ab_stack ab)) (Suspended (drop sp data)) c (ab_stack ab @ [c]) ab = Some (ab', seen)"
    using p by (auto split: if_splits)
  obtain st1 cc where f: "fill_stack data sp st = Some st1" "sim st1 ab" "co_heap st1 (last (ab_stack ab)) = Some cc"
    "stack_buffer (co_mems st1 (stack_mem cc)) = data" "sp \<le> ab_size ab (last (ab_stack ab))"
    using sim_fill [OF s c(3)] by blast
  show ?thesis using sim_resume [OF f(2) c(1,2,4) f(3,5)] f(1,4) Sw_resume by auto
next
  case (Sw_yield data sp)
  then have c: "2 \<le> length (ab_stack ab)" "ab_fits data sp ab"
    and h: "hand_over (last (ab_stack ab)) (Suspended (drop sp data)) (last (butlast (ab_stack ab))) (butlast (ab_stack ab)) ab = Some (ab', seen)"
    using p by (auto split: if_splits)
  obtain st1 cc where f: "fill_stack data sp st = Some st1" "sim st1 ab" "co_heap st1 (last (ab_stack ab)) = Some cc"
    "stack_buffer (co_mems st1 (stack_mem cc)) = data" "sp \<le> ab_size ab (last (ab_stack ab))"
    using sim_fill [OF s c(2)] by blast
  have "left_as (Suspended (drop sp data)) sp cc (co_mems st1)" using f(4) by (simp add: left_as_def)
  then show ?thesis using sim_pop [OF f(2) c(1) f(3,5)] f(1) h Sw_yield by fastforce
next
  case (Sw_finish data sp)
  let ?cu = "last (ab_stack ab)"
  have c: "2 \<le> length (ab_stack ab)" "ab_fits data sp ab"
    and h: "hand_over ?cu Ended (last (butlast (ab_stack ab))) (butlast (ab_stack ab)) ab = Some (ab', seen)"
    using p Sw_finish by (auto split: if_splits)
  obtain st1 cc where f: "fill_stack data sp st = Some st1" "sim st1 ab" "co_heap st1 ?cu = Some cc"
    "stack_buffer (co_mems st1 (stack_mem cc)) = data" "sp \<le> ab_size ab ?cu"
    using sim_fill [OF s c(2)] by blast
  let ?cc = "cc\<lparr>cEnd := True\<rparr>" let ?st = "upd_co ?cu (\<lambda>co. co\<lparr>cEnd := True\<rparr>) st1"
  have ok: "cos_ok ?cu (ab_size ab) (co_heap st1) (co_mems st1) (ab_co ab)" and stk: "stack_ok (ab_stack ab) (ab_co ab)"
    and p1: "pCallStack st1 = ab_stack ab" and fl: "flags_ok (hd (ab_stack ab)) (ab_co ab) (\<lambda>c. map_option flags (co_heap st1 c))"
    using f(2) by (simp_all add: sim_def)
  have "ab_co ab ?cu = Some Running" using stk by (simp add: stack_ok_def)
  then have "co_inv ?cu (ab_size ab) (co_mems st1) ?cu cc Running" by (rule cos_okD [OF ok]) (use f(3) in simp)
  moreover have "\<not> cIsMain cc" using fl f(3) stack_pop(2) [OF stk c(1)] unfolding flags_ok_def by (auto simp: flags_def)
  ultimately have "cStart ?cc" by (simp add: co_inv_def)
  then have la: "left_as Ended sp ?cc (co_mems ?st)" by (simp add: left_as_def)
  have fe: "(\<lambda>c. map_option flags (co_heap ?st c)) = (\<lambda>c. map_option flags (co_heap st1 c))"
    using f(3) by (auto simp: upd_co_def flags_def fun_eq_iff)
  have "sim ?st ab" using f(2) flag_upd_ok [OF ok f(3), of ?cc] fe f(3) unfolding sim_def by (simp add: upd_co_def)
  moreover have "co_heap ?st ?cu = Some ?cc" using f(3) by (simp add: upd_co_def)
  ultimately have "\<exists>st' ob. co_yield_env sp ?st = Some st' \<and> seen = Some (last (butlast (ab_stack ab)), ob) \<and> sim st' ab' \<and>
      see (last (butlast (ab_stack ab))) st' = ob \<and> GetCurrCo st' = Some (last (butlast (ab_stack ab)))"
    using sim_pop [OF _ c(1) _ f(5) la] h by fastforce
  moreover have "GetCurrCo st1 = Some ?cu" using p1 stk by (simp add: GetCurrCo_def stack_ok_def)
  ultimately show ?thesis using f(1) Sw_finish by (auto simp: co_finish_def)
qed (use sim_create [OF s] sim_reset [OF s] sim_free [OF s] p in blast)+

section \<open>Runs\<close>

fun shared_run :: "'b \<Rightarrow> 'b sw_op list \<Rightarrow> 'b coenv \<Rightarrow> 'b seen list option" where
  "shared_run fill [] st = Some []"
| "shared_run fill (op # ops) st = do {
     (st1, s) \<leftarrow> shared_step fill op st;
     ss \<leftarrow> shared_run fill ops st1;
     Some (s # ss)
   }"

fun private_run :: "'b sw_op list \<Rightarrow> 'b privates \<Rightarrow> 'b seen list option" where
  "private_run [] ab = Some []"
| "private_run (op # ops) ab = do {
     (ab1, s) \<leftarrow> private_step op ab;
     ss \<leftarrow> private_run ops ab1;
     Some (s # ss)
   }"

text \<open>A thread starts: its main coroutine and its shared stacks.\<close>

definition co_begin :: "'b \<Rightarrow> nat \<Rightarrow> int \<Rightarrow> int \<Rightarrow> 'b coenv option" where
  "co_begin fill main count bytes = map_option (co_alloc_sharestack fill count bytes) (co_init_curr_thread_env fill main)"

definition private_begin :: "nat \<Rightarrow> int \<Rightarrow> 'b privates" where
  "private_begin main bytes = \<lparr>ab_stack = [main], ab_co = [main \<mapsto> Running], ab_size = (\<lambda>_. 0)(main := 131072), ab_share = nat bytes\<rparr>"

lemma sim_run:
  assumes "sim st ab" "private_run ops ab = Some seen"
  shows "shared_run fill ops st = Some seen"
  using assms
proof (induction ops arbitrary: st ab seen)
  case (Cons op ops)
  obtain ab1 s ss where p: "private_step op ab = Some (ab1, s)" "private_run ops ab1 = Some ss" "seen = s # ss"
    using Cons.prems(2) by (auto split: bind_splits)
  obtain st1 where "shared_step fill op st = Some (st1, s)" "sim st1 ab1" using sim_step [OF Cons.prems(1) p(1)] by blast
  then show ?case using Cons.IH [of st1 ab1 ss] p by simp
qed simp

lemma alloc_stacks_mems:
  "co_mems (alloc_stacks fill n bytes st) m =
     (case m of Shared i \<Rightarrow> if i < n then co_alloc_stackmem fill bytes else co_mems st m | Own c \<Rightarrow> co_mems st m)"
  "co_heap (alloc_stacks fill n bytes st) = co_heap st" "pCallStack (alloc_stacks fill n bytes st) = pCallStack st"
  by (induction n) (auto simp: upd_mem_def less_Suc_eq split: memid.splits)

lemma begin_sim:
  assumes "0 < count" "count < 2 ^ 31"
  shows "\<exists>st. co_begin fill main count bytes = Some st \<and> sim st (private_begin main bytes)"
proof -
  obtain st0 where st0: "co_init_curr_thread_env fill main = Some st0" "pCallStack st0 = [main]"
    "co_heap st0 = [main \<mapsto> (fresh_co (Own main) False)\<lparr>cIsMain := True\<rparr>]"
    "co_mems st0 = (\<lambda>_. co_alloc_stackmem fill 0)(Own main := co_alloc_stackmem fill 131072)"
    by (simp add: co_init_curr_thread_env_def co_create_env_def upd_co_def upd_mem_def round_stack_size_def)
  let ?st = "co_alloc_sharestack fill count bytes st0"
  have m: "sm_occupy_co (co_mems ?st x) = None" for x
    by (auto simp: co_alloc_sharestack_def alloc_stacks_mems st0 co_alloc_stackmem_def split: memid.splits)
  have "length (stack_buffer (co_mems ?st (Own main))) = 131072" "co_heap ?st = co_heap st0" "pCallStack ?st = [main]"
    by (simp_all add: co_alloc_sharestack_def alloc_stacks_mems st0 co_alloc_stackmem_def)
  then have "cos_ok main ((\<lambda>_. 0)(main := 131072)) (co_heap ?st) (co_mems ?st) [main \<mapsto> Running]"
    using m by (auto simp: cos_ok_def occupied_ok_def st0 co_inv_def own_mem_def fresh_co_def)
  moreover have "share_ok (nat bytes) (share_stack ?st) (\<lambda>x. length (stack_buffer (co_mems ?st x)))"
    using assms by (auto simp: share_ok_def co_alloc_sharestack_def alloc_stacks_mems co_alloc_stackmem_def)
  moreover have "flags_ok main [main \<mapsto> Running] (\<lambda>c. map_option flags (co_heap ?st c))"
    using \<open>co_heap ?st = co_heap st0\<close> by (auto simp: flags_ok_def flags_def st0)
  ultimately show ?thesis using st0(1) \<open>pCallStack ?st = [main]\<close>
    by (simp add: co_begin_def sim_def private_begin_def stack_ok_def)
qed

text \<open>
  C3. Shared stacks behave like private ones. For every program - any number of coroutines on any number of
  shared stacks or with stacks of their own, any nesting of resumes, yields, ends, resets and releases that does
  not touch a coroutine that is running or gone, any use of the stacks - a coroutine that gets control finds its
  stack exactly as it left it, although others have used the same memory in between.
\<close>

theorem shared_stacks_refine_private:
  assumes "0 < count" "count < 2 ^ 31" "private_run ops (private_begin main bytes) = Some seen"
  shows "\<exists>st. co_begin fill main count bytes = Some st \<and> shared_run fill ops st = Some seen"
  using begin_sim [OF assms(1,2), of fill main bytes] sim_run [OF _ assms(3), where fill = fill] by blast

theorem shared_stacks_refine_private_witness:
  "\<exists>st. co_begin 0 9 1 4 = Some st \<and>
     shared_run 0 [Sw_create 1 True 0, Sw_create 2 True 0, Sw_resume 1 (replicate 131072 (0::nat)) 131072, Sw_yield [1, 2, 3, 4] 1,
       Sw_resume 2 (replicate 131072 0) 131072, Sw_yield [5, 6, 7, 8] 0, Sw_resume 1 (replicate 131072 0) 131072,
       Sw_finish [5, 2, 3, 4] 1] st =
     Some [None, None, Some (1, None), Some (9, Some []), Some (2, None), Some (9, Some []), Some (1, Some [2, 3, 4]), Some (9, Some [])]"
  by (rule shared_stacks_refine_private) (simp_all add: private_begin_def ab_fits_def hand_over_def)

end
