(* ===== verification/Spec2Isabelle.thy ===== *)
theory Spec2Isabelle
  imports Dispatch Session Coroutines RedisMgr MysqlMgr NodeConn SysConfig CoCond CoSwap
begin

text \<open>
  Verification of \<^verbatim>\<open>co_kimserver\<close>, a network server of one manager and several worker processes in which every
  connection is served by a coroutine. All paths below are relative to \<^verbatim>\<open>src/src/core\<close>.

  \<^bold>\<open>The program.\<close> The manager listens for clients (the gate) and for other nodes; it passes the descriptor of
  an accepted client over a socket pair to a worker, which reads requests from it, decodes them, and hands
  them to the modules that were loaded. Nodes of a cluster find each other through a table of nodes with a
  consistent-hash ring, and their workers talk over connections that are set up by system commands.
  Workers use pools of connections to Redis and MySQL, sessions with timeouts, and timers. Everything
  blocking is a coroutine that yields: libco switches stacks and resumes coroutines from its event loop.

  \<^bold>\<open>How code is modelled.\<close> Definitions are translated operation by operation, in the order of the sources and
  with their names. State is a record passed along; \<^verbatim>\<open>std::unordered_map\<close> is an association list with the
  order of insertion, \<^verbatim>\<open>std::map\<close> a sorted one; objects that are shared or released are addresses in a heap,
  so that a dangling pointer is visible. Machine integers are words, or integers with the wrap-around written
  out. The result \<open>None\<close> stands for what the language does not define (a released object, an index outside an array),
  for an uncaught exception and for the end of the process; errors that the code reports are its error codes.
  What the kernel, the clock, \<^verbatim>\<open>malloc\<close> and third-party libraries answer are arguments of the definitions: lists of
  answers where a function makes several calls. A function that yields in its middle is split there, or the
  answers of the wait are among the arguments. Loops that end are recursive functions with a measure; loops that
  may not end are \<^verbatim>\<open>partial_function (option)\<close>, and theorems about them show that they return. The few functions
  with fuel (the turns of a connection's coroutine in \<open>Dispatch\<close>, the task loops of the pools) take the number of
  turns as an argument, and the theorems hold for every number of turns, or from a stated number on.

  \<^bold>\<open>Shared material.\<close> \<open>Prelude\<close> has the two containers with the locales \<open>finite_map\<close> and \<open>ordered_map\<close>, machine
  integers, and \<open>invariant_system\<close>, the locale for an invariant of a state with operations, which the tables below
  interpret. \<open>Server\<close> has the error codes, the command numbers and the payload records (\<^verbatim>\<open>error.h\<close>, \<^verbatim>\<open>server.h\<close>,
  \<^verbatim>\<open>protocol.h\<close>). \<open>Util\<close> and \<open>Hash\<close> are \<^verbatim>\<open>util/util.cpp\<close> and \<^verbatim>\<open>util/hash.cpp\<close>.

  \<^bold>\<open>Bytes and messages.\<close> \<open>SocketBuffer\<close> (\<^verbatim>\<open>util/socket_buffer.{h,cpp}\<close>) is shown to be a byte queue, for every sequence
  of operations and whatever \<^verbatim>\<open>malloc\<close> and \<^verbatim>\<open>readv\<close> answer. \<open>ProtoWire\<close> is the interface to the generated protobuf
  code: the locale \<open>proto_wire\<close> with the laws used, interpreted on a proto3 wire format. \<open>Codec\<close> (\<^verbatim>\<open>codec/codec.cpp\<close>,
  \<^verbatim>\<open>codec/codec_proto.cpp\<close>, \<^verbatim>\<open>msg.h\<close>): what is encoded is decoded, and the decoder never reads past what arrived; the
  locale \<open>framing\<close> carries the argument that a stream cut anywhere is reassembled, for the codec and, in \<open>Connection\<close>
  (\<^verbatim>\<open>connection.{h,cpp}\<close>), for a connection that reads from a socket.

  \<^bold>\<open>Tables and time.\<close> \<open>Timers\<close> (\<^verbatim>\<open>timers.{h,cpp}\<close>, \<^verbatim>\<open>timer.h\<close>), \<open>Session\<close> (\<^verbatim>\<open>session.{h,cpp}\<close>), \<open>Nodes\<close> (\<^verbatim>\<open>nodes.{h,cpp}\<close>,
  the ring with \<^verbatim>\<open>util/hash.cpp\<close>), \<open>Coroutines\<close> (the pool, \<^verbatim>\<open>coroutines.{h,cpp}\<close>) and \<open>WorkerData\<close> (\<^verbatim>\<open>worker_data_mgr.{h,cpp}\<close>):
  invariants of the tables after any history, what expires when, and which keys move when a node is added or removed.

  \<^bold>\<open>The server.\<close> \<open>Channel\<close> (\<^verbatim>\<open>net/channel.cpp\<close>) passes a descriptor; \<open>Network\<close> (\<^verbatim>\<open>network.cpp\<close>, tables and sending), \<open>SysCmd\<close>
  (\<^verbatim>\<open>sys_cmd.cpp\<close>), \<open>ModuleMgr\<close> (\<^verbatim>\<open>module_mgr.cpp\<close>, \<^verbatim>\<open>module.{h,cpp}\<close>) and \<open>Dispatch\<close> (\<^verbatim>\<open>network.cpp\<close>, accepting and receiving) share one state. The theorems:
  the connection tables agree after any history; a message that is sent arrives in full whenever the socket
  eventually takes bytes; every request that arrives is handed to the module that knows it; an accepted client
  reaches a worker with exactly one open descriptor; idle connections are closed; system commands set up a
  connection between nodes.

  \<^bold>\<open>Pools.\<close> \<open>TaskQueue\<close> is the queue between a user's coroutine and the one that serves it. \<open>RedisMgr\<close>
  (\<^verbatim>\<open>redis/redis_mgr.cpp\<close>), \<open>MysqlMgr\<close> (\<^verbatim>\<open>mysql/mysql_mgr.cpp\<close>, \<^verbatim>\<open>mysql_conn.cpp\<close>, \<^verbatim>\<open>mysql_result.cpp\<close>) and \<open>NodeConn\<close>
  (\<^verbatim>\<open>node_connection.cpp\<close>): every task is queued, served or answered exactly once, and users are resumed with
  their own answer.

  \<^bold>\<open>Configuration.\<close> \<open>Json\<close> and \<open>JsonText\<close> (\<^verbatim>\<open>util/json/cJSON.{h,c}\<close>): printing stays in its buffer, and what is
  printed is parsed back. \<open>JsonObject\<close> and \<open>JsonReads\<close> (\<^verbatim>\<open>util/json/CJsonObject.{hpp,cpp}\<close>): the class with its
  lazily filled tables of children; reads give the values of the document, whatever was read before. \<open>SysConfig\<close>
  (\<^verbatim>\<open>sys_config.{h,cpp}\<close>) implements the look-up that the network theories use.

  \<^bold>\<open>libco\<close> (\<^verbatim>\<open>libco/co_routine.cpp\<close>, \<^verbatim>\<open>co_routine_inner.h\<close>). \<open>Links\<close> has the intrusive lists on a store of pointers, with the
  locale \<open>list_store\<close> for what the rest relies on. \<open>TimeWheel\<close> has the wheel of 60000 slots. \<open>CoLoop\<close> has polls, conditions and
  the turns of the loop; \<open>CoTurns\<close> shows that the wheel and the loop process exactly what a set of deadlines gives,
  so that a sleeping coroutine wakes at the first turn after its time; \<open>CoCond\<close> has the same for condition variables. \<open>CoSwap\<close>
  has the coroutines and the copying of shared stacks, with the theorem that they behave like private stacks.

  \<^bold>\<open>Not modelled.\<close> Processes and signals, the system-call hooks, the HTTP codec and parser, the ZooKeeper client,
  logging, socket options and process titles; tests and scripts.
\<close>

end
